(* ===== verification/TnetPrelude.thy ===== *)
theory TnetPrelude
  imports Main "HOL-Library.Word"
begin

text \<open>
  What the theories of this development share: the names of the machine types of the C and
  C++ sources, character classes, decimal text, and buffers addressed by offset and length.

  A C \<open>char\<close> is a HOL \<open>char\<close> (a byte); its value as an \<open>unsigned char\<close> is \<open>code\<close>.
  Comparisons of the sources with ASCII constants give the same answer on signed and unsigned
  bytes, because no byte from 128 up compares equal to, or lies between, two ASCII constants in
  either reading.
\<close>

unbundle bit_operations_syntax

section \<open>Machine types\<close>

type_synonym byte = "8 word"
type_synonym u16 = "16 word"
type_synonym u32 = "32 word"
type_synonym u64 = "64 word"

abbreviation ULLONG_MAX :: u64 where
  "ULLONG_MAX \<equiv> - 1"

text \<open>The conversion of a number to an \<open>int\<close> of 32 bits.\<close>

definition int32 :: "int \<Rightarrow> int" where
  "int32 i = signed_take_bit 31 i"

lemma int32_id: "- (2 ^ 31) \<le> i \<Longrightarrow> i < 2 ^ 31 \<Longrightarrow> int32 i = i"
  unfolding int32_def by (rule signed_take_bit_int_eq_self) simp_all

lemma int32_nat [simp]: "n < 2 ^ 31 \<Longrightarrow> int32 (int n) = int n"
  by (rule int32_id) simp_all

lemma int32_diff: "m < 2 ^ 31 \<Longrightarrow> n < 2 ^ 31 \<Longrightarrow> int32 (int m - int n) = int m - int n"
  by (rule int32_id) simp_all

section \<open>Characters\<close>

abbreviation code :: "char \<Rightarrow> nat" where
  "code c \<equiv> of_char c"

abbreviation NUL :: char where "NUL \<equiv> CHR 0x00"
abbreviation HT :: char where "HT \<equiv> CHR 0x09"
abbreviation LF :: char where "LF \<equiv> CHR 0x0A"
abbreviation FF :: char where "FF \<equiv> CHR 0x0C"
abbreviation CR :: char where "CR \<equiv> CHR 0x0D"
abbreviation SP :: char where "SP \<equiv> CHR 0x20"
abbreviation DQUOTE :: char where "DQUOTE \<equiv> CHR 0x22"
abbreviation QUOTE :: char where "QUOTE \<equiv> CHR 0x27"

text \<open>Character classes of the C locale; a byte from 128 up is in none of them.\<close>

definition isprint :: "char \<Rightarrow> bool" where
  "isprint c = (32 \<le> code c \<and> code c \<le> 126)"

definition isspace :: "char \<Rightarrow> bool" where
  "isspace c = (9 \<le> code c \<and> code c \<le> 13 \<or> c = SP)"

lemma code_less_256 [simp]: "code c < 256"
  using of_char_mod_256 [of c, where ?'a = nat] by (metis mod_less_divisor zero_less_numeral)

lemma code_inject [simp]: "code c = code d \<longleftrightarrow> c = d"
  by (rule of_char_eq_iff)

section \<open>Decimal text\<close>

text \<open>What \<open>%d\<close> and \<open>%zu\<close> print.\<close>

fun nat_text :: "nat \<Rightarrow> string" where
  "nat_text n = (if n < 10 then [char_of (48 + n)] else nat_text (n div 10) @ [char_of (48 + n mod 10)])"

declare nat_text.simps [simp del]

definition int_text :: "int \<Rightarrow> string" where
  "int_text i = (if i < 0 then CHR ''-'' # nat_text (nat (- i)) else nat_text (nat i))"

section \<open>Buffers\<close>

text \<open>\<open>bytes_at d off len\<close> is the \<open>len\<close> bytes of the buffer \<open>d\<close> from \<open>d + off\<close>.\<close>

definition bytes_at :: "'a list \<Rightarrow> nat \<Rightarrow> nat \<Rightarrow> 'a list" where
  "bytes_at d off len = take len (drop off d)"

lemma bytes_at_0 [simp]: "bytes_at d off 0 = []"
  by (simp add: bytes_at_def)

lemma length_bytes_at [simp]: "length (bytes_at d off len) = min len (length d - off)"
  by (simp add: bytes_at_def)

lemma bytes_at_add: "bytes_at d off (m + n) = bytes_at d off m @ bytes_at d (off + m) n"
  by (simp add: bytes_at_def take_add add.commute)

lemma bytes_at_Suc: "off + n < length d \<Longrightarrow> bytes_at d off (Suc n) = bytes_at d off n @ [d ! (off + n)]"
  by (simp add: bytes_at_def take_Suc_conv_app_nth)

lemma bytes_at_all: "bytes_at d 0 (length d) = d"
  by (simp add: bytes_at_def)

lemma bytes_at_append1: "off + n \<le> length xs \<Longrightarrow> bytes_at (xs @ ys) off n = bytes_at xs off n"
  by (simp add: bytes_at_def)

lemma bytes_at_append2: "bytes_at (xs @ ys) (length xs + off) n = bytes_at ys off n"
  by (simp add: bytes_at_def)

end
