(* ===== verification/HttpTypes.thy ===== *)
theory HttpTypes
  imports TnetPrelude
begin

text \<open>
  The data of \<open>src/src/http/http_parser.c\<close> and \<open>http_parser.h\<close>: the enumerations, the
  character tables and macros, the structure \<open>http_parser\<close>, and the questions the rest of the
  program asks of it (\<open>http_should_keep_alive\<close>, \<open>http_message_needs_eof\<close>,
  \<open>http_parser_pause\<close>, ...). The code is compiled with \<open>HTTP_PARSER_STRICT\<close> set to 1, the
  default of the header, so the strict branches of the conditional macros are the ones modelled.
\<close>

section \<open>Parser states\<close>

text \<open>\<open>enum state\<close>; \<open>state_num\<close> is the value C gives the enumerator.\<close>

datatype pstate =
    s_dead | s_start_req_or_res | s_res_or_resp_H | s_start_res
  | s_res_H | s_res_HT | s_res_HTT | s_res_HTTP
  | s_res_first_http_major | s_res_http_major | s_res_first_http_minor | s_res_http_minor
  | s_res_first_status_code | s_res_status_code | s_res_status | s_res_line_almost_done
  | s_start_req | s_req_method | s_req_spaces_before_url | s_req_schema
  | s_req_schema_slash | s_req_schema_slash_slash | s_req_server_start | s_req_server
  | s_req_server_with_at | s_req_path | s_req_query_string_start | s_req_query_string
  | s_req_fragment_start | s_req_fragment | s_req_http_start | s_req_http_H
  | s_req_http_HT | s_req_http_HTT | s_req_http_HTTP | s_req_first_http_major
  | s_req_http_major | s_req_first_http_minor | s_req_http_minor | s_req_line_almost_done
  | s_header_field_start | s_header_field | s_header_value_start | s_header_value
  | s_header_value_lws | s_header_almost_done | s_chunk_size_start | s_chunk_size
  | s_chunk_parameters | s_chunk_size_almost_done | s_headers_almost_done | s_headers_done
  | s_chunk_data | s_chunk_data_almost_done | s_chunk_data_done | s_body_identity
  | s_body_identity_eof | s_message_done

primrec state_num :: "pstate \<Rightarrow> nat" where
    "state_num s_dead = 1"
  | "state_num s_start_req_or_res = 2"
  | "state_num s_res_or_resp_H = 3"
  | "state_num s_start_res = 4"
  | "state_num s_res_H = 5"
  | "state_num s_res_HT = 6"
  | "state_num s_res_HTT = 7"
  | "state_num s_res_HTTP = 8"
  | "state_num s_res_first_http_major = 9"
  | "state_num s_res_http_major = 10"
  | "state_num s_res_first_http_minor = 11"
  | "state_num s_res_http_minor = 12"
  | "state_num s_res_first_status_code = 13"
  | "state_num s_res_status_code = 14"
  | "state_num s_res_status = 15"
  | "state_num s_res_line_almost_done = 16"
  | "state_num s_start_req = 17"
  | "state_num s_req_method = 18"
  | "state_num s_req_spaces_before_url = 19"
  | "state_num s_req_schema = 20"
  | "state_num s_req_schema_slash = 21"
  | "state_num s_req_schema_slash_slash = 22"
  | "state_num s_req_server_start = 23"
  | "state_num s_req_server = 24"
  | "state_num s_req_server_with_at = 25"
  | "state_num s_req_path = 26"
  | "state_num s_req_query_string_start = 27"
  | "state_num s_req_query_string = 28"
  | "state_num s_req_fragment_start = 29"
  | "state_num s_req_fragment = 30"
  | "state_num s_req_http_start = 31"
  | "state_num s_req_http_H = 32"
  | "state_num s_req_http_HT = 33"
  | "state_num s_req_http_HTT = 34"
  | "state_num s_req_http_HTTP = 35"
  | "state_num s_req_first_http_major = 36"
  | "state_num s_req_http_major = 37"
  | "state_num s_req_first_http_minor = 38"
  | "state_num s_req_http_minor = 39"
  | "state_num s_req_line_almost_done = 40"
  | "state_num s_header_field_start = 41"
  | "state_num s_header_field = 42"
  | "state_num s_header_value_start = 43"
  | "state_num s_header_value = 44"
  | "state_num s_header_value_lws = 45"
  | "state_num s_header_almost_done = 46"
  | "state_num s_chunk_size_start = 47"
  | "state_num s_chunk_size = 48"
  | "state_num s_chunk_parameters = 49"
  | "state_num s_chunk_size_almost_done = 50"
  | "state_num s_headers_almost_done = 51"
  | "state_num s_headers_done = 52"
  | "state_num s_chunk_data = 53"
  | "state_num s_chunk_data_almost_done = 54"
  | "state_num s_chunk_data_done = 55"
  | "state_num s_body_identity = 56"
  | "state_num s_body_identity_eof = 57"
  | "state_num s_message_done = 58"

definition all_states :: "pstate list" where
  "all_states = [s_dead, s_start_req_or_res, s_res_or_resp_H, s_start_res,
     s_res_H, s_res_HT, s_res_HTT, s_res_HTTP,
     s_res_first_http_major, s_res_http_major, s_res_first_http_minor, s_res_http_minor,
     s_res_first_status_code, s_res_status_code, s_res_status, s_res_line_almost_done,
     s_start_req, s_req_method, s_req_spaces_before_url, s_req_schema,
     s_req_schema_slash, s_req_schema_slash_slash, s_req_server_start, s_req_server,
     s_req_server_with_at, s_req_path, s_req_query_string_start, s_req_query_string,
     s_req_fragment_start, s_req_fragment, s_req_http_start, s_req_http_H,
     s_req_http_HT, s_req_http_HTT, s_req_http_HTTP, s_req_first_http_major,
     s_req_http_major, s_req_first_http_minor, s_req_http_minor, s_req_line_almost_done,
     s_header_field_start, s_header_field, s_header_value_start, s_header_value,
     s_header_value_lws, s_header_almost_done, s_chunk_size_start, s_chunk_size,
     s_chunk_parameters, s_chunk_size_almost_done, s_headers_almost_done, s_headers_done,
     s_chunk_data, s_chunk_data_almost_done, s_chunk_data_done, s_body_identity,
     s_body_identity_eof, s_message_done]"

lemma all_states_nth: "all_states ! (state_num s - 1) = s"
  by (cases s) (simp_all add: all_states_def)

lemma state_num_pos: "0 < state_num s"
  by (cases s) simp_all

lemma state_num_inject: "state_num s = state_num t \<longleftrightarrow> s = t"
  by (metis all_states_nth)

instantiation pstate :: linorder
begin

definition less_eq_pstate :: "pstate \<Rightarrow> pstate \<Rightarrow> bool" where
  "less_eq_pstate s t \<longleftrightarrow> state_num s \<le> state_num t"

definition less_pstate :: "pstate \<Rightarrow> pstate \<Rightarrow> bool" where
  "less_pstate s t \<longleftrightarrow> state_num s < state_num t"

instance
  by standard (auto simp: less_eq_pstate_def less_pstate_def state_num_inject)

end

text \<open>The macro \<open>PARSING_HEADER\<close>: the comparison of enumerators it makes.\<close>

definition parsing_header :: "pstate \<Rightarrow> bool" where
  "parsing_header s \<longleftrightarrow> s \<le> s_headers_done"

text \<open>\<open>enum header_states\<close> and \<open>enum http_host_state\<close>.\<close>

datatype hstate =
    h_general | h_C | h_CO
  | h_CON | h_matching_connection | h_matching_proxy_connection
  | h_matching_content_length | h_matching_transfer_encoding | h_matching_upgrade
  | h_connection | h_content_length | h_transfer_encoding
  | h_upgrade | h_matching_transfer_encoding_chunked | h_matching_connection_keep_alive
  | h_matching_connection_close | h_transfer_encoding_chunked | h_connection_keep_alive
  | h_connection_close

datatype http_host_state =
    s_http_host_dead | s_http_userinfo_start | s_http_userinfo
  | s_http_host_start | s_http_host_v6_start | s_http_host
  | s_http_host_v6 | s_http_host_v6_end | s_http_host_port_start
  | s_http_host_port

section \<open>Methods, errors, flags\<close>

datatype http_method =
    HTTP_DELETE | HTTP_GET | HTTP_HEAD | HTTP_POST
  | HTTP_PUT | HTTP_CONNECT | HTTP_OPTIONS | HTTP_TRACE
  | HTTP_COPY | HTTP_LOCK | HTTP_MKCOL | HTTP_MOVE
  | HTTP_PROPFIND | HTTP_PROPPATCH | HTTP_SEARCH | HTTP_UNLOCK
  | HTTP_REPORT | HTTP_MKACTIVITY | HTTP_CHECKOUT | HTTP_MERGE
  | HTTP_MSEARCH | HTTP_NOTIFY | HTTP_SUBSCRIBE | HTTP_UNSUBSCRIBE
  | HTTP_PATCH | HTTP_PURGE

text \<open>\<open>method_strings\<close>, indexed by the method.\<close>

primrec method_string :: "http_method \<Rightarrow> string" where
    "method_string HTTP_DELETE = ''DELETE''"
  | "method_string HTTP_GET = ''GET''"
  | "method_string HTTP_HEAD = ''HEAD''"
  | "method_string HTTP_POST = ''POST''"
  | "method_string HTTP_PUT = ''PUT''"
  | "method_string HTTP_CONNECT = ''CONNECT''"
  | "method_string HTTP_OPTIONS = ''OPTIONS''"
  | "method_string HTTP_TRACE = ''TRACE''"
  | "method_string HTTP_COPY = ''COPY''"
  | "method_string HTTP_LOCK = ''LOCK''"
  | "method_string HTTP_MKCOL = ''MKCOL''"
  | "method_string HTTP_MOVE = ''MOVE''"
  | "method_string HTTP_PROPFIND = ''PROPFIND''"
  | "method_string HTTP_PROPPATCH = ''PROPPATCH''"
  | "method_string HTTP_SEARCH = ''SEARCH''"
  | "method_string HTTP_UNLOCK = ''UNLOCK''"
  | "method_string HTTP_REPORT = ''REPORT''"
  | "method_string HTTP_MKACTIVITY = ''MKACTIVITY''"
  | "method_string HTTP_CHECKOUT = ''CHECKOUT''"
  | "method_string HTTP_MERGE = ''MERGE''"
  | "method_string HTTP_MSEARCH = ''M-SEARCH''"
  | "method_string HTTP_NOTIFY = ''NOTIFY''"
  | "method_string HTTP_SUBSCRIBE = ''SUBSCRIBE''"
  | "method_string HTTP_UNSUBSCRIBE = ''UNSUBSCRIBE''"
  | "method_string HTTP_PATCH = ''PATCH''"
  | "method_string HTTP_PURGE = ''PURGE''"

datatype http_parser_type =
    HTTP_REQUEST | HTTP_RESPONSE | HTTP_BOTH

text \<open>\<open>enum http_errno\<close> and the texts of \<open>http_strerror_tab\<close>.\<close>

datatype http_errno =
    HPE_OK | HPE_CB_message_begin | HPE_CB_status_complete
  | HPE_CB_url | HPE_CB_header_field | HPE_CB_header_value
  | HPE_CB_headers_complete | HPE_CB_body | HPE_CB_message_complete
  | HPE_INVALID_EOF_STATE | HPE_HEADER_OVERFLOW | HPE_CLOSED_CONNECTION
  | HPE_INVALID_VERSION | HPE_INVALID_STATUS | HPE_INVALID_METHOD
  | HPE_INVALID_URL | HPE_INVALID_HOST | HPE_INVALID_PORT
  | HPE_INVALID_PATH | HPE_INVALID_QUERY_STRING | HPE_INVALID_FRAGMENT
  | HPE_LF_EXPECTED | HPE_INVALID_HEADER_TOKEN | HPE_INVALID_CONTENT_LENGTH
  | HPE_INVALID_CHUNK_SIZE | HPE_INVALID_CONSTANT | HPE_INVALID_INTERNAL_STATE
  | HPE_STRICT | HPE_PAUSED | HPE_UNKNOWN

primrec http_errno_name :: "http_errno \<Rightarrow> string" where
    "http_errno_name HPE_OK = ''HPE_OK''"
  | "http_errno_name HPE_CB_message_begin = ''HPE_CB_message_begin''"
  | "http_errno_name HPE_CB_status_complete = ''HPE_CB_status_complete''"
  | "http_errno_name HPE_CB_url = ''HPE_CB_url''"
  | "http_errno_name HPE_CB_header_field = ''HPE_CB_header_field''"
  | "http_errno_name HPE_CB_header_value = ''HPE_CB_header_value''"
  | "http_errno_name HPE_CB_headers_complete = ''HPE_CB_headers_complete''"
  | "http_errno_name HPE_CB_body = ''HPE_CB_body''"
  | "http_errno_name HPE_CB_message_complete = ''HPE_CB_message_complete''"
  | "http_errno_name HPE_INVALID_EOF_STATE = ''HPE_INVALID_EOF_STATE''"
  | "http_errno_name HPE_HEADER_OVERFLOW = ''HPE_HEADER_OVERFLOW''"
  | "http_errno_name HPE_CLOSED_CONNECTION = ''HPE_CLOSED_CONNECTION''"
  | "http_errno_name HPE_INVALID_VERSION = ''HPE_INVALID_VERSION''"
  | "http_errno_name HPE_INVALID_STATUS = ''HPE_INVALID_STATUS''"
  | "http_errno_name HPE_INVALID_METHOD = ''HPE_INVALID_METHOD''"
  | "http_errno_name HPE_INVALID_URL = ''HPE_INVALID_URL''"
  | "http_errno_name HPE_INVALID_HOST = ''HPE_INVALID_HOST''"
  | "http_errno_name HPE_INVALID_PORT = ''HPE_INVALID_PORT''"
  | "http_errno_name HPE_INVALID_PATH = ''HPE_INVALID_PATH''"
  | "http_errno_name HPE_INVALID_QUERY_STRING = ''HPE_INVALID_QUERY_STRING''"
  | "http_errno_name HPE_INVALID_FRAGMENT = ''HPE_INVALID_FRAGMENT''"
  | "http_errno_name HPE_LF_EXPECTED = ''HPE_LF_EXPECTED''"
  | "http_errno_name HPE_INVALID_HEADER_TOKEN = ''HPE_INVALID_HEADER_TOKEN''"
  | "http_errno_name HPE_INVALID_CONTENT_LENGTH = ''HPE_INVALID_CONTENT_LENGTH''"
  | "http_errno_name HPE_INVALID_CHUNK_SIZE = ''HPE_INVALID_CHUNK_SIZE''"
  | "http_errno_name HPE_INVALID_CONSTANT = ''HPE_INVALID_CONSTANT''"
  | "http_errno_name HPE_INVALID_INTERNAL_STATE = ''HPE_INVALID_INTERNAL_STATE''"
  | "http_errno_name HPE_STRICT = ''HPE_STRICT''"
  | "http_errno_name HPE_PAUSED = ''HPE_PAUSED''"
  | "http_errno_name HPE_UNKNOWN = ''HPE_UNKNOWN''"

primrec http_errno_description :: "http_errno \<Rightarrow> string" where
    "http_errno_description HPE_OK = ''success''"
  | "http_errno_description HPE_CB_message_begin = ''the on_message_begin callback failed''"
  | "http_errno_description HPE_CB_status_complete = ''the on_status_complete callback failed''"
  | "http_errno_description HPE_CB_url = ''the on_url callback failed''"
  | "http_errno_description HPE_CB_header_field = ''the on_header_field callback failed''"
  | "http_errno_description HPE_CB_header_value = ''the on_header_value callback failed''"
  | "http_errno_description HPE_CB_headers_complete = ''the on_headers_complete callback failed''"
  | "http_errno_description HPE_CB_body = ''the on_body callback failed''"
  | "http_errno_description HPE_CB_message_complete = ''the on_message_complete callback failed''"
  | "http_errno_description HPE_INVALID_EOF_STATE = ''stream ended at an unexpected time''"
  | "http_errno_description HPE_HEADER_OVERFLOW = ''too many header bytes seen; overflow detected''"
  | "http_errno_description HPE_CLOSED_CONNECTION = ''data received after completed connection: close message''"
  | "http_errno_description HPE_INVALID_VERSION = ''invalid HTTP version''"
  | "http_errno_description HPE_INVALID_STATUS = ''invalid HTTP status code''"
  | "http_errno_description HPE_INVALID_METHOD = ''invalid HTTP method''"
  | "http_errno_description HPE_INVALID_URL = ''invalid URL''"
  | "http_errno_description HPE_INVALID_HOST = ''invalid host''"
  | "http_errno_description HPE_INVALID_PORT = ''invalid port''"
  | "http_errno_description HPE_INVALID_PATH = ''invalid path''"
  | "http_errno_description HPE_INVALID_QUERY_STRING = ''invalid query string''"
  | "http_errno_description HPE_INVALID_FRAGMENT = ''invalid fragment''"
  | "http_errno_description HPE_LF_EXPECTED = ''LF character expected''"
  | "http_errno_description HPE_INVALID_HEADER_TOKEN = ''invalid character in header''"
  | "http_errno_description HPE_INVALID_CONTENT_LENGTH = ''invalid character in content-length header''"
  | "http_errno_description HPE_INVALID_CHUNK_SIZE = ''invalid character in chunk size header''"
  | "http_errno_description HPE_INVALID_CONSTANT = ''invalid constant string''"
  | "http_errno_description HPE_INVALID_INTERNAL_STATE = ''encountered unexpected internal state''"
  | "http_errno_description HPE_STRICT = ''strict mode assertion failed''"
  | "http_errno_description HPE_PAUSED = ''parser is paused''"
  | "http_errno_description HPE_UNKNOWN = ''an unknown error occurred''"

text \<open>\<open>enum flags\<close>, in the six bits of the field \<open>flags\<close>.\<close>

type_synonym flag_word = "6 word"

definition F_CHUNKED :: flag_word where "F_CHUNKED = 1"
definition F_CONNECTION_KEEP_ALIVE :: flag_word where "F_CONNECTION_KEEP_ALIVE = 2"
definition F_CONNECTION_CLOSE :: flag_word where "F_CONNECTION_CLOSE = 4"
definition F_TRAILING :: flag_word where "F_TRAILING = 8"
definition F_UPGRADE :: flag_word where "F_UPGRADE = 16"
definition F_SKIPBODY :: flag_word where "F_SKIPBODY = 32"

lemmas flag_defs = F_CHUNKED_def F_CONNECTION_KEEP_ALIVE_def F_CONNECTION_CLOSE_def
  F_TRAILING_def F_UPGRADE_def F_SKIPBODY_def

section \<open>The parser structure\<close>

text \<open>
  \<open>struct http_parser\<close> with its fields at their widths. \<open>type\<close>, \<open>state\<close>, \<open>header_state\<close>,
  \<open>method\<close> and \<open>http_errno\<close> only ever hold enumerators. The pointer \<open>data\<close> is the user state
  the callbacks receive beside the parser.
\<close>

record http_parser =
  ptype :: http_parser_type
  flags :: flag_word
  state :: pstate
  header_state :: hstate
  pindex :: byte
  nread :: u32
  content_length :: u64
  http_major :: u16
  http_minor :: u16
  status_code :: u16
  pmethod :: http_method
  http_errno :: http_errno
  upgrade :: bool

definition flag_set :: "flag_word \<Rightarrow> http_parser \<Rightarrow> bool" where
  "flag_set f p \<longleftrightarrow> flags p AND f \<noteq> 0"

definition set_flag :: "flag_word \<Rightarrow> http_parser \<Rightarrow> http_parser" where
  "set_flag f p = p\<lparr>flags := flags p OR f\<rparr>"

definition HTTP_MAX_HEADER_SIZE :: u32 where
  "HTTP_MAX_HEADER_SIZE = 80 * 1024"

definition http_parser_init :: "http_parser_type \<Rightarrow> http_parser" where
  "http_parser_init t =
     \<lparr>ptype = t, flags = 0,
      state = (if t = HTTP_REQUEST then s_start_req
               else if t = HTTP_RESPONSE then s_start_res else s_start_req_or_res),
      header_state = h_general, pindex = 0, nread = 0, content_length = 0,
      http_major = 0, http_minor = 0, status_code = 0, pmethod = HTTP_DELETE,
      http_errno = HPE_OK, upgrade = False\<rparr>"

definition http_message_needs_eof :: "http_parser \<Rightarrow> bool" where
  "http_message_needs_eof p =
     (if ptype p = HTTP_REQUEST then False
      else if unat (status_code p) div 100 = 1 \<or> status_code p = 204 \<or> status_code p = 304 \<or>
              flag_set F_SKIPBODY p then False
      else if flag_set F_CHUNKED p \<or> content_length p \<noteq> ULLONG_MAX then False
      else True)"

definition http_should_keep_alive :: "http_parser \<Rightarrow> bool" where
  "http_should_keep_alive p =
     (if 0 < http_major p \<and> 0 < http_minor p
      then (if flag_set F_CONNECTION_CLOSE p then False else \<not> http_message_needs_eof p)
      else (if \<not> flag_set F_CONNECTION_KEEP_ALIVE p then False
            else \<not> http_message_needs_eof p))"

text \<open>The macros \<open>start_state\<close> and (strict) \<open>NEW_MESSAGE\<close>.\<close>

definition start_state :: "http_parser \<Rightarrow> pstate" where
  "start_state p = (if ptype p = HTTP_REQUEST then s_start_req else s_start_res)"

definition NEW_MESSAGE :: "http_parser \<Rightarrow> pstate" where
  "NEW_MESSAGE p = (if http_should_keep_alive p then start_state p else s_dead)"

text \<open>
  \<open>http_parser_pause\<close>: outside the two states it is meant for its assertion fails, which is
  the result \<open>None\<close>.
\<close>

definition http_parser_pause :: "http_parser \<Rightarrow> bool \<Rightarrow> http_parser option" where
  "http_parser_pause p paused =
     (if http_errno p = HPE_OK \<or> http_errno p = HPE_PAUSED
      then Some (p\<lparr>http_errno := (if paused then HPE_PAUSED else HPE_OK)\<rparr>)
      else None)"

definition http_body_is_final :: "http_parser \<Rightarrow> bool" where
  "http_body_is_final p \<longleftrightarrow> state p = s_message_done"

section \<open>Character tables and macros\<close>

text \<open>
  The table \<open>tokens\<close>, 128 entries written out in the source; C fills the rest of the array
  with zeros. Indexing is by the byte as an \<open>unsigned char\<close>.
\<close>

definition tokens :: "char list" where
  "tokens =
     [NUL, NUL, NUL, NUL, NUL, NUL, NUL, NUL] @
     [NUL, NUL, NUL, NUL, NUL, NUL, NUL, NUL] @
     [NUL, NUL, NUL, NUL, NUL, NUL, NUL, NUL] @
     [NUL, NUL, NUL, NUL, NUL, NUL, NUL, NUL] @
     [NUL, CHR ''!'', NUL, CHR ''#'', CHR ''$'', CHR ''%'', CHR ''&'', QUOTE] @
     [NUL, NUL, CHR ''*'', CHR ''+'', NUL, CHR ''-'', CHR ''.'', NUL] @
     ''01234567'' @
     ''89'' @ [NUL, NUL, NUL, NUL, NUL, NUL] @
     NUL # ''abcdefg'' @
     ''hijklmno'' @
     ''pqrstuvw'' @
     ''xyz'' @ [NUL, NUL, NUL] @ ''^_'' @
     CHR 0x60 # ''abcdefg'' @
     ''hijklmno'' @
     ''pqrstuvw'' @
     ''xyz'' @ [NUL, CHR ''|'', NUL, CHR ''~'', NUL] @ replicate 128 NUL"

definition TOKEN :: "char \<Rightarrow> char" where
  "TOKEN c = tokens ! code c"

text \<open>
  The table \<open>unhex\<close>: the source writes 128 of the 256 entries, so the other half is zero
  rather than -1.
\<close>

definition unhex :: "int list" where
  "unhex = replicate 48 (- 1) @ [0, 1, 2, 3, 4, 5, 6, 7, 8, 9] @ replicate 7 (- 1) @
     [10, 11, 12, 13, 14, 15] @ replicate 26 (- 1) @ [10, 11, 12, 13, 14, 15] @
     replicate 25 (- 1) @ replicate 128 0"

definition unhex_val :: "char \<Rightarrow> int" where
  "unhex_val c = unhex ! code c"

text \<open>The bitmap \<open>normal_url_char\<close> (strict mode, so \<open>T(v)\<close> is 0) and \<open>BIT_AT\<close>.\<close>

definition normal_url_char :: "nat list" where
  "normal_url_char =
     [0, 0, 0, 0,
      0 OR 2 OR 4 OR 0 OR 16 OR 32 OR 64 OR 128, 1 OR 2 OR 4 OR 8 OR 16 OR 32 OR 64 OR 128,
      1 OR 2 OR 4 OR 8 OR 16 OR 32 OR 64 OR 128, 1 OR 2 OR 4 OR 8 OR 16 OR 32 OR 64 OR 0,
      1 OR 2 OR 4 OR 8 OR 16 OR 32 OR 64 OR 128, 1 OR 2 OR 4 OR 8 OR 16 OR 32 OR 64 OR 128,
      1 OR 2 OR 4 OR 8 OR 16 OR 32 OR 64 OR 128, 1 OR 2 OR 4 OR 8 OR 16 OR 32 OR 64 OR 128,
      1 OR 2 OR 4 OR 8 OR 16 OR 32 OR 64 OR 128, 1 OR 2 OR 4 OR 8 OR 16 OR 32 OR 64 OR 128,
      1 OR 2 OR 4 OR 8 OR 16 OR 32 OR 64 OR 128, 1 OR 2 OR 4 OR 8 OR 16 OR 32 OR 64 OR 0] @
     replicate 16 0"

definition BIT_AT :: "nat list \<Rightarrow> nat \<Rightarrow> bool" where
  "BIT_AT a i \<longleftrightarrow> (a ! (i div 8)) AND (2 ^ (i mod 8)) \<noteq> 0"

definition LOWER :: "char \<Rightarrow> char" where
  "LOWER c = char_of (code c OR 32 :: nat)"

definition IS_ALPHA :: "char \<Rightarrow> bool" where
  "IS_ALPHA c \<longleftrightarrow> 97 \<le> code (LOWER c) \<and> code (LOWER c) \<le> 122"

definition IS_NUM :: "char \<Rightarrow> bool" where
  "IS_NUM c \<longleftrightarrow> 48 \<le> code c \<and> code c \<le> 57"

definition IS_ALPHANUM :: "char \<Rightarrow> bool" where
  "IS_ALPHANUM c \<longleftrightarrow> IS_ALPHA c \<or> IS_NUM c"

definition IS_HEX :: "char \<Rightarrow> bool" where
  "IS_HEX c \<longleftrightarrow> IS_NUM c \<or> (97 \<le> code (LOWER c) \<and> code (LOWER c) \<le> 102)"

definition IS_MARK :: "char \<Rightarrow> bool" where
  "IS_MARK c \<longleftrightarrow> c \<in> set [CHR ''-'', CHR ''_'', CHR ''.'', CHR ''!'', CHR ''~'', CHR ''*'', QUOTE,
     CHR ''('', CHR '')'']"

definition IS_USERINFO_CHAR :: "char \<Rightarrow> bool" where
  "IS_USERINFO_CHAR c \<longleftrightarrow> IS_ALPHANUM c \<or> IS_MARK c \<or>
     c \<in> set [CHR ''%'', CHR '';'', CHR '':'', CHR ''&'', CHR ''='', CHR ''+'', CHR ''$'', CHR '','']"

definition IS_URL_CHAR :: "char \<Rightarrow> bool" where
  "IS_URL_CHAR c \<longleftrightarrow> BIT_AT normal_url_char (code c)"

definition IS_HOST_CHAR :: "char \<Rightarrow> bool" where
  "IS_HOST_CHAR c \<longleftrightarrow> IS_ALPHANUM c \<or> c = CHR ''.'' \<or> c = CHR ''-''"

text \<open>\<open>ch - '0'\<close>, added into a field of the parser.\<close>

definition digit :: "char \<Rightarrow> 'a::len word" where
  "digit c = of_nat (code c) - 48"

text \<open>
  The byte of a C string literal at an index: the terminating NUL at its length, and \<open>None\<close>
  for a read past it.
\<close>

definition cstr_at :: "string \<Rightarrow> nat \<Rightarrow> char option" where
  "cstr_at s i = (if i < length s then Some (s ! i) else if i = length s then Some NUL else None)"

lemma cstr_at_Some_iff: "(\<exists>c. cstr_at s i = Some c) \<longleftrightarrow> i \<le> length s"
  by (auto simp: cstr_at_def)

lemma IS_NUM_code: "IS_NUM c \<Longrightarrow> unat (digit c :: 'a::len word) = code c - 48" if "8 \<le> LENGTH('a)"
proof -
  assume n: "IS_NUM c"
  then have le: "48 \<le> code c" and lt: "code c - 48 < 10"
    by (auto simp: IS_NUM_def)
  have "(2::nat) ^ 8 \<le> 2 ^ LENGTH('a)"
    using that by (rule power_increasing) simp
  then have big: "code c - 48 < 2 ^ LENGTH('a)"
    using lt by simp
  have "(digit c :: 'a word) = of_nat (code c - 48)"
    using le by (simp add: digit_def of_nat_diff)
  then show ?thesis
    using big by (simp add: unat_of_nat take_bit_nat_eq_self)
qed

end
