(* ===== verification/HttpUrl.thy ===== *)
theory HttpUrl
  imports HttpTypes
begin

text \<open>
  The URL parser of \<open>src/src/http/http_parser.c\<close>: the state machine \<open>parse_url_char\<close>, which
  \<open>http_parser_execute\<close> runs byte by byte over the request target, and
  \<open>http_parser_parse_url\<close>, which cuts a URL into its fields. A buffer is the list of its
  bytes, followed in memory by a NUL (the only caller passes \<open>std::string::c_str\<close>); a read
  past that NUL makes the whole call \<open>None\<close>.
\<close>

section \<open>One byte of a URL\<close>

definition parse_url_char :: "pstate \<Rightarrow> char \<Rightarrow> pstate" where
  "parse_url_char s ch =
     (if ch = SP \<or> ch = CR \<or> ch = LF then s_dead
      else if ch = HT \<or> ch = FF then s_dead
      else (let server =
                  (if ch = CHR ''/'' then s_req_path
                   else if ch = CHR ''?'' then s_req_query_string_start
                   else if ch = CHR ''@'' then s_req_server_with_at
                   else if IS_USERINFO_CHAR ch \<or> ch = CHR ''['' \<or> ch = CHR '']'' then s_req_server
                   else s_dead);
                query =
                  (if IS_URL_CHAR ch then s_req_query_string
                   else if ch = CHR ''?'' then s_req_query_string
                   else if ch = CHR ''#'' then s_req_fragment_start
                   else s_dead)
            in case s of
              s_req_spaces_before_url \<Rightarrow>
                (if ch = CHR ''/'' \<or> ch = CHR ''*'' then s_req_path
                 else if IS_ALPHA ch then s_req_schema else s_dead)
            | s_req_schema \<Rightarrow>
                (if IS_ALPHA ch then s else if ch = CHR '':'' then s_req_schema_slash else s_dead)
            | s_req_schema_slash \<Rightarrow> (if ch = CHR ''/'' then s_req_schema_slash_slash else s_dead)
            | s_req_schema_slash_slash \<Rightarrow> (if ch = CHR ''/'' then s_req_server_start else s_dead)
            | s_req_server_with_at \<Rightarrow> (if ch = CHR ''@'' then s_dead else server)
            | s_req_server_start \<Rightarrow> server
            | s_req_server \<Rightarrow> server
            | s_req_path \<Rightarrow>
                (if IS_URL_CHAR ch then s
                 else if ch = CHR ''?'' then s_req_query_string_start
                 else if ch = CHR ''#'' then s_req_fragment_start else s_dead)
            | s_req_query_string_start \<Rightarrow> query
            | s_req_query_string \<Rightarrow> query
            | s_req_fragment_start \<Rightarrow>
                (if IS_URL_CHAR ch then s_req_fragment
                 else if ch = CHR ''?'' then s_req_fragment
                 else if ch = CHR ''#'' then s else s_dead)
            | s_req_fragment \<Rightarrow>
                (if IS_URL_CHAR ch then s
                 else if ch = CHR ''?'' \<or> ch = CHR ''#'' then s else s_dead)
            | _ \<Rightarrow> s_dead))"

section \<open>The host part\<close>

definition http_parse_host_char :: "http_host_state \<Rightarrow> char \<Rightarrow> http_host_state" where
  "http_parse_host_char s ch =
     (let v6_end = (if ch = CHR '':'' then s_http_host_port_start else s_http_host_dead);
          v6_start = (if IS_HEX ch \<or> ch = CHR '':'' \<or> ch = CHR ''.'' then s_http_host_v6
                      else s_http_host_dead);
          userinfo = (if ch = CHR ''@'' then s_http_host_start
                      else if IS_USERINFO_CHAR ch then s_http_userinfo else s_http_host_dead);
          port = (if IS_NUM ch then s_http_host_port else s_http_host_dead)
      in case s of
           s_http_userinfo \<Rightarrow> userinfo
         | s_http_userinfo_start \<Rightarrow> userinfo
         | s_http_host_start \<Rightarrow>
             (if ch = CHR ''['' then s_http_host_v6_start
              else if IS_HOST_CHAR ch then s_http_host else s_http_host_dead)
         | s_http_host \<Rightarrow> (if IS_HOST_CHAR ch then s_http_host else v6_end)
         | s_http_host_v6_end \<Rightarrow> v6_end
         | s_http_host_v6 \<Rightarrow> (if ch = CHR '']'' then s_http_host_v6_end else v6_start)
         | s_http_host_v6_start \<Rightarrow> v6_start
         | s_http_host_port \<Rightarrow> port
         | s_http_host_port_start \<Rightarrow> port
         | s_http_host_dead \<Rightarrow> s_http_host_dead)"

text \<open>\<open>enum http_parser_url_fields\<close> and \<open>struct http_parser_url\<close>.\<close>

datatype url_field = UF_SCHEMA | UF_HOST | UF_PORT | UF_PATH | UF_QUERY | UF_FRAGMENT
  | UF_USERINFO | UF_MAX

primrec uf_num :: "url_field \<Rightarrow> nat" where
    "uf_num UF_SCHEMA = 0"
  | "uf_num UF_HOST = 1"
  | "uf_num UF_PORT = 2"
  | "uf_num UF_PATH = 3"
  | "uf_num UF_QUERY = 4"
  | "uf_num UF_FRAGMENT = 5"
  | "uf_num UF_USERINFO = 6"
  | "uf_num UF_MAX = 7"

definition uf_bit :: "url_field \<Rightarrow> u16" where
  "uf_bit f = push_bit (uf_num f) 1"

record http_parser_url =
  field_set :: u16
  port :: u16
  field_off :: "url_field \<Rightarrow> u16"
  field_len :: "url_field \<Rightarrow> u16"

definition has_field :: "http_parser_url \<Rightarrow> url_field \<Rightarrow> bool" where
  "has_field u f \<longleftrightarrow> field_set u AND uf_bit f \<noteq> 0"

text \<open>
  The three assignments both loops make. Offsets and lengths are 16 bits wide: the conversion
  \<open>(uint16_t)(p - buf)\<close> and the increment wrap.
\<close>

definition start_field :: "url_field \<Rightarrow> nat \<Rightarrow> http_parser_url \<Rightarrow> http_parser_url" where
  "start_field f p u = u\<lparr>field_off := (field_off u)(f := of_nat p)\<rparr>"

definition set_len :: "url_field \<Rightarrow> u16 \<Rightarrow> http_parser_url \<Rightarrow> http_parser_url" where
  "set_len f n u = u\<lparr>field_len := (field_len u)(f := n)\<rparr>"

definition inc_len :: "url_field \<Rightarrow> http_parser_url \<Rightarrow> http_parser_url" where
  "inc_len f u = u\<lparr>field_len := (field_len u)(f := field_len u f + 1)\<rparr>"

definition mark_field :: "url_field \<Rightarrow> http_parser_url \<Rightarrow> http_parser_url" where
  "mark_field f u = u\<lparr>field_set := field_set u OR uf_bit f\<rparr>"

text \<open>The body of the loop of \<open>http_parse_host\<close>, once the new state is known to be alive.\<close>

definition host_field_step ::
    "nat \<Rightarrow> http_host_state \<Rightarrow> http_host_state \<Rightarrow> http_parser_url \<Rightarrow> http_parser_url" where
  "host_field_step p s new_s u =
     (case new_s of
        s_http_host \<Rightarrow>
          inc_len UF_HOST (if s \<noteq> s_http_host then start_field UF_HOST p u else u)
      | s_http_host_v6 \<Rightarrow>
          inc_len UF_HOST (if s \<noteq> s_http_host_v6 then start_field UF_HOST p u else u)
      | s_http_host_port \<Rightarrow>
          inc_len UF_PORT (if s \<noteq> s_http_host_port
            then mark_field UF_PORT (set_len UF_PORT 0 (start_field UF_PORT p u)) else u)
      | s_http_userinfo \<Rightarrow>
          inc_len UF_USERINFO (if s \<noteq> s_http_userinfo
            then mark_field UF_USERINFO (set_len UF_USERINFO 0 (start_field UF_USERINFO p u)) else u)
      | _ \<Rightarrow> u)"

text \<open>
  The loop from byte \<open>p\<close> with \<open>n\<close> bytes to go: the final state and the fields, state
  \<open>s_http_host_dead\<close> for the early \<open>return 1\<close>.
\<close>

fun http_parse_host_loop ::
    "string \<Rightarrow> nat \<Rightarrow> nat \<Rightarrow> http_host_state \<Rightarrow> http_parser_url \<Rightarrow>
     (http_host_state \<times> http_parser_url) option" where
  "http_parse_host_loop buf p 0 s u = Some (s, u)"
| "http_parse_host_loop buf p (Suc n) s u =
     (case cstr_at buf p of
        None \<Rightarrow> None
      | Some ch \<Rightarrow>
          (let new_s = http_parse_host_char s ch
           in if new_s = s_http_host_dead then Some (s_http_host_dead, u)
              else http_parse_host_loop buf (Suc p) n new_s (host_field_step p s new_s u)))"

definition host_end_ok :: "http_host_state \<Rightarrow> bool" where
  "host_end_ok s \<longleftrightarrow> s \<notin> set [s_http_host_start, s_http_host_v6_start, s_http_host_v6,
     s_http_host_port_start, s_http_userinfo, s_http_userinfo_start]"

definition http_parse_host ::
    "string \<Rightarrow> http_parser_url \<Rightarrow> bool \<Rightarrow> (nat \<times> http_parser_url) option" where
  "http_parse_host buf u found_at =
     (case http_parse_host_loop buf (unat (field_off u UF_HOST)) (unat (field_len u UF_HOST))
             (if found_at then s_http_userinfo_start else s_http_host_start)
             (set_len UF_HOST 0 u) of
        None \<Rightarrow> None
      | Some (s, u') \<Rightarrow>
          Some (if s = s_http_host_dead then 1 else if host_end_ok s then 0 else 1, u'))"

section \<open>The whole URL\<close>

text \<open>
  The field a state of the machine belongs to. The states the loop skips over map to
  \<open>UF_MAX\<close>.
\<close>

definition url_state_field :: "pstate \<Rightarrow> url_field option" where
  "url_state_field s =
     (case s of
        s_req_schema_slash \<Rightarrow> Some UF_MAX
      | s_req_schema_slash_slash \<Rightarrow> Some UF_MAX
      | s_req_server_start \<Rightarrow> Some UF_MAX
      | s_req_query_string_start \<Rightarrow> Some UF_MAX
      | s_req_fragment_start \<Rightarrow> Some UF_MAX
      | s_req_schema \<Rightarrow> Some UF_SCHEMA
      | s_req_server_with_at \<Rightarrow> Some UF_HOST
      | s_req_server \<Rightarrow> Some UF_HOST
      | s_req_path \<Rightarrow> Some UF_PATH
      | s_req_query_string \<Rightarrow> Some UF_QUERY
      | s_req_fragment \<Rightarrow> Some UF_FRAGMENT
      | _ \<Rightarrow> None)"

text \<open>
  The loop of \<open>http_parser_parse_url\<close> over the bytes from offset \<open>p\<close> on, with its variables
  \<open>s\<close>, \<open>old_uf\<close>, \<open>found_at\<close> and \<open>u\<close>; \<open>Inl\<close> is the early \<open>return 1\<close>.
\<close>

fun parse_url_loop ::
    "nat \<Rightarrow> string \<Rightarrow> pstate \<Rightarrow> url_field \<Rightarrow> bool \<Rightarrow> http_parser_url \<Rightarrow>
     http_parser_url + bool \<times> http_parser_url" where
  "parse_url_loop p [] s old_uf found_at u = Inr (found_at, u)"
| "parse_url_loop p (ch # rest) s old_uf found_at u =
     (let s' = parse_url_char s ch;
          found_at' = (found_at \<or> s' = s_req_server_with_at)
      in case url_state_field s' of
           None \<Rightarrow> Inl u
         | Some uf \<Rightarrow>
             if uf = UF_MAX then parse_url_loop (Suc p) rest s' old_uf found_at' u
             else if uf = old_uf
             then parse_url_loop (Suc p) rest s' old_uf found_at' (inc_len uf u)
             else parse_url_loop (Suc p) rest s' uf found_at'
                    (mark_field uf (set_len uf 1 (start_field uf p u))))"

text \<open>
  \<open>strtoul\<close> in base 10 on a NUL-terminated string: white space, a sign, digits, clamped to
  \<open>ULONG_MAX\<close>.
\<close>

fun digits_value :: "nat \<Rightarrow> string \<Rightarrow> nat" where
  "digits_value v [] = v"
| "digits_value v (c # cs) = (if IS_NUM c then digits_value (v * 10 + (code c - 48)) cs else v)"

definition is_space :: "char \<Rightarrow> bool" where
  "is_space c \<longleftrightarrow> c = SP \<or> (9 \<le> code c \<and> code c \<le> 13)"

definition strtoul :: "string \<Rightarrow> u64" where
  "strtoul str =
     (let t = dropWhile is_space str;
          neg = (t \<noteq> [] \<and> hd t = CHR ''-'');
          ds = (if t \<noteq> [] \<and> (hd t = CHR ''-'' \<or> hd t = CHR ''+'') then tl t else t);
          v = digits_value 0 ds
      in if v \<ge> 2 ^ 64 then ULLONG_MAX else if neg then - of_nat v else of_nat v)"

definition http_parser_parse_url ::
    "string \<Rightarrow> bool \<Rightarrow> http_parser_url \<Rightarrow> (nat \<times> http_parser_url) option" where
  "http_parser_parse_url buf is_connect u0 =
     (case parse_url_loop 0 buf (if is_connect then s_req_server_start else s_req_spaces_before_url)
             UF_MAX False (u0\<lparr>port := 0, field_set := 0\<rparr>) of
        Inl u \<Rightarrow> Some (1, u)
      | Inr (found_at, u) \<Rightarrow>
          (case (if field_set u AND (uf_bit UF_SCHEMA OR uf_bit UF_HOST) \<noteq> 0
                 then http_parse_host buf u found_at else Some (0, u)) of
             None \<Rightarrow> None
           | Some (r, u1) \<Rightarrow>
               if r \<noteq> 0 then Some (1, u1)
               else if is_connect \<and> field_set u1 \<noteq> (uf_bit UF_HOST OR uf_bit UF_PORT)
               then Some (1, u1)
               else if has_field u1 UF_PORT
               then (if unat (field_off u1 UF_PORT) > length buf then None
                     else (let v = strtoul (drop (unat (field_off u1 UF_PORT)) buf)
                           in if v > 0xffff then Some (1, u1)
                              else Some (0, u1\<lparr>port := ucast v\<rparr>)))
               else Some (0, u1)))"

end
