(* ===== verification/HttpHandlers.thy ===== *)
theory HttpHandlers
  imports HttpUrl
begin

text \<open>
  The \<open>switch\<close> of \<open>http_parser_execute\<close>, one definition per group of case labels. A handler
  takes the parser and the current byte and gives the updated parser and what the case does
  next: the callback macros it runs, in order, and how it leaves the switch. The macros
  themselves, which need the buffer and the callbacks, are interpreted in \<open>HttpExec\<close>. In every
  case of the source all assignments to the parser precede the first callback, so a callback
  sees exactly the parser the handler returns. The three cases that move \<open>p\<close> themselves
  (\<open>s_body_identity\<close>, \<open>s_body_identity_eof\<close>, \<open>s_chunk_data\<close>) are in \<open>HttpExec\<close> too.
\<close>

section \<open>What a case does after its assignments\<close>

datatype dkind = D_header_field | D_header_value | D_url | D_body

datatype nkind = N_message_begin | N_status_complete | N_message_complete

datatype action =
    A_break                            \<comment> \<open>\<open>break\<close>: on to the next byte\<close>
  | A_error http_errno                 \<comment> \<open>\<open>SET_ERRNO(e); goto error\<close>\<close>
  | A_reexecute                        \<comment> \<open>\<open>goto reexecute_byte\<close>\<close>
  | A_mark dkind action                \<comment> \<open>\<open>MARK\<close>\<close>
  | A_data dkind action                \<comment> \<open>\<open>CALLBACK_DATA\<close>\<close>
  | A_data_noadvance dkind action      \<comment> \<open>\<open>CALLBACK_DATA_NOADVANCE\<close>\<close>
  | A_notify nkind action              \<comment> \<open>\<open>CALLBACK_NOTIFY\<close>\<close>
  | A_headers_complete                 \<comment> \<open>the call of \<open>on_headers_complete\<close>, then reexecute\<close>
  | A_return_advance                   \<comment> \<open>\<open>return (p - data) + 1\<close>\<close>
  | A_abort                            \<comment> \<open>a failed \<open>assert\<close>, or a read past a string literal\<close>

type_synonym handler = "http_parser \<Rightarrow> char \<Rightarrow> http_parser \<times> action"

text \<open>\<open>STRICT_CHECK(cond)\<close> followed by the rest of the case.\<close>

definition strict_check :: "bool \<Rightarrow> http_parser \<Rightarrow> http_parser \<times> action \<Rightarrow> http_parser \<times> action" where
  "strict_check bad p k = (if bad then (p, A_error HPE_STRICT) else k)"

section \<open>Start of a message, the status line\<close>

definition on_dead :: handler where
  "on_dead p ch =
     (if ch = CR \<or> ch = LF then (p, A_break) else (p, A_error HPE_CLOSED_CONNECTION))"

definition on_start_req_or_res :: handler where
  "on_start_req_or_res p ch =
     (if ch = CR \<or> ch = LF then (p, A_break)
      else (let p = p\<lparr>flags := 0, content_length := ULLONG_MAX\<rparr>
            in if ch = CHR ''H''
               then (p\<lparr>state := s_res_or_resp_H\<rparr>, A_notify N_message_begin A_break)
               else (p\<lparr>ptype := HTTP_REQUEST, state := s_start_req\<rparr>, A_reexecute)))"

definition on_res_or_resp_H :: handler where
  "on_res_or_resp_H p ch =
     (if ch = CHR ''T'' then (p\<lparr>ptype := HTTP_RESPONSE, state := s_res_HT\<rparr>, A_break)
      else if ch \<noteq> CHR ''E'' then (p, A_error HPE_INVALID_CONSTANT)
      else (p\<lparr>ptype := HTTP_REQUEST, pmethod := HTTP_HEAD, pindex := 2, state := s_req_method\<rparr>,
            A_break))"

definition on_start_res :: handler where
  "on_start_res p ch =
     (let p = p\<lparr>flags := 0, content_length := ULLONG_MAX\<rparr>
      in if ch = CHR ''H'' then (p\<lparr>state := s_res_H\<rparr>, A_notify N_message_begin A_break)
         else if ch = CR \<or> ch = LF then (p, A_notify N_message_begin A_break)
         else (p, A_error HPE_INVALID_CONSTANT))"

text \<open>The cases that expect one letter of \<open>HTTP/\<close> and go on.\<close>

definition on_letter :: "char \<Rightarrow> pstate \<Rightarrow> handler" where
  "on_letter c next_state p ch = strict_check (ch \<noteq> c) p (p\<lparr>state := next_state\<rparr>, A_break)"

definition on_res_first_http_major :: handler where
  "on_res_first_http_major p ch =
     (if code ch < 48 \<or> 57 < code ch then (p, A_error HPE_INVALID_VERSION)
      else (p\<lparr>http_major := digit ch, state := s_res_http_major\<rparr>, A_break))"

text \<open>Major version digits: shared text of the request and response cases.\<close>

definition on_http_major :: "pstate \<Rightarrow> handler" where
  "on_http_major minor_state p ch =
     (if ch = CHR ''.'' then (p\<lparr>state := minor_state\<rparr>, A_break)
      else if \<not> IS_NUM ch then (p, A_error HPE_INVALID_VERSION)
      else (let p = p\<lparr>http_major := http_major p * 10 + digit ch\<rparr>
            in if http_major p > 999 then (p, A_error HPE_INVALID_VERSION) else (p, A_break)))"

definition on_first_http_minor :: "pstate \<Rightarrow> handler" where
  "on_first_http_minor minor_state p ch =
     (if \<not> IS_NUM ch then (p, A_error HPE_INVALID_VERSION)
      else (p\<lparr>http_minor := digit ch, state := minor_state\<rparr>, A_break))"

definition http_minor_digit :: handler where
  "http_minor_digit p ch =
     (if \<not> IS_NUM ch then (p, A_error HPE_INVALID_VERSION)
      else (let p = p\<lparr>http_minor := http_minor p * 10 + digit ch\<rparr>
            in if http_minor p > 999 then (p, A_error HPE_INVALID_VERSION) else (p, A_break)))"

definition on_res_http_minor :: handler where
  "on_res_http_minor p ch =
     (if ch = SP then (p\<lparr>state := s_res_first_status_code\<rparr>, A_break)
      else http_minor_digit p ch)"

definition on_res_first_status_code :: handler where
  "on_res_first_status_code p ch =
     (if \<not> IS_NUM ch
      then (if ch = SP then (p, A_break) else (p, A_error HPE_INVALID_STATUS))
      else (p\<lparr>status_code := digit ch, state := s_res_status_code\<rparr>, A_break))"

definition on_res_status_code :: handler where
  "on_res_status_code p ch =
     (if \<not> IS_NUM ch
      then (if ch = SP then (p\<lparr>state := s_res_status\<rparr>, A_break)
            else if ch = CR then (p\<lparr>state := s_res_line_almost_done\<rparr>, A_break)
            else if ch = LF then (p\<lparr>state := s_header_field_start\<rparr>, A_break)
            else (p, A_error HPE_INVALID_STATUS))
      else (let p = p\<lparr>status_code := status_code p * 10 + digit ch\<rparr>
            in if status_code p > 999 then (p, A_error HPE_INVALID_STATUS) else (p, A_break)))"

definition on_res_status :: handler where
  "on_res_status p ch =
     (if ch = CR then (p\<lparr>state := s_res_line_almost_done\<rparr>, A_break)
      else if ch = LF then (p\<lparr>state := s_header_field_start\<rparr>, A_break)
      else (p, A_break))"

definition on_res_line_almost_done :: handler where
  "on_res_line_almost_done p ch =
     strict_check (ch \<noteq> LF) p
       (p\<lparr>state := s_header_field_start\<rparr>, A_notify N_status_complete A_break)"

section \<open>The request line\<close>

definition first_method :: "char \<Rightarrow> http_method option" where
  "first_method ch =
     (if ch = CHR ''C'' then Some HTTP_CONNECT
      else if ch = CHR ''D'' then Some HTTP_DELETE
      else if ch = CHR ''G'' then Some HTTP_GET
      else if ch = CHR ''H'' then Some HTTP_HEAD
      else if ch = CHR ''L'' then Some HTTP_LOCK
      else if ch = CHR ''M'' then Some HTTP_MKCOL
      else if ch = CHR ''N'' then Some HTTP_NOTIFY
      else if ch = CHR ''O'' then Some HTTP_OPTIONS
      else if ch = CHR ''P'' then Some HTTP_POST
      else if ch = CHR ''R'' then Some HTTP_REPORT
      else if ch = CHR ''S'' then Some HTTP_SUBSCRIBE
      else if ch = CHR ''T'' then Some HTTP_TRACE
      else if ch = CHR ''U'' then Some HTTP_UNLOCK
      else None)"

definition on_start_req :: handler where
  "on_start_req p ch =
     (if ch = CR \<or> ch = LF then (p, A_break)
      else (let p = p\<lparr>flags := 0, content_length := ULLONG_MAX\<rparr>
            in if \<not> IS_ALPHA ch then (p, A_error HPE_INVALID_METHOD)
               else (let p = p\<lparr>pmethod := HTTP_DELETE, pindex := 1\<rparr>
                     in case first_method ch of
                          None \<Rightarrow> (p, A_error HPE_INVALID_METHOD)
                        | Some m \<Rightarrow> (p\<lparr>pmethod := m, state := s_req_method\<rparr>,
                                     A_notify N_message_begin A_break))))"

text \<open>
  The method a mismatch with the current candidate switches to: the chain of \<open>else if\<close> of the
  case \<open>s_req_method\<close> from \<open>HTTP_CONNECT\<close> on.
\<close>

definition switch_method :: "http_method \<Rightarrow> nat \<Rightarrow> char \<Rightarrow> http_method option" where
  "switch_method m i ch =
     (if m = HTTP_CONNECT then
        (if i = 1 \<and> ch = CHR ''H'' then Some HTTP_CHECKOUT
         else if i = 2 \<and> ch = CHR ''P'' then Some HTTP_COPY
         else None)
      else if m = HTTP_MKCOL then
        (if i = 1 \<and> ch = CHR ''O'' then Some HTTP_MOVE
         else if i = 1 \<and> ch = CHR ''E'' then Some HTTP_MERGE
         else if i = 1 \<and> ch = CHR ''-'' then Some HTTP_MSEARCH
         else if i = 2 \<and> ch = CHR ''A'' then Some HTTP_MKACTIVITY
         else None)
      else if m = HTTP_SUBSCRIBE then
        (if i = 1 \<and> ch = CHR ''E'' then Some HTTP_SEARCH else None)
      else if i = 1 \<and> m = HTTP_POST then
        (if ch = CHR ''R'' then Some HTTP_PROPFIND
         else if ch = CHR ''U'' then Some HTTP_PUT
         else if ch = CHR ''A'' then Some HTTP_PATCH
         else None)
      else if i = 2 then
        (if m = HTTP_PUT then (if ch = CHR ''R'' then Some HTTP_PURGE else None)
         else if m = HTTP_UNLOCK then (if ch = CHR ''S'' then Some HTTP_UNSUBSCRIBE else None)
         else None)
      else if i = 4 \<and> m = HTTP_PROPFIND \<and> ch = CHR ''P'' then Some HTTP_PROPPATCH
      else None)"

definition on_req_method :: handler where
  "on_req_method p ch =
     (if ch = NUL then (p, A_error HPE_INVALID_METHOD)
      else (case cstr_at (method_string (pmethod p)) (unat (pindex p)) of
              None \<Rightarrow> (p, A_abort)
            | Some mc \<Rightarrow>
                if ch = SP \<and> mc = NUL
                then (p\<lparr>state := s_req_spaces_before_url, pindex := pindex p + 1\<rparr>, A_break)
                else if ch = mc then (p\<lparr>pindex := pindex p + 1\<rparr>, A_break)
                else (case switch_method (pmethod p) (unat (pindex p)) ch of
                        None \<Rightarrow> (p, A_error HPE_INVALID_METHOD)
                      | Some m \<Rightarrow> (p\<lparr>pmethod := m, pindex := pindex p + 1\<rparr>, A_break))))"

text \<open>The call of \<open>parse_url_char\<close> that four cases share.\<close>

definition url_step :: handler where
  "url_step p ch =
     (let p = p\<lparr>state := parse_url_char (state p) ch\<rparr>
      in if state p = s_dead then (p, A_error HPE_INVALID_URL) else (p, A_break))"

definition on_req_spaces_before_url :: handler where
  "on_req_spaces_before_url p ch =
     (if ch = SP then (p, A_break)
      else (let p = (if pmethod p = HTTP_CONNECT then p\<lparr>state := s_req_server_start\<rparr> else p)
            in case url_step p ch of (p', a) \<Rightarrow> (p', A_mark D_url a)))"

definition on_req_schema :: handler where
  "on_req_schema p ch =
     (if ch = SP \<or> ch = CR \<or> ch = LF then (p, A_error HPE_INVALID_URL) else url_step p ch)"

definition on_req_url :: handler where
  "on_req_url p ch =
     (if ch = SP then (p\<lparr>state := s_req_http_start\<rparr>, A_data D_url A_break)
      else if ch = CR \<or> ch = LF then
        (p\<lparr>http_major := 0, http_minor := 9,
           state := (if ch = CR then s_req_line_almost_done else s_header_field_start)\<rparr>,
         A_data D_url A_break)
      else url_step p ch)"

definition on_req_http_start :: handler where
  "on_req_http_start p ch =
     (if ch = CHR ''H'' then (p\<lparr>state := s_req_http_H\<rparr>, A_break)
      else if ch = SP then (p, A_break)
      else (p, A_error HPE_INVALID_CONSTANT))"

definition on_req_first_http_major :: handler where
  "on_req_first_http_major p ch =
     (if code ch < 49 \<or> 57 < code ch then (p, A_error HPE_INVALID_VERSION)
      else (p\<lparr>http_major := digit ch, state := s_req_http_major\<rparr>, A_break))"

definition on_req_http_minor :: handler where
  "on_req_http_minor p ch =
     (if ch = CR then (p\<lparr>state := s_req_line_almost_done\<rparr>, A_break)
      else if ch = LF then (p\<lparr>state := s_header_field_start\<rparr>, A_break)
      else http_minor_digit p ch)"

definition on_req_line_almost_done :: handler where
  "on_req_line_almost_done p ch =
     (if ch \<noteq> LF then (p, A_error HPE_LF_EXPECTED)
      else (p\<lparr>state := s_header_field_start\<rparr>, A_break))"

section \<open>Headers\<close>

definition on_header_field_start :: handler where
  "on_header_field_start p ch =
     (if ch = CR then (p\<lparr>state := s_headers_almost_done\<rparr>, A_break)
      else if ch = LF then (p\<lparr>state := s_headers_almost_done\<rparr>, A_reexecute)
      else (let c = TOKEN ch
            in if c = NUL then (p, A_error HPE_INVALID_HEADER_TOKEN)
               else (p\<lparr>pindex := 0, state := s_header_field,
                       header_state :=
                         (if c = CHR ''c'' then h_C
                          else if c = CHR ''p'' then h_matching_proxy_connection
                          else if c = CHR ''t'' then h_matching_transfer_encoding
                          else if c = CHR ''u'' then h_matching_upgrade
                          else h_general)\<rparr>,
                     A_mark D_header_field A_break)))"

text \<open>
  The five matching cases share one text: advance, give up on a mismatch (or past the end of
  the name), and recognise the name at its last letter. \<open>length s\<close> is \<open>sizeof(S) - 1\<close>.
\<close>

definition match_step :: "string \<Rightarrow> hstate \<Rightarrow> http_parser \<Rightarrow> char \<Rightarrow> http_parser" where
  "match_step s found p c =
     (let p = p\<lparr>pindex := pindex p + 1\<rparr>
      in if unat (pindex p) > length s \<or> cstr_at s (unat (pindex p)) \<noteq> Some c
         then p\<lparr>header_state := h_general\<rparr>
         else if unat (pindex p) = length s - 1 then p\<lparr>header_state := found\<rparr>
         else p)"

definition letter_step :: "char \<Rightarrow> hstate \<Rightarrow> http_parser \<Rightarrow> char \<Rightarrow> http_parser" where
  "letter_step l next_hs p c =
     p\<lparr>pindex := pindex p + 1, header_state := (if c = l then next_hs else h_general)\<rparr>"

definition header_field_match :: "http_parser \<Rightarrow> char \<Rightarrow> char \<Rightarrow> http_parser option" where
  "header_field_match p ch c =
     (case header_state p of
        h_general \<Rightarrow> Some p
      | h_C \<Rightarrow> Some (letter_step (CHR ''o'') h_CO p c)
      | h_CO \<Rightarrow> Some (letter_step (CHR ''n'') h_CON p c)
      | h_CON \<Rightarrow>
          Some (p\<lparr>pindex := pindex p + 1,
                  header_state := (if c = CHR ''n'' then h_matching_connection
                                   else if c = CHR ''t'' then h_matching_content_length
                                   else h_general)\<rparr>)
      | h_matching_connection \<Rightarrow> Some (match_step ''connection'' h_connection p c)
      | h_matching_proxy_connection \<Rightarrow> Some (match_step ''proxy-connection'' h_connection p c)
      | h_matching_content_length \<Rightarrow> Some (match_step ''content-length'' h_content_length p c)
      | h_matching_transfer_encoding \<Rightarrow>
          Some (match_step ''transfer-encoding'' h_transfer_encoding p c)
      | h_matching_upgrade \<Rightarrow> Some (match_step ''upgrade'' h_upgrade p c)
      | h_connection \<Rightarrow> Some (if ch \<noteq> SP then p\<lparr>header_state := h_general\<rparr> else p)
      | h_content_length \<Rightarrow> Some (if ch \<noteq> SP then p\<lparr>header_state := h_general\<rparr> else p)
      | h_transfer_encoding \<Rightarrow> Some (if ch \<noteq> SP then p\<lparr>header_state := h_general\<rparr> else p)
      | h_upgrade \<Rightarrow> Some (if ch \<noteq> SP then p\<lparr>header_state := h_general\<rparr> else p)
      | _ \<Rightarrow> None)"

definition on_header_field :: handler where
  "on_header_field p ch =
     (let c = TOKEN ch
      in if c \<noteq> NUL
         then (case header_field_match p ch c of None \<Rightarrow> (p, A_abort) | Some p' \<Rightarrow> (p', A_break))
         else if ch = CHR '':'' then (p\<lparr>state := s_header_value_start\<rparr>, A_data D_header_field A_break)
         else if ch = CR then (p\<lparr>state := s_header_almost_done\<rparr>, A_data D_header_field A_break)
         else if ch = LF then (p\<lparr>state := s_header_field_start\<rparr>, A_data D_header_field A_break)
         else (p, A_error HPE_INVALID_HEADER_TOKEN))"

definition on_header_value_start :: handler where
  "on_header_value_start p ch =
     (if ch = SP \<or> ch = HT then (p, A_break)
      else (let p = p\<lparr>state := s_header_value, pindex := 0\<rparr>
            in if ch = CR then (p\<lparr>header_state := h_general, state := s_header_almost_done\<rparr>,
                                A_mark D_header_value (A_data D_header_value A_break))
               else if ch = LF then (p\<lparr>state := s_header_field_start\<rparr>,
                                     A_mark D_header_value (A_data D_header_value A_break))
               else (let c = LOWER ch
                     in case header_state p of
                          h_upgrade \<Rightarrow>
                            ((set_flag F_UPGRADE p)\<lparr>header_state := h_general\<rparr>,
                             A_mark D_header_value A_break)
                        | h_transfer_encoding \<Rightarrow>
                            (p\<lparr>header_state := (if c = CHR ''c''
                                 then h_matching_transfer_encoding_chunked else h_general)\<rparr>,
                             A_mark D_header_value A_break)
                        | h_content_length \<Rightarrow>
                            (if \<not> IS_NUM ch
                             then (p, A_mark D_header_value (A_error HPE_INVALID_CONTENT_LENGTH))
                             else (p\<lparr>content_length := digit ch\<rparr>, A_mark D_header_value A_break))
                        | h_connection \<Rightarrow>
                            (p\<lparr>header_state := (if c = CHR ''k'' then h_matching_connection_keep_alive
                                 else if c = CHR ''c'' then h_matching_connection_close
                                 else h_general)\<rparr>,
                             A_mark D_header_value A_break)
                        | _ \<Rightarrow> (p\<lparr>header_state := h_general\<rparr>, A_mark D_header_value A_break))))"

text \<open>
  One more digit of a length: multiply, add, and the test \<open>t < content_length || t ==
  ULLONG_MAX\<close> the source uses against overflow (on both decimal and chunk lengths).
\<close>

definition add_digit :: "u64 \<Rightarrow> u64 \<Rightarrow> u64 \<Rightarrow> u64 option" where
  "add_digit base len d =
     (let t = len * base + d in if t < len \<or> t = ULLONG_MAX then None else Some t)"

definition header_value_match :: handler where
  "header_value_match p ch =
     (let c = LOWER ch
      in case header_state p of
           h_general \<Rightarrow> (p, A_break)
         | h_connection \<Rightarrow> (p, A_abort)
         | h_transfer_encoding \<Rightarrow> (p, A_abort)
         | h_content_length \<Rightarrow>
             (if ch = SP then (p, A_break)
              else if \<not> IS_NUM ch then (p, A_error HPE_INVALID_CONTENT_LENGTH)
              else (case add_digit 10 (content_length p) (digit ch) of
                      None \<Rightarrow> (p, A_error HPE_INVALID_CONTENT_LENGTH)
                    | Some t \<Rightarrow> (p\<lparr>content_length := t\<rparr>, A_break)))
         | h_matching_transfer_encoding_chunked \<Rightarrow>
             (match_step ''chunked'' h_transfer_encoding_chunked p c, A_break)
         | h_matching_connection_keep_alive \<Rightarrow>
             (match_step ''keep-alive'' h_connection_keep_alive p c, A_break)
         | h_matching_connection_close \<Rightarrow> (match_step ''close'' h_connection_close p c, A_break)
         | h_transfer_encoding_chunked \<Rightarrow>
             (if ch \<noteq> SP then p\<lparr>header_state := h_general\<rparr> else p, A_break)
         | h_connection_keep_alive \<Rightarrow>
             (if ch \<noteq> SP then p\<lparr>header_state := h_general\<rparr> else p, A_break)
         | h_connection_close \<Rightarrow>
             (if ch \<noteq> SP then p\<lparr>header_state := h_general\<rparr> else p, A_break)
         | _ \<Rightarrow> (p\<lparr>state := s_header_value, header_state := h_general\<rparr>, A_break))"

definition on_header_value :: handler where
  "on_header_value p ch =
     (if ch = CR then (p\<lparr>state := s_header_almost_done\<rparr>, A_data D_header_value A_break)
      else if ch = LF
      then (p\<lparr>state := s_header_almost_done\<rparr>, A_data_noadvance D_header_value A_reexecute)
      else header_value_match p ch)"

definition on_header_almost_done :: handler where
  "on_header_almost_done p ch =
     strict_check (ch \<noteq> LF) p
       (let p = p\<lparr>state := s_header_value_lws\<rparr>
        in (if header_state p = h_connection_keep_alive then set_flag F_CONNECTION_KEEP_ALIVE p
            else if header_state p = h_connection_close then set_flag F_CONNECTION_CLOSE p
            else if header_state p = h_transfer_encoding_chunked then set_flag F_CHUNKED p
            else p, A_break))"

definition on_header_value_lws :: handler where
  "on_header_value_lws p ch =
     (if ch = SP \<or> ch = HT then (p\<lparr>state := s_header_value_start\<rparr>, A_break)
      else (p\<lparr>state := s_header_field_start\<rparr>, A_reexecute))"

definition on_headers_almost_done :: handler where
  "on_headers_almost_done p ch =
     strict_check (ch \<noteq> LF) p
       (if flag_set F_TRAILING p
        then (p\<lparr>state := NEW_MESSAGE p\<rparr>, A_notify N_message_complete A_break)
        else (p\<lparr>state := s_headers_done,
                upgrade := (flag_set F_UPGRADE p \<or> pmethod p = HTTP_CONNECT)\<rparr>,
              A_headers_complete))"

definition on_headers_done :: handler where
  "on_headers_done p ch =
     strict_check (ch \<noteq> LF) p
       (let p = p\<lparr>nread := 0\<rparr>;
            complete = (\<lambda>rest. (p\<lparr>state := NEW_MESSAGE p\<rparr>, A_notify N_message_complete rest))
        in if upgrade p then complete A_return_advance
           else if flag_set F_SKIPBODY p then complete A_break
           else if flag_set F_CHUNKED p then (p\<lparr>state := s_chunk_size_start\<rparr>, A_break)
           else if content_length p = 0 then complete A_break
           else if content_length p \<noteq> ULLONG_MAX then (p\<lparr>state := s_body_identity\<rparr>, A_break)
           else if ptype p = HTTP_REQUEST \<or> \<not> http_message_needs_eof p then complete A_break
           else (p\<lparr>state := s_body_identity_eof\<rparr>, A_break))"

section \<open>Bodies\<close>

definition on_message_done :: handler where
  "on_message_done p ch = (p\<lparr>state := NEW_MESSAGE p\<rparr>, A_notify N_message_complete A_break)"

definition on_chunk_size_start :: handler where
  "on_chunk_size_start p ch =
     (if nread p \<noteq> 1 \<or> \<not> flag_set F_CHUNKED p then (p, A_abort)
      else if unhex_val ch = - 1 then (p, A_error HPE_INVALID_CHUNK_SIZE)
      else (p\<lparr>content_length := of_int (unhex_val ch), state := s_chunk_size\<rparr>, A_break))"

definition on_chunk_size :: handler where
  "on_chunk_size p ch =
     (if \<not> flag_set F_CHUNKED p then (p, A_abort)
      else if ch = CR then (p\<lparr>state := s_chunk_size_almost_done\<rparr>, A_break)
      else if unhex_val ch = - 1
      then (if ch = CHR '';'' \<or> ch = SP then (p\<lparr>state := s_chunk_parameters\<rparr>, A_break)
            else (p, A_error HPE_INVALID_CHUNK_SIZE))
      else (case add_digit 16 (content_length p) (of_int (unhex_val ch)) of
              None \<Rightarrow> (p, A_error HPE_INVALID_CONTENT_LENGTH)
            | Some t \<Rightarrow> (p\<lparr>content_length := t\<rparr>, A_break)))"

definition on_chunk_parameters :: handler where
  "on_chunk_parameters p ch =
     (if \<not> flag_set F_CHUNKED p then (p, A_abort)
      else if ch = CR then (p\<lparr>state := s_chunk_size_almost_done\<rparr>, A_break)
      else (p, A_break))"

definition on_chunk_size_almost_done :: handler where
  "on_chunk_size_almost_done p ch =
     (if \<not> flag_set F_CHUNKED p then (p, A_abort)
      else strict_check (ch \<noteq> LF) p
        (let p = p\<lparr>nread := 0\<rparr>
         in if content_length p = 0
            then ((set_flag F_TRAILING p)\<lparr>state := s_header_field_start\<rparr>, A_break)
            else (p\<lparr>state := s_chunk_data\<rparr>, A_break)))"

definition on_chunk_data_almost_done :: handler where
  "on_chunk_data_almost_done p ch =
     (if \<not> flag_set F_CHUNKED p \<or> content_length p \<noteq> 0 then (p, A_abort)
      else strict_check (ch \<noteq> CR) p
        (p\<lparr>state := s_chunk_data_done\<rparr>, A_data D_body A_break))"

definition on_chunk_data_done :: handler where
  "on_chunk_data_done p ch =
     (if \<not> flag_set F_CHUNKED p then (p, A_abort)
      else strict_check (ch \<noteq> LF) p
        (p\<lparr>nread := 0, state := s_chunk_size_start\<rparr>, A_break))"

section \<open>The switch\<close>

text \<open>
  \<open>switch (parser->state)\<close>. The three body states \<open>HttpExec\<close> treats on its own have no case
  here; reaching one of them would be the assertion of the \<open>default\<close> label.
\<close>

definition handle_state :: handler where
  "handle_state p ch =
     (case state p of
        s_dead \<Rightarrow> on_dead p ch
      | s_start_req_or_res \<Rightarrow> on_start_req_or_res p ch
      | s_res_or_resp_H \<Rightarrow> on_res_or_resp_H p ch
      | s_start_res \<Rightarrow> on_start_res p ch
      | s_res_H \<Rightarrow> on_letter (CHR ''T'') s_res_HT p ch
      | s_res_HT \<Rightarrow> on_letter (CHR ''T'') s_res_HTT p ch
      | s_res_HTT \<Rightarrow> on_letter (CHR ''P'') s_res_HTTP p ch
      | s_res_HTTP \<Rightarrow> on_letter (CHR ''/'') s_res_first_http_major p ch
      | s_res_first_http_major \<Rightarrow> on_res_first_http_major p ch
      | s_res_http_major \<Rightarrow> on_http_major s_res_first_http_minor p ch
      | s_res_first_http_minor \<Rightarrow> on_first_http_minor s_res_http_minor p ch
      | s_res_http_minor \<Rightarrow> on_res_http_minor p ch
      | s_res_first_status_code \<Rightarrow> on_res_first_status_code p ch
      | s_res_status_code \<Rightarrow> on_res_status_code p ch
      | s_res_status \<Rightarrow> on_res_status p ch
      | s_res_line_almost_done \<Rightarrow> on_res_line_almost_done p ch
      | s_start_req \<Rightarrow> on_start_req p ch
      | s_req_method \<Rightarrow> on_req_method p ch
      | s_req_spaces_before_url \<Rightarrow> on_req_spaces_before_url p ch
      | s_req_schema \<Rightarrow> on_req_schema p ch
      | s_req_schema_slash \<Rightarrow> on_req_schema p ch
      | s_req_schema_slash_slash \<Rightarrow> on_req_schema p ch
      | s_req_server_start \<Rightarrow> on_req_schema p ch
      | s_req_server \<Rightarrow> on_req_url p ch
      | s_req_server_with_at \<Rightarrow> on_req_url p ch
      | s_req_path \<Rightarrow> on_req_url p ch
      | s_req_query_string_start \<Rightarrow> on_req_url p ch
      | s_req_query_string \<Rightarrow> on_req_url p ch
      | s_req_fragment_start \<Rightarrow> on_req_url p ch
      | s_req_fragment \<Rightarrow> on_req_url p ch
      | s_req_http_start \<Rightarrow> on_req_http_start p ch
      | s_req_http_H \<Rightarrow> on_letter (CHR ''T'') s_req_http_HT p ch
      | s_req_http_HT \<Rightarrow> on_letter (CHR ''T'') s_req_http_HTT p ch
      | s_req_http_HTT \<Rightarrow> on_letter (CHR ''P'') s_req_http_HTTP p ch
      | s_req_http_HTTP \<Rightarrow> on_letter (CHR ''/'') s_req_first_http_major p ch
      | s_req_first_http_major \<Rightarrow> on_req_first_http_major p ch
      | s_req_http_major \<Rightarrow> on_http_major s_req_first_http_minor p ch
      | s_req_first_http_minor \<Rightarrow> on_first_http_minor s_req_http_minor p ch
      | s_req_http_minor \<Rightarrow> on_req_http_minor p ch
      | s_req_line_almost_done \<Rightarrow> on_req_line_almost_done p ch
      | s_header_field_start \<Rightarrow> on_header_field_start p ch
      | s_header_field \<Rightarrow> on_header_field p ch
      | s_header_value_start \<Rightarrow> on_header_value_start p ch
      | s_header_value \<Rightarrow> on_header_value p ch
      | s_header_value_lws \<Rightarrow> on_header_value_lws p ch
      | s_header_almost_done \<Rightarrow> on_header_almost_done p ch
      | s_chunk_size_start \<Rightarrow> on_chunk_size_start p ch
      | s_chunk_size \<Rightarrow> on_chunk_size p ch
      | s_chunk_parameters \<Rightarrow> on_chunk_parameters p ch
      | s_chunk_size_almost_done \<Rightarrow> on_chunk_size_almost_done p ch
      | s_headers_almost_done \<Rightarrow> on_headers_almost_done p ch
      | s_headers_done \<Rightarrow> on_headers_done p ch
      | s_chunk_data \<Rightarrow> (p, A_abort)
      | s_chunk_data_almost_done \<Rightarrow> on_chunk_data_almost_done p ch
      | s_chunk_data_done \<Rightarrow> on_chunk_data_done p ch
      | s_body_identity \<Rightarrow> (p, A_abort)
      | s_body_identity_eof \<Rightarrow> (p, A_abort)
      | s_message_done \<Rightarrow> on_message_done p ch)"

end
