(* ===== verification/HttpExec.thy ===== *)
theory HttpExec
  imports HttpHandlers
begin

text \<open>
  \<open>http_parser_execute\<close> of \<open>src/src/http/http_parser.c\<close>: the callback macros, the three cases
  of the switch that move \<open>p\<close>, the reexecution of a byte, the loop over the buffer and the
  callbacks for the marks that are left.

  The callbacks are parameters: functions from the parser, the data and the user state to the
  value returned, whether the callback paused the parser, and the new user state. A NULL
  callback is \<open>None\<close>. Pointers into the buffer are offsets from \<open>data\<close>.
\<close>

section \<open>Callbacks and the state of the loop\<close>

type_synonym 'u cb_ret = "int \<times> bool \<times> 'u"

record 'u settings =
  notify_cb :: "nkind \<Rightarrow> (http_parser \<Rightarrow> 'u \<Rightarrow> 'u cb_ret) option"
  headers_complete_cb :: "(http_parser \<Rightarrow> 'u \<Rightarrow> 'u cb_ret) option"
  data_cb :: "dkind \<Rightarrow> (http_parser \<Rightarrow> string \<Rightarrow> 'u \<Rightarrow> 'u cb_ret) option"

definition run_notify :: "'u settings \<Rightarrow> nkind \<Rightarrow> http_parser \<Rightarrow> 'u \<Rightarrow> 'u cb_ret" where
  "run_notify st k p u = (case notify_cb st k of None \<Rightarrow> (0, False, u) | Some f \<Rightarrow> f p u)"

definition run_headers_complete :: "'u settings \<Rightarrow> http_parser \<Rightarrow> 'u \<Rightarrow> 'u cb_ret" where
  "run_headers_complete st p u =
     (case headers_complete_cb st of None \<Rightarrow> (0, False, u) | Some f \<Rightarrow> f p u)"

definition run_data :: "'u settings \<Rightarrow> dkind \<Rightarrow> http_parser \<Rightarrow> string \<Rightarrow> 'u \<Rightarrow> 'u cb_ret" where
  "run_data st k p bs u = (case data_cb st k of None \<Rightarrow> (0, False, u) | Some f \<Rightarrow> f p bs u)"

primrec data_errno :: "dkind \<Rightarrow> http_errno" where
    "data_errno D_header_field = HPE_CB_header_field"
  | "data_errno D_header_value = HPE_CB_header_value"
  | "data_errno D_url = HPE_CB_url"
  | "data_errno D_body = HPE_CB_body"

primrec notify_errno :: "nkind \<Rightarrow> http_errno" where
    "notify_errno N_message_begin = HPE_CB_message_begin"
  | "notify_errno N_status_complete = HPE_CB_status_complete"
  | "notify_errno N_message_complete = HPE_CB_message_complete"

definition set_errno :: "http_errno \<Rightarrow> http_parser \<Rightarrow> http_parser" where
  "set_errno e p = p\<lparr>http_errno := e\<rparr>"

text \<open>The error number after a callback: \<open>http_parser_pause\<close> if it called it, then its result.\<close>

definition after_callback :: "int \<Rightarrow> bool \<Rightarrow> http_errno \<Rightarrow> http_parser \<Rightarrow> http_parser" where
  "after_callback ret paused e p =
     (let p = (if paused then set_errno HPE_PAUSED p else p)
      in if ret \<noteq> 0 then set_errno e p else p)"

record 'u ctx =
  parser :: http_parser
  pos :: nat
  marks :: "dkind \<Rightarrow> nat option"
  user :: 'u

datatype 'u outcome =
    Break "'u ctx"
  | Reexecute "'u ctx"
  | Return "'u ctx" nat
  | Abort

definition goto_error :: "'u ctx \<Rightarrow> 'u outcome" where
  "goto_error c =
     Return (if http_errno (parser c) = HPE_OK
             then c\<lparr>parser := set_errno HPE_UNKNOWN (parser c)\<rparr> else c) (pos c)"

section \<open>The callback macros\<close>

definition MARK :: "dkind \<Rightarrow> 'u ctx \<Rightarrow> 'u ctx" where
  "MARK k c = (case marks c k of None \<Rightarrow> c\<lparr>marks := (marks c)(k \<mapsto> pos c)\<rparr> | Some _ \<Rightarrow> c)"

text \<open>
  \<open>CALLBACK_DATA_(FOR, LEN, ER)\<close> and \<open>CALLBACK_NOTIFY_(FOR, ER)\<close>; \<open>stop\<close> is the offset the
  reported bytes end at (\<open>LEN\<close> is \<open>stop - mark\<close>), \<open>cont\<close> what follows the macro.
\<close>

definition CALLBACK_DATA ::
    "'u settings \<Rightarrow> string \<Rightarrow> dkind \<Rightarrow> nat \<Rightarrow> nat \<Rightarrow> ('u ctx \<Rightarrow> 'u outcome) \<Rightarrow> 'u ctx \<Rightarrow> 'u outcome"
  where
  "CALLBACK_DATA st d k stop er cont c =
     (if http_errno (parser c) \<noteq> HPE_OK then Abort
      else (case marks c k of
              None \<Rightarrow> cont c
            | Some m \<Rightarrow>
                (case run_data st k (parser c) (bytes_at d m (stop - m)) (user c) of
                   (ret, paused, u) \<Rightarrow>
                     (let c = c\<lparr>parser := after_callback ret paused (data_errno k) (parser c),
                                user := u\<rparr>
                      in if http_errno (parser c) \<noteq> HPE_OK then Return c er
                         else cont (c\<lparr>marks := (marks c)(k := None)\<rparr>)))))"

definition CALLBACK_NOTIFY ::
    "'u settings \<Rightarrow> nkind \<Rightarrow> nat \<Rightarrow> ('u ctx \<Rightarrow> 'u outcome) \<Rightarrow> 'u ctx \<Rightarrow> 'u outcome" where
  "CALLBACK_NOTIFY st k er cont c =
     (if http_errno (parser c) \<noteq> HPE_OK then Abort
      else (case run_notify st k (parser c) (user c) of
              (ret, paused, u) \<Rightarrow>
                (let c = c\<lparr>parser := after_callback ret paused (notify_errno k) (parser c),
                           user := u\<rparr>
                 in if http_errno (parser c) \<noteq> HPE_OK then Return c er else cont c)))"

text \<open>The call of \<open>on_headers_complete\<close>, whose result 1 means a message without body.\<close>

definition headers_complete_call :: "'u settings \<Rightarrow> 'u ctx \<Rightarrow> 'u outcome" where
  "headers_complete_call st c =
     (case run_headers_complete st (parser c) (user c) of
        (ret, paused, u) \<Rightarrow>
          (let p = (if paused then set_errno HPE_PAUSED (parser c) else parser c);
               c = c\<lparr>parser := p, user := u\<rparr>
           in if ret = 0 \<or> ret = 1
              then (let c = (if ret = 1 then c\<lparr>parser := set_flag F_SKIPBODY p\<rparr> else c)
                    in if http_errno (parser c) \<noteq> HPE_OK then Return c (pos c) else Reexecute c)
              else Return (c\<lparr>parser := set_errno HPE_CB_headers_complete p\<rparr>) (pos c)))"

primrec run_action :: "'u settings \<Rightarrow> string \<Rightarrow> action \<Rightarrow> 'u ctx \<Rightarrow> 'u outcome" where
  "run_action st d A_break c = Break c"
| "run_action st d (A_error e) c = goto_error (c\<lparr>parser := set_errno e (parser c)\<rparr>)"
| "run_action st d A_reexecute c = Reexecute c"
| "run_action st d (A_mark k a) c = run_action st d a (MARK k c)"
| "run_action st d (A_data k a) c =
     CALLBACK_DATA st d k (pos c) (pos c + 1) (run_action st d a) c"
| "run_action st d (A_data_noadvance k a) c =
     CALLBACK_DATA st d k (pos c) (pos c) (run_action st d a) c"
| "run_action st d (A_notify k a) c =
     CALLBACK_NOTIFY st k (pos c + 1) (run_action st d a) c"
| "run_action st d A_headers_complete c = headers_complete_call st c"
| "run_action st d A_return_advance c = Return c (pos c + 1)"
| "run_action st d A_abort c = Abort"

section \<open>The cases that move p\<close>

text \<open>
  \<open>to_read = MIN(content_length, (data + len) - p)\<close>; the rest of the two cases. Buffers are
  shorter than \<open>2^64\<close> bytes, so the minimum of the naturals is the minimum of the words.
\<close>

definition to_read :: "string \<Rightarrow> 'u ctx \<Rightarrow> nat" where
  "to_read d c = min (unat (content_length (parser c))) (length d - pos c)"

definition take_body :: "string \<Rightarrow> 'u ctx \<Rightarrow> 'u ctx" where
  "take_body d c =
     (let n = to_read d c; c = MARK D_body c; p = parser c
      in c\<lparr>parser := p\<lparr>content_length := content_length p - of_nat n\<rparr>, pos := pos c + n - 1\<rparr>)"

definition set_state :: "pstate \<Rightarrow> 'u ctx \<Rightarrow> 'u ctx" where
  "set_state s c = c\<lparr>parser := (parser c)\<lparr>state := s\<rparr>\<rparr>"

definition on_body_identity :: "'u settings \<Rightarrow> string \<Rightarrow> 'u ctx \<Rightarrow> 'u outcome" where
  "on_body_identity st d c =
     (if content_length (parser c) = 0 \<or> content_length (parser c) = ULLONG_MAX then Abort
      else (let c = take_body d c
            in if content_length (parser c) = 0
               then CALLBACK_DATA st d D_body (pos c + 1) (pos c) Reexecute
                      (set_state s_message_done c)
               else Break c))"

definition on_body_identity_eof :: "string \<Rightarrow> 'u ctx \<Rightarrow> 'u outcome" where
  "on_body_identity_eof d c = Break ((MARK D_body c)\<lparr>pos := length d - 1\<rparr>)"

definition on_chunk_data :: "string \<Rightarrow> 'u ctx \<Rightarrow> 'u outcome" where
  "on_chunk_data d c =
     (if \<not> flag_set F_CHUNKED (parser c) \<or> content_length (parser c) = 0 \<or>
         content_length (parser c) = ULLONG_MAX then Abort
      else (let c = take_body d c
            in Break (if content_length (parser c) = 0
                      then set_state s_chunk_data_almost_done c else c)))"

text \<open>One pass through the \<open>switch\<close>.\<close>

definition switch :: "'u settings \<Rightarrow> string \<Rightarrow> char \<Rightarrow> 'u ctx \<Rightarrow> 'u outcome" where
  "switch st d ch c =
     (if state (parser c) = s_body_identity then on_body_identity st d c
      else if state (parser c) = s_body_identity_eof then on_body_identity_eof d c
      else if state (parser c) = s_chunk_data then on_chunk_data d c
      else (case handle_state (parser c) ch of
              (p, a) \<Rightarrow> run_action st d a (c\<lparr>parser := p\<rparr>)))"

section \<open>Reexecution ends\<close>

text \<open>
  How many times the byte can still be executed again in a state: every \<open>goto
  reexecute_byte\<close> goes to a state of lower rank.
\<close>

definition reexec_rank :: "pstate \<Rightarrow> nat" where
  "reexec_rank s =
     (if s = s_header_value_lws then 3
      else if s = s_header_field_start then 2
      else if s \<in> set [s_headers_almost_done, s_start_req_or_res, s_header_value, s_body_identity]
      then 1 else 0)"

fun reexecutes :: "action \<Rightarrow> bool" where
  "reexecutes A_reexecute = True"
| "reexecutes A_headers_complete = True"
| "reexecutes (A_mark k a) = reexecutes a"
| "reexecutes (A_data k a) = reexecutes a"
| "reexecutes (A_data_noadvance k a) = reexecutes a"
| "reexecutes (A_notify k a) = reexecutes a"
| "reexecutes _ = False"

lemmas on_state_defs =
  on_dead_def on_start_req_or_res_def on_res_or_resp_H_def on_start_res_def on_letter_def
  on_res_first_http_major_def on_http_major_def on_first_http_minor_def http_minor_digit_def
  on_res_http_minor_def on_res_first_status_code_def on_res_status_code_def on_res_status_def
  on_res_line_almost_done_def on_start_req_def on_req_method_def url_step_def
  on_req_spaces_before_url_def on_req_schema_def on_req_url_def on_req_http_start_def
  on_req_first_http_major_def on_req_http_minor_def on_req_line_almost_done_def
  on_header_field_start_def on_header_field_def on_header_value_start_def on_header_value_def
  on_header_almost_done_def on_header_value_lws_def on_headers_almost_done_def
  on_headers_done_def on_message_done_def on_chunk_size_start_def on_chunk_size_def
  on_chunk_parameters_def on_chunk_size_almost_done_def on_chunk_data_almost_done_def
  on_chunk_data_done_def strict_check_def

lemma header_field_match_state:
  "header_field_match p ch c = Some p' \<Longrightarrow> state p' = state p"
  by (auto simp: header_field_match_def match_step_def letter_step_def Let_def
        split: hstate.splits if_splits)

lemma header_value_match_state:
  assumes "header_value_match p ch = (p', a)" and "state p = s_header_value"
  shows "state p' = s_header_value" and "\<not> reexecutes a"
  using assms
  by (auto simp: header_value_match_def match_step_def Let_def
        split: hstate.splits if_splits option.splits)

lemma NEW_MESSAGE_cases: "NEW_MESSAGE p \<in> {s_dead, s_start_req, s_start_res}"
  by (simp add: NEW_MESSAGE_def start_state_def)


lemma handle_state_rank:
  assumes "handle_state p ch = (p', a)" and "reexecutes a"
  shows "reexec_rank (state p') < reexec_rank (state p)"
  using assms
  by (cases "state p")
     (auto simp: handle_state_def on_state_defs Let_def reexec_rank_def header_value_match_state
       split: if_splits option.splits prod.splits hstate.splits)

lemma state_after_callback [simp]: "state (after_callback ret paused e p) = state p"
  by (simp add: after_callback_def set_errno_def Let_def)

lemma state_set_flag [simp]: "state (set_flag f p) = state p"
  by (simp add: set_flag_def)

lemma MARK_simps [simp]:
  "parser (MARK k c) = parser c" "pos (MARK k c) = pos c" "user (MARK k c) = user c"
  by (simp_all add: MARK_def split: option.split)

lemma run_action_Reexecute:
  "run_action st d a c = Reexecute c' \<Longrightarrow>
     reexecutes a \<and> state (parser c') = state (parser c) \<and> pos c' = pos c"
proof (induction a arbitrary: c)
  case (A_mark k a)
  then show ?case by fastforce
next
  case (A_data k a)
  then show ?case
    by (auto simp: CALLBACK_DATA_def Let_def split: if_splits option.splits prod.splits dest!: A_data.IH)
next
  case (A_data_noadvance k a)
  then show ?case
    by (auto simp: CALLBACK_DATA_def Let_def split: if_splits option.splits prod.splits
          dest!: A_data_noadvance.IH)
next
  case (A_notify k a)
  then show ?case
    by (auto simp: CALLBACK_NOTIFY_def Let_def split: if_splits option.splits prod.splits
          dest!: A_notify.IH)
next
  case A_headers_complete
  then show ?case
    by (auto simp: headers_complete_call_def Let_def set_errno_def split: if_splits prod.splits)
qed (auto simp: goto_error_def)

lemma run_action_Break_pos: "run_action st d a c = Break c' \<Longrightarrow> pos c' = pos c"
proof (induction a arbitrary: c)
  case (A_data k a)
  then show ?case
    by (auto simp: CALLBACK_DATA_def Let_def split: if_splits option.splits prod.splits dest!: A_data.IH)
next
  case (A_data_noadvance k a)
  then show ?case
    by (auto simp: CALLBACK_DATA_def Let_def split: if_splits option.splits prod.splits
          dest!: A_data_noadvance.IH)
next
  case (A_notify k a)
  then show ?case
    by (auto simp: CALLBACK_NOTIFY_def Let_def split: if_splits option.splits prod.splits
          dest!: A_notify.IH)
next
  case A_headers_complete
  then show ?case
    by (auto simp: headers_complete_call_def Let_def set_errno_def split: if_splits prod.splits)
qed (auto simp: goto_error_def)

lemma switch_Reexecute_rank:
  assumes "switch st d ch c = Reexecute c'"
  shows "reexec_rank (state (parser c')) < reexec_rank (state (parser c))"
proof (cases "state (parser c) = s_body_identity")
  case True
  with assms show ?thesis
    by (auto simp: switch_def on_body_identity_def take_body_def CALLBACK_DATA_def Let_def
          set_state_def reexec_rank_def split: if_splits option.splits prod.splits)
next
  case False
  then obtain p a where h: "handle_state (parser c) ch = (p, a)"
    and r: "run_action st d a (c\<lparr>parser := p\<rparr>) = Reexecute c'"
    using assms
    by (auto simp: switch_def on_body_identity_eof_def on_chunk_data_def Let_def
        split: if_splits prod.splits)
  from run_action_Reexecute [OF r] have "reexecutes a" and "state (parser c') = state p"
    by simp_all
  with handle_state_rank [OF h] show ?thesis by simp
qed

lemma take_body_pos:
  assumes "content_length (parser c) \<noteq> 0" and "pos c < length d"
  shows "pos c \<le> pos (take_body d c)" and "pos (take_body d c) < length d"
proof -
  have "0 < unat (content_length (parser c))"
    using assms(1) by (simp add: unat_gt_0)
  then show "pos c \<le> pos (take_body d c)" and "pos (take_body d c) < length d"
    using assms(2) by (auto simp: take_body_def to_read_def Let_def)
qed

lemma switch_pos:
  assumes "switch st d ch c = Break c' \<or> switch st d ch c = Reexecute c'" and "pos c < length d"
  shows "pos c \<le> pos c' \<and> pos c' < length d"
proof -
  consider (id) "state (parser c) = s_body_identity" | (eof) "state (parser c) = s_body_identity_eof"
    | (chunk) "state (parser c) = s_chunk_data"
    | (other) "state (parser c) \<notin> {s_body_identity, s_body_identity_eof, s_chunk_data}"
    by blast
  then show ?thesis
  proof cases
    case id
    with assms take_body_pos [of c d] show ?thesis
      by (auto simp: switch_def on_body_identity_def CALLBACK_DATA_def Let_def set_state_def
          split: if_splits option.splits prod.splits)
  next
    case eof
    with assms show ?thesis by (auto simp: switch_def on_body_identity_eof_def)
  next
    case chunk
    with assms take_body_pos [of c d] show ?thesis
      by (auto simp: switch_def on_chunk_data_def Let_def set_state_def split: if_splits)
  next
    case other
    obtain p a where h: "handle_state (parser c) ch = (p, a)"
      by (cases "handle_state (parser c) ch")
    with other have "switch st d ch c = run_action st d a (c\<lparr>parser := p\<rparr>)"
      by (simp add: switch_def)
    with assms show ?thesis
      by (auto dest!: run_action_Break_pos run_action_Reexecute)
  qed
qed

section \<open>One byte, the loop, the call\<close>

text \<open>The byte \<open>ch\<close> is executed, and executed again as long as the cases ask for it.\<close>

function exec_byte :: "'u settings \<Rightarrow> string \<Rightarrow> char \<Rightarrow> 'u ctx \<Rightarrow> 'u outcome" where
  "exec_byte st d ch c =
     (case switch st d ch c of Reexecute c' \<Rightarrow> exec_byte st d ch c' | out \<Rightarrow> out)"
  by pat_completeness auto
termination
  by (relation "measure (\<lambda>(st, d, ch, c). reexec_rank (state (parser c)))")
     (auto dest: switch_Reexecute_rank)

declare exec_byte.simps [simp del]

lemma exec_byte_pos:
  "exec_byte st d ch c = Break c' \<Longrightarrow> pos c < length d \<Longrightarrow> pos c \<le> pos c' \<and> pos c' < length d"
proof (induction st d ch c rule: exec_byte.induct)
  case (1 st d ch c)
  then show ?case
    using switch_pos [of st d ch c]
    by (cases "switch st d ch c") (force simp: exec_byte.simps [of st d ch c])+
qed

lemma exec_byte_not_Reexecute: "exec_byte st d ch c \<noteq> Reexecute c'"
proof (induction st d ch c rule: exec_byte.induct)
  case (1 st d ch c)
  then show ?case
    by (cases "switch st d ch c") (auto simp: exec_byte.simps [of st d ch c])
qed

text \<open>
  The result of a call: the parser, the user state and the value returned, or an assertion
  that failed.
\<close>

datatype 'u result = Returned http_parser 'u nat | Aborted

text \<open>The head of the loop: header bytes are counted, and too many of them are an error.\<close>

definition count_byte :: "'u ctx \<Rightarrow> 'u ctx" where
  "count_byte c =
     (if parsing_header (state (parser c))
      then c\<lparr>parser := (parser c)\<lparr>nread := nread (parser c) + 1\<rparr>\<rparr> else c)"

definition header_overflow :: "'u ctx \<Rightarrow> bool" where
  "header_overflow c \<longleftrightarrow>
     parsing_header (state (parser c)) \<and> nread (parser c) > HTTP_MAX_HEADER_SIZE"

definition outcome_result :: "'u outcome \<Rightarrow> 'u result" where
  "outcome_result out =
     (case out of Return c n \<Rightarrow> Returned (parser c) (user c) n | _ \<Rightarrow> Aborted)"

text \<open>
  After the last byte: the assertion that at most one mark is left, then the four callbacks
  in the order of the source, then \<open>return len\<close>.
\<close>

definition marks_left :: "'u ctx \<Rightarrow> nat" where
  "marks_left c =
     length (filter (\<lambda>k. marks c k \<noteq> None) [D_header_field, D_header_value, D_url, D_body])"

definition finish_buffer :: "'u settings \<Rightarrow> string \<Rightarrow> 'u ctx \<Rightarrow> 'u outcome" where
  "finish_buffer st d c =
     (if marks_left c > 1 then Abort
      else (let cb = (\<lambda>k. CALLBACK_DATA st d k (pos c) (pos c))
            in cb D_header_field (cb D_header_value (cb D_url (cb D_body
                 (\<lambda>c. Return c (length d))))) c))"

function exec_loop :: "'u settings \<Rightarrow> string \<Rightarrow> 'u ctx \<Rightarrow> 'u result" where
  "exec_loop st d c =
     (if pos c < length d
      then (let ch = d ! pos c; c = count_byte c
            in if header_overflow c
               then outcome_result (goto_error (c\<lparr>parser := set_errno HPE_HEADER_OVERFLOW (parser c)\<rparr>))
               else (case exec_byte st d ch c of
                       Break c' \<Rightarrow> exec_loop st d (c'\<lparr>pos := pos c' + 1\<rparr>)
                     | out \<Rightarrow> outcome_result out))
      else outcome_result (finish_buffer st d c))"
  by pat_completeness auto
termination
proof (relation "measure (\<lambda>(st, d, c). length d - pos c)", goal_cases)
  case 1
  show ?case by simp
next
  case (2 st d c ch c0 c')
  then have "pos c0 = pos c"
    by (simp add: count_byte_def)
  with 2 exec_byte_pos [of st d ch c0 c'] show ?case
    by auto
qed

declare exec_loop.simps [simp del]

text \<open>The marks a call starts with: a buffer that begins inside a field is marked at its first byte.\<close>

definition start_marks :: "pstate \<Rightarrow> dkind \<Rightarrow> nat option" where
  "start_marks s k =
     (if k = D_header_field \<and> s = s_header_field then Some 0
      else if k = D_header_value \<and> s = s_header_value then Some 0
      else if k = D_url \<and> s \<in> set [s_req_path, s_req_schema, s_req_schema_slash,
             s_req_schema_slash_slash, s_req_server_start, s_req_server, s_req_server_with_at,
             s_req_query_string_start, s_req_query_string, s_req_fragment_start, s_req_fragment]
      then Some 0
      else None)"

definition http_parser_execute ::
    "'u settings \<Rightarrow> http_parser \<Rightarrow> 'u \<Rightarrow> string \<Rightarrow> 'u result" where
  "http_parser_execute st p u d =
     (if http_errno p \<noteq> HPE_OK then Returned p u 0
      else (let c = \<lparr>parser = p, pos = 0, marks = start_marks (state p), user = u\<rparr>
            in if d = [] then
                 (if state p = s_body_identity_eof
                  then outcome_result (CALLBACK_NOTIFY st N_message_complete 0
                         (\<lambda>c. Return c 0) c)
                  else if state p \<in> set [s_dead, s_start_req_or_res, s_start_res, s_start_req]
                  then Returned p u 0
                  else Returned (set_errno HPE_INVALID_EOF_STATE p) u 1)
               else exec_loop st d c))"

end
