(* ===== verification/HttpSafety.thy ===== *)
theory HttpSafety
  imports HttpExec
begin

text \<open>
  Why no assertion of \<open>http_parser_execute\<close> can fail: the invariants its \<open>assert\<close>s rely on, the table
  of state transitions, and the preservation of the invariants by every case of the switch.
  \<open>HttpInvariant\<close> carries them through the loop and whole calls.
\<close>

section \<open>The invariants\<close>

text \<open>The states of a chunked body, those in which a chunk size is held, those of the request URL.\<close>

definition chunk_states :: "pstate list" where
  "chunk_states = [s_chunk_size_start, s_chunk_size, s_chunk_parameters, s_chunk_size_almost_done,
     s_chunk_data, s_chunk_data_almost_done, s_chunk_data_done]"

definition length_states :: "pstate list" where
  "length_states = [s_chunk_size, s_chunk_parameters, s_chunk_size_almost_done]"

definition url_states :: "pstate list" where
  "url_states = [s_req_path, s_req_schema, s_req_schema_slash, s_req_schema_slash_slash,
     s_req_server_start, s_req_server, s_req_server_with_at, s_req_query_string_start,
     s_req_query_string, s_req_fragment_start, s_req_fragment]"

definition field_hstates :: "hstate list" where
  "field_hstates = [h_general, h_C, h_CO, h_CON, h_matching_connection,
     h_matching_proxy_connection, h_matching_content_length, h_matching_transfer_encoding,
     h_matching_upgrade, h_connection, h_content_length, h_transfer_encoding, h_upgrade]"

text \<open>
  What the assertions of the chunk and body cases rely on. The counter of header bytes is \<open>n\<close> in
  \<open>s_chunk_size_start\<close>: 0 before the loop counts the byte, 1 in the switch.
\<close>

definition chunk_ok :: "u32 \<Rightarrow> http_parser \<Rightarrow> bool" where
  "chunk_ok n p \<longleftrightarrow>
     (state p \<in> set chunk_states \<longrightarrow> flag_set F_CHUNKED p) \<and>
     (state p = s_chunk_size_start \<longrightarrow> nread p = n) \<and>
     (state p \<in> set length_states \<longrightarrow> content_length p \<noteq> ULLONG_MAX) \<and>
     (state p = s_body_identity \<or> state p = s_chunk_data \<longrightarrow>
        content_length p \<noteq> 0 \<and> content_length p \<noteq> ULLONG_MAX) \<and>
     (state p = s_chunk_data_almost_done \<longrightarrow> content_length p = 0)"

text \<open>
  No \<open>default\<close> label with an assertion is reached in the header cases, the method is never read
  past its terminating NUL, the version and status numbers have at most three digits.
\<close>

definition header_ok :: "http_parser \<Rightarrow> bool" where
  "header_ok p \<longleftrightarrow>
     (state p = s_header_field \<longrightarrow> header_state p \<in> set field_hstates) \<and>
     (state p = s_header_value \<longrightarrow>
        header_state p \<noteq> h_connection \<and> header_state p \<noteq> h_transfer_encoding)"

definition method_ok :: "http_parser \<Rightarrow> bool" where
  "method_ok p \<longleftrightarrow>
     (state p = s_req_method \<longrightarrow> unat (pindex p) \<le> length (method_string (pmethod p)))"

definition version_ok :: "http_parser \<Rightarrow> bool" where
  "version_ok p \<longleftrightarrow> http_major p \<le> 999 \<and> http_minor p \<le> 999 \<and> status_code p \<le> 999"

text \<open>
  Actions that end in an error, and actions that reach neither a failed assertion nor an error
  that could be resumed, and that run no callback before an error.
\<close>

fun action_errors :: "action \<Rightarrow> bool" where
  "action_errors (A_error e) = True"
| "action_errors (A_mark k a) = action_errors a"
| "action_errors (A_data k a) = action_errors a"
| "action_errors (A_data_noadvance k a) = action_errors a"
| "action_errors (A_notify k a) = action_errors a"
| "action_errors _ = False"

fun action_safe :: "action \<Rightarrow> bool" where
  "action_safe (A_error e) = (e \<noteq> HPE_OK \<and> e \<noteq> HPE_PAUSED)"
| "action_safe (A_mark k a) = action_safe a"
| "action_safe (A_data k a) = (action_safe a \<and> \<not> action_errors a)"
| "action_safe (A_data_noadvance k a) = (action_safe a \<and> \<not> action_errors a)"
| "action_safe (A_notify k a) = (action_safe a \<and> \<not> action_errors a)"
| "action_safe A_abort = False"
| "action_safe _ = True"

lemma flag_set_set_flag:
  "flag_set g (set_flag f p) \<longleftrightarrow> flag_set g p \<or> f AND g \<noteq> 0"
  by (simp add: flag_set_def set_flag_def bit.conj_disj_distrib2 or_eq_0_iff)

lemma flag_set_simps [simp]:
  "flag_set g (p\<lparr>state := s\<rparr>) = flag_set g p"
  "flag_set g (p\<lparr>nread := n\<rparr>) = flag_set g p"
  "flag_set g (p\<lparr>content_length := l\<rparr>) = flag_set g p"
  "flag_set g (p\<lparr>header_state := h\<rparr>) = flag_set g p"
  by (simp_all add: flag_set_def)

lemma set_flag_simps [simp]:
  "nread (set_flag f p) = nread p" "content_length (set_flag f p) = content_length p"
  "header_state (set_flag f p) = header_state p" "pmethod (set_flag f p) = pmethod p"
  "pindex (set_flag f p) = pindex p" "http_major (set_flag f p) = http_major p"
  "http_minor (set_flag f p) = http_minor p" "status_code (set_flag f p) = status_code p"
  "http_errno (set_flag f p) = http_errno p"
  by (simp_all add: set_flag_def)

lemma unhex_val_range: "unhex_val c = - 1 \<or> unhex_val c \<in> {0..15}"
proof -
  have "length unhex = 256" by (simp add: unhex_def)
  then have "unhex_val c \<in> set unhex"
    unfolding unhex_val_def by (metis code_less_256 nth_mem)
  then show ?thesis by (auto simp: unhex_def)
qed

lemma unhex_word_neq_max: "unhex_val c \<noteq> - 1 \<Longrightarrow> (of_int (unhex_val c) :: u64) \<noteq> ULLONG_MAX"
proof -
  assume "unhex_val c \<noteq> - 1"
  then have "unhex_val c \<in> set [0..15]" using unhex_val_range [of c] by auto
  then have "unhex_val c \<in> set [0,1,2,3,4,5,6,7,8,9,10,11,12,13,14,15]"
    by (simp add: upto.simps)
  then show ?thesis by auto
qed

lemma add_digit_neq_max: "add_digit b l d = Some t \<Longrightarrow> t \<noteq> ULLONG_MAX"
  by (auto simp: add_digit_def Let_def split: if_splits)

lemma digit_le_999: "IS_NUM c \<Longrightarrow> (digit c :: u16) \<le> 999"
  using IS_NUM_code [of c, where ?'a = 16] by (auto simp: word_le_nat_alt IS_NUM_def)

lemma header_field_match_frame:
  assumes "header_field_match p ch c = Some p'"
  shows "state p' = state p" "flags p' = flags p" "nread p' = nread p"
    "content_length p' = content_length p" "http_major p' = http_major p"
    "http_minor p' = http_minor p" "status_code p' = status_code p"
    "header_state p \<in> set field_hstates \<Longrightarrow> header_state p' \<in> set field_hstates"
  using assms
  by (auto simp: header_field_match_def match_step_def letter_step_def Let_def field_hstates_def
        split: hstate.splits if_splits)

lemma header_field_match_defined:
  "header_state p \<in> set field_hstates \<Longrightarrow> header_field_match p ch c \<noteq> None"
  by (auto simp: field_hstates_def header_field_match_def)

lemma switch_method_index:
  "switch_method m i ch = Some m' \<Longrightarrow> Suc i \<le> length (method_string m')"
  by (auto simp: switch_method_def split: if_splits)

lemma method_string_length: "length (method_string m) \<le> 11"
  by (cases m) simp_all

lemma parse_url_char_range: "parse_url_char s ch \<in> set (s_dead # url_states)"
  by (cases s) (simp_all add: parse_url_char_def Let_def url_states_def)

lemma parse_url_char_neq [simp]:
  "parse_url_char s ch \<noteq> s_chunk_size_start" "parse_url_char s ch \<noteq> s_chunk_size" "parse_url_char s ch \<noteq> s_chunk_parameters" "parse_url_char s ch \<noteq> s_chunk_size_almost_done" "parse_url_char s ch \<noteq> s_chunk_data" "parse_url_char s ch \<noteq> s_chunk_data_almost_done" "parse_url_char s ch \<noteq> s_chunk_data_done" "parse_url_char s ch \<noteq> s_body_identity" "parse_url_char s ch \<noteq> s_body_identity_eof" "parse_url_char s ch \<noteq> s_header_field" "parse_url_char s ch \<noteq> s_header_value" "parse_url_char s ch \<noteq> s_req_method"
  using parse_url_char_range [of s ch] by (auto simp: url_states_def)

lemma NEW_MESSAGE_neq [simp]:
  "NEW_MESSAGE p \<noteq> s_chunk_size_start" "NEW_MESSAGE p \<noteq> s_chunk_size" "NEW_MESSAGE p \<noteq> s_chunk_parameters" "NEW_MESSAGE p \<noteq> s_chunk_size_almost_done" "NEW_MESSAGE p \<noteq> s_chunk_data" "NEW_MESSAGE p \<noteq> s_chunk_data_almost_done" "NEW_MESSAGE p \<noteq> s_chunk_data_done" "NEW_MESSAGE p \<noteq> s_body_identity" "NEW_MESSAGE p \<noteq> s_body_identity_eof" "NEW_MESSAGE p \<noteq> s_header_field" "NEW_MESSAGE p \<noteq> s_header_value" "NEW_MESSAGE p \<noteq> s_req_method"
  using NEW_MESSAGE_cases [of p] by auto

section \<open>The transitions between states\<close>

text \<open>The states one execution of a byte can leave a state for, errors aside.\<close>

definition next_states :: "pstate \<Rightarrow> pstate list" where
  "next_states s =
     (let message = [s_dead, s_start_req, s_start_res]
      in case s of
        s_dead \<Rightarrow> [s_dead]
      | s_start_req_or_res \<Rightarrow> [s_start_req_or_res, s_res_or_resp_H, s_start_req]
      | s_res_or_resp_H \<Rightarrow> [s_res_HT, s_req_method]
      | s_start_res \<Rightarrow> [s_start_res, s_res_H]
      | s_res_H \<Rightarrow> [s_res_HT]
      | s_res_HT \<Rightarrow> [s_res_HTT]
      | s_res_HTT \<Rightarrow> [s_res_HTTP]
      | s_res_HTTP \<Rightarrow> [s_res_first_http_major]
      | s_res_first_http_major \<Rightarrow> [s_res_http_major]
      | s_res_http_major \<Rightarrow> [s_res_http_major, s_res_first_http_minor]
      | s_res_first_http_minor \<Rightarrow> [s_res_http_minor]
      | s_res_http_minor \<Rightarrow> [s_res_http_minor, s_res_first_status_code]
      | s_res_first_status_code \<Rightarrow> [s_res_first_status_code, s_res_status_code]
      | s_res_status_code \<Rightarrow>
          [s_res_status_code, s_res_status, s_res_line_almost_done, s_header_field_start]
      | s_res_status \<Rightarrow> [s_res_status, s_res_line_almost_done, s_header_field_start]
      | s_res_line_almost_done \<Rightarrow> [s_header_field_start]
      | s_start_req \<Rightarrow> [s_start_req, s_req_method]
      | s_req_method \<Rightarrow> [s_req_method, s_req_spaces_before_url]
      | s_req_spaces_before_url \<Rightarrow> s_req_spaces_before_url # url_states
      | s_req_schema \<Rightarrow> url_states
      | s_req_schema_slash \<Rightarrow> url_states
      | s_req_schema_slash_slash \<Rightarrow> url_states
      | s_req_server_start \<Rightarrow> url_states
      | s_req_server \<Rightarrow> url_states @ [s_req_http_start, s_req_line_almost_done, s_header_field_start]
      | s_req_server_with_at \<Rightarrow>
          url_states @ [s_req_http_start, s_req_line_almost_done, s_header_field_start]
      | s_req_path \<Rightarrow> url_states @ [s_req_http_start, s_req_line_almost_done, s_header_field_start]
      | s_req_query_string_start \<Rightarrow>
          url_states @ [s_req_http_start, s_req_line_almost_done, s_header_field_start]
      | s_req_query_string \<Rightarrow>
          url_states @ [s_req_http_start, s_req_line_almost_done, s_header_field_start]
      | s_req_fragment_start \<Rightarrow>
          url_states @ [s_req_http_start, s_req_line_almost_done, s_header_field_start]
      | s_req_fragment \<Rightarrow>
          url_states @ [s_req_http_start, s_req_line_almost_done, s_header_field_start]
      | s_req_http_start \<Rightarrow> [s_req_http_start, s_req_http_H]
      | s_req_http_H \<Rightarrow> [s_req_http_HT]
      | s_req_http_HT \<Rightarrow> [s_req_http_HTT]
      | s_req_http_HTT \<Rightarrow> [s_req_http_HTTP]
      | s_req_http_HTTP \<Rightarrow> [s_req_first_http_major]
      | s_req_first_http_major \<Rightarrow> [s_req_http_major]
      | s_req_http_major \<Rightarrow> [s_req_http_major, s_req_first_http_minor]
      | s_req_first_http_minor \<Rightarrow> [s_req_http_minor]
      | s_req_http_minor \<Rightarrow> [s_req_http_minor, s_req_line_almost_done, s_header_field_start]
      | s_req_line_almost_done \<Rightarrow> [s_header_field_start]
      | s_header_field_start \<Rightarrow> [s_headers_almost_done, s_header_field]
      | s_header_field \<Rightarrow>
          [s_header_field, s_header_value_start, s_header_almost_done, s_header_field_start]
      | s_header_value_start \<Rightarrow>
          [s_header_value_start, s_header_value, s_header_almost_done, s_header_field_start]
      | s_header_value \<Rightarrow> [s_header_value, s_header_almost_done]
      | s_header_value_lws \<Rightarrow> [s_header_value_start, s_header_field_start]
      | s_header_almost_done \<Rightarrow> [s_header_value_lws]
      | s_chunk_size_start \<Rightarrow> [s_chunk_size]
      | s_chunk_size \<Rightarrow> [s_chunk_size, s_chunk_parameters, s_chunk_size_almost_done]
      | s_chunk_parameters \<Rightarrow> [s_chunk_parameters, s_chunk_size_almost_done]
      | s_chunk_size_almost_done \<Rightarrow> [s_header_field_start, s_chunk_data]
      | s_headers_almost_done \<Rightarrow> s_headers_done # message
      | s_headers_done \<Rightarrow> [s_chunk_size_start, s_body_identity, s_body_identity_eof] @ message
      | s_chunk_data \<Rightarrow> [s_chunk_data, s_chunk_data_almost_done]
      | s_chunk_data_almost_done \<Rightarrow> [s_chunk_data_done]
      | s_chunk_data_done \<Rightarrow> [s_chunk_size_start]
      | s_body_identity \<Rightarrow> [s_body_identity, s_message_done]
      | s_body_identity_eof \<Rightarrow> [s_body_identity_eof]
      | s_message_done \<Rightarrow> message)"

lemma parse_url_char_alive:
  "parse_url_char s ch \<noteq> s_dead \<Longrightarrow> parse_url_char s ch \<in> set url_states"
  using parse_url_char_range [of s ch] by auto

lemma NEW_MESSAGE_req:
  "NEW_MESSAGE p \<noteq> s_dead \<Longrightarrow> NEW_MESSAGE p \<noteq> s_start_res \<Longrightarrow> NEW_MESSAGE p = s_start_req"
  using NEW_MESSAGE_cases [of p] by simp

lemma header_states_next:
  "on_header_field p ch = (p', a) \<Longrightarrow> state p = s_header_field \<Longrightarrow> \<not> action_errors a \<Longrightarrow>
     action_safe a \<Longrightarrow>
     state p' \<in> set [s_header_field, s_header_value_start, s_header_almost_done, s_header_field_start]"
  "on_header_value_start p ch = (p', a) \<Longrightarrow> state p = s_header_value_start \<Longrightarrow>
     state p' \<in> set [s_header_value_start, s_header_value, s_header_almost_done, s_header_field_start]"
  "on_header_value p ch = (p', a) \<Longrightarrow> state p = s_header_value \<Longrightarrow>
     state p' \<in> set [s_header_value, s_header_almost_done]"
    apply (auto simp: on_header_field_def Let_def header_field_match_frame split: if_splits option.splits) [1]
   apply (auto simp: on_header_value_start_def Let_def split: if_splits hstate.splits) [1]
  apply (auto simp: on_header_value_def header_value_match_state split: if_splits)
  done

lemma handle_state_next:
  assumes "handle_state p ch = (p', a)" and "\<not> action_errors a" and "action_safe a"
  shows "state p' \<in> set (next_states (state p))"
proof (cases "state p \<in> {s_header_field, s_header_value_start, s_header_value}")
  case True
  with assms header_states_next [of p ch p' a] show ?thesis
    by (auto simp: handle_state_def next_states_def Let_def)
next
  case False
  with assms show ?thesis
    by (cases "state p")
     (auto simp: handle_state_def on_state_defs Let_def next_states_def parse_url_char_alive
       intro: NEW_MESSAGE_req
       split: if_splits option.splits prod.splits)
qed


lemma next_states_other:
  assumes "s \<notin> set (s_headers_done # s_body_identity # chunk_states)" and "t \<in> set (next_states s)"
  shows "t \<notin> set (s_body_identity # chunk_states)"
  using assms by (cases s) (auto simp: chunk_states_def next_states_def url_states_def Let_def)

section \<open>Every case keeps the invariants\<close>

lemma chunk_ok_other: "state p \<notin> set (s_body_identity # chunk_states) \<Longrightarrow> chunk_ok n p"
  by (auto simp: chunk_ok_def chunk_states_def length_states_def)

lemma on_headers_done_chunk:
  "on_headers_done p ch = (p', a) \<Longrightarrow> \<not> action_errors a \<Longrightarrow> state p = s_headers_done \<Longrightarrow> chunk_ok 0 p'"
  by (auto simp: on_headers_done_def strict_check_def Let_def chunk_ok_def chunk_states_def
       length_states_def split: if_splits)

lemma on_chunk_size_start_chunk:
  "on_chunk_size_start p ch = (p', a) \<Longrightarrow> \<not> action_errors a \<Longrightarrow> chunk_ok 1 p \<Longrightarrow>
     state p = s_chunk_size_start \<Longrightarrow> chunk_ok 0 p'"
  using unhex_word_neq_max [of ch]
  by (auto simp: on_chunk_size_start_def Let_def chunk_ok_def chunk_states_def
       length_states_def split: if_splits)

lemma on_chunk_size_chunk:
  "on_chunk_size p ch = (p', a) \<Longrightarrow> \<not> action_errors a \<Longrightarrow> chunk_ok 1 p \<Longrightarrow>
     state p = s_chunk_size \<Longrightarrow> chunk_ok 0 p'"
  by (auto simp: on_chunk_size_def Let_def chunk_ok_def chunk_states_def
       length_states_def add_digit_neq_max split: if_splits option.splits)

lemma on_chunk_rest_chunk:
  "on_chunk_parameters p ch = (p', a) \<Longrightarrow> \<not> action_errors a \<Longrightarrow> chunk_ok 1 p \<Longrightarrow>
     state p = s_chunk_parameters \<Longrightarrow> chunk_ok 0 p'"
  "on_chunk_data_almost_done p ch = (p', a) \<Longrightarrow> \<not> action_errors a \<Longrightarrow> chunk_ok 1 p \<Longrightarrow>
     state p = s_chunk_data_almost_done \<Longrightarrow> chunk_ok 0 p'"
  "on_chunk_data_done p ch = (p', a) \<Longrightarrow> \<not> action_errors a \<Longrightarrow> chunk_ok 1 p \<Longrightarrow>
     state p = s_chunk_data_done \<Longrightarrow> chunk_ok 0 p'"
  by (auto simp: on_chunk_parameters_def on_chunk_data_almost_done_def on_chunk_data_done_def
       strict_check_def chunk_ok_def chunk_states_def length_states_def split: if_splits)

lemma on_chunk_size_almost_done_chunk:
  "on_chunk_size_almost_done p ch = (p', a) \<Longrightarrow> \<not> action_errors a \<Longrightarrow> chunk_ok 1 p \<Longrightarrow>
     state p = s_chunk_size_almost_done \<Longrightarrow> chunk_ok 0 p'"
  by (auto simp: on_chunk_size_almost_done_def strict_check_def Let_def chunk_ok_def
       chunk_states_def length_states_def split: if_splits)

lemmas chunk_handlers = on_headers_done_chunk on_chunk_size_start_chunk on_chunk_size_chunk
  on_chunk_rest_chunk on_chunk_size_almost_done_chunk

lemma chunk_handlers_ok:
  assumes "handle_state p ch = (p', a)" and "\<not> action_errors a" and "chunk_ok 1 p"
    and "state p \<in> set (s_headers_done # chunk_states)" and "state p \<noteq> s_chunk_data"
  shows "chunk_ok 0 p'"
  using assms
  by (cases "state p") (simp_all add: chunk_states_def handle_state_def chunk_handlers)

lemma handle_state_chunk_ok:
  assumes "handle_state p ch = (p', a)" and "\<not> action_errors a" and "action_safe a" and "chunk_ok 1 p"
    and "state p \<noteq> s_chunk_data" and "state p \<noteq> s_body_identity"
  shows "chunk_ok 0 p'"
proof (cases "state p \<in> set (s_headers_done # chunk_states)")
  case True
  with assms show ?thesis by (intro chunk_handlers_ok) auto
next
  case False
  with handle_state_next [OF assms(1-3)] assms(6) next_states_other [of "state p" "state p'"]
  show ?thesis by (intro chunk_ok_other) auto
qed

lemma next_states_into:
  assumes "t \<in> set (next_states s)"
  shows "t = s_header_field \<Longrightarrow> s = s_header_field_start \<or> s = s_header_field"
    and "t = s_header_value \<Longrightarrow> s = s_header_value_start \<or> s = s_header_value"
    and "t = s_req_method \<Longrightarrow> s = s_res_or_resp_H \<or> s = s_start_req \<or> s = s_req_method"
  using assms by (cases s; simp add: next_states_def url_states_def Let_def; fail)+

lemma header_handlers_ok:
  "on_header_field_start p ch = (p', a) \<Longrightarrow> \<not> action_errors a \<Longrightarrow> header_ok p'"
  "on_header_field p ch = (p', a) \<Longrightarrow> \<not> action_errors a \<Longrightarrow> state p = s_header_field \<Longrightarrow>
     header_ok p \<Longrightarrow> header_ok p'"
  "on_header_value_start p ch = (p', a) \<Longrightarrow> \<not> action_errors a \<Longrightarrow> state p = s_header_value_start \<Longrightarrow>
     header_ok p'"
  "on_header_value p ch = (p', a) \<Longrightarrow> \<not> action_errors a \<Longrightarrow> state p = s_header_value \<Longrightarrow>
     header_ok p \<Longrightarrow> header_ok p'"
     apply (auto simp: on_header_field_start_def header_ok_def field_hstates_def Let_def
        split: if_splits) [1]
    apply (auto simp: on_header_field_def header_ok_def Let_def header_field_match_frame
        split: if_splits option.splits) [1]
   apply (auto simp: on_header_value_start_def header_ok_def Let_def split: if_splits hstate.splits) [1]
  apply (auto simp: on_header_value_def header_value_match_def match_step_def header_ok_def Let_def
      split: if_splits hstate.splits option.splits)
  done

lemma handle_state_header_ok:
  assumes "handle_state p ch = (p', a)" and "\<not> action_errors a" and "action_safe a" and "header_ok p"
  shows "header_ok p'"
proof (cases "state p' = s_header_field \<or> state p' = s_header_value")
  case True
  with next_states_into [OF handle_state_next [OF assms(1-3)]]
  have "state p \<in> {s_header_field_start, s_header_field, s_header_value_start, s_header_value}"
    by blast
  with assms show ?thesis
    by (auto simp: handle_state_def intro: header_handlers_ok)
next
  case False
  then show ?thesis by (auto simp: header_ok_def)
qed

lemma handle_state_method_ok:
  assumes "handle_state p ch = (p', a)" and "\<not> action_errors a" and "action_safe a" and "method_ok p"
  shows "method_ok p'"
proof (cases "state p' = s_req_method")
  case True
  with next_states_into(3) [OF handle_state_next [OF assms(1-3)]]
  consider "state p = s_res_or_resp_H" | "state p = s_start_req" | "state p = s_req_method"
    by blast
  then show ?thesis
  proof cases
    case 3
    let ?i = "unat (pindex p)"
    have "?i \<le> 11"
      using assms(4) method_string_length [of "pmethod p"] 3 by (auto simp: method_ok_def)
    then have i: "unat (pindex p + 1) = Suc ?i"
      by (simp add: unat_word_ariths)
    show ?thesis
      using assms 3 switch_method_index i True
      by (auto simp: handle_state_def on_req_method_def method_ok_def cstr_at_def
          split: if_splits option.splits)
  qed (use assms in \<open>auto simp: handle_state_def on_res_or_resp_H_def on_start_req_def
        first_method_def method_ok_def Let_def split: if_splits\<close>)
next
  case False
  then show ?thesis by (simp add: method_ok_def)
qed

lemma version_ok_cong:
  "http_major p' = http_major p \<Longrightarrow> http_minor p' = http_minor p \<Longrightarrow> status_code p' = status_code p \<Longrightarrow>
     version_ok p' = version_ok p"
  by (simp add: version_ok_def)

lemma match_step_frame [simp]:
  "http_major (match_step s h p c) = http_major p" "http_minor (match_step s h p c) = http_minor p"
  "status_code (match_step s h p c) = status_code p"
  by (simp_all add: match_step_def Let_def)

lemma first_digit_le_999: "48 \<le> code c \<Longrightarrow> code c \<le> 57 \<Longrightarrow> (digit c :: u16) \<le> 999"
  by (rule digit_le_999) (simp add: IS_NUM_def)

lemma version_handlers_ok:
  "on_res_first_http_major p ch = (p', a) \<Longrightarrow> version_ok p \<Longrightarrow> version_ok p'"
  "on_req_first_http_major p ch = (p', a) \<Longrightarrow> version_ok p \<Longrightarrow> version_ok p'"
  "on_http_major s p ch = (p', a) \<Longrightarrow> \<not> action_errors a \<Longrightarrow> version_ok p \<Longrightarrow> version_ok p'"
  "on_first_http_minor s p ch = (p', a) \<Longrightarrow> version_ok p \<Longrightarrow> version_ok p'"
  "on_res_http_minor p ch = (p', a) \<Longrightarrow> \<not> action_errors a \<Longrightarrow> version_ok p \<Longrightarrow> version_ok p'"
  "on_req_http_minor p ch = (p', a) \<Longrightarrow> \<not> action_errors a \<Longrightarrow> version_ok p \<Longrightarrow> version_ok p'"
  "on_res_first_status_code p ch = (p', a) \<Longrightarrow> version_ok p \<Longrightarrow> version_ok p'"
  "on_res_status_code p ch = (p', a) \<Longrightarrow> \<not> action_errors a \<Longrightarrow> version_ok p \<Longrightarrow> version_ok p'"
  "on_req_url p ch = (p', a) \<Longrightarrow> version_ok p \<Longrightarrow> version_ok p'"
  by (auto simp: on_res_first_http_major_def on_req_first_http_major_def on_http_major_def
      on_first_http_minor_def on_res_http_minor_def on_req_http_minor_def http_minor_digit_def
      on_res_first_status_code_def on_res_status_code_def on_req_url_def url_step_def Let_def
      version_ok_def first_digit_le_999 digit_le_999 linorder_not_less split: if_splits)

definition version_states :: "pstate list" where
  "version_states = [s_res_first_http_major, s_res_http_major, s_res_first_http_minor,
     s_res_http_minor, s_res_first_status_code, s_res_status_code, s_req_first_http_major,
     s_req_http_major, s_req_first_http_minor, s_req_http_minor, s_req_server,
     s_req_server_with_at, s_req_path, s_req_query_string_start, s_req_query_string,
     s_req_fragment_start, s_req_fragment]"

lemma header_value_frame:
  "header_value_match p ch = (p', a) \<Longrightarrow>
     http_major p' = http_major p \<and> http_minor p' = http_minor p \<and> status_code p' = status_code p"
  "on_header_value_start p ch = (p', a) \<Longrightarrow>
     http_major p' = http_major p \<and> http_minor p' = http_minor p \<and> status_code p' = status_code p"
   apply (auto simp: header_value_match_def split: if_splits option.splits hstate.splits) [1]
  apply (auto simp: on_header_value_start_def Let_def split: if_splits hstate.splits)
  done

lemma version_frame:
  assumes "handle_state p ch = (p', a)" and "state p \<notin> set version_states"
  shows "http_major p' = http_major p \<and> http_minor p' = http_minor p \<and> status_code p' = status_code p"
proof (cases "state p = s_header_value_start \<or> state p = s_header_value")
  case True
  with assms header_value_frame [of p ch p' a] show ?thesis
    by (auto simp: handle_state_def on_header_value_def split: if_splits)
next
  case False
  with assms show ?thesis
  by (cases "state p")
     (auto simp: version_states_def handle_state_def on_state_defs Let_def header_field_match_frame
       split: if_splits option.splits prod.splits)
qed

lemma handle_state_version_ok:
  assumes "handle_state p ch = (p', a)" and "\<not> action_errors a" and "version_ok p"
  shows "version_ok p'"
proof (cases "state p \<in> set version_states")
  case True
  with assms show ?thesis
    by (auto simp: version_states_def handle_state_def intro: version_handlers_ok)
next
  case False
  with version_frame [OF assms(1)] assms(3) show ?thesis
    by (metis version_ok_cong)
qed

lemma handle_state_safe:
  assumes "handle_state p ch = (p', a)" and "chunk_ok 1 p" and "header_ok p" and "method_ok p"
    and "state p \<notin> {s_body_identity, s_body_identity_eof, s_chunk_data}"
  shows "action_safe a"
  using assms
  by (cases "state p")
     (auto simp: handle_state_def on_state_defs Let_def chunk_ok_def chunk_states_def header_ok_def
        method_ok_def header_value_match_def cstr_at_def dest: header_field_match_defined
       split: if_splits option.splits prod.splits hstate.splits)

section \<open>The marks\<close>

text \<open>The fields that are marked after an action, given those marked before.\<close>

fun mark_after :: "action \<Rightarrow> dkind set \<Rightarrow> dkind set" where
  "mark_after (A_mark k a) M = mark_after a (insert k M)"
| "mark_after (A_data k a) M = mark_after a (M - {k})"
| "mark_after (A_data_noadvance k a) M = mark_after a (M - {k})"
| "mark_after (A_notify k a) M = mark_after a M"
| "mark_after _ M = M"

definition state_marks :: "pstate \<Rightarrow> dkind set" where
  "state_marks s =
     (if s = s_header_field then {D_header_field}
      else if s = s_header_value then {D_header_value}
      else if s \<in> set url_states then {D_url} else {})"

definition body_states :: "pstate list" where
  "body_states = [s_body_identity, s_body_identity_eof, s_chunk_data, s_chunk_data_almost_done]"

definition marks_match :: "pstate \<Rightarrow> dkind set \<Rightarrow> bool" where
  "marks_match s M \<longleftrightarrow> M = state_marks s \<or> M = {D_body} \<and> s \<in> set body_states"

lemma marks_match_plain: "s \<notin> set body_states \<Longrightarrow> marks_match s M \<longleftrightarrow> M = state_marks s"
  by (auto simp: marks_match_def)

lemma marks_match_url: "s \<in> set url_states \<Longrightarrow> marks_match s M \<longleftrightarrow> M = {D_url}"
  by (auto simp: marks_match_def body_states_def state_marks_def url_states_def)

lemma marks_match_simps [simp]:
  "marks_match (NEW_MESSAGE p) M \<longleftrightarrow> M = {}"
  using NEW_MESSAGE_cases [of p]
  by (auto simp: marks_match_def body_states_def state_marks_def url_states_def)

lemmas marks_match_eval = marks_match_def state_marks_def body_states_def url_states_def

lemma marks_match_states [simp]:
  "marks_match s_dead M \<longleftrightarrow> M = {}"
  "marks_match s_start_req_or_res M \<longleftrightarrow> M = {}"
  "marks_match s_res_or_resp_H M \<longleftrightarrow> M = {}"
  "marks_match s_start_res M \<longleftrightarrow> M = {}"
  "marks_match s_res_H M \<longleftrightarrow> M = {}"
  "marks_match s_res_HT M \<longleftrightarrow> M = {}"
  "marks_match s_res_HTT M \<longleftrightarrow> M = {}"
  "marks_match s_res_HTTP M \<longleftrightarrow> M = {}"
  "marks_match s_res_first_http_major M \<longleftrightarrow> M = {}"
  "marks_match s_res_http_major M \<longleftrightarrow> M = {}"
  "marks_match s_res_first_http_minor M \<longleftrightarrow> M = {}"
  "marks_match s_res_http_minor M \<longleftrightarrow> M = {}"
  "marks_match s_res_first_status_code M \<longleftrightarrow> M = {}"
  "marks_match s_res_status_code M \<longleftrightarrow> M = {}"
  "marks_match s_res_status M \<longleftrightarrow> M = {}"
  "marks_match s_res_line_almost_done M \<longleftrightarrow> M = {}"
  "marks_match s_start_req M \<longleftrightarrow> M = {}"
  "marks_match s_req_method M \<longleftrightarrow> M = {}"
  "marks_match s_req_spaces_before_url M \<longleftrightarrow> M = {}"
  "marks_match s_req_schema M \<longleftrightarrow> M = {D_url}"
  "marks_match s_req_schema_slash M \<longleftrightarrow> M = {D_url}"
  "marks_match s_req_schema_slash_slash M \<longleftrightarrow> M = {D_url}"
  "marks_match s_req_server_start M \<longleftrightarrow> M = {D_url}"
  "marks_match s_req_server M \<longleftrightarrow> M = {D_url}"
  "marks_match s_req_server_with_at M \<longleftrightarrow> M = {D_url}"
  "marks_match s_req_path M \<longleftrightarrow> M = {D_url}"
  "marks_match s_req_query_string_start M \<longleftrightarrow> M = {D_url}"
  "marks_match s_req_query_string M \<longleftrightarrow> M = {D_url}"
  "marks_match s_req_fragment_start M \<longleftrightarrow> M = {D_url}"
  "marks_match s_req_fragment M \<longleftrightarrow> M = {D_url}"
  "marks_match s_req_http_start M \<longleftrightarrow> M = {}"
  "marks_match s_req_http_H M \<longleftrightarrow> M = {}"
  "marks_match s_req_http_HT M \<longleftrightarrow> M = {}"
  "marks_match s_req_http_HTT M \<longleftrightarrow> M = {}"
  "marks_match s_req_http_HTTP M \<longleftrightarrow> M = {}"
  "marks_match s_req_first_http_major M \<longleftrightarrow> M = {}"
  "marks_match s_req_http_major M \<longleftrightarrow> M = {}"
  "marks_match s_req_first_http_minor M \<longleftrightarrow> M = {}"
  "marks_match s_req_http_minor M \<longleftrightarrow> M = {}"
  "marks_match s_req_line_almost_done M \<longleftrightarrow> M = {}"
  "marks_match s_header_field_start M \<longleftrightarrow> M = {}"
  "marks_match s_header_field M \<longleftrightarrow> M = {D_header_field}"
  "marks_match s_header_value_start M \<longleftrightarrow> M = {}"
  "marks_match s_header_value M \<longleftrightarrow> M = {D_header_value}"
  "marks_match s_header_value_lws M \<longleftrightarrow> M = {}"
  "marks_match s_header_almost_done M \<longleftrightarrow> M = {}"
  "marks_match s_chunk_size_start M \<longleftrightarrow> M = {}"
  "marks_match s_chunk_size M \<longleftrightarrow> M = {}"
  "marks_match s_chunk_parameters M \<longleftrightarrow> M = {}"
  "marks_match s_chunk_size_almost_done M \<longleftrightarrow> M = {}"
  "marks_match s_headers_almost_done M \<longleftrightarrow> M = {}"
  "marks_match s_headers_done M \<longleftrightarrow> M = {}"
  "marks_match s_chunk_data M \<longleftrightarrow> M = {} \<or> M = {D_body}"
  "marks_match s_chunk_data_almost_done M \<longleftrightarrow> M = {} \<or> M = {D_body}"
  "marks_match s_chunk_data_done M \<longleftrightarrow> M = {}"
  "marks_match s_body_identity M \<longleftrightarrow> M = {} \<or> M = {D_body}"
  "marks_match s_body_identity_eof M \<longleftrightarrow> M = {} \<or> M = {D_body}"
  "marks_match s_message_done M \<longleftrightarrow> M = {}"
  by (auto simp: marks_match_eval)

lemma header_value_match_break:
  "header_value_match p ch = (p', a) \<Longrightarrow> action_safe a \<Longrightarrow> \<not> action_errors a \<Longrightarrow> a = A_break"
  by (auto simp: header_value_match_def Let_def split: if_splits hstate.splits option.splits)

lemma header_field_marks:
  assumes "on_header_field p ch = (p', a)" and "\<not> action_errors a" and "action_safe a"
    and "state p = s_header_field" and "M = {D_header_field}"
  shows "marks_match (state p') (mark_after a M)"
  using assms
  by (auto simp: on_header_field_def Let_def header_field_match_frame
      split: if_splits option.splits)

lemma header_value_start_marks:
  assumes "on_header_value_start p ch = (p', a)" and "\<not> action_errors a" and "action_safe a"
    and "state p = s_header_value_start" and "M = {}"
  shows "marks_match (state p') (mark_after a M)"
proof (cases "ch \<in> {SP, HT, CR, LF}")
  case True
  with assms show ?thesis by (auto simp: on_header_value_start_def Let_def split: if_splits)
next
  case False
  with assms have "a = A_mark D_header_value A_break" and "state p' = s_header_value"
    by (auto simp: on_header_value_start_def Let_def split: if_splits hstate.splits)
  with assms show ?thesis by simp
qed

lemma header_value_marks:
  assumes "on_header_value p ch = (p', a)" and "\<not> action_errors a" and "action_safe a"
    and "state p = s_header_value" and "M = {D_header_value}"
  shows "marks_match (state p') (mark_after a M)"
  using assms
  by (auto simp: on_header_value_def header_value_match_state
      dest: header_value_match_break split: if_splits)

lemma url_step_marks:
  assumes "url_step p ch = (p', a)" and "\<not> action_errors a"
  shows "a = A_break" and "state p' \<in> set url_states"
  using assms parse_url_char_alive [of "state p" ch]
  by (auto simp: url_step_def Let_def split: if_splits)

lemma on_req_url_marks:
  assumes "on_req_url p ch = (p', a)" and "\<not> action_errors a" and "M = {D_url}"
  shows "marks_match (state p') (mark_after a M)"
proof (cases "ch = SP \<or> ch = CR \<or> ch = LF")
  case True
  with assms show ?thesis
    by (auto simp: on_req_url_def Let_def split: if_splits)
next
  case False
  with assms url_step_marks [of p ch p' a] show ?thesis
    by (simp add: on_req_url_def marks_match_url)
qed

lemma on_req_schema_marks:
  assumes "on_req_schema p ch = (p', a)" and "\<not> action_errors a" and "M = {D_url}"
  shows "marks_match (state p') (mark_after a M)"
  using assms url_step_marks [of p ch p' a]
  by (auto simp: on_req_schema_def marks_match_url split: if_splits)

lemma on_req_spaces_marks:
  assumes "on_req_spaces_before_url p ch = (p', a)" and "\<not> action_errors a"
    and "M = {}" and "state p = s_req_spaces_before_url"
  shows "marks_match (state p') (mark_after a M)"
proof (cases "ch = SP")
  case True
  with assms show ?thesis by (auto simp: on_req_spaces_before_url_def)
next
  case False
  with assms obtain q b where "url_step q ch = (p', b)" and "a = A_mark D_url b"
    by (auto simp: on_req_spaces_before_url_def Let_def split: prod.splits)
  with assms url_step_marks [of q ch p' b] show ?thesis
    by (simp add: marks_match_url)
qed

lemma handle_state_marks:
  assumes "handle_state p ch = (p', a)" and "\<not> action_errors a" and "action_safe a"
    and "marks_match (state p) M"
    and "state p \<notin> {s_body_identity, s_body_identity_eof, s_chunk_data}"
  shows "marks_match (state p') (mark_after a M)"
proof -
  consider (h) "state p \<in> {s_header_field, s_header_value_start, s_header_value}"
    | (u) "state p \<in> set url_states" | (s) "state p = s_req_spaces_before_url"
    | (o) "state p \<notin> set (url_states @ [s_header_field, s_header_value_start, s_header_value,
         s_req_spaces_before_url])"
    by auto
  then show ?thesis
  proof cases
    case h
    with assms show ?thesis
      by (auto simp: handle_state_def intro: header_field_marks header_value_start_marks header_value_marks)
  next
    case u
    then have "handle_state p ch = on_req_url p ch \<or> handle_state p ch = on_req_schema p ch"
      by (auto simp: url_states_def handle_state_def)
    with assms u on_req_url_marks [of p ch p' a M] on_req_schema_marks [of p ch p' a M]
    show ?thesis by (auto simp: marks_match_url)
  next
    case s
    with assms show ?thesis
      by (intro on_req_spaces_marks) (auto simp: handle_state_def)
  next
    case o
    with assms show ?thesis
      by (cases "state p")
        (auto simp: handle_state_def on_state_defs Let_def url_states_def
          split: if_splits option.splits prod.splits)
  qed
qed

end
