(* ===== verification/HttpInvariant.thy ===== *)
theory HttpInvariant
  imports HttpSafety
begin

text \<open>
  The invariants of \<open>HttpSafety\<close> hold through a byte, the loop and whole calls, and so for every
  parser a client can reach: no assertion fails, at most one mark is left at the end of a
  buffer, and no call takes more bytes than it was given.
\<close>

section \<open>The invariant of the loop\<close>

definition parser_ok :: "u32 \<Rightarrow> http_parser \<Rightarrow> bool" where
  "parser_ok n p \<longleftrightarrow> chunk_ok n p \<and> header_ok p \<and> method_ok p \<and> version_ok p"

definition ctx_ok :: "u32 \<Rightarrow> 'u ctx \<Rightarrow> bool" where
  "ctx_ok n c \<longleftrightarrow>
     http_errno (parser c) = HPE_OK \<and> parser_ok n (parser c) \<and>
     marks_match (state (parser c)) (dom (marks c))"

text \<open>What holds when a call returns \<open>n\<close> for a buffer of \<open>len\<close> bytes.\<close>

definition return_ok :: "nat \<Rightarrow> http_parser \<Rightarrow> nat \<Rightarrow> bool" where
  "return_ok len p n \<longleftrightarrow>
     n \<le> len \<and> (http_errno p = HPE_OK \<longrightarrow> n = len \<or> upgrade p) \<and>
     (http_errno p = HPE_OK \<or> http_errno p = HPE_PAUSED \<longrightarrow> parser_ok 0 p)"

definition outcome_ok :: "nat \<Rightarrow> 'u outcome \<Rightarrow> bool" where
  "outcome_ok len out =
     (case out of
        Break c \<Rightarrow> ctx_ok 0 c
      | Reexecute c \<Rightarrow> ctx_ok 0 c
      | Return c n \<Rightarrow> return_ok len (parser c) n
      | Abort \<Rightarrow> False)"

fun action_returns :: "action \<Rightarrow> bool" where
  "action_returns A_return_advance = True"
| "action_returns (A_mark k a) = action_returns a"
| "action_returns (A_data k a) = action_returns a"
| "action_returns (A_data_noadvance k a) = action_returns a"
| "action_returns (A_notify k a) = action_returns a"
| "action_returns _ = False"

lemma outcome_ok_simps [simp]:
  "outcome_ok len (Break c) = ctx_ok 0 c" "outcome_ok len (Reexecute c) = ctx_ok 0 c"
  "outcome_ok len (Return c n) = return_ok len (parser c) n" "outcome_ok len Abort = False"
  by (simp_all add: outcome_ok_def)

lemma parser_ok_set_errno [simp]: "parser_ok n (set_errno e p) = parser_ok n p"
  by (auto simp: parser_ok_def set_errno_def chunk_ok_def header_ok_def method_ok_def
      version_ok_def flag_set_def)

lemma parser_ok_after_callback [simp]: "parser_ok n (after_callback r z e p) = parser_ok n p"
  by (simp add: after_callback_def Let_def)

lemma parser_ok_set_flag: "parser_ok n p \<Longrightarrow> parser_ok n (set_flag f p)"
  by (auto simp: parser_ok_def chunk_ok_def header_ok_def method_ok_def version_ok_def
      flag_set_set_flag)

lemma upgrade_frame [simp]:
  "http_errno (set_errno e p) = e" "state (set_errno e p) = state p"
  "upgrade (set_errno e p) = upgrade p" "upgrade (after_callback r z e p) = upgrade p"
  by (simp_all add: set_errno_def after_callback_def Let_def)

lemma after_callback_OK:
  "http_errno p = HPE_OK \<Longrightarrow> e \<noteq> HPE_OK \<Longrightarrow> http_errno (after_callback r z e p) = HPE_OK \<Longrightarrow>
     r = 0 \<and> \<not> z \<and> after_callback r z e p = p"
  by (cases p) (auto simp: after_callback_def set_errno_def Let_def split: if_splits)

lemma cb_errno_neq [simp]: "data_errno k \<noteq> HPE_OK" "notify_errno j \<noteq> HPE_OK"
  by (cases k; simp) (cases j; simp)

lemma dom_fun_upd_None: "dom (m(k := None)) = dom m - {k}"
  by auto

lemma CALLBACK_DATA_ok:
  assumes "http_errno (parser c) = HPE_OK" and "parser_ok 0 (parser c)" and "er \<le> len"
    and "\<And>c'. parser c' = parser c \<Longrightarrow> pos c' = pos c \<Longrightarrow> dom (marks c') = dom (marks c) - {k} \<Longrightarrow>
           outcome_ok len (cont c')"
  shows "outcome_ok len (CALLBACK_DATA st d k stop er cont c)"
proof (cases "marks c k")
  case None
  then have "outcome_ok len (cont c)" by (intro assms(4)) auto
  with None assms(1) show ?thesis by (simp add: CALLBACK_DATA_def)
next
  case (Some m)
  obtain r z u where r: "run_data st k (parser c) (bytes_at d m (stop - m)) (user c) = (r, z, u)"
    by (cases "run_data st k (parser c) (bytes_at d m (stop - m)) (user c)")
  let ?c = "c\<lparr>parser := after_callback r z (data_errno k) (parser c), user := u\<rparr>"
  show ?thesis
  proof (cases "http_errno (parser ?c) = HPE_OK")
    case True
    with assms(1) have "parser ?c = parser c"
      by (simp add: after_callback_OK)
    with Some r assms(1) True assms(4) [of "?c\<lparr>marks := (marks ?c)(k := None)\<rparr>"]
    show ?thesis by (simp add: CALLBACK_DATA_def dom_fun_upd_None)
  next
    case False
    with Some r assms(1-3) show ?thesis
      by (simp add: CALLBACK_DATA_def Let_def return_ok_def)
  qed
qed

lemma CALLBACK_NOTIFY_ok:
  assumes "http_errno (parser c) = HPE_OK" and "parser_ok 0 (parser c)" and "er \<le> len"
    and "\<And>c'. parser c' = parser c \<Longrightarrow> pos c' = pos c \<Longrightarrow> marks c' = marks c \<Longrightarrow>
           outcome_ok len (cont c')"
  shows "outcome_ok len (CALLBACK_NOTIFY st k er cont c)"
proof -
  obtain r z u where r: "run_notify st k (parser c) (user c) = (r, z, u)"
    by (cases "run_notify st k (parser c) (user c)")
  let ?c = "c\<lparr>parser := after_callback r z (notify_errno k) (parser c), user := u\<rparr>"
  show ?thesis
  proof (cases "http_errno (parser ?c) = HPE_OK")
    case True
    with assms(1) have "parser ?c = parser c"
      by (simp add: after_callback_OK)
    with r assms(1) True assms(4) [of ?c] show ?thesis
      by (simp add: CALLBACK_NOTIFY_def)
  next
    case False
    with r assms(1-3) show ?thesis
      by (simp add: CALLBACK_NOTIFY_def Let_def return_ok_def)
  qed
qed

lemma headers_complete_call_ok:
  assumes "ctx_ok 0 c" and "pos c \<le> len"
  shows "outcome_ok len (headers_complete_call st c)"
  using assms
  by (auto simp: headers_complete_call_def Let_def ctx_ok_def return_ok_def parser_ok_set_flag
      split: if_splits prod.splits)

lemma MARK_dom [simp]: "dom (marks (MARK k c)) = insert k (dom (marks c))"
  by (auto simp: MARK_def split: option.splits)


lemma error_action_ok:
  "action_errors a \<Longrightarrow> action_safe a \<Longrightarrow> pos c \<le> len \<Longrightarrow> outcome_ok len (run_action st d a c)"
  by (induction a arbitrary: c) (auto simp: goto_error_def return_ok_def)

lemma run_action_ok:
  assumes "action_safe a" and "\<not> action_errors a" and "http_errno (parser c) = HPE_OK"
    and "parser_ok 0 (parser c)" and "marks_match (state (parser c)) (mark_after a (dom (marks c)))"
    and "pos c < length d" and "action_returns a \<longrightarrow> upgrade (parser c)"
  shows "outcome_ok (length d) (run_action st d a c)"
  using assms
proof (induction a arbitrary: c)
  case (A_mark k a)
  show ?case
    using A_mark.prems by (auto intro!: A_mark.IH)
next
  case (A_data k a)
  then show ?case
    by (auto intro!: CALLBACK_DATA_ok A_data.IH)
next
  case (A_data_noadvance k a)
  then show ?case
    by (auto intro!: CALLBACK_DATA_ok A_data_noadvance.IH)
next
  case (A_notify k a)
  then show ?case
    by (auto intro!: CALLBACK_NOTIFY_ok A_notify.IH)
next
  case A_headers_complete
  then show ?case
    by (auto intro!: headers_complete_call_ok simp: ctx_ok_def)
qed (auto simp: ctx_ok_def return_ok_def)

lemma unat_minus_of_nat:
  "n \<le> unat (w :: 'a::len word) \<Longrightarrow> unat (w - of_nat n) = unat w - n"
  by (subst unat_sub) (auto simp: word_le_nat_alt le_unat_uoi)

lemma take_body_frame [simp]:
  "state (parser (take_body d c)) = state (parser c)"
  "http_errno (parser (take_body d c)) = http_errno (parser c)"
  "flags (parser (take_body d c)) = flags (parser c)"
  "dom (marks (take_body d c)) = insert D_body (dom (marks c))"
  "user (take_body d c) = user c"
  "http_major (parser (take_body d c)) = http_major (parser c)"
  "http_minor (parser (take_body d c)) = http_minor (parser c)"
  "status_code (parser (take_body d c)) = status_code (parser c)"
  "version_ok (parser (take_body d c)) = version_ok (parser c)"
  by (simp_all add: take_body_def Let_def version_ok_def)

lemma take_body_length:
  "unat (content_length (parser (take_body d c))) = unat (content_length (parser c)) - to_read d c"
  by (simp add: take_body_def Let_def to_read_def unat_minus_of_nat)

lemma take_body_length_neq_max:
  assumes "content_length (parser c) \<noteq> ULLONG_MAX"
  shows "content_length (parser (take_body d c)) \<noteq> ULLONG_MAX"
proof
  assume m: "content_length (parser (take_body d c)) = ULLONG_MAX"
  have "unat (content_length (parser c)) < unat ULLONG_MAX"
    using assms by (metis order_le_imp_less_or_eq word_less_nat_alt word_order.extremum)
  with take_body_length [of d c] m show False by simp
qed

lemma parser_ok_plain:
  "state p \<notin> set (s_header_field # s_header_value # s_req_method # s_body_identity # chunk_states) \<Longrightarrow>
     version_ok p \<Longrightarrow> parser_ok n p"
  by (simp add: parser_ok_def chunk_ok_other header_ok_def method_ok_def)

lemma on_body_identity_ok:
  assumes "ctx_ok 1 c" and "state (parser c) = s_body_identity" and "pos c < length d"
  shows "outcome_ok (length d) (on_body_identity st d c)"
proof -
  let ?c = "take_body d c"
  have len: "content_length (parser c) \<noteq> 0" "content_length (parser c) \<noteq> ULLONG_MAX"
    and v: "version_ok (parser c)" and e: "http_errno (parser c) = HPE_OK"
    and m: "insert D_body (dom (marks c)) = {D_body}"
    using assms(1,2) by (auto simp: ctx_ok_def parser_ok_def chunk_ok_def)
  have "outcome_ok (length d) (Break ?c)" if "content_length (parser ?c) \<noteq> 0"
    using that assms(2) v e m take_body_length_neq_max [OF len(2)]
    by (simp add: ctx_ok_def parser_ok_def chunk_ok_def header_ok_def method_ok_def chunk_states_def
        length_states_def)
  moreover have "outcome_ok (length d)
      (CALLBACK_DATA st d D_body (pos ?c + 1) (pos ?c) Reexecute (set_state s_message_done ?c))"
    using take_body_pos [OF len(1) assms(3)] v e m
    by (intro CALLBACK_DATA_ok)
       (auto simp: set_state_def ctx_ok_def chunk_states_def version_ok_def intro!: parser_ok_plain)
  ultimately show ?thesis
    using len by (simp add: on_body_identity_def Let_def)
qed

lemma on_body_identity_eof_ok:
  assumes "ctx_ok 1 c" and "state (parser c) = s_body_identity_eof"
  shows "outcome_ok (length d) (on_body_identity_eof d c)"
  using assms
  by (auto simp: on_body_identity_eof_def ctx_ok_def chunk_states_def parser_ok_def [of 1]
      intro!: parser_ok_plain)

lemma on_chunk_data_ok:
  assumes "ctx_ok 1 c" and "state (parser c) = s_chunk_data" and "pos c < length d"
  shows "outcome_ok (length d) (on_chunk_data d c)"
proof -
  let ?c = "take_body d c"
  have len: "content_length (parser c) \<noteq> 0" "content_length (parser c) \<noteq> ULLONG_MAX"
    and v: "version_ok (parser c)" and e: "http_errno (parser c) = HPE_OK"
    and f: "flag_set F_CHUNKED (parser c)"
    and m: "insert D_body (dom (marks c)) = {D_body}"
    using assms(1,2) by (auto simp: ctx_ok_def parser_ok_def chunk_ok_def chunk_states_def)
  have "flag_set F_CHUNKED (parser ?c)"
    using f by (simp add: flag_set_def)
  with len v e f m assms(2) take_body_length_neq_max [OF len(2)] show ?thesis
    by (auto simp: on_chunk_data_def Let_def set_state_def ctx_ok_def parser_ok_def chunk_ok_def
        header_ok_def method_ok_def version_ok_def chunk_states_def length_states_def)
qed

lemma set_header_value:
  "header_value_match p ch = (p', a) \<Longrightarrow> http_errno p' = http_errno p"
  "on_header_value_start p ch = (p', a) \<Longrightarrow> http_errno p' = http_errno p"
  "header_field_match p ch c = Some p'' \<Longrightarrow> http_errno p'' = http_errno p"
    apply (auto simp: header_value_match_def match_step_def Let_def
      split: if_splits option.splits hstate.splits) [1]
   apply (auto simp: on_header_value_start_def Let_def split: if_splits hstate.splits) [1]
  apply (auto simp: header_field_match_def match_step_def letter_step_def Let_def
        split: hstate.splits if_splits)
  done

lemma handle_state_errno:
  assumes "handle_state p ch = (p', a)"
  shows "http_errno p' = http_errno p"
proof (cases "state p = s_header_value_start \<or> state p = s_header_value")
  case True
  with assms set_header_value(1,2) [of p ch p' a] show ?thesis
    by (auto simp: handle_state_def on_header_value_def split: if_splits)
next
  case False
  with assms show ?thesis
    by (cases "state p")
       (auto simp: handle_state_def on_state_defs Let_def set_header_value(3)
         split: if_splits option.splits prod.splits)
qed

lemma header_actions_stay:
  "header_value_match p ch = (p', a) \<Longrightarrow> \<not> action_returns a"
  "on_header_value_start p ch = (p', a) \<Longrightarrow> \<not> action_returns a"
   apply (auto simp: header_value_match_def Let_def split: if_splits option.splits hstate.splits) [1]
  apply (auto simp: on_header_value_start_def Let_def split: if_splits hstate.splits)
  done

lemma handle_state_returns:
  assumes "handle_state p ch = (p', a)" and "action_returns a"
  shows "upgrade p'"
proof (cases "state p = s_header_value_start \<or> state p = s_header_value")
  case True
  with assms header_actions_stay [of p ch p' a] show ?thesis
    by (auto simp: handle_state_def on_header_value_def split: if_splits)
next
  case False
  with assms show ?thesis
    by (cases "state p")
       (auto simp: handle_state_def on_state_defs Let_def
         split: if_splits option.splits prod.splits)
qed

lemma switch_ok:
  assumes "ctx_ok 1 c" and "pos c < length d"
  shows "outcome_ok (length d) (switch st d ch c)"
proof (cases "state (parser c) \<in> {s_body_identity, s_body_identity_eof, s_chunk_data}")
  case True
  with assms show ?thesis
    by (auto simp: switch_def intro!: on_body_identity_ok on_body_identity_eof_ok on_chunk_data_ok)
next
  case False
  obtain p a where h: "handle_state (parser c) ch = (p, a)"
    by (cases "handle_state (parser c) ch")
  let ?c = "c\<lparr>parser := p\<rparr>"
  have sw: "switch st d ch c = run_action st d a ?c"
    using False h by (simp add: switch_def)
  have ok: "chunk_ok 1 (parser c)" "header_ok (parser c)" "method_ok (parser c)"
    "version_ok (parser c)" "http_errno (parser c) = HPE_OK"
    "marks_match (state (parser c)) (dom (marks c))"
    using assms(1) by (simp_all add: ctx_ok_def parser_ok_def)
  have safe: "action_safe a"
    using handle_state_safe [OF h ok(1-3)] False by simp
  show ?thesis
  proof (cases "action_errors a")
    case True
    with error_action_ok [OF True safe, of ?c "length d"] assms(2) sw show ?thesis
      by simp
  next
    case noerr: False
    have "parser_ok 0 p"
      using h noerr safe ok False
      by (simp add: parser_ok_def handle_state_chunk_ok handle_state_header_ok
          handle_state_method_ok handle_state_version_ok)
    moreover have "marks_match (state p) (mark_after a (dom (marks c)))"
      using handle_state_marks [OF h noerr safe ok(6)] False by simp
    moreover have "http_errno p = HPE_OK"
      using handle_state_errno [OF h] ok(5) by simp
    ultimately show ?thesis
      using safe noerr assms(2) handle_state_returns [OF h] by (simp add: sw run_action_ok)
  qed
qed

lemma parser_ok_any: "state p \<noteq> s_chunk_size_start \<Longrightarrow> parser_ok n p \<Longrightarrow> parser_ok m p"
  by (simp add: parser_ok_def chunk_ok_def)

lemma ctx_ok_any: "state (parser c) \<noteq> s_chunk_size_start \<Longrightarrow> ctx_ok n c \<Longrightarrow> ctx_ok m c"
  by (auto simp: ctx_ok_def intro: parser_ok_any)

lemma ranked_states:
  "0 < reexec_rank s \<Longrightarrow> s \<in> set [s_header_value_lws, s_header_field_start, s_headers_almost_done,
     s_start_req_or_res, s_header_value, s_body_identity]"
  by (simp add: reexec_rank_def split: if_splits)

lemma switch_Reexecute_state:
  assumes "switch st d ch c = Reexecute c'"
  shows "state (parser c') \<noteq> s_chunk_size_start"
proof (cases "state (parser c) = s_body_identity")
  case True
  with assms show ?thesis
    by (auto simp: switch_def on_body_identity_def CALLBACK_DATA_def Let_def
          set_state_def split: if_splits option.splits prod.splits)
next
  case False
  have "0 < reexec_rank (state (parser c))"
    using switch_Reexecute_rank [OF assms] by simp
  from ranked_states [OF this] False obtain p a
    where h: "handle_state (parser c) ch = (p, a)"
    and r: "run_action st d a (c\<lparr>parser := p\<rparr>) = Reexecute c'"
    and s: "state (parser c) \<in> set [s_header_value_lws, s_header_field_start,
       s_headers_almost_done, s_start_req_or_res, s_header_value]"
    using assms by (auto simp: switch_def split: prod.splits)
  from run_action_Reexecute [OF r] have "reexecutes a" and "state (parser c') = state p"
    by simp_all
  with h s show ?thesis
    by (auto simp: handle_state_def on_state_defs Let_def header_value_match_state
        split: if_splits option.splits prod.splits)
qed

lemma exec_byte_ok:
  "ctx_ok 1 c \<Longrightarrow> pos c < length d \<Longrightarrow> outcome_ok (length d) (exec_byte st d ch c)"
proof (induction st d ch c rule: exec_byte.induct)
  case (1 st d ch c)
  note sw = switch_ok [OF 1(2,3), of st ch]
  show ?case
  proof (cases "switch st d ch c")
    case (Reexecute c')
    have "ctx_ok 1 c'"
      using sw Reexecute switch_Reexecute_state [OF Reexecute] by (simp add: ctx_ok_any)
    moreover have "pos c' < length d"
      using switch_pos [of st d ch c c'] Reexecute 1(3) by simp
    ultimately show ?thesis
      using 1(1) [OF Reexecute] Reexecute by (simp add: exec_byte.simps [of st d ch c])
  qed (use sw in \<open>simp_all add: exec_byte.simps [of st d ch c]\<close>)
qed

lemma count_byte_ok: "ctx_ok 0 c \<Longrightarrow> ctx_ok 1 (count_byte c)"
  by (auto simp: ctx_ok_def count_byte_def parser_ok_def chunk_ok_def header_ok_def method_ok_def
      version_ok_def flag_set_def parsing_header_def less_eq_pstate_def)

lemma pos_count_byte [simp]: "pos (count_byte c) = pos c"
  by (simp add: count_byte_def)

definition result_ok :: "nat \<Rightarrow> 'u result \<Rightarrow> bool" where
  "result_ok len r = (case r of Returned p u n \<Rightarrow> return_ok len p n | Aborted \<Rightarrow> False)"

lemma outcome_result_ok:
  "outcome_ok len (Return c n) \<Longrightarrow> result_ok len (outcome_result (Return c n))"
  by (simp add: outcome_result_def result_ok_def)

lemma marks_left_le_1: "ctx_ok n c \<Longrightarrow> marks_left c \<le> 1"
  by (auto simp: ctx_ok_def marks_match_def state_marks_def marks_left_def dom_def
      split: if_splits)

definition leaves :: "'u outcome \<Rightarrow> bool" where
  "leaves out \<longleftrightarrow> (case out of Break c \<Rightarrow> False | Reexecute c \<Rightarrow> False | _ \<Rightarrow> True)"

lemma leaves_simps [simp]:
  "leaves (Return c n)" "leaves Abort" "\<not> leaves (Break c)" "\<not> leaves (Reexecute c)"
  by (simp_all add: leaves_def)

lemma CALLBACK_DATA_leaves:
  "(\<And>c. leaves (cont c)) \<Longrightarrow> leaves (CALLBACK_DATA st d k stop er cont c)"
  by (auto simp: CALLBACK_DATA_def Let_def split: option.split prod.split)

lemma finish_buffer_leaves: "leaves (finish_buffer st d c)"
  by (simp add: finish_buffer_def Let_def CALLBACK_DATA_leaves)

lemma finish_buffer_ok:
  assumes "ctx_ok 0 c" and "pos c = length d"
  shows "\<exists>c' n. finish_buffer st d c = Return c' n \<and> return_ok (length d) (parser c') n"
proof -
  have ok: "outcome_ok (length d) (finish_buffer st d c)"
    using assms marks_left_le_1 [OF assms(1)]
    by (auto simp: finish_buffer_def Let_def ctx_ok_def return_ok_def intro!: CALLBACK_DATA_ok)
  with finish_buffer_leaves [of st d c] show ?thesis
    by (cases "finish_buffer st d c") auto
qed

lemma exec_loop_ok:
  "ctx_ok 0 c \<Longrightarrow> pos c \<le> length d \<Longrightarrow> result_ok (length d) (exec_loop st d c)"
proof (induction st d c rule: exec_loop.induct)
  case (1 st d c)
  show ?case
  proof (cases "pos c < length d")
    case False
    with finish_buffer_ok [OF 1(2), of d st] 1(3) show ?thesis
      by (auto simp: exec_loop.simps [of st d c] outcome_result_def result_ok_def)
  next
    case True
    note cnt = count_byte_ok [OF 1(2)]
    have byte: "outcome_ok (length d) (exec_byte st d (d ! pos c) (count_byte c))"
      using cnt True by (intro exec_byte_ok) simp_all
    show ?thesis
    proof (cases "header_overflow (count_byte c)")
      case ovf: True
      then show ?thesis
        using True by (simp add: exec_loop.simps [of st d c] goto_error_def outcome_result_def
            result_ok_def return_ok_def Let_def)
    next
      case False
      note ih = 1(1) [OF True refl refl False]
      show ?thesis
      proof (cases "exec_byte st d (d ! pos c) (count_byte c)")
        case (Break c')
        have "pos c' < length d"
          using exec_byte_pos [OF Break] True by simp
        then show ?thesis
          using ih [OF Break] byte Break True False
          by (simp add: exec_loop.simps [of st d c] ctx_ok_def)
      next
        case (Reexecute c')
        then show ?thesis by (simp add: exec_byte_not_Reexecute)
      next
        case (Return c' n)
        then show ?thesis
          using byte True False
          by (simp add: exec_loop.simps [of st d c] outcome_result_def result_ok_def)
      next
        case Abort
        with byte show ?thesis by simp
      qed
    qed
  qed
qed

lemma exec_loop_step:
  assumes "pos c < length d" and "exec_byte st d (d ! pos c) (count_byte c) = Break c'"
    and "\<not> header_overflow (count_byte c)"
  shows "exec_loop st d c = exec_loop st d (c'\<lparr>pos := pos c' + 1\<rparr>)"
  using assms by (simp add: exec_loop.simps [of st d c])

section \<open>Calls, and the parsers a client can reach\<close>

definition resumable :: "http_parser \<Rightarrow> bool" where
  "resumable p \<longleftrightarrow> (http_errno p = HPE_OK \<or> http_errno p = HPE_PAUSED \<longrightarrow> parser_ok 0 p)"

lemma dom_start_marks: "dom (start_marks s) = state_marks s"
  by (auto simp: start_marks_def state_marks_def url_states_def dom_def split: if_splits)

lemma start_ctx_ok:
  assumes "http_errno p = HPE_OK" and "resumable p"
  shows "ctx_ok 0 \<lparr>parser = p, pos = 0, marks = start_marks (state p), user = u\<rparr>"
  using assms by (simp add: ctx_ok_def resumable_def dom_start_marks marks_match_def)

lemma execute_ok:
  assumes "resumable p"
  shows "\<exists>p' u' n. http_parser_execute st p u d = Returned p' u' n \<and> resumable p' \<and>
     (d \<noteq> [] \<longrightarrow> n \<le> length d) \<and> (http_errno p' = HPE_OK \<longrightarrow> n = length d \<or> upgrade p')"
proof (cases "http_errno p = HPE_OK \<and> d \<noteq> []")
  case True
  let ?c = "\<lparr>parser = p, pos = 0, marks = start_marks (state p), user = u\<rparr>"
  have "result_ok (length d) (exec_loop st d ?c)"
    using True assms by (intro exec_loop_ok start_ctx_ok) simp_all
  with True show ?thesis
    by (auto simp: http_parser_execute_def result_ok_def return_ok_def resumable_def
        split: result.splits)
next
  case False
  then consider (err) "http_errno p \<noteq> HPE_OK" | (empty) "http_errno p = HPE_OK" "d = []" by auto
  then show ?thesis
  proof cases
    case err
    with assms show ?thesis by (simp add: http_parser_execute_def)
  next
    case empty
    then show ?thesis
      using assms after_callback_OK [of p HPE_CB_message_complete]
      by (auto simp: http_parser_execute_def CALLBACK_NOTIFY_def outcome_result_def Let_def
          resumable_def split: prod.splits)
  qed
qed

text \<open>
  The parsers a client that only uses the functions of the interface can hold: initialised,
  fed any bytes in any pieces under any callbacks, paused and resumed.
\<close>

inductive reachable_parser :: "'u settings \<Rightarrow> http_parser \<Rightarrow> bool" for st where
  init: "reachable_parser st (http_parser_init t)"
| feed: "reachable_parser st p \<Longrightarrow> http_parser_execute st p u d = Returned p' u' n \<Longrightarrow>
     reachable_parser st p'"
| pause: "reachable_parser st p \<Longrightarrow> http_parser_pause p z = Some p' \<Longrightarrow> reachable_parser st p'"

lemma reachable_resumable: "reachable_parser st p \<Longrightarrow> resumable p"
proof (induction rule: reachable_parser.induct)
  case (init t)
  then show ?case
    by (simp add: resumable_def http_parser_init_def parser_ok_def chunk_ok_def chunk_states_def
        length_states_def header_ok_def method_ok_def version_ok_def)
next
  case (feed p u d p' u' n)
  then show ?case using execute_ok [OF feed(3), of st u d] by simp
next
  case (pause p z p')
  have "parser_ok 0 (p\<lparr>http_errno := e\<rparr>) = parser_ok 0 p" for e
    using parser_ok_set_errno [of 0 e p] by (simp add: set_errno_def)
  with pause show ?case
    by (auto simp: http_parser_pause_def resumable_def split: if_splits)
qed

end
