(* ===== verification/HttpFacts.thy ===== *)
theory HttpFacts
  imports HttpInvariant
begin

text \<open>
  The properties of the parser as a whole: what every call on a reachable parser guarantees.
\<close>

text \<open>A client without callbacks, for the concrete runs.\<close>

definition no_callbacks :: "unit settings" where
  "no_callbacks = \<lparr>notify_cb = (\<lambda>k. None), headers_complete_cb = None, data_cb = (\<lambda>k. None)\<rparr>"

text \<open>C2: however a parser was initialised, fed, paused and resumed, and whatever the callbacks
  do, no \<open>assert\<close> of \<open>http_parser_execute\<close> fails and no method name is read past its end: every
  call returns.\<close>

theorem execute_never_aborts:
  assumes "reachable_parser st p"
  shows "http_parser_execute st p u d \<noteq> Aborted"
  using execute_ok [OF reachable_resumable [OF assms], of st u d] by auto

theorem execute_never_aborts_witness:
  "http_parser_execute no_callbacks (http_parser_init HTTP_REQUEST) () ''GET / HTTP/1.1'' \<noteq> Aborted"
  by (rule execute_never_aborts [OF reachable_parser.init])

text \<open>C3: a call never reports more bytes than it was given; without an error it has taken all
  of them, unless the message asks for an upgrade.\<close>

theorem execute_consumes:
  assumes "reachable_parser st p" and "d \<noteq> []"
    and "http_parser_execute st p u d = Returned p' u' n"
  shows "n \<le> length d \<and> (http_errno p' = HPE_OK \<longrightarrow> n = length d \<or> upgrade p')"
  using execute_ok [OF reachable_resumable [OF assms(1)], of st u d] assms(2,3) by auto

theorem execute_consumes_witness:
  "\<exists>p u n. http_parser_execute no_callbacks (http_parser_init HTTP_REQUEST) () ''GET / HTTP/1.1'' =
     Returned p u n \<and> n \<le> 14"
proof -
  obtain p u n where r: "http_parser_execute no_callbacks (http_parser_init HTTP_REQUEST) ()
      ''GET / HTTP/1.1'' = Returned p u n"
    using execute_ok [OF reachable_resumable [OF reachable_parser.init [of no_callbacks HTTP_REQUEST]],
        of no_callbacks "()" "''GET / HTTP/1.1''"] by (elim exE conjE)
  from execute_consumes [OF reachable_parser.init _ r] have "n \<le> 14"
    by simp
  with r show ?thesis by blast
qed

text \<open>as long as no error was reported, the version numbers and the status code of a
  reachable parser have at most three digits, so the 16-bit fields never wrap.\<close>

theorem version_numbers_bounded:
  assumes "reachable_parser st p" and "http_errno p = HPE_OK"
  shows "http_major p \<le> 999 \<and> http_minor p \<le> 999 \<and> status_code p \<le> 999"
  using reachable_resumable [OF assms(1)] assms(2)
  by (simp add: resumable_def parser_ok_def version_ok_def)

theorem version_numbers_bounded_witness:
  "status_code (http_parser_init HTTP_RESPONSE) \<le> 999"
  using version_numbers_bounded [OF reachable_parser.init [of no_callbacks HTTP_RESPONSE]]
  by (simp add: http_parser_init_def)

end
