(* ===== verification/HttpLocality.thy ===== *)
theory HttpLocality
  imports HttpInvariant
begin

text \<open>
  What one execution of a byte reads of the buffer: nothing behind the byte, except in a body, where
  the bytes taken may reach past the point at which another cut of the stream ends the buffer.
  The marks stay at or before the current byte.
\<close>

section \<open>Locality: what a step reads of the buffer\<close>

definition marks_le :: "'u ctx \<Rightarrow> bool" where
  "marks_le c \<longleftrightarrow> (\<forall>k m. marks c k = Some m \<longrightarrow> m \<le> pos c)"

lemma marks_le_MARK: "marks_le c \<Longrightarrow> marks_le (MARK k c)"
  by (auto simp: marks_le_def MARK_def split: option.splits)

lemma bytes_at_prefix: "m \<le> length xs \<Longrightarrow> s \<le> length xs \<Longrightarrow> bytes_at (xs @ ys) m (s - m) = bytes_at xs m (s - m)"
  by (rule bytes_at_append1) auto

lemma CALLBACK_DATA_local:
  assumes "pos c < length xs" and "marks_le c" and "stop \<le> length xs"
    and "\<And>c'. pos c' = pos c \<Longrightarrow> marks_le c' \<Longrightarrow> cont c' = cont' c'"
  shows "CALLBACK_DATA st (xs @ ys) k stop er cont c = CALLBACK_DATA st xs k stop er cont' c"
proof (cases "marks c k")
  case None
  with assms(2) assms(4) [of c] show ?thesis by (simp add: CALLBACK_DATA_def)
next
  case (Some m)
  with assms(1,2) have m: "m \<le> length xs"
    by (force simp: marks_le_def)
  have keep: "marks_le (c\<lparr>parser := p, user := u, marks := (marks c)(k := None)\<rparr>)" for p u
    using assms(2) by (auto simp: marks_le_def)
  obtain r z u where "run_data st k (parser c) (bytes_at xs m (stop - m)) (user c) = (r, z, u)"
    by (cases "run_data st k (parser c) (bytes_at xs m (stop - m)) (user c)")
  with Some assms(3) m assms(4) [OF _ keep] show ?thesis
    by (simp add: CALLBACK_DATA_def bytes_at_prefix Let_def)
qed

lemma CALLBACK_NOTIFY_local:
  assumes "marks_le c" and "\<And>c'. pos c' = pos c \<Longrightarrow> marks_le c' \<Longrightarrow> cont c' = cont' c'"
  shows "CALLBACK_NOTIFY st k er cont c = CALLBACK_NOTIFY st k er cont' c"
proof -
  have "marks_le (c\<lparr>parser := p, user := u\<rparr>)" for p u
    using assms(1) by (auto simp: marks_le_def)
  with assms(2) show ?thesis
    by (simp add: CALLBACK_NOTIFY_def Let_def split: prod.split)
qed

lemma run_action_local:
  "pos c < length xs \<Longrightarrow> marks_le c \<Longrightarrow> run_action st (xs @ ys) a c = run_action st xs a c"
  by (induction a arbitrary: c)
     (auto intro!: CALLBACK_DATA_local CALLBACK_NOTIFY_local simp: marks_le_MARK)

lemma marks_le_parser [simp]: "marks_le (c\<lparr>parser := p\<rparr>) = marks_le c"
  by (simp add: marks_le_def)

lemma marks_le_user [simp]: "marks_le (c\<lparr>user := u\<rparr>) = marks_le c"
  by (simp add: marks_le_def)

lemma marks_le_clear:
  "marks_le c \<Longrightarrow> marks_le (c\<lparr>parser := p, user := u, marks := (marks c)(k := None)\<rparr>)"
  by (auto simp: marks_le_def)

lemma marks_le_forward: "marks_le c \<Longrightarrow> pos c \<le> i \<Longrightarrow> marks_le (c\<lparr>pos := i\<rparr>)"
  by (fastforce simp: marks_le_def)

definition outcome_marks_le :: "'u outcome \<Rightarrow> bool" where
  "outcome_marks_le out =
     (case out of Break c \<Rightarrow> marks_le c | Reexecute c \<Rightarrow> marks_le c | _ \<Rightarrow> True)"

lemma outcome_marks_le_simps [simp]:
  "outcome_marks_le (Break c) = marks_le c" "outcome_marks_le (Reexecute c) = marks_le c"
  "outcome_marks_le (Return c n)" "outcome_marks_le Abort"
  by (simp_all add: outcome_marks_le_def)

lemma CALLBACK_DATA_marks_le:
  "marks_le c \<Longrightarrow> (\<And>c'. marks_le c' \<Longrightarrow> outcome_marks_le (cont c')) \<Longrightarrow>
     outcome_marks_le (CALLBACK_DATA st d k stop er cont c)"
  by (auto simp: CALLBACK_DATA_def Let_def marks_le_clear split: option.split prod.split)

lemma CALLBACK_NOTIFY_marks_le:
  "marks_le c \<Longrightarrow> (\<And>c'. marks_le c' \<Longrightarrow> outcome_marks_le (cont c')) \<Longrightarrow>
     outcome_marks_le (CALLBACK_NOTIFY st k er cont c)"
  by (auto simp: CALLBACK_NOTIFY_def Let_def split: prod.split)

lemma run_action_marks_le: "marks_le c \<Longrightarrow> outcome_marks_le (run_action st d a c)"
proof (induction a arbitrary: c)
  case A_headers_complete
  then show ?case
    by (auto simp: headers_complete_call_def Let_def split: prod.split)
qed (auto intro!: CALLBACK_DATA_marks_le CALLBACK_NOTIFY_marks_le simp: marks_le_MARK goto_error_def)

lemma take_body_marks_le:
  assumes "marks_le c" and "content_length (parser c) \<noteq> 0" and "pos c < length d"
  shows "marks_le (take_body d c)"
  using marks_le_forward [OF marks_le_MARK [OF assms(1), of D_body], of "pos (take_body d c)"]
    take_body_pos [OF assms(2,3)]
  by (simp add: take_body_def Let_def marks_le_def)

lemma switch_marks_le:
  assumes "marks_le c" and "pos c < length d"
  shows "outcome_marks_le (switch st d ch c)"
proof -
  consider (id) "state (parser c) = s_body_identity" | (eof) "state (parser c) = s_body_identity_eof"
    | (chunk) "state (parser c) = s_chunk_data"
    | (other) "state (parser c) \<notin> {s_body_identity, s_body_identity_eof, s_chunk_data}"
    by blast
  then show ?thesis
  proof cases
    case id
    with assms show ?thesis
      by (auto simp: switch_def on_body_identity_def Let_def set_state_def
          intro!: CALLBACK_DATA_marks_le take_body_marks_le)
  next
    case eof
    with assms marks_le_forward [OF marks_le_MARK [OF assms(1), of D_body], of "length d - 1"]
    show ?thesis
      by (simp add: switch_def on_body_identity_eof_def)
  next
    case chunk
    with assms show ?thesis
      by (auto simp: switch_def on_chunk_data_def Let_def set_state_def
          intro!: take_body_marks_le)
  next
    case other
    obtain p a where "handle_state (parser c) ch = (p, a)"
      by (cases "handle_state (parser c) ch")
    with other assms(1) show ?thesis
      by (simp add: switch_def run_action_marks_le)
  qed
qed

lemma exec_byte_marks_le:
  "marks_le c \<Longrightarrow> pos c < length d \<Longrightarrow> outcome_marks_le (exec_byte st d ch c)"
proof (induction st d ch c rule: exec_byte.induct)
  case (1 st d ch c)
  show ?case
    using switch_marks_le [OF 1(2,3), of st ch] switch_pos [of st d ch c] 1
    by (cases "switch st d ch c") (auto simp: exec_byte.simps [of st d ch c])
qed

section \<open>A body that crosses the end of a buffer\<close>

definition moving_states :: "pstate set" where
  "moving_states = {s_body_identity, s_body_identity_eof, s_chunk_data}"

lemma switch_Reexecute_moving:
  assumes "switch st d ch c = Reexecute c'"
  shows "state (parser c') \<notin> moving_states"
proof (cases "state (parser c) = s_body_identity")
  case True
  with assms show ?thesis
    by (auto simp: switch_def on_body_identity_def CALLBACK_DATA_def Let_def moving_states_def
          set_state_def split: if_splits option.splits prod.splits)
next
  case False
  have "0 < reexec_rank (state (parser c))"
    using switch_Reexecute_rank [OF assms] by simp
  from ranked_states [OF this] False obtain p a
    where h: "handle_state (parser c) ch = (p, a)"
    and r: "run_action st d a (c\<lparr>parser := p\<rparr>) = Reexecute c'"
    and s: "state (parser c) \<in> set [s_header_value_lws, s_header_field_start,
       s_headers_almost_done, s_start_req_or_res, s_header_value]"
    using assms by (auto simp: switch_def split: prod.splits)
  from run_action_Reexecute [OF r] have "reexecutes a" and "state (parser c') = state p"
    by simp_all
  with h s show ?thesis
    by (auto simp: handle_state_def on_state_defs Let_def header_value_match_state moving_states_def
        split: if_splits option.splits prod.splits)
qed

text \<open>The body bytes the case at hand takes stay within the first \<open>n\<close> bytes of the buffer.\<close>

definition body_within :: "nat \<Rightarrow> 'u ctx \<Rightarrow> bool" where
  "body_within n c \<longleftrightarrow>
     state (parser c) \<notin> moving_states \<or>
     state (parser c) \<noteq> s_body_identity_eof \<and> unat (content_length (parser c)) \<le> n - pos c"

lemma take_body_local:
  "unat (content_length (parser c)) \<le> length xs - pos c \<Longrightarrow>
     take_body (xs @ ys) c = take_body xs c"
proof -
  assume "unat (content_length (parser c)) \<le> length xs - pos c"
  then have "to_read (xs @ ys) c = to_read xs c"
    by (simp add: to_read_def)
  then show ?thesis by (simp add: take_body_def)
qed

lemma switch_local:
  assumes "pos c < length xs" and "marks_le c" and "body_within (length xs) c"
  shows "switch st (xs @ ys) ch c = switch st xs ch c"
proof (cases "state (parser c) \<in> moving_states")
  case False
  then show ?thesis
    using assms by (auto simp: switch_def moving_states_def run_action_local split: prod.split)
next
  case True
  with assms(3) have w: "unat (content_length (parser c)) \<le> length xs - pos c"
    by (simp add: body_within_def)
  note same = take_body_local [OF w, of ys]
  show ?thesis
  proof (cases "content_length (parser c) = 0")
    case zero: True
    with True assms(3) show ?thesis
      by (auto simp: switch_def on_body_identity_def on_chunk_data_def moving_states_def body_within_def)
  next
    case False
    have p: "pos (take_body xs c) < length xs" "marks_le (take_body xs c)"
      using take_body_pos [OF False assms(1)] take_body_marks_le [OF assms(2) False assms(1)] by auto
    have "CALLBACK_DATA st (xs @ ys) D_body (pos (take_body xs c) + 1) (pos (take_body xs c)) Reexecute
        (set_state s_message_done (take_body xs c)) =
      CALLBACK_DATA st xs D_body (pos (take_body xs c) + 1) (pos (take_body xs c)) Reexecute
        (set_state s_message_done (take_body xs c))"
      using p by (intro CALLBACK_DATA_local) (simp_all add: set_state_def)
    with True same assms(3) show ?thesis
      by (auto simp: switch_def on_body_identity_def on_chunk_data_def moving_states_def body_within_def
          Let_def)
  qed
qed

lemma exec_byte_local:
  assumes "pos c < length xs" and "marks_le c" and "body_within (length xs) c"
  shows "exec_byte st (xs @ ys) ch c = exec_byte st xs ch c"
  using assms
proof (induction st xs ch c rule: exec_byte.induct)
  case (1 st xs ch c)
  note sw = switch_local [OF 1(2-4), of st ys ch]
  show ?case
  proof (cases "switch st xs ch c")
    case (Reexecute c')
    have "pos c' < length xs" and "marks_le c'" and "body_within (length xs) c'"
      using switch_pos [of st xs ch c c'] switch_marks_le [OF 1(3,2), of st ch]
        switch_Reexecute_moving [OF Reexecute] Reexecute 1(2)
      by (auto simp: body_within_def)
    then show ?thesis
      using 1(1) [OF Reexecute] sw Reexecute
      by (simp add: exec_byte.simps [of st "xs @ ys" ch c] exec_byte.simps [of st xs ch c])
  qed (simp_all add: exec_byte.simps [of st "xs @ ys" ch c] exec_byte.simps [of st xs ch c] sw)
qed

lemma exec_byte_body_char:
  assumes "state (parser c) \<in> moving_states"
  shows "exec_byte st d ch c = exec_byte st d ch' c"
proof -
  have sw: "switch st d ch c = switch st d ch' c"
    using assms by (auto simp: switch_def moving_states_def)
  have msg: "exec_byte st d ch c' = exec_byte st d ch' c'" if "state (parser c') = s_message_done" for c'
  proof -
    have "switch st d ch c' = switch st d ch' c'"
      using that by (simp add: switch_def handle_state_def on_message_done_def)
    moreover have "switch st d ch c' \<noteq> Reexecute x" for x
      using switch_Reexecute_rank [of st d ch c' x] that by (auto simp: reexec_rank_def)
    ultimately show ?thesis
      by (simp add: exec_byte.simps [of st d _ c'] split: outcome.split)
  qed
  have "state (parser c') = s_message_done" if "switch st d ch c = Reexecute c'" for c'
    using that assms
    by (auto simp: switch_def moving_states_def on_body_identity_def on_body_identity_eof_def
        on_chunk_data_def CALLBACK_DATA_def set_state_def Let_def split: if_splits option.splits prod.splits)
  with sw msg show ?thesis
    by (auto simp: exec_byte.simps [of st d _ c] split: outcome.split)
qed

text \<open>Where the first buffer ends inside a body, the longer run is already at the same point.\<close>

definition at_end :: "string \<Rightarrow> 'u ctx \<Rightarrow> 'u ctx" where
  "at_end xs c =
     (if state (parser c) = s_body_identity_eof then (MARK D_body c)\<lparr>pos := length xs\<rparr>
      else (take_body xs c)\<lparr>pos := length xs\<rparr>)"

lemma MARK_again: "marks c k \<noteq> None \<Longrightarrow> MARK k c = c"
  by (auto simp: MARK_def split: option.split)

lemma MARK_pos_MARK: "MARK k ((MARK k c)\<lparr>pos := i\<rparr>) = (MARK k c)\<lparr>pos := i\<rparr>"
  by (rule MARK_again) (auto simp: MARK_def split: option.split)

lemma take_body_unfold:
  "take_body d c =
     (MARK D_body c)\<lparr>parser := (parser c)\<lparr>content_length := content_length (parser c) - of_nat (to_read d c)\<rparr>,
                    pos := pos c + to_read d c - 1\<rparr>"
  by (simp add: take_body_def Let_def)

lemma take_body_twice:
  assumes "pos c < length xs" and "length xs - pos c < unat (content_length (parser c))" and "ys \<noteq> []"
  shows "take_body (xs @ ys) ((take_body xs c)\<lparr>pos := length xs\<rparr>) = take_body (xs @ ys) c"
proof -
  let ?j = "length xs - pos c" and ?cl = "content_length (parser c)"
  have j: "to_read xs c = ?j"
    using assms(2) by (simp add: to_read_def)
  have u: "unat (?cl - of_nat ?j) = unat ?cl - ?j"
    using assms(2) by (intro unat_minus_of_nat) simp
  define n where "n = min (unat ?cl - ?j) (length ys)"
  have n: "to_read (xs @ ys) c = ?j + n"
    using assms by (auto simp: to_read_def n_def)
  have "0 < length ys" using assms(3) by simp
  then have "pos c + ?j + n - 1 = length xs + n - 1"
    using assms(1) by simp
  moreover have "to_read (xs @ ys) ((take_body xs c)\<lparr>pos := length xs\<rparr>) = n"
    using u unfolding to_read_def [of "xs @ ys"] by (simp add: take_body_unfold j n_def)
  moreover have "?cl - of_nat ?j - of_nat n = ?cl - of_nat (?j + n)"
    by (simp add: algebra_simps)
  ultimately show ?thesis
    using assms(1) n
    by (simp add: take_body_unfold [of "xs @ ys"] take_body_unfold [of xs] j MARK_def
        split: option.split)
qed

lemma switch_at_end:
  assumes "state (parser c) \<in> moving_states" and "pos c < length xs" and "ys \<noteq> []"
    and "\<not> body_within (length xs) c" and "ctx_ok n c"
  shows "switch st (xs @ ys) ch c = switch st (xs @ ys) ch (at_end xs c)"
    and "switch st xs ch c = Break ((at_end xs c)\<lparr>pos := length xs - 1\<rparr>)"
    and "state (parser (at_end xs c)) = state (parser c)"
proof -
  have "switch st (xs @ ys) ch c = switch st (xs @ ys) ch (at_end xs c) \<and>
    switch st xs ch c = Break ((at_end xs c)\<lparr>pos := length xs - 1\<rparr>) \<and>
    state (parser (at_end xs c)) = state (parser c)"
  proof (cases "state (parser c) = s_body_identity_eof")
    case True
    then show ?thesis
      by (simp add: switch_def on_body_identity_eof_def at_end_def MARK_pos_MARK)
  next
    case False
    then have s: "state (parser c) = s_body_identity \<or> state (parser c) = s_chunk_data"
      using assms(1) by (auto simp: moving_states_def)
    have len: "content_length (parser c) \<noteq> 0" "content_length (parser c) \<noteq> ULLONG_MAX"
      and ch: "state (parser c) = s_chunk_data \<longrightarrow> flag_set F_CHUNKED (parser c)"
      using assms(5) s by (auto simp: ctx_ok_def parser_ok_def chunk_ok_def chunk_states_def)
    have w: "length xs - pos c < unat (content_length (parser c))"
      using assms(4) False by (simp add: body_within_def)
    then have j: "to_read xs c = length xs - pos c"
      by (simp add: to_read_def)
    have "unat (content_length (parser (take_body xs c))) \<noteq> 0"
      using w by (simp add: take_body_length j)
    then have nz: "content_length (parser (take_body xs c)) \<noteq> 0"
      by (metis unat_0)
    note nm = take_body_length_neq_max [OF len(2), of xs]
    have e: "at_end xs c = (take_body xs c)\<lparr>pos := length xs\<rparr>"
      using False by (simp add: at_end_def)
    have p: "(take_body xs c)\<lparr>pos := length xs - Suc 0\<rparr> = take_body xs c"
      using assms(2) by (simp add: take_body_unfold j)
    have f: "flag_set F_CHUNKED (parser (take_body xs c)) = flag_set F_CHUNKED (parser c)"
      by (simp add: flag_set_def)
    show ?thesis
      using s len ch nz nm take_body_twice [OF assms(2) w assms(3)]
      by (auto simp: switch_def on_body_identity_def on_chunk_data_def Let_def e f p)
  qed
  then show "switch st (xs @ ys) ch c = switch st (xs @ ys) ch (at_end xs c)"
    and "switch st xs ch c = Break ((at_end xs c)\<lparr>pos := length xs - 1\<rparr>)"
    and "state (parser (at_end xs c)) = state (parser c)"
    by blast+
qed

end
