(* ===== verification/HttpFirstPart.thy ===== *)
theory HttpFirstPart
  imports HttpLocality
begin

text \<open>
  The first half of a stream that arrives in two pieces. A run over \<open>xs @ ys\<close> that gets past \<open>xs\<close>
  without an error passes a point at the end of \<open>xs\<close> from which the run over \<open>xs\<close> alone only has
  to report what is left; and the counter of header bytes on the way.
\<close>

section \<open>The counter of header bytes\<close>

lemma header_value_nread:
  "header_value_match p ch = (p', a) \<Longrightarrow> nread p' = nread p"
  "on_header_value_start p ch = (p', a) \<Longrightarrow> nread p' = nread p"
   apply (auto simp: header_value_match_def match_step_def Let_def
      split: if_splits option.splits hstate.splits) [1]
  apply (auto simp: on_header_value_start_def Let_def split: if_splits hstate.splits)
  done

lemma handle_state_nread:
  assumes "handle_state p ch = (p', a)"
  shows "nread p' = nread p \<or> nread p' = 0"
proof (cases "state p = s_header_value_start \<or> state p = s_header_value")
  case True
  with assms header_value_nread [of p ch p' a] show ?thesis
    by (auto simp: handle_state_def on_header_value_def split: if_splits)
next
  case False
  with assms show ?thesis
    by (cases "state p")
       (auto simp: handle_state_def on_state_defs Let_def header_field_match_frame
         split: if_splits option.splits prod.splits)
qed

text \<open>
  A client whose callbacks look at the counter does not notice it as long as it stays within a
  limit of its own: there is room for \<open>n\<close> more bytes, or the limit is not below the parser's.
\<close>

definition nread_room :: "nat \<Rightarrow> nat \<Rightarrow> http_parser \<Rightarrow> bool" where
  "nread_room L n p \<longleftrightarrow>
     unat (nread p) + n \<le> L \<or>
     unat HTTP_MAX_HEADER_SIZE \<le> L \<and> nread p \<le> HTTP_MAX_HEADER_SIZE"

lemma nread_room_le: "nread_room L n p \<Longrightarrow> unat (nread p) \<le> L"
  by (auto simp: nread_room_def word_le_nat_alt)

lemma nread_room_step:
  "nread_room L n p \<Longrightarrow> nread p' = nread p \<or> nread p' = 0 \<Longrightarrow> m \<le> n \<Longrightarrow> nread_room L m p'"
  by (auto simp: nread_room_def)

lemma nread_room_count:
  assumes "nread_room L (Suc n) (parser c)" and "\<not> header_overflow (count_byte c)"
  shows "nread_room L n (parser (count_byte c))"
proof (cases "parsing_header (state (parser c))")
  case False
  with assms show ?thesis
    by (auto simp: count_byte_def nread_room_def)
next
  case True
  have "unat (nread (parser c) + 1) \<le> Suc (unat (nread (parser c)))"
    by (metis One_nat_def Suc_eq_plus1 mod_less_eq_dividend unat_1 unat_word_ariths(1))
  with assms True show ?thesis
    by (auto simp: count_byte_def nread_room_def header_overflow_def)
qed

lemma CALLBACK_DATA_nread:
  assumes "CALLBACK_DATA st d k stop er cont c = Break c' \<or> CALLBACK_DATA st d k stop er cont c = Reexecute c'"
    and "\<And>e. cont e = Break c' \<or> cont e = Reexecute c' \<Longrightarrow> nread (parser c') = nread (parser e)"
  shows "nread (parser c') = nread (parser c)"
proof -
  have n: "nread (after_callback r z e p) = nread p" for r z e p
    by (simp add: after_callback_def set_errno_def Let_def)
  from assms(1) show ?thesis
    using assms(2) by (auto simp: CALLBACK_DATA_def Let_def n split: if_splits option.splits prod.splits)
qed

lemma CALLBACK_NOTIFY_nread:
  assumes "CALLBACK_NOTIFY st k er cont c = Break c' \<or> CALLBACK_NOTIFY st k er cont c = Reexecute c'"
    and "\<And>e. cont e = Break c' \<or> cont e = Reexecute c' \<Longrightarrow> nread (parser c') = nread (parser e)"
  shows "nread (parser c') = nread (parser c)"
proof -
  have n: "nread (after_callback r z e p) = nread p" for r z e p
    by (simp add: after_callback_def set_errno_def Let_def)
  from assms(1) show ?thesis
    using assms(2) by (auto simp: CALLBACK_NOTIFY_def Let_def n split: if_splits prod.splits)
qed

lemma run_action_nread:
  "run_action st d a c = Break c' \<or> run_action st d a c = Reexecute c' \<Longrightarrow>
     nread (parser c') = nread (parser c)"
proof (induction a arbitrary: c)
  case (A_data k a)
  show ?case
    by (rule CALLBACK_DATA_nread [OF A_data.prems [unfolded run_action.simps] A_data.IH])
next
  case (A_data_noadvance k a)
  show ?case
    by (rule CALLBACK_DATA_nread [OF A_data_noadvance.prems [unfolded run_action.simps] A_data_noadvance.IH])
next
  case (A_notify k a)
  show ?case
    by (rule CALLBACK_NOTIFY_nread [OF A_notify.prems [unfolded run_action.simps] A_notify.IH])
next
  case (A_mark k a)
  then show ?case by fastforce
next
  case A_headers_complete
  then show ?case
    by (auto simp: headers_complete_call_def Let_def set_errno_def split: if_splits prod.splits)
qed (auto simp: goto_error_def)

lemma switch_nread:
  assumes "switch st d ch c = Break c' \<or> switch st d ch c = Reexecute c'"
  shows "nread (parser c') = nread (parser c) \<or> nread (parser c') = 0"
proof (cases "state (parser c) \<in> moving_states")
  case True
  have tb: "nread (parser (take_body d c)) = nread (parser c)"
    by (simp add: take_body_def Let_def)
  have ss: "nread (parser (set_state s e)) = nread (parser e)" for s and e :: "'a ctx"
    by (simp add: set_state_def)
  from True consider "state (parser c) = s_body_identity"
    | "state (parser c) = s_body_identity_eof" | "state (parser c) = s_chunk_data"
    by (auto simp: moving_states_def)
  then show ?thesis
  proof cases
    case 1
    have "nread (parser c') = nread (parser (set_state s_message_done (take_body d c)))"
      if "CALLBACK_DATA st d D_body x y Reexecute (set_state s_message_done (take_body d c)) = Break c' \<or>
        CALLBACK_DATA st d D_body x y Reexecute (set_state s_message_done (take_body d c)) = Reexecute c'" for x y
      using that by (rule CALLBACK_DATA_nread) auto
    with 1 assms show ?thesis
      by (auto simp: switch_def on_body_identity_def Let_def tb ss split: if_splits)
  qed (use assms in \<open>auto simp: switch_def on_body_identity_eof_def on_chunk_data_def Let_def tb ss
      split: if_splits\<close>)
next
  case False
  obtain p a where h: "handle_state (parser c) ch = (p, a)"
    by (cases "handle_state (parser c) ch")
  with False assms have "run_action st d a (c\<lparr>parser := p\<rparr>) = Break c' \<or>
      run_action st d a (c\<lparr>parser := p\<rparr>) = Reexecute c'"
    by (simp add: switch_def moving_states_def)
  from run_action_nread [OF this] handle_state_nread [OF h] show ?thesis by simp
qed

lemma exec_byte_nread:
  "exec_byte st d ch c = Break c' \<Longrightarrow> nread (parser c') = nread (parser c) \<or> nread (parser c') = 0"
proof (induction st d ch c rule: exec_byte.induct)
  case (1 st d ch c)
  then show ?case
    using switch_nread [of st d ch c]
    by (cases "switch st d ch c") (auto simp: exec_byte.simps [of st d ch c])
qed

section \<open>The run over the first buffer\<close>

definition succeeds :: "nat \<Rightarrow> 'u result \<Rightarrow> bool" where
  "succeeds m r \<longleftrightarrow>
     (case r of Returned p u n \<Rightarrow> http_errno p = HPE_OK \<and> m < n | Aborted \<Rightarrow> False)"

lemma succeeds_no_overflow:
  assumes "pos c < length d" and "succeeds m (exec_loop st d c)"
  shows "\<not> header_overflow (count_byte c)"
proof
  assume "header_overflow (count_byte c)"
  with assms show False
    by (simp add: exec_loop.simps [of st d c] goto_error_def outcome_result_def succeeds_def Let_def)
qed

lemma moving_not_counted:
  assumes "state (parser c) \<in> moving_states"
  shows "count_byte c = c"
  using assms by (auto simp: count_byte_def parsing_header_def moving_states_def less_eq_pstate_def)

lemma moving_no_overflow:
  assumes "state (parser c) \<in> moving_states"
  shows "\<not> header_overflow c"
  using assms by (auto simp: header_overflow_def parsing_header_def moving_states_def less_eq_pstate_def)

lemma exec_byte_Break:
  "switch st d ch c = Break c' \<Longrightarrow> exec_byte st d ch c = Break c'"
  by (simp add: exec_byte.simps [of st d ch c])

lemma exec_loop_at_end:
  assumes "ctx_ok 0 c" and "pos c < length xs" and "ys \<noteq> []"
    and "state (parser c) \<in> moving_states" and "\<not> body_within (length xs) c"
  shows "exec_loop st (xs @ ys) c = exec_loop st (xs @ ys) (at_end xs c)"
    and "exec_loop st xs c = outcome_result (finish_buffer st xs (at_end xs c))"
proof -
  let ?d = "xs @ ys" and ?e = "at_end xs c"
  note sw = switch_at_end [OF assms(4,2,3,5,1)]
  have pe: "pos ?e = length xs" by (simp add: at_end_def)
  have me: "state (parser ?e) \<in> moving_states" using sw(3) assms(4) by simp
  have "exec_byte st ?d (?d ! pos c) c = exec_byte st ?d (?d ! pos c) ?e"
    using sw(1) [of st "?d ! pos c"]
    by (simp add: exec_byte.simps [of st ?d _ c] exec_byte.simps [of st ?d _ ?e])
  also have "\<dots> = exec_byte st ?d (?d ! pos ?e) ?e"
    by (rule exec_byte_body_char [OF me])
  finally show "exec_loop st ?d c = exec_loop st ?d ?e"
    using assms(2,3) pe
    by (simp add: exec_loop.simps [of st ?d c] exec_loop.simps [of st ?d ?e] moving_not_counted
        moving_no_overflow assms(4) me)
  have e: "?e\<lparr>pos := length xs\<rparr> = ?e" and l: "Suc (length xs - Suc 0) = length xs"
    using assms(2) by (auto simp: at_end_def)
  have "exec_loop st xs c = exec_loop st xs ?e"
    using exec_loop_step [OF assms(2), of st "?e\<lparr>pos := length xs - 1\<rparr>"] assms(2,4)
      exec_byte_Break [OF sw(2) [of st "xs ! pos c"]] pe
    by (simp add: moving_not_counted moving_no_overflow l e)
  then show "exec_loop st xs c = outcome_result (finish_buffer st xs ?e)"
    by (simp add: exec_loop.simps [of st xs ?e] pe)
qed

text \<open>
  A run over \<open>xs @ ys\<close> that gets past \<open>xs\<close> without an error passes a point at the end of \<open>xs\<close>
  where the run over \<open>xs\<close> alone only has to report what is left.
\<close>

definition reaches_end :: "'u settings \<Rightarrow> string \<Rightarrow> string \<Rightarrow> 'u ctx \<Rightarrow> 'u ctx \<Rightarrow> bool" where
  "reaches_end st xs ys c c1 \<longleftrightarrow>
     pos c1 = length xs \<and> ctx_ok 0 c1 \<and> (\<forall>k m. marks c1 k = Some m \<longrightarrow> m < length xs) \<and>
     exec_loop st (xs @ ys) c = exec_loop st (xs @ ys) c1 \<and>
     exec_loop st xs c = outcome_result (finish_buffer st xs c1) \<and>
     (\<forall>L. nread_room L (length xs + length ys - pos c) (parser c) \<longrightarrow>
        nread_room L (length ys) (parser c1))"

lemma reaches_end_step:
  assumes "reaches_end st xs ys c' c1" and "pos c < pos c'"
    and "exec_loop st (xs @ ys) c = exec_loop st (xs @ ys) c'"
    and "exec_loop st xs c = exec_loop st xs c'"
    and "\<And>L. nread_room L (length xs + length ys - pos c) (parser c) \<Longrightarrow>
           nread_room L (length xs + length ys - pos c') (parser c')"
  shows "reaches_end st xs ys c c1"
  using assms by (simp add: reaches_end_def)

lemma exec_loop_reaches_end:
  assumes "ctx_ok 0 c" and "marks_le c" and "pos c < length xs" and "ys \<noteq> []"
    and "succeeds (length xs) (exec_loop st (xs @ ys) c)"
  shows "\<exists>c1. reaches_end st xs ys c c1"
  using assms
proof (induction "length xs - pos c" arbitrary: c rule: less_induct)
  case less
  let ?d = "xs @ ys" and ?c = "count_byte c"
  have pd: "pos c < length ?d" using less(4) by simp
  have ch: "?d ! pos c = xs ! pos c" using less(4) by (simp add: nth_append)
  have cnt: "ctx_ok 1 ?c" by (rule count_byte_ok [OF less(2)])
  have nov: "\<not> header_overflow ?c" by (rule succeeds_no_overflow [OF pd less(6)])
  have mle: "marks_le ?c" using less(3) by (simp add: count_byte_def)
  have st: "state (parser ?c) = state (parser c)" by (simp add: count_byte_def)
  show ?case
  proof (cases "body_within (length xs) ?c")
    case within: True
    have byte: "exec_byte st ?d (?d ! pos c) ?c = exec_byte st xs (xs ! pos c) ?c"
      using exec_byte_local [OF _ mle within, of st ys] less(4) ch by simp
    have ok: "outcome_ok (length xs) (exec_byte st xs (xs ! pos c) ?c)"
      using exec_byte_ok [OF cnt, of xs st] less(4) by simp
    show ?thesis
    proof (cases "exec_byte st xs (xs ! pos c) ?c")
      case (Break c')
      let ?n = "c'\<lparr>pos := pos c' + 1\<rparr>"
      have p: "pos c \<le> pos c'" "pos c' < length xs"
        using exec_byte_pos [OF Break] less(4) by auto
      have d: "exec_loop st ?d c = exec_loop st ?d ?n" and x: "exec_loop st xs c = exec_loop st xs ?n"
        using exec_loop_step [OF pd _ nov] exec_loop_step [OF less(4) Break nov] byte Break by auto
      have okn: "ctx_ok 0 ?n" using ok Break by (simp add: ctx_ok_def)
      have mc: "marks_le c'"
        using exec_byte_marks_le [OF mle, of xs st "xs ! pos c"] less(4) Break by simp
      have room: "nread_room L (length xs + length ys - pos ?n) (parser ?n)"
        if r: "nread_room L (length xs + length ys - pos c) (parser c)" for L
      proof -
        from r have "nread_room L (Suc (length xs + length ys - Suc (pos c))) (parser c)"
          using less(4) by (simp add: Suc_diff_Suc)
        from nread_room_count [OF this nov]
        show ?thesis
          by (rule nread_room_step) (use exec_byte_nread [OF Break] p in auto)
      qed
      show ?thesis
      proof (cases "pos ?n < length xs")
        case True
        have "succeeds (length xs) (exec_loop st ?d ?n)" using less(6) d by simp
        moreover have "marks_le ?n" using marks_le_forward [OF mc, of "pos c' + 1"] by simp
        moreover have "length xs - pos ?n < length xs - pos c" using True p by simp
        ultimately obtain c1 where "reaches_end st xs ys ?n c1"
          using less(1) [of ?n] okn True less(5) by blast
        then have "reaches_end st xs ys c c1"
          by (rule reaches_end_step) (use p d x room in auto)
        then show ?thesis ..
      next
        case False
        then have end_n: "Suc (pos c') = length xs" using p(2) by simp
        then have "exec_loop st xs ?n = outcome_result (finish_buffer st xs ?n)"
          by (simp add: exec_loop.simps [of st xs "c'\<lparr>pos := length xs\<rparr>"])
        moreover have "m < length xs" if "marks c' k = Some m" for k m
          using mc p(2) that by (force simp: marks_le_def)
        ultimately have "reaches_end st xs ys ?n ?n"
          using okn end_n by (simp add: reaches_end_def)
        then have "reaches_end st xs ys c ?n"
          by (rule reaches_end_step) (use p d x room in auto)
        then show ?thesis ..
      qed
    next
      case (Return c' n)
      then have "exec_loop st ?d c = Returned (parser c') (user c') n"
        using byte nov pd by (simp add: exec_loop.simps [of st ?d c] outcome_result_def)
      moreover have "n \<le> length xs" using ok Return by (simp add: return_ok_def)
      ultimately show ?thesis using less(6) by (simp add: succeeds_def)
    qed (use ok in \<open>auto simp: exec_byte_not_Reexecute\<close>)
  next
    case False
    then have mv: "state (parser c) \<in> moving_states" by (simp add: body_within_def st)
    then have e: "?c = c" by (rule moving_not_counted)
    note ends = exec_loop_at_end [OF less(2,4,5) mv False [unfolded e], of st]
    let ?e = "at_end xs c"
    have sw: "switch st xs ch c = Break (?e\<lparr>pos := length xs - 1\<rparr>)" for ch
      by (rule switch_at_end(2) [OF mv less(4,5) False [unfolded e] less(2)])
    have ctx: "ctx_ok 0 ?e"
      using switch_ok [OF cnt [unfolded e] less(4), of st CR] sw by (simp add: ctx_ok_def)
    have mk: "marks_le (?e\<lparr>pos := length xs - 1\<rparr>)"
      using switch_marks_le [OF less(3,4), of st CR] sw by simp
    have nr: "nread (parser ?e) = nread (parser c)"
      by (simp add: at_end_def take_body_def Let_def)
    have "reaches_end st xs ys c ?e"
      unfolding reaches_end_def
    proof (intro conjI allI impI)
      show "pos ?e = length xs" by (simp add: at_end_def)
      show "m < length xs" if "marks ?e k = Some m" for k m
        using mk that less(4) by (force simp: marks_le_def)
      show "nread_room L (length ys) (parser ?e)"
        if "nread_room L (length xs + length ys - pos c) (parser c)" for L
        using that nr less(4) by (auto simp: nread_room_def)
    qed (use ctx ends in auto)
    then show ?thesis ..
  qed
qed

end
