(* ===== verification/HttpSecondPart.thy ===== *)
theory HttpSecondPart
  imports HttpFirstPart
begin

text \<open>
  The second half of a stream that arrives in two pieces. A run at another offset of a longer
  buffer does the same; and what a byte does while a field is marked.
\<close>

section \<open>The same run at another offset\<close>

text \<open>\<open>A\<close> runs over a buffer whose first \<open>n\<close> bytes \<open>B\<close> does not have; nothing is pending from them.\<close>

definition same_at :: "nat \<Rightarrow> 'u ctx \<Rightarrow> 'u ctx \<Rightarrow> bool" where
  "same_at n A B \<longleftrightarrow>
     parser A = parser B \<and> user A = user B \<and> pos A = n + pos B \<and>
     marks A = (\<lambda>k. map_option ((+) n) (marks B k))"

fun outcome_at :: "nat \<Rightarrow> 'u outcome \<Rightarrow> 'u outcome \<Rightarrow> bool" where
  "outcome_at n (Break A) (Break B) = same_at n A B"
| "outcome_at n (Reexecute A) (Reexecute B) = same_at n A B"
| "outcome_at n (Return A i) (Return B j) = (parser A = parser B \<and> user A = user B \<and> i = n + j)"
| "outcome_at n Abort Abort = True"
| "outcome_at n _ _ = False"

lemma same_at_updates:
  assumes "same_at n A B"
  shows "same_at n (A\<lparr>parser := p\<rparr>) (B\<lparr>parser := p\<rparr>)"
    and "same_at n (A\<lparr>parser := p, user := u\<rparr>) (B\<lparr>parser := p, user := u\<rparr>)"
    and "same_at n (A\<lparr>parser := p, user := u, marks := (marks A)(k := None)\<rparr>)
           (B\<lparr>parser := p, user := u, marks := (marks B)(k := None)\<rparr>)"
    and "same_at n (MARK k A) (MARK k B)"
    and "i = n + j \<Longrightarrow> same_at n (A\<lparr>pos := i\<rparr>) (B\<lparr>pos := j\<rparr>)"
  using assms by (auto simp: same_at_def MARK_def fun_eq_iff split: option.split)

lemma CALLBACK_DATA_at:
  assumes "same_at (length xs) A B" and "s = length xs + t" and "e = length xs + f"
    and "\<And>A' B'. same_at (length xs) A' B' \<Longrightarrow> outcome_at (length xs) (ca A') (cb B')"
  shows "outcome_at (length xs) (CALLBACK_DATA st (xs @ ys) k s e ca A) (CALLBACK_DATA st ys k t f cb B)"
proof (cases "marks B k")
  case None
  with assms show ?thesis
    by (auto simp: CALLBACK_DATA_def same_at_def)
next
  case (Some m)
  have b: "bytes_at (xs @ ys) (length xs + m) (s - (length xs + m)) = bytes_at ys m (t - m)"
    using assms(2) by (simp add: bytes_at_append2)
  have eq: "parser A = parser B" "user A = user B" "marks A k = Some (length xs + m)"
    using assms(1) Some by (simp_all add: same_at_def)
  obtain r z u where "run_data st k (parser B) (bytes_at ys m (t - m)) (user B) = (r, z, u)"
    by (cases "run_data st k (parser B) (bytes_at ys m (t - m)) (user B)")
  with Some eq b assms(3) assms(4) [OF same_at_updates(3) [OF assms(1)]] show ?thesis
    by (simp add: CALLBACK_DATA_def Let_def)
qed

lemma CALLBACK_NOTIFY_at:
  assumes "same_at n A B" and "e = n + f"
    and "\<And>A' B'. same_at n A' B' \<Longrightarrow> outcome_at n (ca A') (cb B')"
  shows "outcome_at n (CALLBACK_NOTIFY st k e ca A) (CALLBACK_NOTIFY st k f cb B)"
proof -
  have eq: "parser A = parser B" "user A = user B"
    using assms(1) by (simp_all add: same_at_def)
  with assms(2) assms(3) [OF same_at_updates(2) [OF assms(1)]] show ?thesis
    by (simp add: CALLBACK_NOTIFY_def Let_def split: prod.split)
qed

lemma headers_complete_at:
  assumes "same_at n A B"
  shows "outcome_at n (headers_complete_call st A) (headers_complete_call st B)"
  using assms
  by (auto simp: headers_complete_call_def Let_def same_at_def split: prod.split)

lemma same_at_pos: "same_at n A B \<Longrightarrow> pos A = n + pos B"
  by (simp add: same_at_def)

lemma run_action_at:
  "same_at (length xs) A B \<Longrightarrow>
     outcome_at (length xs) (run_action st (xs @ ys) a A) (run_action st ys a B)"
proof (induction a arbitrary: A B)
  case (A_error e)
  then show ?case
    by (simp add: goto_error_def same_at_def)
next
  case A_return_advance
  then show ?case by (simp add: same_at_def)
next
  case A_headers_complete
  then show ?case by (simp add: headers_complete_at)
qed (auto intro!: CALLBACK_DATA_at CALLBACK_NOTIFY_at same_at_updates dest: same_at_pos)

lemma take_body_at:
  assumes "same_at (length xs) A B" and "content_length (parser B) \<noteq> 0" and "pos B < length ys"
  shows "same_at (length xs) (take_body (xs @ ys) A) (take_body ys B)"
proof -
  have eq: "parser A = parser B" "pos A = length xs + pos B"
    using assms(1) by (simp_all add: same_at_def)
  have r: "to_read (xs @ ys) A = to_read ys B"
    by (simp add: to_read_def eq)
  have "0 < to_read ys B"
    using assms(2,3) by (simp add: to_read_def unat_gt_0)
  then show ?thesis
    unfolding take_body_unfold r eq
    by (intro same_at_updates assms(1)) (simp add: add.assoc)
qed

lemma switch_at:
  assumes "same_at (length xs) A B" and "pos B < length ys"
  shows "outcome_at (length xs) (switch st (xs @ ys) ch A) (switch st ys ch B)"
proof -
  have eq: "parser A = parser B" "pos A = length xs + pos B"
    using assms(1) by (simp_all add: same_at_def)
  consider (id) "state (parser B) = s_body_identity" | (eof) "state (parser B) = s_body_identity_eof"
    | (chunk) "state (parser B) = s_chunk_data" | (other) "state (parser B) \<notin> moving_states"
    by (auto simp: moving_states_def)
  then show ?thesis
  proof cases
    case id
    show ?thesis
    proof (cases "content_length (parser B) = 0")
      case False
      note tb = take_body_at [OF assms(1) False assms(2)]
      have tp: "parser (take_body (xs @ ys) A) = parser (take_body ys B)"
        using tb by (simp add: same_at_def)
      have "outcome_at (length xs)
         (CALLBACK_DATA st (xs @ ys) D_body (pos (take_body (xs @ ys) A) + 1)
            (pos (take_body (xs @ ys) A)) Reexecute (set_state s_message_done (take_body (xs @ ys) A)))
         (CALLBACK_DATA st ys D_body (pos (take_body ys B) + 1)
            (pos (take_body ys B)) Reexecute (set_state s_message_done (take_body ys B)))"
        unfolding set_state_def tp
        by (intro CALLBACK_DATA_at same_at_updates tb) (use same_at_pos [OF tb] in auto)
      with id eq tb show ?thesis
        by (simp add: switch_def on_body_identity_def Let_def tp)
    qed (use id eq in \<open>simp add: switch_def on_body_identity_def\<close>)
  next
    case eof
    have "outcome_at (length xs) (Break ((MARK D_body A)\<lparr>pos := length (xs @ ys) - 1\<rparr>))
        (Break ((MARK D_body B)\<lparr>pos := length ys - 1\<rparr>))"
      using assms(2) by (simp add: same_at_updates assms(1))
    with eof eq show ?thesis
      by (simp add: switch_def on_body_identity_eof_def)
  next
    case chunk
    show ?thesis
    proof (cases "content_length (parser B) = 0")
      case False
      note tb = take_body_at [OF assms(1) False assms(2)]
      have tp: "parser (take_body (xs @ ys) A) = parser (take_body ys B)"
        using tb by (simp add: same_at_def)
      have "same_at (length xs) (set_state s (take_body (xs @ ys) A)) (set_state s (take_body ys B))" for s
        unfolding set_state_def tp by (rule same_at_updates [OF tb])
      with chunk eq tb show ?thesis
        by (simp add: switch_def on_chunk_data_def Let_def tp)
    qed (use chunk eq in \<open>simp add: switch_def on_chunk_data_def\<close>)
  next
    case other
    obtain p a where h: "handle_state (parser B) ch = (p, a)"
      by (cases "handle_state (parser B) ch")
    have "outcome_at (length xs) (run_action st (xs @ ys) a (A\<lparr>parser := p\<rparr>))
        (run_action st ys a (B\<lparr>parser := p\<rparr>))"
      by (intro run_action_at same_at_updates assms(1))
    with other h eq show ?thesis
      by (simp add: switch_def moving_states_def)
  qed
qed

lemma outcome_at_cases:
  assumes "outcome_at n a b"
  obtains (Break) A B where "a = Break A" "b = Break B" "same_at n A B"
  | (Reexecute) A B where "a = Reexecute A" "b = Reexecute B" "same_at n A B"
  | (Return) A B i j where "a = Return A i" "b = Return B j" "parser A = parser B" "user A = user B" "i = n + j"
  | (Abort) "a = Abort" "b = Abort"
  using assms by (cases a; cases b) auto

lemma exec_byte_at:
  "same_at (length xs) A B \<Longrightarrow> pos B < length ys \<Longrightarrow>
     outcome_at (length xs) (exec_byte st (xs @ ys) ch A) (exec_byte st ys ch B)"
proof (induction st ys ch B arbitrary: A rule: exec_byte.induct)
  case (1 st ys ch B)
  from switch_at [OF 1(2,3), of st ch] show ?case
  proof (cases rule: outcome_at_cases)
    case (Reexecute A' B')
    moreover have "pos B' < length ys"
      using switch_pos [of st ys ch B B'] Reexecute(2) 1(3) by simp
    ultimately show ?thesis
      using 1(1) [OF Reexecute(2,3)]
      by (simp add: exec_byte.simps [of st "xs @ ys" ch A] exec_byte.simps [of st ys ch B])
  qed (simp_all add: exec_byte.simps [of st "xs @ ys" ch A] exec_byte.simps [of st ys ch B])
qed

section \<open>A field that is pending\<close>

text \<open>
  What a byte does while the field \<open>k\<close> is marked: it only changes the parser, possibly moves, and
  may report the field, up to the current byte or (a body) including it.
\<close>

datatype pend_end = E_keep | E_body | E_data | E_noadvance

definition pend_body :: "http_parser \<Rightarrow> nat \<Rightarrow> http_parser \<times> nat" where
  "pend_body p rem =
     (let n = min (unat (content_length p)) rem
      in (p\<lparr>content_length := content_length p - of_nat n\<rparr>, n - 1))"

definition pend_move :: "http_parser \<Rightarrow> char \<Rightarrow> nat \<Rightarrow> (http_parser \<times> nat \<times> pend_end) option" where
  "pend_move p ch rem =
     (if state p = s_body_identity_eof then Some (p, rem - 1, E_keep)
      else if state p = s_body_identity then
        (case pend_body p rem of (q, i) \<Rightarrow>
           if content_length q = 0 then Some (q\<lparr>state := s_message_done\<rparr>, i, E_body)
           else Some (q, i, E_keep))
      else if state p = s_chunk_data then
        (case pend_body p rem of (q, i) \<Rightarrow>
           Some (if content_length q = 0 then q\<lparr>state := s_chunk_data_almost_done\<rparr> else q, i, E_keep))
      else (case handle_state p ch of
              (q, A_break) \<Rightarrow> Some (q, 0, E_keep)
            | (q, A_data k a) \<Rightarrow> Some (q, 0, E_data)
            | (q, A_data_noadvance k a) \<Rightarrow> Some (q, 0, E_noadvance)
            | _ \<Rightarrow> None))"

primrec pend_finish :: "'u settings \<Rightarrow> string \<Rightarrow> dkind \<Rightarrow> pend_end \<Rightarrow> 'u ctx \<Rightarrow> 'u outcome" where
  "pend_finish st d k E_keep c = Break c"
| "pend_finish st d k E_body c = CALLBACK_DATA st d k (pos c + 1) (pos c) Reexecute c"
| "pend_finish st d k E_data c = CALLBACK_DATA st d k (pos c) (pos c + 1) Break c"
| "pend_finish st d k E_noadvance c = CALLBACK_DATA st d k (pos c) (pos c) Reexecute c"

definition failed :: "'u outcome \<Rightarrow> bool" where
  "failed out \<longleftrightarrow> (case out of Return c n \<Rightarrow> http_errno (parser c) \<noteq> HPE_OK | _ \<Rightarrow> False)"

lemma error_action_failed:
  "action_errors a \<Longrightarrow> action_safe a \<Longrightarrow> failed (run_action st d a c)"
  by (induction a arbitrary: c) (auto simp: goto_error_def failed_def)

definition pending :: "dkind \<Rightarrow> nat \<Rightarrow> 'u ctx \<Rightarrow> bool" where
  "pending k m c \<longleftrightarrow> marks c = [k \<mapsto> m]"

lemma pending_action:
  assumes "handle_state p ch = (q, a)" and "marks_match (state p) {k}"
    and "state p \<notin> moving_states" and "action_safe a" and "\<not> action_errors a"
  shows "a = A_break \<or> a = A_data k A_break \<or> a = A_data_noadvance k A_reexecute"
proof -
  have "k = D_header_field \<and> state p = s_header_field \<or> k = D_header_value \<and> state p = s_header_value \<or>
      k = D_url \<and> state p \<in> set url_states \<or> k = D_body \<and> state p = s_chunk_data_almost_done"
    using assms(2,3)
    by (auto simp: marks_match_def state_marks_def body_states_def moving_states_def split: if_splits)
  then consider (f) "k = D_header_field" "state p = s_header_field"
    | (v) "k = D_header_value" "state p = s_header_value"
    | (u) "k = D_url" "state p \<in> set url_states"
    | (b) "k = D_body" "state p = s_chunk_data_almost_done"
    by blast
  then show ?thesis
  proof cases
    case f
    with assms(1,4,5) show ?thesis
      by (auto simp: handle_state_def on_header_field_def Let_def split: if_splits option.splits)
  next
    case v
    with assms(1,4,5) show ?thesis
      by (auto simp: handle_state_def on_header_value_def dest: header_value_match_break split: if_splits)
  next
    case u
    then have "handle_state p ch = on_req_url p ch \<or> handle_state p ch = on_req_schema p ch"
      by (auto simp: url_states_def handle_state_def)
    with assms(1,4,5) u show ?thesis
      by (auto simp: on_req_url_def on_req_schema_def Let_def dest: url_step_marks(1) [OF sym]
          split: if_splits)
  next
    case b
    with assms(1,4,5) show ?thesis
      by (auto simp: handle_state_def on_chunk_data_almost_done_def strict_check_def split: if_splits)
  qed
qed

lemma MARK_pending: "pending k m c \<Longrightarrow> MARK k c = c"
  by (rule MARK_again) (simp add: pending_def)

lemma pending_moving:
  assumes "ctx_ok n c" and "pending k m c" and "state (parser c) \<in> moving_states"
  shows "k = D_body"
  using assms by (auto simp: ctx_ok_def pending_def moving_states_def marks_match_def state_marks_def url_states_def)

lemma take_body_pending:
  assumes "pending D_body m c" and "content_length (parser c) \<noteq> 0" and "pos c < length d"
  shows "take_body d c =
    c\<lparr>parser := fst (pend_body (parser c) (length d - pos c)),
      pos := pos c + snd (pend_body (parser c) (length d - pos c))\<rparr>"
proof -
  have "0 < to_read d c"
    using assms(2,3) by (simp add: to_read_def unat_gt_0)
  then have "pos c + to_read d c - 1 = pos c + (to_read d c - 1)" by simp
  with MARK_pending [OF assms(1)] show ?thesis
    by (simp add: take_body_unfold pend_body_def Let_def to_read_def)
qed

lemma ctx_update_order: "c\<lparr>pos := i, parser := p\<rparr> = c\<lparr>parser := p, pos := i\<rparr>"
  by (cases c) simp

lemma run_action_leaf:
  "run_action st d A_break = Break" "run_action st d A_reexecute = Reexecute"
  by (simp_all add: fun_eq_iff)

lemma pending_switch:
  assumes "ctx_ok 1 c" and "pending k m c" and "pos c < length d"
  shows "case pend_move (parser c) ch (length d - pos c) of
           None \<Rightarrow> failed (switch st d ch c)
         | Some (q, i, e) \<Rightarrow> switch st d ch c = pend_finish st d k e (c\<lparr>parser := q, pos := pos c + i\<rparr>)"
proof -
  consider (id) "state (parser c) = s_body_identity" | (eof) "state (parser c) = s_body_identity_eof"
    | (chunk) "state (parser c) = s_chunk_data" | (other) "state (parser c) \<notin> moving_states"
    by (auto simp: moving_states_def)
  then show ?thesis
  proof cases
    case other
    obtain q a where h: "handle_state (parser c) ch = (q, a)"
      by (cases "handle_state (parser c) ch")
    have ok: "chunk_ok 1 (parser c)" "header_ok (parser c)" "method_ok (parser c)"
      and mm: "marks_match (state (parser c)) {k}"
      using assms by (simp_all add: ctx_ok_def parser_ok_def pending_def)
    have safe: "action_safe a"
      using handle_state_safe [OF h ok] other by (simp add: moving_states_def)
    have sw: "switch st d ch c = run_action st d a (c\<lparr>parser := q\<rparr>)"
      using other h by (simp add: switch_def moving_states_def)
    show ?thesis
    proof (cases "action_errors a")
      case True
      then show ?thesis
        using sw other h safe error_action_failed [OF True safe, of st d "c\<lparr>parser := q\<rparr>"]
        by (cases a) (auto simp: pend_move_def moving_states_def)
    next
      case False
      with pending_action [OF h mm other safe] sw other h show ?thesis
        by (auto simp: pend_move_def moving_states_def run_action_leaf)
    qed
  next
    case id
    then have k: "k = D_body" using pending_moving [OF assms(1,2)] by (simp add: moving_states_def)
    have len: "content_length (parser c) \<noteq> 0 \<and> content_length (parser c) \<noteq> ULLONG_MAX"
      using assms(1) id by (auto simp: ctx_ok_def parser_ok_def chunk_ok_def)
    show ?thesis
      using id len take_body_pending [OF assms(2) [unfolded k] _ assms(3)]
      by (simp add: switch_def on_body_identity_def pend_move_def Let_def set_state_def k
          ctx_update_order split: prod.split)
  next
    case eof
    then have "k = D_body" using pending_moving [OF assms(1,2)] by (simp add: moving_states_def)
    moreover have "pos c + (length d - pos c - 1) = length d - 1" using assms(3) by simp
    ultimately show ?thesis
      using eof assms(2)
      by (simp add: switch_def on_body_identity_eof_def pend_move_def MARK_pending)
  next
    case chunk
    then have k: "k = D_body" using pending_moving [OF assms(1,2)] by (simp add: moving_states_def)
    have len: "content_length (parser c) \<noteq> 0 \<and> content_length (parser c) \<noteq> ULLONG_MAX \<and>
        flag_set F_CHUNKED (parser c)"
      using assms(1) chunk by (auto simp: ctx_ok_def parser_ok_def chunk_ok_def chunk_states_def)
    show ?thesis
      using chunk len take_body_pending [OF assms(2) [unfolded k] _ assms(3)]
      by (simp add: switch_def on_chunk_data_def pend_move_def Let_def set_state_def
          ctx_update_order split: prod.split)
  qed
qed

end
