(* ===== verification/HttpStream.thy ===== *)
theory HttpStream
  imports HttpSecondPart
begin

text \<open>
  A stream does not care how it is cut. A client of the parser that takes its data in pieces (the
  locale \<open>streaming_client\<close>) ends in the same state, with the parser in the same state, whether a
  buffer arrives at once or in two calls. While a field is marked that began in the first piece,
  the client of the run over both pieces lags behind.
\<close>

lemma pend_move_nread:
  assumes "pend_move p ch rem = Some (q, i, e)"
  shows "nread q = nread p \<or> nread q = 0"
proof -
  obtain r a where h: "handle_state p ch = (r, a)" by (cases "handle_state p ch")
  with assms handle_state_nread [OF h] show ?thesis
    by (cases a) (auto simp: pend_move_def pend_body_def Let_def split: if_splits)
qed

lemma failed_exec_byte:
  "failed (switch st d ch c) \<Longrightarrow> exec_byte st d ch c = switch st d ch c"
  by (cases "switch st d ch c") (simp_all add: exec_byte.simps [of st d ch c] failed_def)

lemma returned_no_failure:
  assumes "pos c < length d" and "exec_loop st d c = Returned p u n" and "http_errno p = HPE_OK"
  shows "\<not> header_overflow (count_byte c)"
    and "\<not> failed (exec_byte st d (d ! pos c) (count_byte c))"
proof -
  show no: "\<not> header_overflow (count_byte c)"
  proof
    assume "header_overflow (count_byte c)"
    with assms show False
      by (auto simp: exec_loop.simps [of st d c] goto_error_def outcome_result_def Let_def)
  qed
  show "\<not> failed (exec_byte st d (d ! pos c) (count_byte c))"
    using assms no
    by (cases "exec_byte st d (d ! pos c) (count_byte c)")
       (auto simp: exec_loop.simps [of st d c] failed_def outcome_result_def)
qed

lemma pend_finish_data:
  assumes "e \<noteq> E_keep"
  shows "\<exists>stop er cont. pos c \<le> stop \<and> pend_finish st d k e c = CALLBACK_DATA st d k stop er cont c"
proof (cases e)
  case E_body
  then show ?thesis by (intro exI [of _ "pos c + 1"] exI [of _ "pos c"] exI [of _ Reexecute]) simp
next
  case E_data
  then show ?thesis by (intro exI [of _ "pos c"] exI [of _ "pos c + 1"] exI [of _ Break]) simp
next
  case E_noadvance
  then show ?thesis by (intro exI [of _ "pos c"] exI [of _ "pos c"] exI [of _ Reexecute]) simp
qed (use assms in simp)

lemma bytes_at_cut:
  assumes "m < length xs"
  shows "bytes_at (xs @ ys) m (length xs + t - m) = bytes_at xs m (length xs - m) @ bytes_at ys 0 t"
  using assms by (simp add: bytes_at_def)

lemma bytes_at_rest: "m < length xs \<Longrightarrow> bytes_at xs m (length xs - m) \<noteq> []"
  by (simp add: bytes_at_def)

section \<open>Clients that take their data in pieces\<close>

text \<open>A client that feeds the pieces of a stream one after the other, and stops at a failure.\<close>

fun feed :: "'u settings \<Rightarrow> http_parser \<Rightarrow> 'u \<Rightarrow> string list \<Rightarrow> (http_parser \<times> 'u) option" where
  "feed st p u [] = Some (p, u)"
| "feed st p u (xs # rest) =
     (case http_parser_execute st p u xs of
        Aborted \<Rightarrow> None
      | Returned p1 u1 n \<Rightarrow>
          if http_errno p1 = HPE_OK \<and> n = length xs then feed st p1 u1 rest else None)"

text \<open>
  What a client must promise so that the way a stream is cut cannot matter to it: the data
  callbacks look at nothing of the parser that changes within the limit \<open>L\<close> of header bytes,
  and taking bytes at once, when that works, is taking them one part after the other.
\<close>

locale streaming_client =
  fixes st :: "'u settings" and L :: nat
  assumes same_view: "unat (nread p) \<le> L \<Longrightarrow> unat (nread q) \<le> L \<Longrightarrow>
      run_data st k p bs u = run_data st k q bs u"
    and pieces: "a \<noteq> [] \<Longrightarrow> unat (nread p) \<le> L \<Longrightarrow> run_data st k p (a @ b) u = (0, False, u2) \<Longrightarrow>
      \<exists>u1. run_data st k p a u = (0, False, u1) \<and> run_data st k p b u1 = (0, False, u2)"
begin

text \<open>
  \<open>A\<close> runs over \<open>xs @ ys\<close> with the field \<open>k\<close> marked in \<open>xs\<close>; \<open>B\<close> runs over \<open>ys\<close> alone, its client
  having been given the bytes of the field that are in \<open>xs\<close>.
\<close>

definition lag :: "string \<Rightarrow> dkind \<Rightarrow> nat \<Rightarrow> 'u ctx \<Rightarrow> 'u ctx \<Rightarrow> bool" where
  "lag xs k m A B \<longleftrightarrow>
     parser A = parser B \<and> pos A = length xs + pos B \<and> pending k m A \<and> pending k 0 B \<and>
     m < length xs \<and>
     (\<exists>q. unat (nread q) \<le> L \<and>
        run_data st k q (bytes_at xs m (length xs - m)) (user A) = (0, False, user B))"

lemma lag_move:
  "lag xs k m A B \<Longrightarrow> lag xs k m (A\<lparr>parser := q, pos := pos A + i\<rparr>) (B\<lparr>parser := q, pos := pos B + i\<rparr>)"
  by (simp add: lag_def pending_def)

lemma empty_piece:
  assumes "a \<noteq> []" and "unat (nread p) \<le> L" and "run_data st k p a u = (0, False, u1)"
  shows "run_data st k p [] u1 = (0, False, u1)"
  using pieces [OF assms(1,2), of k "[]" u u1] assms(3) by auto

lemma CALLBACK_DATA_delivers:
  assumes "pending k m c" and "m < length xs" and "unat (nread (parser c)) \<le> L"
    and "http_errno (parser c) = HPE_OK"
  shows "failed (CALLBACK_DATA st (xs @ ys) k (length xs + t) er cont c) \<or>
    (\<exists>u1. run_data st k (parser c) (bytes_at xs m (length xs - m)) (user c) = (0, False, u1))"
proof -
  obtain r z u where run: "run_data st k (parser c)
      (bytes_at xs m (length xs - m) @ bytes_at ys 0 t) (user c) = (r, z, u)"
    by (cases "run_data st k (parser c) (bytes_at xs m (length xs - m) @ bytes_at ys 0 t) (user c)")
  let ?p = "after_callback r z (data_errno k) (parser c)"
  show ?thesis
  proof (cases "http_errno ?p = HPE_OK")
    case True
    with after_callback_OK [OF assms(4) cb_errno_neq(1)] have "r = 0" "\<not> z" by auto
    with run pieces [OF bytes_at_rest [OF assms(2)] assms(3), of k "bytes_at ys 0 t" "user c" u]
    show ?thesis by auto
  next
    case False
    with run assms(1,2,4) show ?thesis
      by (simp add: CALLBACK_DATA_def pending_def bytes_at_cut failed_def Let_def)
  qed
qed

lemma CALLBACK_DATA_lag:
  assumes "lag xs k m A B" and "unat (nread (parser A)) \<le> L" and "http_errno (parser A) = HPE_OK"
    and "s = length xs + t"
  shows "failed (CALLBACK_DATA st (xs @ ys) k s e ca A) \<or>
    (\<exists>A' B'. same_at (length xs) A' B' \<and> pos B' = pos B \<and> parser B' = parser B \<and>
       CALLBACK_DATA st (xs @ ys) k s e ca A = ca A' \<and> CALLBACK_DATA st ys k t f cb B = cb B')"
proof -
  have l: "parser A = parser B" "pos A = length xs + pos B" "marks A = [k \<mapsto> m]" "marks B = [k \<mapsto> 0]"
    "m < length xs"
    using assms(1) by (simp_all add: lag_def pending_def)
  obtain q where q: "unat (nread q) \<le> L"
    "run_data st k q (bytes_at xs m (length xs - m)) (user A) = (0, False, user B)"
    using assms(1) by (auto simp: lag_def)
  let ?a = "bytes_at xs m (length xs - m)" and ?b = "bytes_at ys 0 t"
  obtain r z u where run: "run_data st k (parser B) (?a @ ?b) (user A) = (r, z, u)"
    by (cases "run_data st k (parser B) (?a @ ?b) (user A)")
  let ?p = "after_callback r z (data_errno k) (parser B)"
  have bA: "bytes_at (xs @ ys) m (s - m) = ?a @ ?b"
    using bytes_at_cut [OF l(5), of ys t] assms(4) by simp
  show ?thesis
  proof (cases "http_errno ?p = HPE_OK")
    case False
    with run l assms(3) bA show ?thesis
      by (simp add: CALLBACK_DATA_def failed_def Let_def)
  next
    case True
    with after_callback_OK [of "parser B" "data_errno k" r z] assms(3) l(1)
    have ok: "r = 0" "\<not> z" "?p = parser B" by auto
    from pieces [OF bytes_at_rest [OF l(5)], of "parser B" k ?b "user A" u] assms(2) run ok l(1)
    obtain u1 where u1: "run_data st k (parser B) ?a (user A) = (0, False, u1)"
      "run_data st k (parser B) ?b u1 = (0, False, u)"
      by auto
    have "u1 = user B"
      using same_view [of "parser B" q k ?a "user A"] assms(2) q u1(1) l(1) by simp
    with u1 have runB: "run_data st k (parser B) ?b (user B) = (0, False, u)" by simp
    let ?A = "A\<lparr>parser := parser B, user := u, marks := (marks A)(k := None)\<rparr>"
    let ?B = "B\<lparr>parser := parser B, user := u, marks := (marks B)(k := None)\<rparr>"
    have "same_at (length xs) ?A ?B"
      using l by (auto simp: same_at_def)
    moreover have "CALLBACK_DATA st (xs @ ys) k s e ca A = ca ?A"
      using run l assms(3) bA ok by (simp add: CALLBACK_DATA_def)
    moreover have "CALLBACK_DATA st ys k t f cb B = cb ?B"
      using runB l assms(3) by (simp add: CALLBACK_DATA_def after_callback_def)
    ultimately show ?thesis by (intro disjI2 exI [of _ ?A] exI [of _ ?B]) simp
  qed
qed

definition linked :: "string \<Rightarrow> 'u ctx \<Rightarrow> 'u ctx \<Rightarrow> bool" where
  "linked xs A B \<longleftrightarrow> same_at (length xs) A B \<or> (\<exists>k m. lag xs k m A B)"

definition linked_outcome :: "string \<Rightarrow> 'u outcome \<Rightarrow> 'u outcome \<Rightarrow> bool" where
  "linked_outcome xs a b \<longleftrightarrow>
     failed a \<or> outcome_at (length xs) a b \<or> (\<exists>A B. a = Break A \<and> b = Break B \<and> linked xs A B)"

lemma ctx_ok_lag: "lag xs k m A B \<Longrightarrow> ctx_ok n A \<Longrightarrow> ctx_ok n B"
  by (simp add: ctx_ok_def lag_def pending_def)

lemma exec_byte_lag:
  assumes "lag xs k m A B" and "ctx_ok 1 A" and "pos B < length ys" and "unat (nread (parser A)) \<le> L"
  shows "linked_outcome xs (exec_byte st (xs @ ys) ch A) (exec_byte st ys ch B)"
proof -
  let ?d = "xs @ ys"
  have l: "parser A = parser B" "pos A = length xs + pos B" "pending k m A" "pending k 0 B"
    using assms(1) by (simp_all add: lag_def)
  have pA: "pos A < length ?d" and rem: "length ?d - pos A = length ys - pos B"
    using l(2) assms(3) by auto
  note swA = pending_switch [OF assms(2) l(3) pA, where ch = ch and st = st]
  note swB = pending_switch [OF ctx_ok_lag [OF assms(1,2)] l(4) assms(3), where ch = ch and st = st]
  show ?thesis
  proof (cases "pend_move (parser B) ch (length ys - pos B)")
    case None
    with swA rem l(1) have "failed (switch st ?d ch A)" by simp
    with failed_exec_byte [OF this] show ?thesis by (simp add: linked_outcome_def)
  next
    case (Some r)
    obtain q i e where r: "r = (q, i, e)" by (cases r)
    let ?A = "A\<lparr>parser := q, pos := pos A + i\<rparr>" and ?B = "B\<lparr>parser := q, pos := pos B + i\<rparr>"
    have A: "switch st ?d ch A = pend_finish st ?d k e ?A"
      and B: "switch st ys ch B = pend_finish st ys k e ?B"
      using swA swB Some r rem l(1) by simp_all
    have lag': "lag xs k m ?A ?B" by (rule lag_move [OF assms(1)])
    have nq: "unat (nread (parser ?A)) \<le> L"
      using pend_move_nread [OF Some [unfolded r]] assms(4) l(1) by auto
    show ?thesis
    proof (cases "e = E_keep")
      case True
      with A B lag' exec_byte_Break [of st ?d ch A ?A] exec_byte_Break [of st ys ch B ?B]
      show ?thesis by (auto simp: linked_outcome_def linked_def)
    next
      case False
      show ?thesis
      proof (cases "http_errno q = HPE_OK")
        case err: False
        then have "switch st ?d ch A = Abort"
          using A False by (cases e) (simp_all add: CALLBACK_DATA_def)
        with switch_ok [OF assms(2) pA, of st ch] show ?thesis by simp
      next
        case True
        have fin: "failed (switch st ?d ch A) \<or>
          (\<exists>A' B'. same_at (length xs) A' B' \<and> pos B' = pos ?B \<and>
             (switch st ?d ch A = Break A' \<and> switch st ys ch B = Break B' \<or>
              switch st ?d ch A = Reexecute A' \<and> switch st ys ch B = Reexecute B'))"
          using CALLBACK_DATA_lag [OF lag' nq, of "pos ?A" "pos ?B" ys "pos ?A + 1" Break "pos ?B + 1" Break]
            CALLBACK_DATA_lag [OF lag' nq, of "pos ?A" "pos ?B" ys "pos ?A" Reexecute "pos ?B" Reexecute]
            CALLBACK_DATA_lag [OF lag' nq, of "pos ?A + 1" "pos ?B + 1" ys "pos ?A" Reexecute "pos ?B" Reexecute]
            A B False True l(2)
          by (cases e) (simp_all, blast+)
        then consider (f) "failed (switch st ?d ch A)"
          | (b) A' B' where "same_at (length xs) A' B'" "switch st ?d ch A = Break A'" "switch st ys ch B = Break B'"
          | (r) A' B' where "same_at (length xs) A' B'" "switch st ?d ch A = Reexecute A'"
              "switch st ys ch B = Reexecute B'"
          by blast
        then show ?thesis
        proof cases
          case f
          with failed_exec_byte [OF this] show ?thesis by (simp add: linked_outcome_def)
        next
          case b
          with exec_byte_Break [OF b(2)] exec_byte_Break [OF b(3)] show ?thesis
            by (simp add: linked_outcome_def)
        next
          case r
          have "pos B' < length ys"
            using switch_pos [of st ys ch B B'] r(3) assms(3) by simp
          from exec_byte_at [OF r(1) this, of st ch] r(2,3) show ?thesis
            by (simp add: linked_outcome_def exec_byte.simps [of st ?d ch A] exec_byte.simps [of st ys ch B])
        qed
      qed
    qed
  qed
qed

lemma CALLBACK_DATA_skip:
  "marks c k = None \<Longrightarrow> http_errno (parser c) = HPE_OK \<Longrightarrow> CALLBACK_DATA st d k t e ca c = ca c"
  by (simp add: CALLBACK_DATA_def)

lemma CALLBACK_DATA_cong:
  assumes "pending k m c"
    and "\<And>c'. http_errno (parser c') = HPE_OK \<Longrightarrow> marks c' = Map.empty \<Longrightarrow> ca c' = cb c'"
  shows "CALLBACK_DATA st d k t e ca c = CALLBACK_DATA st d k t e cb c"
  using assms by (simp add: CALLBACK_DATA_def pending_def Let_def split: prod.split)

lemma finish_pending:
  assumes "pending k m c" and "http_errno (parser c) = HPE_OK"
  shows "finish_buffer st d c =
    CALLBACK_DATA st d k (pos c) (pos c) (\<lambda>c. Return c (length d)) c"
proof -
  have "marks_left c \<le> 1"
    using assms(1) by (cases k) (simp_all add: pending_def marks_left_def)
  moreover have "marks c j = None" if "j \<noteq> k" for j
    using assms(1) that by (simp add: pending_def)
  ultimately show ?thesis
    using assms
    by (cases k) (auto simp: finish_buffer_def Let_def CALLBACK_DATA_skip intro!: CALLBACK_DATA_cong)
qed

lemma finish_none:
  assumes "marks c = Map.empty" and "http_errno (parser c) = HPE_OK"
  shows "finish_buffer st d c = Return c (length d)"
  using assms by (simp add: finish_buffer_def CALLBACK_DATA_def marks_left_def)

lemma marks_cases:
  assumes "ctx_ok n c"
  obtains (none) "marks c = Map.empty" "state_marks (state (parser c)) = {}"
  | (one) k m where "pending k m c"
      "state_marks (state (parser c)) = {k} \<or>
       k = D_body \<and> state (parser c) \<in> set body_states \<and> state_marks (state (parser c)) = {}"
proof -
  have mm: "dom (marks c) = state_marks (state (parser c)) \<or>
      dom (marks c) = {D_body} \<and> state (parser c) \<in> set body_states"
    using assms by (simp add: ctx_ok_def marks_match_def)
  have body: "state (parser c) \<in> set body_states \<Longrightarrow> state_marks (state (parser c)) = {}"
    by (auto simp: body_states_def state_marks_def url_states_def)
  have sm: "state_marks s = {} \<or> (\<exists>k. state_marks s = {k})" for s
    by (auto simp: state_marks_def)
  from mm body sm consider (a) "dom (marks c) = {}" "state_marks (state (parser c)) = {}"
    | (b) k where "dom (marks c) = {k}" "state_marks (state (parser c)) = {k} \<or>
       k = D_body \<and> state (parser c) \<in> set body_states \<and> state_marks (state (parser c)) = {}"
    by metis
  then show ?thesis
  proof cases
    case a
    then show ?thesis by (intro none) auto
  next
    case b
    then obtain m where "marks c = [k \<mapsto> m]" by (metis dom_eq_singleton_conv)
    with b show ?thesis by (intro one) (auto simp: pending_def)
  qed
qed

lemma finish_linked:
  assumes "linked xs A B" and "ctx_ok 0 A" and "unat (nread (parser A)) \<le> L"
    and "pos B = length ys"
    and "finish_buffer st (xs @ ys) A = Return A' n" and "http_errno (parser A') = HPE_OK"
  shows "\<exists>B'. finish_buffer st ys B = Return B' (n - length xs) \<and> length xs \<le> n \<and>
    parser B' = parser A' \<and> user B' = user A'"
proof -
  have e: "http_errno (parser A) = HPE_OK" using assms(2) by (simp add: ctx_ok_def)
  from assms(1) consider (same) "same_at (length xs) A B" | (lag) k m where "lag xs k m A B"
    by (auto simp: linked_def)
  then show ?thesis
  proof cases
    case same
    have eB: "http_errno (parser B) = HPE_OK" and p: "pos A = length xs + pos B"
      using same e by (simp_all add: same_at_def)
    from assms(2) show ?thesis
    proof (cases rule: marks_cases)
      case none
      with same have "marks B = Map.empty"
        by (auto simp: same_at_def fun_eq_iff)
      with finish_none [OF none(1) e, of "xs @ ys"] finish_none [OF _ eB, of ys] same assms(5)
      show ?thesis by (auto simp: same_at_def)
    next
      case (one k m)
      have mk: "marks A = (\<lambda>j. map_option ((+) (length xs)) (marks B j))"
        using same by (simp add: same_at_def)
      have "marks B j = None" if "j \<noteq> k" for j
        using fun_cong [OF mk, of j] one(1) that by (simp add: pending_def)
      moreover obtain i where "marks B k = Some i"
        using fun_cong [OF mk, of k] one(1) by (cases "marks B k") (auto simp: pending_def)
      ultimately have pB: "pending k i B" by (auto simp: pending_def fun_eq_iff)
      have "outcome_at (length xs) (finish_buffer st (xs @ ys) A) (finish_buffer st ys B)"
        unfolding finish_pending [OF one(1) e] finish_pending [OF pB eB]
        by (rule CALLBACK_DATA_at [OF same p p]) (simp add: same_at_def)
      with assms(5) show ?thesis
        by (cases "finish_buffer st ys B") auto
    qed
  next
    case lag
    then have p: "pending k m A" "pending k 0 B" and eq: "parser A = parser B" "pos A = length xs + pos B"
      by (simp_all add: lag_def)
    then have eB: "http_errno (parser B) = HPE_OK" using e by simp
    note fA = assms(5) [unfolded finish_pending [OF p(1) e]]
    have "\<not> failed (CALLBACK_DATA st (xs @ ys) k (pos A) (pos A) (\<lambda>c. Return c (length (xs @ ys))) A)"
      using fA assms(6) by (simp add: failed_def)
    with CALLBACK_DATA_lag [OF lag assms(3) e eq(2), of ys "pos A" "\<lambda>c. Return c (length (xs @ ys))"
        "pos B" "\<lambda>c. Return c (length ys)"]
    obtain A2 B2 where "same_at (length xs) A2 B2"
      "Return A' n = Return A2 (length (xs @ ys))"
      "CALLBACK_DATA st ys k (pos B) (pos B) (\<lambda>c. Return c (length ys)) B = Return B2 (length ys)"
      unfolding fA by blast
    then show ?thesis
      unfolding finish_pending [OF p(2) eB] by (auto simp: same_at_def)
  qed
qed

lemma count_byte_linked:
  assumes "linked xs A B"
  shows "linked xs (count_byte A) (count_byte B)" and "parser (count_byte A) = parser (count_byte B)"
  using assms by (auto simp: linked_def same_at_def lag_def count_byte_def pending_def)

lemma linked_pos: "linked xs A B \<Longrightarrow> pos A = length xs + pos B"
  by (auto simp: linked_def same_at_def lag_def)

lemma linked_advance:
  "linked xs A B \<Longrightarrow> linked xs (A\<lparr>pos := Suc (pos A)\<rparr>) (B\<lparr>pos := Suc (pos B)\<rparr>)"
  by (auto simp: linked_def same_at_def lag_def pending_def)

lemma exec_byte_linked:
  assumes "linked xs A B" and "ctx_ok 1 A" and "pos B < length ys" and "unat (nread (parser A)) \<le> L"
  shows "linked_outcome xs (exec_byte st (xs @ ys) ch A) (exec_byte st ys ch B)"
proof (cases "same_at (length xs) A B")
  case True
  with exec_byte_at [OF this assms(3), of st ch] show ?thesis by (simp add: linked_outcome_def)
next
  case False
  with assms(1) obtain k m where "lag xs k m A B" by (auto simp: linked_def)
  then show ?thesis by (rule exec_byte_lag) (use assms in auto)
qed

lemma exec_loop_linked:
  assumes "linked xs A B" and "ctx_ok 0 A" and "pos B \<le> length ys"
    and "nread_room L (length ys - pos B) (parser A)"
    and "exec_loop st (xs @ ys) A = Returned p u n" and "http_errno p = HPE_OK"
  shows "exec_loop st ys B = Returned p u (n - length xs) \<and> length xs \<le> n"
  using assms
proof (induction "length ys - pos B" arbitrary: A B rule: less_induct)
  case less
  let ?d = "xs @ ys" and ?A = "count_byte A" and ?B = "count_byte B"
  note pA = linked_pos [OF less(2)]
  have pars: "parser A = parser B" using less(2) by (auto simp: linked_def same_at_def lag_def)
  show ?case
  proof (cases "pos B < length ys")
    case False
    then have pB: "pos B = length ys" using less(4) by simp
    have "\<exists>A' i. finish_buffer st ?d A = Return A' i \<and> return_ok (length ?d) (parser A') i"
      using finish_buffer_ok [OF less(3), of ?d st] pA pB by simp
    then obtain A' i where f: "finish_buffer st ?d A = Return A' i" by blast
    moreover have "exec_loop st ?d A = outcome_result (finish_buffer st ?d A)"
      using pA pB by (simp add: exec_loop.simps [of st ?d A])
    ultimately have r: "parser A' = p" "user A' = u" "i = n"
      using less(6) by (simp_all add: outcome_result_def)
    from finish_linked [OF less(2,3) nread_room_le [OF less(5)] pB f] r less(7)
    show ?thesis
      using pB by (auto simp: exec_loop.simps [of st ys B] outcome_result_def)
  next
    case True
    then have lA: "pos A < length ?d" using pA by simp
    note nov = returned_no_failure(1) [OF lA less(6,7)]
    have novB: "\<not> header_overflow ?B"
      using nov count_byte_linked(2) [OF less(2)] by (simp add: header_overflow_def)
    have chars: "?d ! pos A = ys ! pos B" using pA by (simp add: nth_append)
    have ok1: "ctx_ok 1 ?A" by (rule count_byte_ok [OF less(3)])
    have room: "nread_room L (length ys - Suc (pos B)) (parser ?A)"
      using less(5) True nov by (intro nread_room_count) (simp_all add: Suc_diff_Suc)
    have lo: "linked_outcome xs (exec_byte st ?d (ys ! pos B) ?A) (exec_byte st ys (ys ! pos B) ?B)"
      using exec_byte_linked [OF count_byte_linked(1) [OF less(2)] ok1 _ nread_room_le [OF room]] True
      by simp
    have okA: "outcome_ok (length ?d) (exec_byte st ?d (ys ! pos B) ?A)"
      using exec_byte_ok [OF ok1, of ?d st] lA by simp
    have nf: "\<not> failed (exec_byte st ?d (ys ! pos B) ?A)"
      using returned_no_failure(2) [OF lA less(6,7)] chars by simp
    show ?thesis
    proof (cases "exec_byte st ?d (ys ! pos B) ?A")
      case (Break A')
      with lo nf obtain B' where B': "exec_byte st ys (ys ! pos B) ?B = Break B'" "linked xs A' B'"
        by (cases "exec_byte st ys (ys ! pos B) ?B") (auto simp: linked_outcome_def linked_def)
      let ?A' = "A'\<lparr>pos := pos A' + 1\<rparr>" and ?B' = "B'\<lparr>pos := pos B' + 1\<rparr>"
      have p: "pos B \<le> pos B'" "pos B' < length ys"
        using exec_byte_pos [OF B'(1)] True by auto
      have eA: "exec_loop st ?d A = exec_loop st ?d ?A'" and eB: "exec_loop st ys B = exec_loop st ys ?B'"
        using exec_loop_step [OF lA _ nov] exec_loop_step [OF True B'(1) novB] Break chars by auto
      have "nread_room L (length ys - pos ?B') (parser ?A')"
        by (rule nread_room_step [OF room]) (use exec_byte_nread [OF Break] p in auto)
      moreover have "linked xs ?A' ?B'" using linked_advance [OF B'(2)] by simp
      moreover have "ctx_ok 0 ?A'" using okA Break by (simp add: ctx_ok_def)
      moreover have "length ys - pos ?B' < length ys - pos B" "pos ?B' \<le> length ys"
        using p True by auto
      ultimately show ?thesis
        using less(1) [of ?B' ?A'] less(6,7) eA eB by simp
    next
      case (Return A' i)
      with lo nf obtain B' j where B': "exec_byte st ys (ys ! pos B) ?B = Return B' j"
        "parser A' = parser B'" "user A' = user B'" "i = length xs + j"
        by (cases "exec_byte st ys (ys ! pos B) ?B") (auto simp: linked_outcome_def)
      have "exec_loop st ?d A = Returned (parser A') (user A') i"
        using lA nov Return chars by (simp add: exec_loop.simps [of st ?d A] outcome_result_def)
      moreover have "exec_loop st ys B = Returned (parser B') (user B') j"
        using True novB B'(1) by (simp add: exec_loop.simps [of st ys B] outcome_result_def)
      ultimately show ?thesis using B' less(6) by simp
    qed (use okA in \<open>auto simp: exec_byte_not_Reexecute\<close>)
  qed
qed

text \<open>A field marked in \<open>xs\<close> is reported before a run without an error ends, so the client took it.\<close>

lemma exec_loop_delivers:
  assumes "pending k m A" and "m < length xs" and "length xs \<le> pos A" and "pos A \<le> length (xs @ ys)"
    and "ctx_ok 0 A" and "nread_room L (length (xs @ ys) - pos A) (parser A)"
    and "exec_loop st (xs @ ys) A = Returned p u n" and "http_errno p = HPE_OK"
  shows "\<exists>q u1. unat (nread q) \<le> L \<and>
    run_data st k q (bytes_at xs m (length xs - m)) (user A) = (0, False, u1)"
  using assms
proof (induction "length (xs @ ys) - pos A" arbitrary: A rule: less_induct)
  case less
  let ?d = "xs @ ys" and ?A = "count_byte A"
  show ?case
  proof (cases "pos A < length ?d")
    case False
    then have pA: "pos A = length ?d" using less(5) by simp
    have e: "http_errno (parser A) = HPE_OK" using less(6) by (simp add: ctx_ok_def)
    have t: "length xs + (pos A - length xs) = pos A" using less(4) by simp
    from finish_buffer_ok [OF less(6) pA, of st] obtain A' i where f: "finish_buffer st ?d A = Return A' i"
      by blast
    then have "\<not> failed (finish_buffer st ?d A)"
      using less(8,9) pA by (simp add: exec_loop.simps [of st ?d A] outcome_result_def failed_def)
    with CALLBACK_DATA_delivers [OF less(2,3) nread_room_le [OF less(7)] e,
        of ys "pos A - length xs" "pos A" "\<lambda>c. Return c (length ?d)"]
    show ?thesis
      using nread_room_le [OF less(7)] unfolding finish_pending [OF less(2) e] t by blast
  next
    case True
    note nov = returned_no_failure(1) [OF True less(8,9)]
    have ok1: "ctx_ok 1 ?A" by (rule count_byte_ok [OF less(6)])
    have pend: "pending k m ?A" using less(2) by (simp add: pending_def count_byte_def)
    have u: "user ?A = user A" by (simp add: count_byte_def)
    have room: "nread_room L (length ?d - Suc (pos A)) (parser ?A)"
      by (rule nread_room_count [OF _ nov]) (use less(7) True in \<open>simp add: Suc_diff_Suc\<close>)
    let ?sw = "switch st ?d (?d ! pos A) ?A"
    have nf: "\<not> failed ?sw"
      using returned_no_failure(2) [OF True less(8,9)] failed_exec_byte by metis
    note sw = pending_switch [OF ok1 pend, of ?d, where ch = "?d ! pos A" and st = st, simplified pos_count_byte]
    from sw nf True obtain q i e where mv: "pend_move (parser ?A) (?d ! pos A) (length ?d - pos A) = Some (q, i, e)"
      and s: "?sw = pend_finish st ?d k e (?A\<lparr>parser := q, pos := pos A + i\<rparr>)"
      by (cases "pend_move (parser ?A) (?d ! pos A) (length ?d - pos A)") auto
    let ?B = "?A\<lparr>parser := q, pos := pos A + i\<rparr>"
    have pB: "pending k m ?B" using pend by (simp add: pending_def)
    have nq: "unat (nread q) \<le> L"
      using pend_move_nread [OF mv] nread_room_le [OF room] by auto
    show ?thesis
    proof (cases "e = E_keep")
      case True': True
      let ?C = "?B\<lparr>pos := pos ?B + 1\<rparr>"
      have br: "exec_byte st ?d (?d ! pos A) ?A = Break ?B"
        using s True' by (intro exec_byte_Break) simp
      have eq: "exec_loop st ?d A = exec_loop st ?d ?C"
        by (rule exec_loop_step [OF True br nov])
      have p: "pos A + i < length ?d"
        using exec_byte_pos [OF br] True by simp
      have "ctx_ok 0 ?C"
        using exec_byte_ok [OF ok1, of ?d st "?d ! pos A"] br True by (simp add: ctx_ok_def)
      moreover have "nread_room L (length ?d - pos ?C) (parser ?C)"
        by (rule nread_room_step [OF room]) (use pend_move_nread [OF mv] in auto)
      moreover have "pending k m ?C" using pB by (simp add: pending_def)
      ultimately have "\<exists>r u1. unat (nread r) \<le> L \<and>
          run_data st k r (bytes_at xs m (length xs - m)) (user ?C) = (0, False, u1)"
        using p less(4,3,8,9) eq True by (intro less(1)) auto
      then show ?thesis using u by simp
    next
      case False
      have e: "http_errno q = HPE_OK"
      proof (rule ccontr)
        assume "http_errno q \<noteq> HPE_OK"
        then have "?sw = Abort" using s False by (cases e) (simp_all add: CALLBACK_DATA_def)
        with switch_ok [OF ok1, of ?d st "?d ! pos A"] True show False by simp
      qed
      from pend_finish_data [OF False] obtain stop er cont where "pos ?B \<le> stop"
        and "?sw = CALLBACK_DATA st ?d k stop er cont ?B"
        using s by metis
      moreover from this(1) less(4) have "stop = length xs + (stop - length xs)" by simp
      ultimately have "?sw = CALLBACK_DATA st ?d k (length xs + (stop - length xs)) er cont ?B" by simp
      with CALLBACK_DATA_delivers [OF pB less(3), of ys "stop - length xs" er cont] nf nq e u show ?thesis by auto
    qed
  qed
qed

text \<open>
  A call that begins inside a body has no mark yet; marking it at its first byte changes nothing.
\<close>

lemma exec_loop_mark_body:
  assumes "state (parser B) \<in> set body_states" and "pos B < length ys" and "marks B = Map.empty"
    and "ctx_ok 0 B" and "\<And>q. nread q = nread (parser B) \<Longrightarrow> run_data st D_body q [] (user B) = (0, False, user B)"
  shows "exec_loop st ys B = exec_loop st ys (MARK D_body B)"
proof -
  let ?M = "MARK D_body B"
  have cnt: "count_byte B = B" "count_byte ?M = ?M" "\<not> header_overflow B" "\<not> header_overflow ?M"
    using assms(1) by (auto simp: count_byte_def header_overflow_def body_states_def parsing_header_def
        less_eq_pstate_def)
  have "exec_byte st ys ch B = exec_byte st ys ch ?M \<or>
    (\<exists>x y n. exec_byte st ys ch B = Return x n \<and> exec_byte st ys ch ?M = Return y n \<and>
       parser x = parser y \<and> user x = user y)" for ch
  proof (cases "state (parser B) = s_chunk_data_almost_done")
    case False
    have M: "MARK D_body ?M = ?M" by (rule MARK_again) (simp add: MARK_def assms(3))
    have "take_body ys ?M = take_body ys B"
      by (simp add: take_body_unfold M to_read_def)
    with False assms(1) have "switch st ys ch B = switch st ys ch ?M"
      by (auto simp: body_states_def switch_def on_body_identity_def on_body_identity_eof_def
          on_chunk_data_def M)
    then show ?thesis by (simp add: exec_byte.simps [of st ys ch B] exec_byte.simps [of st ys ch ?M])
  next
    case True
    have M: "?M = B\<lparr>marks := [D_body \<mapsto> pos B]\<rparr>"
      by (simp add: MARK_def assms(3))
    have bf: "flag_set F_CHUNKED (parser B)" "content_length (parser B) = 0" "http_errno (parser B) = HPE_OK"
      using assms(4) True by (auto simp: ctx_ok_def parser_ok_def chunk_ok_def chunk_states_def)
    show ?thesis
    proof (cases "ch = CR")
      case cr: True
      let ?q = "(parser B)\<lparr>state := s_chunk_data_done\<rparr>"
      have run: "run_data st D_body ?q [] (user B) = (0, False, user B)"
        by (rule assms(5)) simp
      then have "switch st ys ch B = switch st ys ch ?M"
        using True cr bf assms(3)
        by (cases B) (simp add: switch_def handle_state_def on_chunk_data_almost_done_def
            strict_check_def CALLBACK_DATA_def after_callback_def MARK_def fun_upd_idem)
      then show ?thesis by (simp add: exec_byte.simps [of st ys ch B] exec_byte.simps [of st ys ch ?M])
    next
      case False
      then have sw: "exec_byte st ys ch X = Return (X\<lparr>parser := set_errno HPE_STRICT (parser B)\<rparr>) (pos X)"
        if "parser X = parser B" for X :: "'u ctx"
        using True bf that
        by (simp add: exec_byte.simps [of st ys ch X] switch_def handle_state_def
            on_chunk_data_almost_done_def strict_check_def goto_error_def set_errno_def)
      show ?thesis using sw [of B] sw [of ?M] by simp
    qed
  qed
  then have "exec_byte st ys (ys ! pos B) B = exec_byte st ys (ys ! pos B) ?M \<or>
    (\<exists>x y n. exec_byte st ys (ys ! pos B) B = Return x n \<and> exec_byte st ys (ys ! pos B) ?M = Return y n \<and>
       parser x = parser y \<and> user x = user y)" .
  then show ?thesis
    using assms(2) by (auto simp: exec_loop.simps [of st ys B] exec_loop.simps [of st ys ?M] cnt
        outcome_result_def)
qed

theorem segmentation:
  assumes "resumable p" and "xs \<noteq> []" and "ys \<noteq> []"
    and "nread_room L (length xs + length ys) p"
    and "http_parser_execute st p u (xs @ ys) = Returned p2 u2 n" and "http_errno p2 = HPE_OK"
    and "length xs < n"
  shows "\<exists>p1 u1. http_parser_execute st p u xs = Returned p1 u1 (length xs) \<and>
    http_errno p1 = HPE_OK \<and> nread_room L (length ys) p1 \<and>
    http_parser_execute st p1 u1 ys = Returned p2 u2 (n - length xs)"
proof -
  let ?d = "xs @ ys" and ?A = "\<lparr>parser = p, pos = 0, marks = start_marks (state p), user = u\<rparr>"
  have e: "http_errno p = HPE_OK"
    using assms(5,6,7) by (auto simp: http_parser_execute_def split: if_splits)
  have runA: "exec_loop st ?d ?A = Returned p2 u2 n"
    using assms(2,5) e by (simp add: http_parser_execute_def)
  have okA: "ctx_ok 0 ?A" by (rule start_ctx_ok [OF e assms(1)])
  have "marks_le ?A" by (simp add: marks_le_def start_marks_def)
  then obtain c where r: "reaches_end st xs ys ?A c"
    using exec_loop_reaches_end [OF okA, of xs ys st] runA assms(2,3,6,7)
    by (auto simp: succeeds_def)
  then have c: "pos c = length xs" "ctx_ok 0 c" "\<And>k m. marks c k = Some m \<Longrightarrow> m < length xs"
    and runc: "exec_loop st ?d c = Returned p2 u2 n"
    and runx: "exec_loop st xs ?A = outcome_result (finish_buffer st xs c)"
    and room: "nread_room L (length ys) (parser c)"
    using runA assms(4) by (auto simp: reaches_end_def)
  have ec: "http_errno (parser c) = HPE_OK" using c(2) by (simp add: ctx_ok_def)
  have nL: "unat (nread (parser c)) \<le> L" by (rule nread_room_le [OF room])
  text \<open>The client's state after the first call, and a context for the second that is linked to \<open>c\<close>.\<close>
  have "\<exists>u1 B. finish_buffer st xs c = Return B (length xs) \<and> parser B = parser c \<and> user B = u1 \<and>
    (\<exists>C. linked xs c C \<and> pos C = 0 \<and> exec_loop st ys C = exec_loop st ys
       \<lparr>parser = parser c, pos = 0, marks = start_marks (state (parser c)), user = u1\<rparr>)"
    using c(2)
  proof (cases rule: marks_cases)
    case none
    let ?C = "\<lparr>parser = parser c, pos = 0, marks = start_marks (state (parser c)), user = user c\<rparr>"
    have "start_marks (state (parser c)) = Map.empty"
      using none(2) dom_start_marks [of "state (parser c)"] by auto
    then have "linked xs c ?C"
      using c(1) none(1) by (simp add: linked_def same_at_def)
    with finish_none [OF none(1) ec] show ?thesis by fastforce
  next
    case (one k m)
    have m: "m < length xs" using c(3) [of k m] one(1) by (simp add: pending_def)
    obtain q v where q: "unat (nread q) \<le> L"
      "run_data st k q (bytes_at xs m (length xs - m)) (user c) = (0, False, v)"
      using exec_loop_delivers [OF one(1) m, of ys p2 u2 n] c(1,2) room runc assms(6) by auto
    then have run: "run_data st k (parser c) (bytes_at xs m (length xs - m)) (user c) = (0, False, v)"
      using same_view [OF nL q(1)] by simp
    let ?B = "c\<lparr>parser := parser c, user := v, marks := (marks c)(k := None)\<rparr>"
    have fin: "finish_buffer st xs c = Return ?B (length xs)"
      using finish_pending [OF one(1) ec, of xs] run one(1) ec c(1)
      by (simp add: CALLBACK_DATA_def pending_def after_callback_def)
    let ?C = "\<lparr>parser = parser c, pos = 0, marks = [k \<mapsto> 0], user = v\<rparr>"
    let ?S = "\<lparr>parser = parser c, pos = 0, marks = start_marks (state (parser c)), user = v\<rparr>"
    have lag: "linked xs c ?C"
      using one(1) c(1) m q by (auto simp: linked_def lag_def pending_def)
    have "exec_loop st ys ?C = exec_loop st ys ?S"
      using one(2)
    proof
      assume "state_marks (state (parser c)) = {k}"
      then have "start_marks (state (parser c)) = [k \<mapsto> 0]"
        using dom_start_marks [of "state (parser c)"]
        by (auto simp: start_marks_def dom_def fun_eq_iff split: if_splits)
      then show ?thesis by simp
    next
      assume b: "k = D_body \<and> state (parser c) \<in> set body_states \<and> state_marks (state (parser c)) = {}"
      then have s: "start_marks (state (parser c)) = Map.empty"
        using dom_start_marks [of "state (parser c)"] by auto
      then have C: "?C = MARK D_body ?S" using b by (simp add: MARK_def)
      have "ctx_ok 0 ?S" using c(2) b s by (simp add: ctx_ok_def marks_match_def)
      moreover have "run_data st D_body r [] v = (0, False, v)" if "nread r = nread (parser c)" for r
      proof -
        have rL: "unat (nread r) \<le> L" using that nL by simp
        have "run_data st D_body r (bytes_at xs m (length xs - m)) (user c) = (0, False, v)"
          using same_view [OF rL q(1)] q(2) b by simp
        from empty_piece [OF bytes_at_rest [OF m] rL this] show ?thesis .
      qed
      ultimately show ?thesis
        unfolding C using exec_loop_mark_body [of ?S ys] b s assms(3) by simp
    qed
    with fin lag show ?thesis by (intro exI [of _ v] exI [of _ ?B]) auto
  qed
  then obtain u1 B C where B: "finish_buffer st xs c = Return B (length xs)" "parser B = parser c" "user B = u1"
    and C: "linked xs c C" "pos C = 0" "exec_loop st ys C = exec_loop st ys
       \<lparr>parser = parser c, pos = 0, marks = start_marks (state (parser c)), user = u1\<rparr>"
    by blast
  have "exec_loop st ys C = Returned p2 u2 (n - length xs)"
    using exec_loop_linked [OF C(1) c(2) _ _ runc assms(6)] C(2) room by simp
  with C(3) ec assms(3) have "http_parser_execute st (parser c) u1 ys = Returned p2 u2 (n - length xs)"
    by (simp add: http_parser_execute_def)
  moreover have "http_parser_execute st p u xs = Returned (parser c) u1 (length xs)"
    using runx B e assms(2) by (simp add: http_parser_execute_def outcome_result_def)
  ultimately show ?thesis using ec room by blast
qed

text \<open>Any number of pieces.\<close>

lemma feed_pieces:
  assumes "pieces \<noteq> []" and "[] \<notin> set pieces" and "resumable p"
    and "nread_room L (length (concat pieces)) p"
    and "http_parser_execute st p u (concat pieces) = Returned p2 u2 (length (concat pieces))"
    and "http_errno p2 = HPE_OK"
  shows "feed st p u pieces = Some (p2, u2)"
  using assms
proof (induction pieces arbitrary: p u)
  case (Cons xs rest)
  show ?case
  proof (cases rest)
    case Nil
    with Cons.prems show ?thesis by simp
  next
    case (Cons ys more)
    let ?ys = "concat rest"
    have ne: "xs \<noteq> []" "?ys \<noteq> []" using Cons Cons.prems(2) by auto
    have "length xs < length (concat (xs # rest))" using ne(2) by (cases "concat rest") simp_all
    with segmentation [OF Cons.prems(3) ne, of u p2 u2 "length (concat (xs # rest))"] Cons.prems(4-6)
    obtain p1 u1 where p1: "http_parser_execute st p u xs = Returned p1 u1 (length xs)"
      "http_errno p1 = HPE_OK" "nread_room L (length ?ys) p1"
      "http_parser_execute st p1 u1 ?ys = Returned p2 u2 (length ?ys)"
      by auto
    have "resumable p1"
      using execute_ok [OF Cons.prems(3), of st u xs] p1(1) by simp
    with Cons.IH [of p1 u1] Cons Cons.prems(2,6) p1 show ?thesis by simp
  qed
qed simp

end

end
