(* ===== verification/HttpUserInvariant.thy ===== *)
theory HttpUserInvariant
  imports HttpInvariant
begin

text \<open>
  What every callback keeps of the client's state, a call of the parser keeps.
\<close>

locale user_invariant =
  fixes st :: "'u settings" and inv :: "'u \<Rightarrow> bool"
  assumes notify_keeps: "inv u \<Longrightarrow> run_notify st j p u = (r, z, u') \<Longrightarrow> inv u'"
    and headers_complete_keeps: "inv u \<Longrightarrow> run_headers_complete st p u = (r, z, u') \<Longrightarrow> inv u'"
    and data_keeps: "inv u \<Longrightarrow> run_data st k p bs u = (r, z, u') \<Longrightarrow> inv u'"
begin

definition keeps :: "'u outcome \<Rightarrow> bool" where
  "keeps out \<longleftrightarrow>
     (case out of Break c \<Rightarrow> inv (user c) | Reexecute c \<Rightarrow> inv (user c) | Return c n \<Rightarrow> inv (user c)
        | Abort \<Rightarrow> True)"

lemma keeps_simps [simp]:
  "keeps (Break c) = inv (user c)" "keeps (Reexecute c) = inv (user c)"
  "keeps (Return c n) = inv (user c)" "keeps Abort"
  by (simp_all add: keeps_def)

lemma CALLBACK_DATA_keeps:
  assumes "inv (user c)" and "\<And>c'. inv (user c') \<Longrightarrow> keeps (cont c')"
  shows "keeps (CALLBACK_DATA st d k stop er cont c)"
  using assms(1)
  by (auto simp: CALLBACK_DATA_def Let_def intro: data_keeps [OF assms(1)] intro!: assms(2)
      split: option.split prod.split)

lemma CALLBACK_NOTIFY_keeps:
  assumes "inv (user c)" and "\<And>c'. inv (user c') \<Longrightarrow> keeps (cont c')"
  shows "keeps (CALLBACK_NOTIFY st k er cont c)"
  using assms(1)
  by (auto simp: CALLBACK_NOTIFY_def Let_def intro: notify_keeps [OF assms(1)] intro!: assms(2)
      split: prod.split)

lemma run_action_keeps: "inv (user c) \<Longrightarrow> keeps (run_action st d a c)"
proof (induction a arbitrary: c)
  case A_headers_complete
  then show ?case
    by (auto simp: headers_complete_call_def Let_def intro: headers_complete_keeps split: prod.split)
qed (auto intro!: CALLBACK_DATA_keeps CALLBACK_NOTIFY_keeps simp: goto_error_def)

lemma switch_keeps: "inv (user c) \<Longrightarrow> keeps (switch st d ch c)"
  by (auto simp: switch_def on_body_identity_def on_body_identity_eof_def on_chunk_data_def Let_def
      set_state_def intro!: CALLBACK_DATA_keeps run_action_keeps split: prod.split)

lemma exec_byte_keeps:
  "inv (user c) \<Longrightarrow> keeps (exec_byte st d ch c)"
proof (induction "reexec_rank (state (parser c))" arbitrary: c rule: less_induct)
  case less
  show ?case
  proof (cases "switch st d ch c")
    case (Reexecute c')
    have "inv (user c')" using switch_keeps [OF less(2), of d ch] Reexecute by simp
    then show ?thesis
      using less(1) [of c'] switch_Reexecute_rank [OF Reexecute] Reexecute
      by (simp add: exec_byte.simps [of st d ch c])
  qed (use switch_keeps [OF less(2), of d ch] in \<open>simp_all add: exec_byte.simps [of st d ch c]\<close>)
qed

definition result_keeps :: "'u result \<Rightarrow> bool" where
  "result_keeps r \<longleftrightarrow> (case r of Returned p u n \<Rightarrow> inv u | Aborted \<Rightarrow> True)"

lemma outcome_result_keeps: "keeps out \<Longrightarrow> result_keeps (outcome_result out)"
  by (cases out) (simp_all add: outcome_result_def result_keeps_def)

lemma finish_buffer_keeps: "inv (user c) \<Longrightarrow> keeps (finish_buffer st d c)"
  by (auto simp: finish_buffer_def Let_def intro!: CALLBACK_DATA_keeps)

lemma exec_loop_keeps: "inv (user c) \<Longrightarrow> result_keeps (exec_loop st d c)"
proof (induction "length d - pos c" arbitrary: c rule: less_induct)
  case less
  have u: "user (count_byte c) = user c" by (simp add: count_byte_def)
  note byte = exec_byte_keeps [of "count_byte c" d "d ! pos c", unfolded u, OF less(2)]
  consider (end_of_buffer) "\<not> pos c < length d"
    | (overflow) "pos c < length d" "header_overflow (count_byte c)"
    | (byte) "pos c < length d" "\<not> header_overflow (count_byte c)" by blast
  then show ?case
  proof cases
    case end_of_buffer
    with less(2) show ?thesis
      by (simp add: exec_loop.simps [of st d c] outcome_result_keeps finish_buffer_keeps)
  next
    case overflow
    with less(2) u show ?thesis
      by (simp add: exec_loop.simps [of st d c] goto_error_def outcome_result_def result_keeps_def Let_def)
  next
    case byte': byte
    show ?thesis
    proof (cases "exec_byte st d (d ! pos c) (count_byte c)")
      case (Break c')
      have "pos c \<le> pos c'" "pos c' < length d"
        using exec_byte_pos [OF Break] byte'(1) by simp_all
      then have "result_keeps (exec_loop st d (c'\<lparr>pos := pos c' + 1\<rparr>))"
        using byte Break by (intro less(1)) auto
      then show ?thesis
        using exec_loop_step [OF byte'(1) Break byte'(2)] by simp
    qed (use byte byte' in \<open>simp_all add: exec_loop.simps [of st d c] outcome_result_def result_keeps_def\<close>)
  qed
qed

lemma execute_keeps:
  assumes "inv u" and "http_parser_execute st p u d = Returned p' u' n"
  shows "inv u'"
proof -
  have "result_keeps (http_parser_execute st p u d)"
    using assms(1)
    by (auto simp: http_parser_execute_def Let_def result_keeps_def [of "Returned _ _ _"]
        intro!: exec_loop_keeps outcome_result_keeps CALLBACK_NOTIFY_keeps)
  with assms(2) show ?thesis by (simp add: result_keeps_def)
qed

end

end
