(* ===== verification/HttpUtil.thy ===== *)
theory HttpUtil
  imports TnetPrelude
begin

text \<open>
  \<open>src/src/http/httputil.cpp\<close> and the string helpers of \<open>src/src/stringutil.cpp\<close> it uses: case
  mapping, splitting, percent encoding and decoding, normal form of header names. A \<open>char\<close> is
  signed: a byte from 128 up indexes the tables \<open>HEX2DEC\<close> and \<open>SAFE\<close> before their first entry,
  which is the result \<open>None\<close> here. The case mapping is that of the C locale.
\<close>

section \<open>Case\<close>

definition tolower :: "char \<Rightarrow> char" where
  "tolower c = (if 65 \<le> code c \<and> code c \<le> 90 then char_of (code c + 32) else c)"

definition toupper :: "char \<Rightarrow> char" where
  "toupper c = (if 97 \<le> code c \<and> code c \<le> 122 then char_of (code c - 32) else c)"

definition lower :: "string \<Rightarrow> string" where
  "lower src = map tolower src"

definition upper :: "string \<Rightarrow> string" where
  "upper src = map toupper src"

section \<open>Splitting and hashing\<close>

text \<open>
  \<open>StringUtil::split\<close> with \<open>maxParts\<close>: \<open>rest\<close> is the text from \<open>lastPos\<close>, empty tokens are
  dropped, the last of \<open>maxParts\<close> tokens takes all that is left. The loop of the source ends when
  \<open>pos\<close> reaches the end of the text.
\<close>

function split_from :: "string \<Rightarrow> string \<Rightarrow> nat \<Rightarrow> nat \<Rightarrow> string list" where
  "split_from delim rest parts n =
     (let token = takeWhile (\<lambda>c. c \<notin> set delim) rest;
          tail = dropWhile (\<lambda>c. c \<notin> set delim) rest
      in if token \<noteq> [] \<and> n + 1 = parts then [rest]
         else (if token \<noteq> [] then [token] else []) @
              (case tail of [] \<Rightarrow> []
               | _ # rest' \<Rightarrow> split_from delim rest' parts (if token \<noteq> [] then n + 1 else n)))"
  by pat_completeness auto
termination
proof (relation "measure (\<lambda>(d, r, p, n). length r)", goal_cases)
  case 1
  show ?case by simp
next
  case (2 delim rest parts n token tail c rest')
  then have "Suc (length rest') \<le> length rest"
    by (metis length_Cons length_dropWhile_le)
  then show ?case by simp
qed

declare split_from.simps [simp del]

definition split :: "string \<Rightarrow> string \<Rightarrow> nat \<Rightarrow> string list" where
  "split src delim maxParts = split_from delim src (if maxParts = 0 then 2 ^ 64 - 1 else maxParts) 0"

text \<open>\<open>StringUtil::hash\<close>: a signed \<open>char\<close> is added to a \<open>uint32_t\<close>.\<close>

definition sext_char :: "char \<Rightarrow> u32" where
  "sext_char c = (if code c < 128 then of_nat (code c) else of_nat (code c) - 256)"

fun hash_loop :: "string \<Rightarrow> u32 \<Rightarrow> u32" where
  "hash_loop [] h = h"
| "hash_loop (c # cs) h =
     (let h = push_bit 4 h + sext_char c; x = h AND 0xF0000000
      in hash_loop cs (if x \<noteq> 0 then (h XOR drop_bit 24 x) AND NOT x else h))"

definition hash :: "string \<Rightarrow> u32" where
  "hash str = hash_loop str 0 AND 0x7FFFFFFF"

section \<open>Percent encoding\<close>

definition HEX2DEC :: "int list" where
  "HEX2DEC = replicate 48 (- 1) @ map int [0..<10] @ replicate 7 (- 1) @ map int [10..<16] @
     replicate 26 (- 1) @ map int [10..<16] @ replicate 153 (- 1)"

definition hex2dec :: "char \<Rightarrow> int option" where
  "hex2dec c = (if code c < 128 then Some (HEX2DEC ! code c) else None)"

definition SAFE :: "bool list" where
  "SAFE = replicate 48 False @ replicate 10 True @ replicate 7 False @ replicate 26 True @
     replicate 6 False @ replicate 26 True @ replicate 133 False"

definition is_safe :: "char \<Rightarrow> bool option" where
  "is_safe c = (if code c < 128 then Some (SAFE ! code c) else None)"

definition DEC2HEX :: string where
  "DEC2HEX = ''0123456789'' @ ''ABCDEF''"

text \<open>
  \<open>HttpUtil::unescape\<close>: while at least three bytes are left, a percent sign followed by two hex
  digits is one byte, anything else is copied; both digits are looked up before either is tested.
\<close>

fun unescape :: "string \<Rightarrow> string option" where
  "unescape (a # b # c # rest) =
     (if a = CHR ''%'' then
        (case (hex2dec b, hex2dec c) of
           (Some d1, Some d2) \<Rightarrow>
             if d1 \<noteq> - 1 \<and> d2 \<noteq> - 1
             then map_option ((#) (char_of (nat (d1 * 16 + d2)))) (unescape rest)
             else map_option ((#) a) (unescape (b # c # rest))
         | _ \<Rightarrow> None)
      else map_option ((#) a) (unescape (b # c # rest)))"
| "unescape short = Some short"

fun escape :: "string \<Rightarrow> string option" where
  "escape [] = Some []"
| "escape (c # rest) =
     (case is_safe c of
        None \<Rightarrow> None
      | Some True \<Rightarrow> map_option ((#) c) (escape rest)
      | Some False \<Rightarrow>
          map_option (\<lambda>s. CHR ''%'' # DEC2HEX ! (code c div 16) # DEC2HEX ! (code c mod 16) # s)
            (escape rest))"

section \<open>Header names\<close>

text \<open>\<open>HttpUtil::normalizeHeader\<close>: the loop over \<open>dest\<close>, with the byte before the current one.\<close>

fun capitalize_after :: "char \<Rightarrow> string \<Rightarrow> string" where
  "capitalize_after prev [] = []"
| "capitalize_after prev (c # cs) =
     (let c' = (if prev = CHR ''-'' then toupper c else c) in c' # capitalize_after c' cs)"

definition normalizeHeader :: "string \<Rightarrow> string" where
  "normalizeHeader src =
     (case lower src of [] \<Rightarrow> [] | c # cs \<Rightarrow> toupper c # capitalize_after (toupper c) cs)"

section \<open>What the helpers guarantee\<close>

lemma hex_digits: "\<forall>n \<in> set [0..<16]. hex2dec (DEC2HEX ! n) = Some (int n)"
  by code_simp

lemma hex_digit_round: "n < 16 \<Longrightarrow> hex2dec (DEC2HEX ! n) = Some (int n)"
  using hex_digits by simp

lemma escape_length: "escape s = Some e \<Longrightarrow> length e \<ge> length s"
  by (induction s arbitrary: e rule: escape.induct) (force split: option.splits bool.splits)+

lemma percent_not_safe: "is_safe CHR ''%'' = Some False"
  by (simp add: is_safe_def SAFE_def nth_append)

lemma unescape_literal:
  "a \<noteq> CHR ''%'' \<Longrightarrow> unescape (a # s) = map_option ((#) a) (unescape s)"
  by (cases s rule: unescape.cases) auto

lemma unescape_hex:
  shows "unescape (CHR ''%'' # DEC2HEX ! (code c div 16) # DEC2HEX ! (code c mod 16) # s) =
    map_option ((#) c) (unescape s)"
proof -
  have "code c < 16 * 16" by simp
  then have d: "code c div 16 < 16" "code c mod 16 < 16"
    by (auto intro: less_mult_imp_div_less)
  have "nat (int (code c div 16) * 16 + int (code c mod 16)) = code c"
    using div_mult_mod_eq [of "code c" 16]
    by (metis nat_int of_nat_add of_nat_mult of_nat_numeral)
  moreover have "(char_of (code c) :: char) = c" by simp
  ultimately show ?thesis
    using hex_digit_round [OF d(1)] hex_digit_round [OF d(2)] by (simp add: algebra_simps)
qed

lemma escape_defined: "escape s \<noteq> None \<longleftrightarrow> (\<forall>c \<in> set s. code c < (128 :: nat))"
  by (induction s rule: escape.induct) (auto simp: is_safe_def split: option.split bool.split)

lemma unescape_of_escape: "escape s = Some e \<Longrightarrow> unescape e = Some s"
proof (induction s arbitrary: e)
  case (Cons c s)
  then obtain r where r: "is_safe c = Some r" by (auto split: option.splits)
  show ?case
  proof (cases r)
    case True
    with r Cons.prems obtain f where f: "escape s = Some f" "e = c # f" by auto
    have "c \<noteq> CHR ''%''" using r True percent_not_safe by auto
    then show ?thesis using f Cons.IH [OF f(1)] by (simp add: unescape_literal)
  next
    case False
    with r Cons.prems obtain f where f: "escape s = Some f"
      "e = CHR ''%'' # DEC2HEX ! (code c div 16) # DEC2HEX ! (code c mod 16) # f" by auto
    show ?thesis
      unfolding f(2) unescape_hex Cons.IH [OF f(1)] by simp
  qed
qed simp

lemma lower_idem: "tolower (tolower c) = tolower c"
  by (auto simp: tolower_def)

lemma tolower_toupper: "tolower (toupper c) = tolower c"
  by (auto simp: tolower_def toupper_def)

lemma lower_capitalize: "map tolower (capitalize_after p cs) = map tolower cs"
  by (induction p cs rule: capitalize_after.induct) (auto simp: Let_def tolower_toupper)

lemma lower_normalize: "lower (normalizeHeader s) = lower s"
  by (cases s) (simp_all add: normalizeHeader_def lower_def lower_capitalize tolower_toupper lower_idem comp_def)

lemma split_from_tokens:
  "t \<in> set (split_from d s p n) \<Longrightarrow> t \<noteq> []"
proof (induction d s p n rule: split_from.induct)
  case (1 d s p n)
  show ?case
  proof (cases "dropWhile (\<lambda>c. c \<notin> set d) s")
    case Nil
    with 1(2) show ?thesis
      by (subst (asm) split_from.simps) (auto simp: Let_def split: if_splits)
  next
    case (Cons c r)
    with 1(2) 1(1) [OF refl refl _ Cons] show ?thesis
      by (subst (asm) split_from.simps) (auto simp: Let_def split: if_splits)
  qed
qed

lemma split_from_concat:
  assumes "length s + n < p"
  shows "concat (split_from d s p n) = filter (\<lambda>c. c \<notin> set d) s \<and>
    (\<forall>t \<in> set (split_from d s p n). set t \<inter> set d = {})"
  using assms
proof (induction d s p n rule: split_from.induct)
  case (1 d s p n)
  define tok where "tok = takeWhile (\<lambda>c. c \<notin> set d) s"
  define tl where "tl = dropWhile (\<lambda>c. c \<notin> set d) s"
  have s: "s = tok @ tl" by (simp add: tok_def tl_def)
  have t: "\<forall>c \<in> set tok. c \<notin> set d" by (auto simp: tok_def dest: set_takeWhileD)
  have len: "length tok + length tl = length s" using s by (metis length_append)
  have np: "\<not> (tok \<noteq> [] \<and> n + 1 = p)" using len 1(2) by (cases tok) auto
  have eq: "split_from d s p n = (if tok \<noteq> [] then [tok] else []) @
      (case tl of [] \<Rightarrow> [] | _ # r \<Rightarrow> split_from d r p (if tok \<noteq> [] then n + 1 else n))"
    using np by (subst split_from.simps) (auto simp: Let_def simp flip: tok_def tl_def)
  show ?case
  proof (cases tl)
    case Nil
    with eq s t show ?thesis by auto
  next
    case (Cons c r)
    have c: "c \<in> set d" using Cons unfolding tl_def by (metis (mono_tags, lifting) dropWhile_eq_Cons_conv)
    let ?m = "if tok \<noteq> [] then n + 1 else n"
    have "length r + ?m < p" using 1(2) len Cons by (cases tok) auto
    with 1(1) [OF refl refl, folded tok_def tl_def, OF np Cons]
    have ih: "concat (split_from d r p ?m) = filter (\<lambda>c. c \<notin> set d) r"
      "\<forall>t \<in> set (split_from d r p ?m). set t \<inter> set d = {}" by blast+
    have f: "filter (\<lambda>c. c \<notin> set d) tok = tok" using t by simp
    from eq Cons ih t c show ?thesis by (subst s) (auto simp: f)
  qed
qed

lemma top_nibble: "(0xF0000000 :: u32) = push_bit 28 (mask 4)"
  by (simp add: mask_eq_exp_minus_1 push_bit_eq_mult)

lemma hash_step_bound:
  "(if (h :: u32) AND 0xF0000000 \<noteq> 0
    then (h XOR drop_bit 24 (h AND 0xF0000000)) AND NOT (h AND 0xF0000000) else h) AND 0xF0000000 = 0"
proof (cases "h AND 0xF0000000 = 0")
  case False
  have "((h XOR drop_bit 24 (h AND 0xF0000000)) AND NOT (h AND 0xF0000000)) AND 0xF0000000 = 0"
    unfolding top_nibble
    by (rule bit_word_eqI)
       (auto simp: bit_and_iff bit_or_iff bit_xor_iff bit_not_iff bit_drop_bit_eq bit_push_bit_iff bit_mask_iff
         dest: bit_imp_le_length)
  with False show ?thesis by simp
qed simp

lemma hash_loop_bound: "h AND 0xF0000000 = 0 \<Longrightarrow> hash_loop cs h AND 0xF0000000 = 0"
proof (induction cs h rule: hash_loop.induct)
  case (2 c cs h)
  show ?case
    using 2(1) [OF refl refl hash_step_bound] by (simp add: Let_def)
qed simp

lemma hash_bound: "hash s AND 0xF0000000 = 0"
proof -
  have "hash s AND 0xF0000000 = (hash_loop s 0 AND 0xF0000000) AND 0x7FFFFFFF"
    unfolding hash_def by (simp only: and.assoc and.commute and.left_commute)
  with hash_loop_bound [of 0 s] show ?thesis by simp
qed

section \<open>Properties\<close>

text \<open>C24: text whose bytes are all ASCII is escaped without leaving the tables, and unescaping the
  result gives the text back.\<close>

theorem escape_roundtrip:
  assumes "\<forall>c \<in> set s. code c < (128 :: nat)"
  shows "\<exists>e. escape s = Some e \<and> unescape e = Some s"
  using assms escape_defined [of s] unescape_of_escape [of s] by auto

theorem escape_roundtrip_witness:
  "\<exists>e. escape ''a b%2F'' = Some e \<and> unescape e = Some ''a b%2F''"
  by (rule escape_roundtrip) simp

text \<open>escaping reads the table of safe characters outside its bounds exactly for texts with a
  byte from 128 up, because the index is a signed \<open>char\<close>.\<close>

theorem escape_out_of_bounds:
  "escape s = None \<longleftrightarrow> (\<exists>c \<in> set s. 128 \<le> (code c :: nat))"
  using escape_defined [of s] by (auto simp: not_le)

text \<open>two header names have the same normal form exactly when they differ in case only.\<close>

theorem normalizeHeader_case_insensitive:
  "normalizeHeader a = normalizeHeader b \<longleftrightarrow> lower a = lower b"
proof
  assume "normalizeHeader a = normalizeHeader b"
  then show "lower a = lower b" using lower_normalize [of a] lower_normalize [of b] by metis
qed (simp only: normalizeHeader_def)

text \<open>splitting with no limit on the number of parts gives non-empty tokens without
  delimiters, and together they are the text without its delimiters, in order.\<close>

theorem split_tokens:
  assumes "length s + 1 < 2 ^ 64"
  shows "concat (split s d 0) = filter (\<lambda>c. c \<notin> set d) s \<and>
    (\<forall>t \<in> set (split s d 0). t \<noteq> [] \<and> set t \<inter> set d = {})"
proof -
  define p :: nat where "p = 2 ^ 64 - 1"
  have "length s + 0 < p" using assms by (simp add: p_def)
  moreover have "split s d 0 = split_from d s p 0" by (simp add: split_def p_def)
  ultimately show ?thesis
    using split_from_concat [of s 0 p d] split_from_tokens [of _ d s p 0] by auto
qed

theorem split_tokens_witness:
  "concat (split ''a=1&&b'' ''&'' 0) = ''a=1b''"
  using split_tokens [of "''a=1&&b''" "''&''"] by simp

text \<open>every step of the hash clears the top four bits, so a hash has at most 28 bits.\<close>

theorem hash_has_28_bits: "hash s < 2 ^ 28"
proof -
  have "hash s = hash s AND mask 28"
  proof (rule bit_word_eqI)
    fix n assume "n < LENGTH(32)"
    then have "\<not> bit (hash s) n" if "28 \<le> n"
      using arg_cong [OF hash_bound [of s, unfolded top_nibble], of "\<lambda>w. bit w n"] that
      by (auto simp: bit_and_iff bit_push_bit_iff bit_mask_iff)
    then show "bit (hash s) n = bit (hash s AND mask 28) n"
      by (cases "28 \<le> n") (auto simp: bit_and_iff bit_mask_iff dest: bit_imp_le_length)
  qed
  moreover have "hash s AND mask 28 < 2 ^ 28" by (rule and_mask_less') simp
  ultimately show ?thesis by simp
qed

end
