(* ===== verification/HttpParserClass.thy ===== *)
theory HttpParserClass
  imports HttpStream HttpUserInvariant HttpUtil
begin

text \<open>
  \<open>src/src/http/httpparser.cpp\<close>: the class \<open>HttpParser\<close>, which turns the events of the C parser
  into virtual functions. An object is its own members and, in \<open>sub\<close>, those of the derived class;
  the virtual functions are a record of functions (\<open>hooks\<close>), which get the C parser (the member
  \<open>m_parser\<close>) and the object and may change the object. The constructor leaves \<open>m_errorCode\<close>
  unset, so a new object takes it as an argument.

  The headers of a message (\<open>Headers_t\<close> of \<open>src/src/http/tnet_http.h\<close>) are a \<open>multimap\<close> ordered by
  \<open>strcasecmp\<close>: an association list with a new entry behind the entries not greater than it.
\<close>

section \<open>Headers\<close>

definition c_str :: "string \<Rightarrow> string" where
  "c_str s = takeWhile (\<lambda>c. c \<noteq> NUL) s"

fun str_less :: "string \<Rightarrow> string \<Rightarrow> bool" where
  "str_less _ [] = False"
| "str_less [] (_ # _) = True"
| "str_less (a # as) (b # bs) =
     ((code a :: nat) < code b \<or> a = b \<and> str_less as bs)"

text \<open>\<open>CaseKeyCmp\<close>.\<close>

definition case_key_less :: "string \<Rightarrow> string \<Rightarrow> bool" where
  "case_key_less p1 p2 = str_less (lower (c_str p1)) (lower (c_str p2))"

type_synonym headers = "(string \<times> string) list"

definition insert_header :: "string \<Rightarrow> string \<Rightarrow> headers \<Rightarrow> headers" where
  "insert_header k v hs =
     takeWhile (\<lambda>h. \<not> case_key_less k (fst h)) hs @ (k, v) #
     dropWhile (\<lambda>h. \<not> case_key_less k (fst h)) hs"

text \<open>\<open>find\<close> and \<open>count\<close>: the first entry with an equivalent key, and how many there are.\<close>

definition same_key :: "string \<Rightarrow> string \<Rightarrow> bool" where
  "same_key a b \<longleftrightarrow> \<not> case_key_less a b \<and> \<not> case_key_less b a"

definition find_header :: "string \<Rightarrow> headers \<Rightarrow> string option" where
  "find_header k hs = map_option snd (List.find (\<lambda>h. same_key k (fst h)) hs)"

definition count_header :: "string \<Rightarrow> headers \<Rightarrow> nat" where
  "count_header k hs = length (filter (\<lambda>h. same_key k (fst h)) hs)"

text \<open>The order of the map: no entry is before one its key is less than.\<close>

definition sorted_headers :: "headers \<Rightarrow> bool" where
  "sorted_headers hs = sorted_wrt (\<lambda>g h. \<not> case_key_less (fst h) (fst g)) hs"

lemma str_less_trans: "str_less a b \<Longrightarrow> str_less b c \<Longrightarrow> str_less a c"
proof (induction a b arbitrary: c rule: str_less.induct)
  case (2 y ys)
  then show ?case by (cases c) auto
next
  case (3 x xs y ys)
  then show ?case by (cases c) auto
qed simp

lemma str_less_irrefl: "\<not> str_less a a"
  by (induction a) auto

lemma case_key_less_trans: "case_key_less a b \<Longrightarrow> case_key_less b c \<Longrightarrow> case_key_less a c"
  unfolding case_key_less_def by (rule str_less_trans)

lemma insert_header_sorted:
  assumes "sorted_headers hs"
  shows "sorted_headers (insert_header k v hs)"
proof -
  let ?P = "\<lambda>h. \<not> case_key_less k (fst h)"
  define xs where "xs = takeWhile ?P hs"
  define ys where "ys = dropWhile ?P hs"
  have hs: "hs = xs @ ys" by (simp add: xs_def ys_def)
  have xs: "\<forall>h \<in> set xs. ?P h" by (auto simp: xs_def dest: set_takeWhileD)
  have "\<not> case_key_less (fst h) k" if "h \<in> set ys" for h
  proof (cases ys)
    case (Cons y zs)
    have y: "case_key_less k (fst y)"
      using Cons unfolding ys_def by (metis (mono_tags, lifting) dropWhile_eq_Cons_conv)
    show ?thesis
    proof
      assume hk: "case_key_less (fst h) k"
      from case_key_less_trans [OF hk y] have "case_key_less (fst h) (fst y)" .
      with assms that Cons hs have "h = y"
        by (auto simp: sorted_headers_def sorted_wrt_append)
      with hk y case_key_less_trans show False
        using str_less_irrefl unfolding case_key_less_def by blast
    qed
  qed (use that in simp)
  with assms xs show ?thesis
    unfolding insert_header_def sorted_headers_def
    by (simp add: sorted_wrt_append flip: xs_def ys_def) (auto simp: hs sorted_wrt_append)
qed

lemma set_insert_header: "set (insert_header k v hs) = insert (k, v) (set hs)"
proof -
  have "set hs = set (takeWhile P hs) \<union> set (dropWhile P hs)" for P
    by (metis set_append takeWhile_dropWhile_id)
  then show ?thesis unfolding insert_header_def by auto
qed

section \<open>The class\<close>

datatype event =
    Parser_MessageBegin | Parser_Url | Parser_StatusComplete | Parser_HeaderField
  | Parser_HeaderValue | Parser_HeadersComplete | Parser_Body | Parser_MessageComplete

record http_error =
  statusCode :: int
  message :: string

record 's parser_obj =
  curField :: string
  curValue :: string
  lastWasValue :: bool
  errorCode :: int
  sub :: 's

record 's hooks =
  onMessageBegin :: "http_parser \<Rightarrow> 's parser_obj \<Rightarrow> int \<times> 's parser_obj"
  onUrl :: "http_parser \<Rightarrow> string \<Rightarrow> 's parser_obj \<Rightarrow> int \<times> 's parser_obj"
  onHeader :: "http_parser \<Rightarrow> string \<Rightarrow> string \<Rightarrow> 's parser_obj \<Rightarrow> int \<times> 's parser_obj"
  onHeadersComplete :: "http_parser \<Rightarrow> 's parser_obj \<Rightarrow> int \<times> 's parser_obj"
  onBody :: "http_parser \<Rightarrow> string \<Rightarrow> 's parser_obj \<Rightarrow> int \<times> 's parser_obj"
  onMessageComplete :: "http_parser \<Rightarrow> 's parser_obj \<Rightarrow> int \<times> 's parser_obj"
  onUpgrade :: "http_parser \<Rightarrow> string \<Rightarrow> 's parser_obj \<Rightarrow> int \<times> 's parser_obj"
  onError :: "http_parser \<Rightarrow> http_error \<Rightarrow> 's parser_obj \<Rightarrow> int \<times> 's parser_obj"

text \<open>The virtual functions the class itself provides do nothing.\<close>

definition default_hooks :: "'s hooks" where
  "default_hooks =
     \<lparr>onMessageBegin = (\<lambda>p h. (0, h)), onUrl = (\<lambda>p s h. (0, h)), onHeader = (\<lambda>p f v h. (0, h)),
      onHeadersComplete = (\<lambda>p h. (0, h)), onBody = (\<lambda>p s h. (0, h)),
      onMessageComplete = (\<lambda>p h. (0, h)), onUpgrade = (\<lambda>p s h. (0, h)),
      onError = (\<lambda>p e h. (0, h))\<rparr>"

definition new_parser_obj :: "int \<Rightarrow> 's \<Rightarrow> 's parser_obj" where
  "new_parser_obj garbage s =
     \<lparr>curField = [], curValue = [], lastWasValue = True, errorCode = garbage, sub = s\<rparr>"

definition handleMessageBegin :: "'s hooks \<Rightarrow> http_parser \<Rightarrow> 's parser_obj \<Rightarrow> int \<times> 's parser_obj" where
  "handleMessageBegin hk p h =
     onMessageBegin hk p
       (h\<lparr>curField := [], curValue := [], lastWasValue := True, errorCode := 0\<rparr>)"

text \<open>The result of \<open>onHeader\<close> is dropped in both functions that call it.\<close>

definition handleHeaderField ::
    "'s hooks \<Rightarrow> http_parser \<Rightarrow> string \<Rightarrow> 's parser_obj \<Rightarrow> int \<times> 's parser_obj" where
  "handleHeaderField hk p at h =
     (let h = (if lastWasValue h
               then (let h = (if curField h \<noteq> []
                              then snd (onHeader hk p (normalizeHeader (curField h)) (curValue h) h)
                              else h)
                     in h\<lparr>curField := [], curValue := []\<rparr>)
               else h)
      in (0, h\<lparr>curField := curField h @ at, lastWasValue := False\<rparr>))"

definition handleHeaderValue ::
    "string \<Rightarrow> 's parser_obj \<Rightarrow> int \<times> 's parser_obj" where
  "handleHeaderValue at h = (0, h\<lparr>curValue := curValue h @ at, lastWasValue := True\<rparr>)"

definition handleHeadersComplete :: "'s hooks \<Rightarrow> http_parser \<Rightarrow> 's parser_obj \<Rightarrow> int \<times> 's parser_obj"
  where
  "handleHeadersComplete hk p h =
     onHeadersComplete hk p
       (if curField h \<noteq> []
        then snd (onHeader hk p (normalizeHeader (curField h)) (curValue h) h) else h)"

definition onParser ::
    "'s hooks \<Rightarrow> http_parser \<Rightarrow> event \<Rightarrow> string \<Rightarrow> 's parser_obj \<Rightarrow> int \<times> 's parser_obj" where
  "onParser hk p ev at h =
     (case ev of
        Parser_MessageBegin \<Rightarrow> handleMessageBegin hk p h
      | Parser_Url \<Rightarrow> onUrl hk p at h
      | Parser_StatusComplete \<Rightarrow> (0, h)
      | Parser_HeaderField \<Rightarrow> handleHeaderField hk p at h
      | Parser_HeaderValue \<Rightarrow> handleHeaderValue at h
      | Parser_HeadersComplete \<Rightarrow> handleHeadersComplete hk p h
      | Parser_Body \<Rightarrow> onBody hk p at h
      | Parser_MessageComplete \<Rightarrow> onMessageComplete hk p h)"

section \<open>The settings given to the C parser\<close>

primrec data_event :: "dkind \<Rightarrow> event" where
    "data_event D_header_field = Parser_HeaderField"
  | "data_event D_header_value = Parser_HeaderValue"
  | "data_event D_url = Parser_Url"
  | "data_event D_body = Parser_Body"

primrec notify_event :: "nkind \<Rightarrow> event" where
    "notify_event N_message_begin = Parser_MessageBegin"
  | "notify_event N_status_complete = Parser_StatusComplete"
  | "notify_event N_message_complete = Parser_MessageComplete"

text \<open>The callbacks never call \<open>http_parser_pause\<close>.\<close>

definition unpaused :: "int \<times> 'u \<Rightarrow> 'u cb_ret" where
  "unpaused r = (fst r, False, snd r)"

definition ms_settings :: "'s hooks \<Rightarrow> 's parser_obj settings" where
  "ms_settings hk =
     \<lparr>notify_cb = (\<lambda>k. Some (\<lambda>p h. unpaused (onParser hk p (notify_event k) [] h))),
      headers_complete_cb = Some (\<lambda>p h. unpaused (onParser hk p Parser_HeadersComplete [] h)),
      data_cb = (\<lambda>k. Some (\<lambda>p at h. unpaused (onParser hk p (data_event k) at h)))\<rparr>"

section \<open>HttpParser::execute\<close>

text \<open>
  The result is the value returned, the C parser and the object; \<open>None\<close> is a failed assertion of
  the C parser. After an upgrade the rest of the buffer goes to \<open>onUpgrade\<close>, whatever the error
  number; otherwise a call that did not take the whole buffer is an error.
\<close>

definition execute ::
    "'s hooks \<Rightarrow> http_parser \<Rightarrow> 's parser_obj \<Rightarrow> string \<Rightarrow> (int \<times> http_parser \<times> 's parser_obj) option"
  where
  "execute hk p h buf =
     (case http_parser_execute (ms_settings hk) p h buf of
        Aborted \<Rightarrow> None
      | Returned p h n \<Rightarrow>
          if upgrade p then Some (0, p, snd (onUpgrade hk p (drop n buf) h))
          else if n \<noteq> length buf
          then (let code = (if errorCode h \<noteq> 0 then errorCode h else 400);
                    err = \<lparr>statusCode = code, message = http_errno_description (http_errno p)\<rparr>
                in Some (code, p, snd (onError hk p err h)))
          else Some (0, p, h))"

end
