(* ===== verification/HttpConnector.thy ===== *)
theory HttpConnector
  imports HttpParserClass
begin

text \<open>
  \<open>src/src/http/httpconnector.cpp\<close>: the client side of an HTTP connection, an \<open>HttpParser\<close> for
  responses. The two limits are static members that can be set and are arguments here. The
  callback of the application acts on the application's own state.
\<close>

record http_response =
  status :: int
  body :: string
  resp_headers :: headers

definition clear_response :: http_response where
  "clear_response = \<lparr>status = 200, body = [], resp_headers = []\<rparr>"

datatype response_event = Response_Complete | Response_Error

record 'a connector =
  m_response :: http_response
  app :: 'a

type_synonym 'a response_callback = "http_response \<Rightarrow> response_event \<Rightarrow> 'a \<Rightarrow> 'a"

definition connector_onMessageBegin ::
    "http_parser \<Rightarrow> 'a connector parser_obj \<Rightarrow> int \<times> 'a connector parser_obj" where
  "connector_onMessageBegin p h = (0, h\<lparr>sub := (sub h)\<lparr>m_response := clear_response\<rparr>\<rparr>)"

definition connector_onHeader ::
    "nat \<Rightarrow> http_parser \<Rightarrow> string \<Rightarrow> string \<Rightarrow> 'a connector parser_obj \<Rightarrow>
     int \<times> 'a connector parser_obj" where
  "connector_onHeader maxHeaderSize p field val h =
     (if unat (nread p) \<ge> maxHeaderSize then (- 1, h\<lparr>errorCode := 413\<rparr>)
      else (let r = m_response (sub h)
            in (0, h\<lparr>sub := (sub h)\<lparr>m_response :=
                     r\<lparr>resp_headers := insert_header field val (resp_headers r)\<rparr>\<rparr>\<rparr>)))"

definition connector_onHeadersComplete ::
    "http_parser \<Rightarrow> 'a connector parser_obj \<Rightarrow> int \<times> 'a connector parser_obj" where
  "connector_onHeadersComplete p h =
     (0, h\<lparr>sub := (sub h)\<lparr>m_response := (m_response (sub h))\<lparr>status := uint (status_code p)\<rparr>\<rparr>\<rparr>)"

definition connector_onBody ::
    "nat \<Rightarrow> http_parser \<Rightarrow> string \<Rightarrow> 'a connector parser_obj \<Rightarrow> int \<times> 'a connector parser_obj" where
  "connector_onBody maxBodySize p at h =
     (let r = m_response (sub h)
      in if length (body r) + length at \<ge> maxBodySize then (- 1, h\<lparr>errorCode := 413\<rparr>)
         else (0, h\<lparr>sub := (sub h)\<lparr>m_response := r\<lparr>body := body r @ at\<rparr>\<rparr>\<rparr>))"

definition connector_onMessageComplete ::
    "'a response_callback \<Rightarrow> http_parser \<Rightarrow> 'a connector parser_obj \<Rightarrow> int \<times> 'a connector parser_obj"
  where
  "connector_onMessageComplete cb p h =
     (0, h\<lparr>sub := (sub h)\<lparr>app := cb (m_response (sub h)) Response_Complete (app (sub h))\<rparr>\<rparr>)"

definition connector_onError ::
    "'a response_callback \<Rightarrow> http_parser \<Rightarrow> http_error \<Rightarrow> 'a connector parser_obj \<Rightarrow>
     int \<times> 'a connector parser_obj" where
  "connector_onError cb p e h =
     (let resp = \<lparr>status = statusCode e, body = message e, resp_headers = []\<rparr>
      in (0, h\<lparr>sub := (sub h)\<lparr>app := cb resp Response_Error (app (sub h))\<rparr>\<rparr>))"

definition connector_hooks :: "nat \<Rightarrow> nat \<Rightarrow> 'a response_callback \<Rightarrow> 'a connector hooks" where
  "connector_hooks maxHeaderSize maxBodySize cb =
     default_hooks\<lparr>onMessageBegin := connector_onMessageBegin,
       onHeader := connector_onHeader maxHeaderSize,
       onHeadersComplete := connector_onHeadersComplete,
       onBody := connector_onBody maxBodySize,
       onMessageComplete := connector_onMessageComplete cb,
       onError := connector_onError cb\<rparr>"

definition handleRead ::
    "nat \<Rightarrow> nat \<Rightarrow> 'a response_callback \<Rightarrow> http_parser \<Rightarrow> 'a connector parser_obj \<Rightarrow> string \<Rightarrow>
     (int \<times> http_parser \<times> 'a connector parser_obj) option" where
  "handleRead maxHeaderSize maxBodySize cb p h buf =
     execute (connector_hooks maxHeaderSize maxBodySize cb) p h buf"

section \<open>The connector takes its data in pieces\<close>

lemmas connector_defs = connector_hooks_def default_hooks_def connector_onHeader_def
  connector_onBody_def ms_settings_def onParser_def handleHeaderField_def handleHeaderValue_def
  unpaused_def run_data_def

lemma connector_run_data:
  "run_data (ms_settings (connector_hooks H B cb)) D_url p at h = (0, False, h)"
  "run_data (ms_settings (connector_hooks H B cb)) D_header_value p at h =
     (0, False, h\<lparr>curValue := curValue h @ at, lastWasValue := True\<rparr>)"
  "run_data (ms_settings (connector_hooks H B cb)) D_body p at h =
     (fst (connector_onBody B p at h), False, snd (connector_onBody B p at h))"
  "run_data (ms_settings (connector_hooks H B cb)) D_header_field p at h =
     (0, False, snd (handleHeaderField (connector_hooks H B cb) p at h))"
  by (simp_all add: connector_defs)

lemma connector_hook_onHeader [simp]: "onHeader (connector_hooks H B cb) = connector_onHeader H"
  by (simp add: connector_hooks_def)

lemma connector_header_view:
  assumes "unat (nread p) \<le> H - 1" and "unat (nread q) \<le> H - 1"
  shows "connector_onHeader H p f v h = connector_onHeader H q f v h"
  using assms by (cases "H = 0") (auto simp: connector_onHeader_def)

interpretation connector: streaming_client "ms_settings (connector_hooks H B cb)" "H - 1"
  for H B cb
proof (unfold_locales, goal_cases)
  case (1 p q k bs u)
  show ?case
    using connector_header_view [OF 1, of "normalizeHeader (curField u)" "curValue u" u]
    by (cases k) (auto simp: connector_run_data connector_onBody_def handleHeaderField_def)
next
  case (2 a p k b u u2)
  then show ?case
    by (cases k) (auto simp: connector_run_data connector_onBody_def handleHeaderField_def Let_def
        split: if_splits)
qed


section \<open>What holds of the response at any time\<close>

definition response_ok :: "nat \<Rightarrow> 'a connector parser_obj \<Rightarrow> bool" where
  "response_ok B h \<longleftrightarrow>
     (0 < B \<longrightarrow> length (body (m_response (sub h))) < B) \<and>
     sorted_headers (resp_headers (m_response (sub h)))"

lemma response_ok_frame [simp]:
  "response_ok B (h\<lparr>curField := f\<rparr>) = response_ok B h"
  "response_ok B (h\<lparr>curValue := v\<rparr>) = response_ok B h"
  "response_ok B (h\<lparr>lastWasValue := l\<rparr>) = response_ok B h"
  "response_ok B (h\<lparr>errorCode := e\<rparr>) = response_ok B h"
  by (simp_all add: response_ok_def)

lemma response_ok_onHeader:
  "response_ok B h \<Longrightarrow> response_ok B (snd (connector_onHeader H p f v h))"
  by (auto simp: connector_onHeader_def Let_def response_ok_def insert_header_sorted)

lemma response_ok_onBody:
  "response_ok B h \<Longrightarrow> response_ok B (snd (connector_onBody B p at h))"
  by (auto simp: connector_onBody_def Let_def response_ok_def)

lemma response_ok_events:
  "response_ok B (snd (connector_onMessageBegin p h))"
  "response_ok B h \<Longrightarrow> response_ok B (snd (connector_onHeadersComplete p h))"
  "response_ok B h \<Longrightarrow> response_ok B (snd (connector_onMessageComplete cb p h))"
  by (simp_all add: response_ok_def connector_onMessageBegin_def connector_onHeadersComplete_def
      connector_onMessageComplete_def clear_response_def sorted_headers_def)

lemma response_ok_onParser:
  "response_ok B h \<Longrightarrow> response_ok B (snd (onParser (connector_hooks H B cb) p ev at h))"
  by (cases ev)
     (auto simp: onParser_def handleMessageBegin_def handleHeaderField_def handleHeaderValue_def
       handleHeadersComplete_def Let_def connector_hooks_def default_hooks_def
       response_ok_onBody response_ok_onHeader response_ok_events)

interpretation connector_inv: user_invariant "ms_settings (connector_hooks H B cb)" "response_ok B"
  for H B cb
  by unfold_locales
     (auto simp: run_notify_def run_headers_complete_def run_data_def ms_settings_def unpaused_def
       dest: response_ok_onParser)

section \<open>Properties\<close>



definition example_obj :: "unit connector parser_obj" where
  "example_obj = new_parser_obj 0 \<lparr>m_response = clear_response, app = ()\<rparr>"



text \<open>C4: reading never fails an assertion, and it keeps the response within the limit on the body
  and its headers in the order of the map.\<close>

theorem connector_read_ok:
  assumes "reachable_parser (ms_settings (connector_hooks H B cb)) p" and "response_ok B h"
  shows "\<exists>code p' h'. handleRead H B cb p h buf = Some (code, p', h') \<and> response_ok B h'"
proof -
  let ?st = "ms_settings (connector_hooks H B cb)"
  obtain p' h' n where r: "http_parser_execute ?st p h buf = Returned p' h' n"
    using execute_ok [OF reachable_resumable [OF assms(1)], of ?st h buf] by blast
  have "response_ok B h'"
    by (rule connector_inv.execute_keeps [OF assms(2) r])
  then have "response_ok B (snd (onUpgrade (connector_hooks H B cb) p' s h'))"
    and "response_ok B (snd (onError (connector_hooks H B cb) p' e h'))" for s e
    by (simp_all add: connector_hooks_def default_hooks_def connector_onError_def response_ok_def Let_def)
  with \<open>response_ok B h'\<close> show ?thesis
    by (simp add: handleRead_def execute_def r Let_def)
qed

theorem connector_read_ok_witness:
  "\<exists>code p' h'. handleRead 50 20 (\<lambda>r e a. a) (http_parser_init HTTP_RESPONSE) example_obj ''HTTP/1.1'' =
     Some (code, p', h') \<and> response_ok 20 h'"
  by (rule connector_read_ok [OF reachable_parser.init])
     (simp add: example_obj_def new_parser_obj_def response_ok_def clear_response_def sorted_headers_def)

text \<open>bytes of a body that exceed the limit and end with the buffer go unreported: the C parser
  stops with the error of the body callback but has taken the whole buffer, so the call returns 0
  and \<open>onError\<close> is not called; the next call reports the error 413.\<close>

theorem body_limit_unreported:
  assumes "resumable p"
    and "http_errno p = HPE_OK" and "state p = s_body_identity" and "\<not> upgrade p"
    and "length buf < unat (content_length p)" and "buf \<noteq> []"
    and "B \<le> length (body (m_response (sub h))) + length buf"
  shows "\<exists>p'. handleRead H B cb p h buf = Some (0, p', h\<lparr>errorCode := 413\<rparr>) \<and>
    http_errno p' = HPE_CB_body \<and>
    (next_buf \<noteq> [] \<longrightarrow> (\<exists>h'. handleRead H B cb p' (h\<lparr>errorCode := 413\<rparr>) next_buf = Some (413, p', h')))"
proof -
  let ?st = "ms_settings (connector_hooks H B cb)"
  let ?c = "\<lparr>parser = p, pos = 0, marks = start_marks (state p), user = h\<rparr>"
  let ?q = "p\<lparr>content_length := content_length p - of_nat (length buf)\<rparr>"
  let ?e = "?c\<lparr>parser := ?q, marks := [D_body \<mapsto> 0], pos := length buf - 1\<rparr>"
  have ok: "ctx_ok 0 ?c"
    by (rule start_ctx_ok [OF assms(2,1)])
  have len: "content_length p \<noteq> 0" "content_length p \<noteq> ULLONG_MAX"
    using ok assms(3) by (simp_all add: ctx_ok_def parser_ok_def chunk_ok_def)
  have sm: "start_marks (state p) = Map.empty"
    using assms(3) by (auto simp: start_marks_def fun_eq_iff)
  have r: "to_read buf \<lparr>parser = p, pos = 0, marks = m, user = h\<rparr> = length buf" for m
    using assms(5) by (simp add: to_read_def)
  have tb: "take_body buf ?c = ?e"
    using assms(6) by (simp add: take_body_unfold r MARK_def sm)
  have "unat (content_length p - of_nat (length buf)) \<noteq> 0"
    using assms(5) by (simp add: unat_minus_of_nat)
  then have nz: "content_length p \<noteq> of_nat (length buf)" by auto
  have mv: "state (parser ?c) \<in> moving_states" using assms(3) by (simp add: moving_states_def)
  have "switch ?st buf (buf ! 0) ?c = Break ?e"
    using assms(3) len tb nz by (simp add: switch_def on_body_identity_def Let_def)
  then have "exec_loop ?st buf ?c = exec_loop ?st buf (?e\<lparr>pos := length buf - 1 + 1\<rparr>)"
    using exec_loop_step [of ?c buf ?st ?e] exec_byte_Break [of ?st buf "buf ! 0" ?c ?e] assms(6)
      moving_not_counted [OF mv] moving_no_overflow [OF mv] by simp
  also have "\<dots> = outcome_result (finish_buffer ?st buf (?e\<lparr>pos := length buf\<rparr>))"
    by (subst exec_loop.simps) (use assms(6) in simp)
  also have "finish_buffer ?st buf (?e\<lparr>pos := length buf\<rparr>) =
      CALLBACK_DATA ?st buf D_body (length buf) (length buf) (\<lambda>c. Return c (length buf))
        (?e\<lparr>pos := length buf\<rparr>)"
    using connector.finish_pending [of D_body 0 "?e\<lparr>pos := length buf\<rparr>" H B cb buf] assms(2)
    by (simp add: pending_def)
  also have "outcome_result \<dots> =
      Returned (set_errno HPE_CB_body ?q) (h\<lparr>errorCode := 413\<rparr>) (length buf)"
    using assms(2,7)
    by (simp add: CALLBACK_DATA_def connector_run_data connector_onBody_def Let_def after_callback_def
        set_errno_def outcome_result_def bytes_at_all)
  finally have run: "http_parser_execute ?st p h buf =
      Returned (set_errno HPE_CB_body ?q) (h\<lparr>errorCode := 413\<rparr>) (length buf)"
    using assms(2,6) by (simp add: http_parser_execute_def)
  have stopped: "http_parser_execute ?st (set_errno HPE_CB_body ?q) g b =
      Returned (set_errno HPE_CB_body ?q) g 0" for g b
    by (simp add: http_parser_execute_def)
  show ?thesis
    using assms(4,6)
    by (intro exI [of _ "set_errno HPE_CB_body ?q"])
       (auto simp: handleRead_def execute_def run stopped Let_def)
qed


text \<open>A parser inside a body of nine bytes.\<close>

definition example_body_parser :: http_parser where
  "example_body_parser =
     (http_parser_init HTTP_RESPONSE)\<lparr>state := s_body_identity, content_length := 9, http_major := 1,
        http_minor := 1, status_code := 200\<rparr>"

theorem body_limit_unreported_witness:
  "\<exists>p'. handleRead 50 2 (\<lambda>r e a. a) example_body_parser example_obj ''abc'' =
     Some (0, p', example_obj\<lparr>errorCode := 413\<rparr>) \<and> http_errno p' = HPE_CB_body"
proof -
  have "resumable example_body_parser"
    by (simp add: resumable_def example_body_parser_def http_parser_init_def parser_ok_def chunk_ok_def
        chunk_states_def length_states_def header_ok_def method_ok_def version_ok_def)
  from body_limit_unreported [OF this, of "''abc''" 2 example_obj 50 "\<lambda>r e a. a" "''d''"]
  show ?thesis
    by (auto simp: example_body_parser_def http_parser_init_def example_obj_def new_parser_obj_def
        clear_response_def)
qed

end
