(* ===== verification/Base64.thy ===== *)
theory Base64
  imports TnetPrelude
begin

text \<open>
  \<open>src/src/polarssl/base64.c\<close> and the two functions of \<open>src/src/stringutil.cpp\<close> that wrap it. The
  arithmetic on digits is that of the source: \<open>int\<close> values of one byte when encoding, a \<open>size_t\<close>
  accumulator that is never reset when decoding. The results are compared with the sizes the
  header promises, and decoding is shown to undo encoding.
\<close>

section \<open>Tables and buffers\<close>

definition bytes_of :: "string \<Rightarrow> byte list" where
  "bytes_of s = map (\<lambda>c. of_nat (code c)) s"

definition string_of :: "byte list \<Rightarrow> string" where
  "string_of bs = map (\<lambda>b. char_of (unat b)) bs"

text \<open>Writing the bytes \<open>ws\<close> from the start of a buffer; one that is too long makes it longer.\<close>

definition written :: "byte list \<Rightarrow> byte list \<Rightarrow> byte list" where
  "written ws dst = ws @ drop (length ws) dst"

definition base64_enc_map :: "byte list" where
  "base64_enc_map = bytes_of (''ABCDEFGHIJKLMNOPQRSTUVWXYZ'' @ ''abcdefghijklmnopqrstuvwxyz'' @ ''0123456789+/'')"

definition base64_dec_map :: "byte list" where
  "base64_dec_map = replicate 43 127 @ [62, 127, 127, 127, 63] @ map of_nat [52..<62] @
     replicate 3 127 @ [64] @ replicate 3 127 @ map of_nat [0..<26] @ replicate 6 127 @
     map of_nat [26..<52] @ replicate 5 127"

definition enc_digit :: "u32 \<Rightarrow> byte" where
  "enc_digit C = base64_enc_map ! unat (C AND 0x3F)"

definition dec_entry :: "byte \<Rightarrow> byte" where
  "dec_entry c = base64_dec_map ! unat c"

abbreviation POLARSSL_ERR_BASE64_BUFFER_TOO_SMALL :: int where
  "POLARSSL_ERR_BASE64_BUFFER_TOO_SMALL \<equiv> - 42"
abbreviation POLARSSL_ERR_BASE64_INVALID_CHARACTER :: int where
  "POLARSSL_ERR_BASE64_INVALID_CHARACTER \<equiv> - 44"

section \<open>Encoding\<close>

fun base64_encode_loop :: "byte list \<Rightarrow> byte list" where
  "base64_encode_loop (s1 # s2 # s3 # src) =
     (let C1 = ucast s1 :: u32; C2 = ucast s2; C3 = ucast s3
      in enc_digit (drop_bit 2 C1) #
         enc_digit (push_bit 4 (C1 AND 3) + drop_bit 4 C2) #
         enc_digit (push_bit 2 (C2 AND 15) + drop_bit 6 C3) #
         enc_digit C3 # base64_encode_loop src)"
| "base64_encode_loop [s1, s2] =
     (let C1 = ucast s1 :: u32; C2 = ucast s2
      in [enc_digit (drop_bit 2 C1), enc_digit (push_bit 4 (C1 AND 3) + drop_bit 4 C2),
          enc_digit (push_bit 2 (C2 AND 15)), 61])"
| "base64_encode_loop [s1] =
     (let C1 = ucast s1 :: u32; C2 = 0
      in [enc_digit (drop_bit 2 C1), enc_digit (push_bit 4 (C1 AND 3) + drop_bit 4 C2), 61, 61])"
| "base64_encode_loop [] = []"

text \<open>\<open>size_t\<close> has 64 bits. The result is the value returned, \<open>*dlen\<close> and the buffer.\<close>

definition base64_encode_size :: "nat \<Rightarrow> nat" where
  "base64_encode_size slen =
     (let bits = slen * 8 mod 2 ^ 64; n = bits div 6; r = bits - n * 6
      in if r = 2 then n + 3 else if r = 4 then n + 2 else n)"

definition base64_encode :: "byte list \<Rightarrow> nat \<Rightarrow> byte list \<Rightarrow> int \<times> nat \<times> byte list" where
  "base64_encode dst dlen src =
     (if src = [] then (0, dlen, dst)
      else if dlen < base64_encode_size (length src) + 1
      then (POLARSSL_ERR_BASE64_BUFFER_TOO_SMALL, base64_encode_size (length src) + 1, dst)
      else (let out = base64_encode_loop src in (0, length out, written (out @ [0]) dst)))"

section \<open>Decoding\<close>

text \<open>The first loop: the number of digits, or \<open>None\<close> for an invalid character. \<open>j\<close> counts the
  padding characters.\<close>

fun base64_check :: "byte list \<Rightarrow> nat \<Rightarrow> nat \<Rightarrow> nat option" where
  "base64_check [] j n = Some n"
| "base64_check (c # src) j n =
     (if c = 13 \<and> src \<noteq> [] \<and> hd src = 10 then base64_check src j n
      else if c = 10 then base64_check src j n
      else (let j = (if c = 61 then j + 1 else j)
            in if c = 61 \<and> j > 2 then None
               else if c > 127 \<or> dec_entry c = 127 then None
               else if dec_entry c < 64 \<and> j \<noteq> 0 then None
               else base64_check src j (n + 1)))"

text \<open>The second loop; \<open>j\<close> and \<open>x\<close> are of type \<open>size_t\<close>.\<close>

fun base64_decode_loop :: "byte list \<Rightarrow> u64 \<Rightarrow> nat \<Rightarrow> u64 \<Rightarrow> byte list" where
  "base64_decode_loop [] j n x = []"
| "base64_decode_loop (c # src) j n x =
     (if c = 13 \<or> c = 10 then base64_decode_loop src j n x
      else (let j = (if dec_entry c = 64 then j - 1 else j);
                x = push_bit 6 x OR ucast (dec_entry c AND 0x3F)
            in if n + 1 = 4
               then (if j > 0 then [ucast (drop_bit 16 x)] else []) @
                    (if j > 1 then [ucast (drop_bit 8 x)] else []) @
                    (if j > 2 then [ucast x] else []) @ base64_decode_loop src j 0 x
               else base64_decode_loop src j (n + 1) x))"

definition base64_decode_size :: "nat \<Rightarrow> nat" where
  "base64_decode_size n = (n * 6 + 7) mod 2 ^ 64 div 8"

definition base64_decode :: "byte list \<Rightarrow> nat \<Rightarrow> byte list \<Rightarrow> int \<times> nat \<times> byte list" where
  "base64_decode dst dlen src =
     (case base64_check src 0 0 of
        None \<Rightarrow> (POLARSSL_ERR_BASE64_INVALID_CHARACTER, dlen, dst)
      | Some n \<Rightarrow>
          if n = 0 then (0, dlen, dst)
          else if dlen < base64_decode_size n
          then (POLARSSL_ERR_BASE64_BUFFER_TOO_SMALL, base64_decode_size n, dst)
          else (let out = base64_decode_loop src 3 0 0 in (0, length out, written out dst)))"

section \<open>The wrappers of StringUtil\<close>

definition base64Encode :: "string \<Rightarrow> string" where
  "base64Encode src =
     (let destLen = length src * 4 div 3 + 4;
          (r, destLen', str) = base64_encode (replicate destLen 0) destLen (bytes_of src)
      in if r \<noteq> 0 then [] else string_of (take destLen' str))"

definition base64Decode :: "string \<Rightarrow> string" where
  "base64Decode src =
     (let destLen = length src * 3 div 4 + 4;
          (r, destLen', str) = base64_decode (replicate destLen 0) destLen (bytes_of src)
      in if r \<noteq> 0 then [] else string_of (take destLen' str))"

section \<open>Sizes\<close>

lemma encode_loop_length: "length (base64_encode_loop src) = (length src + 2) div 3 * 4"
proof (induction src rule: base64_encode_loop.induct)
  case (1 s1 s2 s3 src)
  have "(length (s1 # s2 # s3 # src) + 2) div 3 = (length src + 2) div 3 + 1"
    by simp
  with 1 [OF refl refl refl] show ?case by (simp add: Let_def)
qed (simp_all add: Let_def)

lemma encode_size_exact:
  assumes "n * 8 < 2 ^ 64"
  shows "base64_encode_size n = (n + 2) div 3 * 4"
proof -
  have m: "n * 8 mod 2 ^ 64 = n * 8" using assms by simp
  show ?thesis
    unfolding base64_encode_size_def m Let_def minus_div_mult_eq_mod by presburger
qed

abbreviation digits_of :: "byte list \<Rightarrow> byte list" where
  "digits_of src \<equiv> filter (\<lambda>c. c \<noteq> 13 \<and> c \<noteq> 10) src"

lemma decode_loop_length:
  "length (base64_decode_loop src j n x) \<le> 3 * ((n + length (digits_of src)) div 4)"
proof (induction src j n x rule: base64_decode_loop.induct)
  case (2 c src j n x)
  show ?case
  proof (cases "c = 13 \<or> c = 10")
    case False
    let ?j = "if dec_entry c = 64 then j - 1 else j"
    let ?x = "push_bit 6 x OR ucast (dec_entry c AND 0x3F)"
    show ?thesis
    proof (cases "n + 1 = 4")
      case True
      have "length (base64_decode_loop (c # src) j n x) \<le> 3 + length (base64_decode_loop src ?j 0 ?x)"
        using False True by (simp add: Let_def)
      also have "\<dots> \<le> 3 + 3 * (length (digits_of src) div 4)"
        using 2(2) [OF False refl refl True] by simp
      also have "\<dots> = 3 * ((n + length (digits_of (c # src))) div 4)"
        using False True by simp presburger
      finally show ?thesis .
    next
      case n: False
      have "base64_decode_loop (c # src) j n x = base64_decode_loop src ?j (n + 1) ?x"
        using False n by (simp only: base64_decode_loop.simps Let_def if_False)
      then show ?thesis
        using 2(3) [OF False refl refl n] False by simp
    qed
  next
    case True
    then show ?thesis using 2(1) by auto
  qed
qed simp

lemma newline_entry: "dec_entry 13 = 127"
  by (simp add: dec_entry_def base64_dec_map_def nth_append)

lemma check_counts:
  "base64_check src j n = Some m \<Longrightarrow> m = n + length (digits_of src)"
proof (induction src j n rule: base64_check.induct)
  case (2 c src j n)
  let ?j = "if c = 61 then j + 1 else j"
  show ?case
  proof (cases "c = 13 \<and> src \<noteq> [] \<and> hd src = 10 \<or> c = 10")
    case True
    then show ?thesis using 2 by (auto split: if_splits)
  next
    case False
    with 2(4) have rest: "base64_check src ?j (n + 1) = Some m" and "dec_entry c \<noteq> 127"
      by (simp_all only: base64_check.simps Let_def split: if_splits) auto
    then have "c \<noteq> 13" using newline_entry by auto
    have "m = n + 1 + length (digits_of src)"
      using False 2(4) by (intro 2(3) [OF _ _ refl]) (auto simp: Let_def split: if_splits)
    with \<open>c \<noteq> 13\<close> False show ?thesis by simp
  qed
qed simp

declare base64_decode_loop.simps(2) [simp del]

section \<open>Decoding undoes encoding\<close>

lemma dec_map_split:
  "base64_dec_map = map of_nat (replicate 43 127 @ [62, 127, 127, 127, 63] @ [52..<62] @
     [127, 127, 127, 64, 127, 127, 127] @ [0..<26] @ replicate 6 127 @ [26..<52] @ replicate 5 127)"
  by (simp add: base64_dec_map_def numeral_eq_Suc)

lemma enc_map_split: "base64_enc_map = map of_nat ([65..<91] @ [97..<123] @ [48..<58] @ [43, 47])"
  by (simp add: base64_enc_map_def bytes_of_def upt_rec_numeral)

lemma table_round:
  assumes "n < 64"
  shows "\<exists>c. base64_enc_map ! n = of_nat c \<and> c \<le> 127 \<and> c \<noteq> 10 \<and> c \<noteq> 13 \<and> c \<noteq> 61 \<and>
     base64_dec_map ! c = of_nat n"
proof -
  let ?c = "if n < 26 then 65 + n else if n < 52 then 97 + (n - 26)
    else if n < 62 then 48 + (n - 52) else if n = 62 then 43 else 47"
  have e: "base64_enc_map ! n = of_nat ?c"
    using assms by (auto simp: enc_map_split nth_append simp del: upt_rec_numeral)
  have d: "base64_dec_map ! ?c = of_nat n"
    proof -
    consider "n < 62" | "n = 62" | "n = 63" using assms by linarith
    then show ?thesis
      by cases (auto simp: dec_map_split nth_append simp del: upt_rec_numeral)
  qed
  show ?thesis
    by (rule exI [of _ ?c]) (use assms e d in auto)
qed

lemma six_bits: "unat (C AND 0x3F :: u32) < 64"
proof -
  have "C AND 0x3F = C AND mask 6" by (simp add: mask_eq_exp_minus_1)
  moreover have "C AND mask 6 < 2 ^ 6" by (rule and_mask_less') simp
  ultimately show ?thesis by (simp add: word_less_nat_alt)
qed

lemma enc_digit_facts [simp]:
  "enc_digit C \<le> 127" "enc_digit C \<noteq> 10" "enc_digit C \<noteq> 13" "enc_digit C \<noteq> 61"
  "dec_entry (enc_digit C) < 64" "dec_entry (enc_digit C) = ucast (C AND 0x3F)"
proof -
  let ?n = "unat (C AND 0x3F)"
  obtain c where c: "base64_enc_map ! ?n = of_nat c" "c \<le> 127" "c \<noteq> 10" "c \<noteq> 13" "c \<noteq> 61"
    "base64_dec_map ! c = of_nat ?n"
    using table_round [OF six_bits] by blast
  then have u: "unat (enc_digit C) = c" by (simp add: enc_digit_def unsigned_of_nat take_bit_nat_eq_self)
  show "enc_digit C \<le> 127" "enc_digit C \<noteq> 10" "enc_digit C \<noteq> 13" "enc_digit C \<noteq> 61"
    using u c(2-5) by (auto simp: word_le_nat_alt word_unat_eq_iff)
  show d: "dec_entry (enc_digit C) = ucast (C AND 0x3F)"
    unfolding dec_entry_def u c(6) by (simp add: of_nat_unat)
  show "dec_entry (enc_digit C) < 64"
    unfolding d using six_bits [of C] by (simp add: word_less_nat_alt unsigned_ucast_eq take_bit_nat_eq_self)
qed

lemma no_carry: "push_bit 4 ((ucast (a :: byte) :: u32) AND mask 2) + drop_bit 4 (ucast (b :: byte)) =
     (push_bit 4 (ucast a AND mask 2) OR drop_bit 4 (ucast b) :: u32)"
  "push_bit 2 ((ucast (a :: byte) :: u32) AND mask 4) + drop_bit 6 (ucast (b :: byte)) =
     (push_bit 2 (ucast a AND mask 4) OR drop_bit 6 (ucast b) :: u32)"
  by (rule disjunctive_add_eq_or, rule bit_eqI, auto simp: bit_simps dest: bit_imp_le_length simp del: push_bit_and)+

lemma masks: "(3 :: u32) = mask 2" "(15 :: u32) = mask 4" "(0x3F :: u32) = mask 6" "(0x3F :: byte) = mask 6"
  by (simp_all add: mask_eq_exp_minus_1)

lemma byte_top: "\<not> bit (w :: byte) n" if "8 \<le> n"
  using that by (auto dest: bit_imp_le_length)

lemma group_bytes:
  fixes s1 s2 s3 :: byte and x :: u64
  defines "y \<equiv> push_bit 6 (push_bit 6 (push_bit 6 (push_bit 6 x OR
       ucast (drop_bit 2 (ucast s1 :: u32) AND mask 6)) OR
       ucast ((push_bit 4 ((ucast s1 :: u32) AND mask 2) OR drop_bit 4 (ucast s2)) AND mask 6)) OR
       ucast ((push_bit 2 ((ucast s2 :: u32) AND mask 4) OR drop_bit 6 (ucast s3)) AND mask 6)) OR
       ucast ((ucast s3 :: u32) AND mask 6)"
  shows "ucast (drop_bit 16 y) = s1" "ucast (drop_bit 8 y) = s2" "ucast y = s3"
proof -
  have byte_eqI: "a = b" if "bit a 0 = bit b 0" "bit a 1 = bit b 1" "bit a 2 = bit b 2"
    "bit a 3 = bit b 3" "bit a 4 = bit b 4" "bit a 5 = bit b 5" "bit a 6 = bit b 6"
    "bit a 7 = bit b 7" for a b :: byte
  proof (rule bit_word_eqI)
    fix n assume "n < LENGTH(8)"
    then consider "n = 0" | "n = 1" | "n = 2" | "n = 3" | "n = 4" | "n = 5" | "n = 6" | "n = 7"
      by fastforce
    then show "bit a n = bit b n" using that by cases simp_all
  qed
  show "ucast (drop_bit 16 y) = s1" "ucast (drop_bit 8 y) = s2" "ucast y = s3"
    unfolding y_def by (rule byte_eqI; simp add: bit_simps byte_top)+
qed


lemma decode_plain:
  assumes "c \<noteq> 13" and "c \<noteq> 10" and "dec_entry c \<noteq> 64"
  shows "base64_decode_loop (c # src) 3 n x =
     (let x = push_bit 6 x OR ucast (dec_entry c AND mask 6)
      in if n = 3
         then ucast (drop_bit 16 x) # ucast (drop_bit 8 x) # ucast x # base64_decode_loop src 3 0 x
         else base64_decode_loop src 3 (n + 1) x)"
  using assms by (simp add: Let_def masks base64_decode_loop.simps(2))

lemma not_padding: "dec_entry (enc_digit C) \<noteq> 64"
  using enc_digit_facts(5) [of C] by (metis order_less_irrefl)

lemmas decode_digit = decode_plain [OF enc_digit_facts(3,2) not_padding, unfolded enc_digit_facts(6)]

lemma narrow_digit: "ucast (ucast (C AND 0x3F :: u32) AND mask 6 :: byte) = (ucast (C AND mask 6) :: u64)"
  unfolding masks by (rule bit_word_eqI) (auto simp: bit_simps)

lemma four_digits:
  "base64_decode_loop (enc_digit A # enc_digit B # enc_digit C # enc_digit D # src) 3 0 x =
     (let y = push_bit 6 (push_bit 6 (push_bit 6 (push_bit 6 x OR ucast (A AND mask 6)) OR
                ucast (B AND mask 6)) OR ucast (C AND mask 6)) OR ucast (D AND mask 6)
      in ucast (drop_bit 16 y) # ucast (drop_bit 8 y) # ucast y # base64_decode_loop src 3 0 y)"
  by (simp add: decode_digit Let_def narrow_digit)

lemma decode_group:
  "\<exists>y. base64_decode_loop (enc_digit (drop_bit 2 (ucast s1)) #
         enc_digit (push_bit 4 (ucast s1 AND 3) + drop_bit 4 (ucast s2)) #
         enc_digit (push_bit 2 (ucast s2 AND 15) + drop_bit 6 (ucast s3)) #
         enc_digit (ucast s3) # src) 3 0 x = s1 # s2 # s3 # base64_decode_loop src 3 0 y"
  unfolding four_digits Let_def masks no_carry group_bytes by blast


lemma padding_entry: "dec_entry 61 = 64"
  by (simp add: dec_entry_def base64_dec_map_def nth_append)

lemma decode_padding:
  "base64_decode_loop [61] 3 (Suc (Suc (Suc 0))) x =
     [ucast (drop_bit 16 (push_bit 6 x)), ucast (drop_bit 8 (push_bit 6 x))]"
  "base64_decode_loop [61, 61] 3 (Suc (Suc 0)) x = [ucast (drop_bit 16 (push_bit 6 (push_bit 6 x)))]"
  by (simp_all add: base64_decode_loop.simps(2) padding_entry Let_def)

lemma three_digits:
  "base64_decode_loop [enc_digit A, enc_digit B, enc_digit C, 61] 3 0 x =
     (let y = push_bit 6 (push_bit 6 (push_bit 6 (push_bit 6 x OR ucast (A AND mask 6)) OR
                ucast (B AND mask 6)) OR ucast (C AND mask 6))
      in [ucast (drop_bit 16 y), ucast (drop_bit 8 y)])"
  by (simp add: decode_digit decode_padding Let_def narrow_digit)

lemma two_digits:
  "base64_decode_loop [enc_digit A, enc_digit B, 61, 61] 3 0 x =
     (let y = push_bit 6 (push_bit 6 (push_bit 6 (push_bit 6 x OR ucast (A AND mask 6)) OR
                ucast (B AND mask 6)))
      in [ucast (drop_bit 16 y)])"
  by (simp add: decode_digit decode_padding Let_def narrow_digit)

lemmas zero_bits = unsigned_0 bit.conj_zero_left drop_bit_of_0 push_bit_of_0 or.right_neutral

lemma decode_tail2:
  "base64_decode_loop [enc_digit (drop_bit 2 (ucast s1)),
      enc_digit (push_bit 4 (ucast s1 AND 3) + drop_bit 4 (ucast s2)),
      enc_digit (push_bit 2 (ucast s2 AND 15)), 61] 3 0 x = [s1, s2]"
  unfolding three_digits Let_def masks no_carry
    group_bytes(1,2) [where ?s3.0 = 0, unfolded zero_bits] by (rule refl)

lemma decode_tail1:
  "base64_decode_loop [enc_digit (drop_bit 2 (ucast s1)),
      enc_digit (push_bit 4 (ucast s1 AND 3) + drop_bit 4 0), 61, 61] 3 0 x = [s1]"
  unfolding two_digits Let_def masks drop_bit_of_0 add_0_right
    group_bytes(1) [where ?s3.0 = 0 and ?s2.0 = 0, unfolded zero_bits] by (rule refl)

lemma decode_of_encode: "base64_decode_loop (base64_encode_loop src) 3 0 x = src"
proof (induction src arbitrary: x rule: base64_encode_loop.induct)
  case (1 s1 s2 s3 src)
  obtain y where "base64_decode_loop (base64_encode_loop (s1 # s2 # s3 # src)) 3 0 x =
      s1 # s2 # s3 # base64_decode_loop (base64_encode_loop src) 3 0 y"
    using decode_group [of s1 s2 s3 "base64_encode_loop src" x]
    by (auto simp only: base64_encode_loop.simps Let_def)
  then show ?case using 1 [OF refl refl refl] by simp
qed (simp_all only: base64_encode_loop.simps Let_def decode_tail1 decode_tail2 base64_decode_loop.simps(1))

lemma check_digit: "base64_check (enc_digit C # src) 0 n = base64_check src 0 (n + 1)"
proof -
  have "dec_entry (enc_digit C) \<noteq> 127" "\<not> 127 < enc_digit C"
    using enc_digit_facts(5) [of C] enc_digit_facts(1) [of C] by (auto simp: not_less)
  then show ?thesis by (simp del: enc_digit_facts(6))
qed

lemma check_padding: "base64_check [61] 0 n = Some (n + 1)" "base64_check [61, 61] 0 n = Some (n + 2)"
  by (simp_all add: padding_entry)

lemma check_of_encode:
  "base64_check (base64_encode_loop src) 0 n = Some (n + length (base64_encode_loop src))"
  by (induction src arbitrary: n rule: base64_encode_loop.induct)
     (simp_all add: Let_def check_digit check_padding del: base64_check.simps(2))


lemma bytes_string: "string_of (bytes_of s) = s"
  by (induction s) (simp_all add: string_of_def bytes_of_def unsigned_of_nat take_bit_nat_eq_self)

lemma unat_byte: "unat (b :: byte) mod 256 = unat b"
  using unsigned_less [of b, where ?'a = nat] by simp

lemma string_bytes: "bytes_of (string_of bs) = bs"
  by (induction bs) (simp_all add: string_of_def bytes_of_def unat_byte)

lemma length_bytes_of [simp]: "length (bytes_of s) = length s" "length (string_of bs) = length bs"
  by (simp_all add: bytes_of_def string_of_def)

lemma bytes_of_empty [simp]: "bytes_of s = [] \<longleftrightarrow> s = []"
  by (simp add: bytes_of_def)

lemma encode_fits:
  assumes "src \<noteq> []" and "length src < 2 ^ 60" and "(length src + 2) div 3 * 4 < dlen"
  shows "base64_encode dst dlen src =
    (0, length (base64_encode_loop src), written (base64_encode_loop src @ [0]) dst)"
  using assms encode_size_exact [of "length src"] by (simp add: base64_encode_def Let_def)

lemma decode_size_enough:
  "length src < 2 ^ 60 \<Longrightarrow> base64_check src 0 0 = Some n \<Longrightarrow>
   length (base64_decode_loop src 3 0 x) \<le> base64_decode_size n"
proof -
  assume l: "length src < 2 ^ 60" and c: "base64_check src 0 0 = Some n"
  have n: "n = length (digits_of src)" using check_counts [OF c] by simp
  with l have "n < 2 ^ 60" using length_filter_le [of "\<lambda>c. c \<noteq> 13 \<and> c \<noteq> 10" src] by linarith
  then have "base64_decode_size n = (n * 6 + 7) div 8" by (simp add: base64_decode_size_def)
  moreover have "3 * (n div 4) \<le> (n * 6 + 7) div 8" by presburger
  ultimately show ?thesis using decode_loop_length [of src 3 0 x] n by simp
qed

section \<open>Properties\<close>

text \<open>whatever the input, decoding writes inside the buffer of \<open>*dlen\<close> bytes it is given, and
  reports the number of bytes it has written.\<close>

theorem base64_decode_in_bounds:
  assumes "length src < 2 ^ 60" and "dlen \<le> length dst"
    and "base64_decode dst dlen src = (r, dlen', dst')"
  shows "length dst' = length dst \<and> (r = 0 \<longrightarrow> dlen' \<le> dlen)"
proof (cases "base64_check src 0 0")
  case (Some n)
  with decode_size_enough [OF assms(1) Some, of 0] assms show ?thesis
    by (auto simp: base64_decode_def Let_def written_def split: if_splits)
qed (use assms in \<open>auto simp: base64_decode_def\<close>)

theorem base64_decode_in_bounds_witness:
  "case base64_decode [0, 0] 2 [0x59, 0x51, 0x3D, 0x3D] of (r, dlen, dst) \<Rightarrow>
     length dst = 2 \<and> (r = 0 \<longrightarrow> dlen \<le> 2)"
  using base64_decode_in_bounds [of "[0x59, 0x51, 0x3D, 0x3D]" 2 "[0, 0]"]
  by (auto split: prod.splits)

text \<open>encoding succeeds exactly when the buffer has room for four digits for every three bytes
  begun and the final zero; then it writes inside the buffer.\<close>

theorem base64_encode_room:
  assumes "src \<noteq> []" and "length src < 2 ^ 60" and "dlen \<le> length dst"
    and "base64_encode dst dlen src = (r, dlen', dst')"
  shows "(r = 0 \<longleftrightarrow> (length src + 2) div 3 * 4 < dlen) \<and> length dst' = length dst \<and>
    (r = 0 \<longrightarrow> dlen' = (length src + 2) div 3 * 4 \<and> dst' ! dlen' = 0)"
  using assms encode_size_exact [of "length src"]
  by (auto simp: base64_encode_def Let_def written_def encode_loop_length nth_append split: if_splits)

theorem base64_encode_room_witness:
  "fst (base64_encode (replicate 4 0) 4 [1]) \<noteq> 0 \<and> fst (base64_encode (replicate 5 0) 5 [1]) = 0"
proof -
  obtain r n d where a: "base64_encode (replicate 4 0) 4 [1] = (r, n, d)"
    by (rule prod_cases3)
  obtain r' n' d' where b: "base64_encode (replicate 5 0) 5 [1] = (r', n', d')"
    by (rule prod_cases3)
  show ?thesis
    using base64_encode_room [OF _ _ _ a] base64_encode_room [OF _ _ _ b] by (simp add: a b)
qed

text \<open>C23: what \<open>StringUtil\<close> encodes it decodes back, for every non-empty string.\<close>

theorem base64_roundtrip:
  assumes "s \<noteq> []" and "length s < 2 ^ 56"
  shows "base64Decode (base64Encode s) = s"
proof -
  let ?e = "base64_encode_loop (bytes_of s)"
  have le: "length ?e = (length s + 2) div 3 * 4" by (simp add: encode_loop_length)
  have room: "(length s + 2) div 3 * 4 < length s * 4 div 3 + 4" by presburger
  have enc: "base64Encode s = string_of ?e"
    unfolding base64Encode_def Let_def
    using encode_fits [of "bytes_of s" "length s * 4 div 3 + 4"] assms room
    by (simp add: written_def)
  have ne: "?e \<noteq> []" using assms(1) le by (cases s) (auto simp: div_eq_0_iff)
  have small: "length ?e < 2 ^ 60" proof -
    have "(length s + 2) div 3 * 4 \<le> (length s + 2) * 4" by simp
    with assms(2) show ?thesis unfolding le by simp
  qed
  have c: "base64_check ?e 0 0 = Some (length ?e)" using check_of_encode [of "bytes_of s" 0] by simp
  have "base64_decode_size (length ?e) = (length ?e * 6 + 7) div 8"
    using small by (simp add: base64_decode_size_def)
  then have "base64_decode_size (length ?e) \<le> length ?e * 3 div 4 + 4" by presburger
  then show ?thesis
    unfolding base64Decode_def Let_def enc string_bytes base64_decode_def c
    using ne by (simp add: decode_of_encode written_def bytes_string string_bytes)
qed

theorem base64_roundtrip_witness: "base64Decode (base64Encode ''ab'') = ''ab''"
  by (rule base64_roundtrip) simp_all

text \<open>for the empty string neither function sets \<open>*dlen\<close>, and the wrappers return four zero
  bytes.\<close>

theorem base64_empty:
  "base64Encode [] = replicate 4 NUL \<and> base64Decode [] = replicate 4 NUL"
  by (simp add: base64Encode_def base64Decode_def base64_encode_def base64_decode_def bytes_of_def
      string_of_def char_of_def)

end
