(* ===== verification/Digest.thy ===== *)
theory Digest
  imports TnetPrelude
begin

text \<open>
  What \<open>src/src/polarssl/md5.c\<close> and \<open>src/src/polarssl/sha1.c\<close> have in common: the context, the
  function that feeds input of any length, the padding and the HMAC. The two files repeat this code
  with other names; here it takes the function \<open>process\<close> that absorbs one block as an argument.

  The reference is the construction of the standards: the padded message is cut into blocks of 64
  bytes, which are absorbed in order. The locale \<open>block_digest\<close> shows that feeding pieces of any
  size and finishing computes it.
\<close>

section \<open>Bytes and words\<close>

definition GET_UINT32_LE :: "byte list \<Rightarrow> nat \<Rightarrow> u32" where
  "GET_UINT32_LE b i = ucast (b ! i) OR push_bit 8 (ucast (b ! (i + 1))) OR
     push_bit 16 (ucast (b ! (i + 2))) OR push_bit 24 (ucast (b ! (i + 3)))"

definition PUT_UINT32_LE :: "u32 \<Rightarrow> byte list" where
  "PUT_UINT32_LE n = [ucast n, ucast (drop_bit 8 n), ucast (drop_bit 16 n), ucast (drop_bit 24 n)]"

definition GET_UINT32_BE :: "byte list \<Rightarrow> nat \<Rightarrow> u32" where
  "GET_UINT32_BE b i = push_bit 24 (ucast (b ! i)) OR push_bit 16 (ucast (b ! (i + 1))) OR
     push_bit 8 (ucast (b ! (i + 2))) OR ucast (b ! (i + 3))"

definition PUT_UINT32_BE :: "u32 \<Rightarrow> byte list" where
  "PUT_UINT32_BE n = [ucast (drop_bit 24 n), ucast (drop_bit 16 n), ucast (drop_bit 8 n), ucast n]"

text \<open>The macro \<open>S(x,n)\<close> of both files.\<close>

definition S_left :: "u32 \<Rightarrow> nat \<Rightarrow> u32" where
  "S_left x n = push_bit n x OR drop_bit (32 - n) (x AND 0xFFFFFFFF)"

lemma S_left_rotl:
  assumes "0 < n" and "n < 32"
  shows "S_left x n = word_rotl n x"
proof (rule bit_word_eqI)
  fix k assume k: "k < LENGTH(32)"
  have "(0xFFFFFFFF :: u32) = - 1" by simp
  then have s: "S_left x n = push_bit n x OR drop_bit (32 - n) x"
    unfolding S_left_def by (metis and.right_neutral)
  have "bit (word_rotl n x) k = bit x ((k + (32 - n)) mod 32)"
    using assms k by (simp add: bit_word_rotl_iff)
  moreover have "bit (S_left x n) k = (if n \<le> k then bit x (k - n) else bit x (32 - n + k))"
    using assms k unfolding s bit_or_iff bit_push_bit_iff bit_drop_bit_eq comp_apply
    by (auto dest: bit_imp_le_length)
  moreover have "(k + (32 - n)) mod 32 = (if n \<le> k then k - n else 32 - n + k)"
    using assms k by (auto simp: le_mod_geq)
  ultimately show "bit (S_left x n) k = bit (word_rotl n x) k" by simp
qed

lemma upt_split: "i \<le> j \<Longrightarrow> j \<le> k \<Longrightarrow> [i..<k] = [i..<j] @ [j..<k]"
  by (metis le_add_diff_inverse upt_add_eq_append)

lemma length_PUT [simp]: "length (PUT_UINT32_LE n) = 4" "length (PUT_UINT32_BE n) = 4"
  by (simp_all add: PUT_UINT32_LE_def PUT_UINT32_BE_def)

section \<open>The context\<close>

text \<open>\<open>md5_context\<close> and \<open>sha1_context\<close>; \<open>chain\<close> is their array \<open>state\<close>, of four or five words.\<close>

record digest_context =
  total0 :: u32
  total1 :: u32
  chain :: "u32 list"
  block :: "byte list"
  ipad :: "byte list"
  opad :: "byte list"

definition memcpy_at :: "'a list \<Rightarrow> nat \<Rightarrow> 'a list \<Rightarrow> 'a list" where
  "memcpy_at dst off src = take off dst @ src @ drop (off + length src) dst"

fun process_all ::
    "(digest_context \<Rightarrow> byte list \<Rightarrow> digest_context) \<Rightarrow> digest_context \<Rightarrow> byte list \<Rightarrow>
     digest_context \<times> byte list" where
  "process_all process ctx input =
     (if length input < 64 then (ctx, input)
      else process_all process (process ctx (take 64 input)) (drop 64 input))"

declare process_all.simps [simp del]

definition count_bytes :: "digest_context \<Rightarrow> nat \<Rightarrow> digest_context" where
  "count_bytes ctx ilen =
     (let ctx = ctx\<lparr>total0 := total0 ctx + of_nat ilen\<rparr>
      in if total0 ctx < of_nat ilen then ctx\<lparr>total1 := total1 ctx + 1\<rparr> else ctx)"

definition digest_update ::
    "(digest_context \<Rightarrow> byte list \<Rightarrow> digest_context) \<Rightarrow> digest_context \<Rightarrow> byte list \<Rightarrow> digest_context"
  where
  "digest_update process ctx input =
     (if input = [] then ctx
      else
        (let left = unat (total0 ctx AND 0x3F);
             fill = 64 - left;
             ctx = count_bytes ctx (length input);
             (ctx, input, left) =
               (if left \<noteq> 0 \<and> length input \<ge> fill
                then (let ctx = ctx\<lparr>block := memcpy_at (block ctx) left (take fill input)\<rparr>
                      in (process ctx (block ctx), drop fill input, 0))
                else (ctx, input, left));
             (ctx, input) = process_all process ctx input
         in if input \<noteq> [] then ctx\<lparr>block := memcpy_at (block ctx) left input\<rparr> else ctx))"

definition digest_padding :: "byte list" where
  "digest_padding = 0x80 # replicate 63 0"

text \<open>\<open>put_len\<close> lays out the high and the low word of the length in bits.\<close>

definition digest_pad ::
    "(digest_context \<Rightarrow> byte list \<Rightarrow> digest_context) \<Rightarrow> (u32 \<Rightarrow> u32 \<Rightarrow> byte list) \<Rightarrow>
     digest_context \<Rightarrow> digest_context" where
  "digest_pad update put_len ctx =
     (let high = drop_bit 29 (total0 ctx) OR push_bit 3 (total1 ctx);
          low = push_bit 3 (total0 ctx);
          msglen = put_len high low;
          last = unat (total0 ctx AND 0x3F);
          padn = (if last < 56 then 56 - last else 120 - last)
      in update (update ctx (take padn digest_padding)) msglen)"

text \<open>\<open>put_chain\<close> lays out the words of the chain.\<close>

definition digest_finish ::
    "(digest_context \<Rightarrow> byte list \<Rightarrow> digest_context) \<Rightarrow> (u32 \<Rightarrow> u32 \<Rightarrow> byte list) \<Rightarrow>
     (u32 list \<Rightarrow> byte list) \<Rightarrow> digest_context \<Rightarrow> digest_context \<times> byte list" where
  "digest_finish update put_len put_chain ctx =
     (let ctx = digest_pad update put_len ctx in (ctx, put_chain (chain ctx)))"

section \<open>HMAC\<close>

definition hmac_pad :: "byte \<Rightarrow> byte list \<Rightarrow> byte list" where
  "hmac_pad pad key = map (\<lambda>i. if i < length key then pad XOR key ! i else pad) [0..<64]"

definition digest_hmac_starts ::
    "(digest_context \<Rightarrow> digest_context) \<Rightarrow> (digest_context \<Rightarrow> byte list \<Rightarrow> digest_context) \<Rightarrow>
     (byte list \<Rightarrow> byte list) \<Rightarrow> digest_context \<Rightarrow> byte list \<Rightarrow> digest_context" where
  "digest_hmac_starts starts update digest ctx key =
     (let key = (if length key > 64 then digest key else key);
          ctx = starts (ctx\<lparr>ipad := hmac_pad 0x36 key, opad := hmac_pad 0x5C key\<rparr>)
      in update ctx (ipad ctx))"

definition digest_hmac_finish ::
    "(digest_context \<Rightarrow> digest_context) \<Rightarrow> (digest_context \<Rightarrow> byte list \<Rightarrow> digest_context) \<Rightarrow>
     (digest_context \<Rightarrow> digest_context \<times> byte list) \<Rightarrow> digest_context \<Rightarrow>
     digest_context \<times> byte list" where
  "digest_hmac_finish starts update finish ctx =
     (let (ctx, tmpbuf) = finish ctx;
          ctx = starts ctx;
          ctx = update ctx (opad ctx)
      in finish (update ctx tmpbuf))"

definition digest_hmac_reset ::
    "(digest_context \<Rightarrow> digest_context) \<Rightarrow> (digest_context \<Rightarrow> byte list \<Rightarrow> digest_context) \<Rightarrow>
     digest_context \<Rightarrow> digest_context" where
  "digest_hmac_reset starts update ctx = (let ctx = starts ctx in update ctx (ipad ctx))"

section \<open>The reference\<close>

fun absorb :: "(u32 list \<Rightarrow> byte list \<Rightarrow> u32 list) \<Rightarrow> u32 list \<Rightarrow> byte list \<Rightarrow> u32 list" where
  "absorb compress st d =
     (if length d < 64 then st else absorb compress (compress st (take 64 d)) (drop 64 d))"

declare absorb.simps [simp del]

definition le64 :: "u64 \<Rightarrow> byte list" where
  "le64 w = map (\<lambda>i. ucast (drop_bit i w)) [0, 8, 16, 24, 32, 40, 48, 56]"

definition be64 :: "u64 \<Rightarrow> byte list" where
  "be64 w = rev (le64 w)"

definition padded :: "(u64 \<Rightarrow> byte list) \<Rightarrow> byte list \<Rightarrow> byte list" where
  "padded len64 m = m @ [0x80] @ replicate (nat ((55 - int (length m)) mod 64)) 0 @
     len64 (of_nat (8 * length m))"

definition standard_digest ::
    "(u32 list \<Rightarrow> byte list \<Rightarrow> u32 list) \<Rightarrow> u32 list \<Rightarrow> (u64 \<Rightarrow> byte list) \<Rightarrow> (u32 list \<Rightarrow> byte list) \<Rightarrow>
     byte list \<Rightarrow> byte list" where
  "standard_digest compress init len64 put_chain m = put_chain (absorb compress init (padded len64 m))"

text \<open>HMAC as RFC 2104 has it, over any digest with blocks of 64 bytes.\<close>

definition hmac_key :: "(byte list \<Rightarrow> byte list) \<Rightarrow> byte list \<Rightarrow> byte list" where
  "hmac_key H key = (let k = (if length key > 64 then H key else key) in k @ replicate (64 - length k) 0)"

definition hmac :: "(byte list \<Rightarrow> byte list) \<Rightarrow> byte list \<Rightarrow> byte list \<Rightarrow> byte list" where
  "hmac H key text =
     H (map (\<lambda>b. b XOR 0x5C) (hmac_key H key) @ H (map (\<lambda>b. b XOR 0x36) (hmac_key H key) @ text))"

section \<open>Whole blocks\<close>

definition whole_blocks :: "'a list \<Rightarrow> 'a list" where
  "whole_blocks m = take (length m - length m mod 64) m"

definition last_part :: "'a list \<Rightarrow> 'a list" where
  "last_part m = drop (length m - length m mod 64) m"

lemma blocks_tail: "whole_blocks m @ last_part m = m"
  by (simp add: whole_blocks_def last_part_def)

lemma length_whole_blocks: "length (whole_blocks m) mod 64 = 0"
  by (simp add: whole_blocks_def)

lemma length_last_part [simp]: "length (last_part m) = length m mod 64"
  by (simp add: last_part_def)

lemma absorb_short: "length d < 64 \<Longrightarrow> absorb f st d = st"
  by (simp add: absorb.simps)

lemma absorb_block: "length b = 64 \<Longrightarrow> absorb f st (b @ d) = absorb f (f st b) d"
  by (subst absorb.simps) simp

lemma absorb_append: "length a mod 64 = 0 \<Longrightarrow> absorb f st (a @ b) = absorb f (absorb f st a) b"
proof (induction f st a rule: absorb.induct)
  case (1 f st a)
  show ?case
  proof (cases "length a < 64")
    case True
    with 1(2) have "a = []" by (metis length_0_conv mod_less)
    then show ?thesis by (simp add: absorb_short)
  next
    case False
    have m: "length (drop 64 a) mod 64 = 0" using 1(2) False by (metis length_drop le_mod_geq not_less)
    have "absorb f st (a @ b) = absorb f st (take 64 a @ (drop 64 a @ b))"
      by (metis append_assoc append_take_drop_id)
    also have "\<dots> = absorb f (f st (take 64 a)) (drop 64 a @ b)"
      using False by (intro absorb_block) simp
    also have "\<dots> = absorb f (absorb f (f st (take 64 a)) (drop 64 a)) b"
      by (rule 1(1) [OF False m])
    also have "absorb f (f st (take 64 a)) (drop 64 a) = absorb f st a"
      using False by (subst (2) absorb.simps) simp
    finally show ?thesis .
  qed
qed

lemma absorb_whole_blocks: "absorb f st (whole_blocks m) = absorb f st m"
  using absorb_append [OF length_whole_blocks, of f st m "last_part m"]
  by (simp add: blocks_tail absorb_short)


section \<open>Feeding pieces\<close>

text \<open>The context after the message \<open>m\<close> has been fed.\<close>

definition tracks ::
    "(u32 list \<Rightarrow> byte list \<Rightarrow> u32 list) \<Rightarrow> u32 list \<Rightarrow> byte list \<Rightarrow> digest_context \<Rightarrow> bool" where
  "tracks compress init m c \<longleftrightarrow>
     total0 c = of_nat (length m) \<and> total1 c = of_nat (length m div 2 ^ 32) \<and>
     chain c = absorb compress init m \<and> length (block c) = 64 \<and>
     take (length m mod 64) (block c) = last_part m"

lemma low_six_bits: "unat ((of_nat n :: u32) AND 0x3F) = n mod 64"
proof -
  have "(of_nat n :: u32) AND 0x3F = of_nat n AND mask 6" by (simp add: mask_eq_exp_minus_1)
  also have "\<dots> = of_nat (n mod 64)"
    by (simp flip: take_bit_eq_mask add: take_bit_of_nat) (simp add: take_bit_eq_mod)
  finally show ?thesis by (simp add: unsigned_of_nat take_bit_nat_eq_self)
qed

lemma count_carry:
  assumes "k < 2 ^ 32"
  shows "(of_nat n + of_nat k :: u32) < of_nat k \<longleftrightarrow> 2 ^ 32 \<le> n mod 2 ^ 32 + k"
proof -
  have "unat (of_nat n + of_nat k :: u32) = (n mod 2 ^ 32 + k) mod 2 ^ 32"
    by (simp add: unsigned_of_nat take_bit_eq_mod mod_add_left_eq flip: of_nat_add)
  moreover have "unat (of_nat k :: u32) = k"
    using assms by (simp add: unsigned_of_nat take_bit_nat_eq_self)
  moreover have "(n mod 2 ^ 32 + k) mod 2 ^ 32 < k \<longleftrightarrow> 2 ^ 32 \<le> n mod 2 ^ 32 + k"
  proof (cases "2 ^ 32 \<le> n mod 2 ^ 32 + k")
    case True
    then have "(n mod 2 ^ 32 + k) mod 2 ^ 32 = n mod 2 ^ 32 + k - 2 ^ 32"
      using assms by (subst le_mod_geq) auto
    with True show ?thesis by auto
  qed auto
  ultimately show ?thesis by (simp add: word_less_nat_alt)
qed

lemma count_high:
  fixes n k :: nat
  assumes "k < 2 ^ 32"
  shows "(n + k) div 2 ^ 32 = n div 2 ^ 32 + (if 2 ^ 32 \<le> n mod 2 ^ 32 + k then 1 else 0)"
  using assms by (auto simp: div_add1_eq [of n k] div_eq_0_iff not_le)

lemma memcpy_at_prefix:
  "off + length src \<le> length dst \<Longrightarrow> take (off + length src) (memcpy_at dst off src) = take off dst @ src"
  by (simp add: memcpy_at_def)

lemma length_memcpy_at [simp]:
  "off + length src \<le> length dst \<Longrightarrow> length (memcpy_at dst off src) = length dst"
  by (simp add: memcpy_at_def)

lemma last_part_append: "length w mod 64 = 0 \<Longrightarrow> last_part (w @ d) = last_part d"
  by (simp add: last_part_def mod_add_left_eq [of "length w" 64 "length d", symmetric])

lemma last_part_short: "length m mod 64 + length d < 64 \<Longrightarrow> last_part (m @ d) = last_part m @ d"
proof -
  assume "length m mod 64 + length d < 64"
  then have "last_part (last_part m @ d) = last_part m @ d"
    by (simp add: last_part_def [of "last_part m @ d"])
  then show ?thesis
    using last_part_append [OF length_whole_blocks, of m "last_part m @ d"] blocks_tail [of m]
    by (metis append_assoc)
qed

lemma absorb_parts: "absorb f st (m @ d) = absorb f (absorb f st m) (last_part m @ d)"
  using absorb_append [OF length_whole_blocks, of f st m "last_part m @ d"] blocks_tail [of m]
  by (metis append_assoc absorb_whole_blocks)

locale block_digest =
  fixes process :: "digest_context \<Rightarrow> byte list \<Rightarrow> digest_context"
    and compress :: "u32 list \<Rightarrow> byte list \<Rightarrow> u32 list"
  assumes process: "process c d = c\<lparr>chain := compress (chain c) d\<rparr>"
begin

lemma process_all:
  "process_all process c d = (c\<lparr>chain := absorb compress (chain c) d\<rparr>, last_part d)"
proof (induction d arbitrary: c rule: length_induct)
  case (1 d)
  show ?case
  proof (cases "length d < 64")
    case True
    then show ?thesis by (simp add: process_all.simps absorb_short last_part_def)
  next
    case False
      have l: "last_part (drop 64 d) = last_part d"
      using False by (simp add: last_part_def le_mod_geq not_less)
    have "process_all process c d = process_all process (process c (take 64 d)) (drop 64 d)"
      using False by (subst process_all.simps) simp
    also have "\<dots> = (c\<lparr>chain := absorb compress (chain c) d\<rparr>, last_part d)"
      using 1 False by (simp add: process [of c "take 64 d"] l absorb.simps [of compress "chain c" d])
    finally show ?thesis .
  qed
qed

lemma finish_blocks:
  assumes m: "w @ d = m" and "total0 c = of_nat (length m)" and "total1 c = of_nat (length m div 2 ^ 32)"
    and "chain c = absorb compress init w" and "length (block c) = 64" and w: "length w mod 64 = 0"
  shows "tracks compress init m
    (case process_all process c d of (c, d) \<Rightarrow>
       if d \<noteq> [] then c\<lparr>block := memcpy_at (block c) 0 d\<rparr> else c)"
proof -
  have l: "length m mod 64 = length d mod 64"
    unfolding m [symmetric] using w by (simp add: mod_add_left_eq [of "length w" 64 "length d", symmetric])
  have p: "last_part m = last_part d" "absorb compress init m = absorb compress (absorb compress init w) d"
    unfolding m [symmetric] by (rule last_part_append [OF w], rule absorb_append [OF w])
  have "length (last_part d) < 64" by simp
  moreover have "last_part d = [] \<longleftrightarrow> length d mod 64 = 0"
    by (metis length_0_conv length_last_part)
  ultimately show ?thesis
    using assms(2-5) unfolding process_all tracks_def l p by (auto simp: memcpy_at_def)
qed

lemma update_tracks:
  assumes c: "tracks compress init m c" and d: "length d < 2 ^ 32"
  shows "tracks compress init (m @ d) (digest_update process c d)"
proof (cases "d = []")
  case True
  then show ?thesis using c by (simp add: digest_update_def)
next
  case False
  let ?l = "length m mod 64"
  let ?c = "c\<lparr>total0 := of_nat (length (m @ d)), total1 := of_nat (length (m @ d) div 2 ^ 32)\<rparr>"
  have left: "unat (total0 c AND 0x3F) = ?l"
    using c low_six_bits [of "length m"] by (simp add: tracks_def)
  have counted: "count_bytes c (length d) = ?c"
    using count_carry [OF d, of "length m"] count_high [OF d, of "length m"] c
    by (auto simp: tracks_def count_bytes_def)
  define k where "k = (\<lambda>c d l. case process_all process c d of (c, d) \<Rightarrow>
       if d \<noteq> [] then c\<lparr>block := memcpy_at (block c) l d\<rparr> else c)"
  have upd: "digest_update process c d =
      (if ?l \<noteq> 0 \<and> length d \<ge> 64 - ?l
       then (let b = memcpy_at (block c) ?l (take (64 - ?l) d)
             in k (process (?c\<lparr>block := b\<rparr>) b) (drop (64 - ?l) d) 0)
       else k ?c d ?l)"
    using False unfolding digest_update_def left counted k_def Let_def
    by (cases "?l = 0") (simp_all split: prod.split)
  show ?thesis
  proof (cases "?l \<noteq> 0 \<and> length d \<ge> 64 - ?l")
    case fill: True
    let ?b = "last_part m @ take (64 - ?l) d"
    have l64: "?l < 64" by simp
    have b: "memcpy_at (block c) ?l (take (64 - ?l) d) = ?b" "length ?b = 64"
      using c fill l64 by (simp_all add: memcpy_at_def tracks_def)
    have wd: "whole_blocks m @ ?b @ drop (64 - ?l) d = m @ d"
      using blocks_tail [of m] by (metis append_assoc append_take_drop_id)
    have "chain (?c\<lparr>block := ?b, chain := compress (chain c) ?b\<rparr>) = absorb compress init (whole_blocks m @ ?b)"
      using c b(2) absorb_append [OF length_whole_blocks, of compress init m ?b]
        absorb_block [OF b(2), of compress _ "[]"]
      by (simp add: absorb_whole_blocks absorb_short tracks_def)
    moreover have "length (whole_blocks m @ ?b) mod 64 = 0"
      using length_whole_blocks [of m] b(2) by simp
    ultimately have "tracks compress init (m @ d)
        (k (?c\<lparr>block := ?b, chain := compress (chain c) ?b\<rparr>) (drop (64 - ?l) d) 0)"
      unfolding k_def using wd b(2) by (intro finish_blocks [of "whole_blocks m @ ?b"]) simp_all
    then show ?thesis
      using fill unfolding upd b(1) by (simp add: Let_def process [of _ ?b])
  next
    case nofill: False
    show ?thesis
    proof (cases "?l = 0")
      case True
      then have "tracks compress init (m @ d) (k ?c d 0)"
        unfolding k_def using c by (intro finish_blocks [OF refl]) (simp_all add: tracks_def)
      with nofill True show ?thesis by (simp add: upd)
    next
      case l: False
      with nofill have s: "?l + length d < 64" by simp
      then have "last_part d = d" "absorb compress st d = st" for st
        by (simp_all add: last_part_def absorb_short)
      moreover have "(length m + length d) mod 64 = ?l + length d"
        using s mod_add_left_eq [of "length m" 64 "length d"] by simp
      moreover have "absorb compress init (m @ d) = absorb compress init m"
        using s by (subst absorb_parts) (simp add: absorb_short)
      moreover have "digest_update process c d = k ?c d ?l"
        unfolding upd using nofill by (simp only: if_False)
      ultimately show ?thesis
        using False c s last_part_short [OF s]
        by (simp add: k_def process_all tracks_def memcpy_at_def)
    qed
  qed
qed

lemma updates_track:
  "tracks compress init m c \<Longrightarrow> \<forall>d \<in> set ds. length d < 2 ^ 32 \<Longrightarrow>
   tracks compress init (m @ concat ds) (foldl (digest_update process) c ds)"
  by (induction ds arbitrary: m c) (simp, simp add: update_tracks flip: append_assoc)

lemma update_keeps_pads:
  "ipad (digest_update process c d) = ipad c \<and> opad (digest_update process c d) = opad c"
  by (simp add: digest_update_def process_all count_bytes_def Let_def process [of _ "memcpy_at _ _ _"])

end

text \<open>The length in bits of a message of \<open>n\<close> bytes, as \<open>md5_finish\<close> and \<open>sha1_finish\<close> split it.\<close>

lemma length_in_bits:
  "push_bit 32 (ucast (drop_bit 29 (of_nat n :: u32) OR push_bit 3 (of_nat (n div 2 ^ 32)))) OR
     ucast (push_bit 3 (of_nat n :: u32)) = (of_nat (8 * n) :: u64)"
proof -
  have n: "(of_nat (8 * n) :: u64) = push_bit 3 (of_nat n)" by (simp add: push_bit_eq_mult)
  have hi: "(of_nat (n div 2 ^ 32) :: u32) = ucast (drop_bit 32 (of_nat n :: u64))"
    unfolding drop_bit_eq_div [symmetric] by (rule bit_word_eqI) (simp add: bit_simps)
  have lo: "(of_nat n :: u32) = ucast (of_nat n :: u64)"
    by (rule bit_word_eqI) (simp add: bit_simps)
  show ?thesis
    unfolding n hi lo
    by (rule bit_word_eqI) (auto simp: bit_simps not_le less_diff_conv2 intro: arg_cong)
qed

lemma le64_halves: "le64 (push_bit 32 (ucast high) OR ucast low) = PUT_UINT32_LE low @ PUT_UINT32_LE high"
  unfolding le64_def PUT_UINT32_LE_def list.map append.simps list.inject
  by (intro conjI; (rule bit_word_eqI)?; auto simp: bit_simps dest: bit_imp_le_length)

lemma be64_halves: "be64 (push_bit 32 (ucast high) OR ucast low) = PUT_UINT32_BE high @ PUT_UINT32_BE low"
  by (simp only: be64_def le64_halves) (simp add: PUT_UINT32_LE_def PUT_UINT32_BE_def)

text \<open>A whole digest: \<open>starts\<close> resets the context, \<open>put_len\<close> lays out the length as \<open>len64\<close> does.\<close>

locale padded_digest = block_digest process compress
  for process :: "digest_context \<Rightarrow> byte list \<Rightarrow> digest_context"
    and compress :: "u32 list \<Rightarrow> byte list \<Rightarrow> u32 list" +
  fixes init :: "u32 list"
    and starts :: "digest_context \<Rightarrow> digest_context"
    and put_len :: "u32 \<Rightarrow> u32 \<Rightarrow> byte list"
    and len64 :: "u64 \<Rightarrow> byte list"
    and put_chain :: "u32 list \<Rightarrow> byte list"
  assumes starts: "starts c = c\<lparr>total0 := 0, total1 := 0, chain := init\<rparr>"
    and put_len: "put_len high low = len64 (push_bit 32 (ucast high) OR ucast low)"
    and put_len_length: "length (put_len high low) = 8"
    and put_chain_length: "length (put_chain (absorb compress init m)) \<le> 64"
begin

lemma starts_track: "length (block c) = 64 \<Longrightarrow> tracks compress init [] (starts c)"
  by (simp add: tracks_def starts absorb_short last_part_def)

lemma padding_bytes:
  assumes "padn = (if n mod 64 < 56 then 56 - n mod 64 else 120 - n mod 64)"
  shows "take padn digest_padding = [0x80] @ replicate (nat ((55 - int n) mod 64)) 0"
proof -
  define r where "r = n mod 64"
  have r: "(55 - int n) mod 64 = (55 - int r) mod 64" and "r < 64"
    unfolding r_def by (simp_all add: zmod_int mod_diff_right_eq)
  have "nat ((55 - int r) mod 64) = (if r < 56 then 55 - r else 119 - r)"
  proof (cases "r < 56")
    case False
    then have "(55 - int r) mod 64 = (119 - int r) mod 64"
      by (simp add: mod_add_self2 [of "55 - int r" 64, symmetric] del: mod_add_self2)
    with False \<open>r < 64\<close> show ?thesis by simp
  qed simp
  then have "padn = Suc (nat ((55 - int n) mod 64))" and "padn \<le> 64"
    unfolding r using assms \<open>r < 64\<close> by (auto simp flip: r_def)
  then show ?thesis by (simp add: digest_padding_def min_def)
qed

lemma pad_tracks:
  assumes c: "tracks compress init m c"
  shows "chain (digest_pad (digest_update process) put_len c) = absorb compress init (padded len64 m)"
    and "length (block (digest_pad (digest_update process) put_len c)) = 64"
proof -
  let ?padn = "if length m mod 64 < 56 then 56 - length m mod 64 else 120 - length m mod 64"
  let ?p = "[0x80] @ replicate (nat ((55 - int (length m)) mod 64)) 0"
  let ?s = "len64 (of_nat (8 * length m))"
  have t: "total0 c = of_nat (length m)" "total1 c = of_nat (length m div 2 ^ 32)"
    using c by (simp_all add: tracks_def)
  have pad: "digest_pad (digest_update process) put_len c =
      digest_update process (digest_update process c ?p) ?s"
    unfolding digest_pad_def Let_def t low_six_bits put_len length_in_bits
    by (subst padding_bytes [of _ "length m"]) simp_all
  have "nat ((55 - int (length m)) mod 64) < 64" by simp
  then have lp: "length ?p < 2 ^ 32" by simp
  have ls: "length ?s < 2 ^ 32"
    using put_len_length [of "drop_bit 29 (total0 c) OR push_bit 3 (total1 c)" "push_bit 3 (total0 c)"]
    unfolding put_len t length_in_bits by simp
  from update_tracks [OF update_tracks [OF c lp] ls]
  have "tracks compress init (padded len64 m) (digest_pad (digest_update process) put_len c)"
    unfolding pad padded_def by (simp only: append_assoc)
  then show "chain (digest_pad (digest_update process) put_len c) = absorb compress init (padded len64 m)"
    and "length (block (digest_pad (digest_update process) put_len c)) = 64"
    by (simp_all add: tracks_def)
qed

lemma finish_tracks:
  assumes "tracks compress init m c"
  shows "snd (digest_finish (digest_update process) put_len put_chain c) =
      standard_digest compress init len64 put_chain m"
    and "length (block (fst (digest_finish (digest_update process) put_len put_chain c))) = 64"
  using pad_tracks [OF assms] by (simp_all add: digest_finish_def standard_digest_def Let_def)

lemma finish_pieces:
  assumes "tracks compress init [] c" and "\<forall>d \<in> set ds. length d < 2 ^ 32"
  shows "snd (digest_finish (digest_update process) put_len put_chain
      (foldl (digest_update process) c ds)) =
    standard_digest compress init len64 put_chain (concat ds)"
  using finish_tracks(1) [OF updates_track [OF assms]] by simp

lemma updates_keep_pads:
  "ipad (foldl (digest_update process) c ds) = ipad c \<and> opad (foldl (digest_update process) c ds) = opad c"
  by (induction ds arbitrary: c) (simp_all add: update_keeps_pads)

lemma finish_keeps_pads:
  "opad (fst (digest_finish (digest_update process) put_len put_chain c)) = opad c"
  by (simp add: digest_finish_def digest_pad_def Let_def update_keeps_pads)

lemma hmac_pad_key:
  "length key \<le> 64 \<Longrightarrow> hmac_pad p key = map (\<lambda>b. b XOR p) (key @ replicate (64 - length key) 0)"
  by (rule nth_equalityI) (auto simp: hmac_pad_def nth_append xor.commute)

lemma digest_length: "length (standard_digest compress init len64 put_chain m) \<le> 64"
  by (simp add: standard_digest_def put_chain_length)

lemma hmac_pieces:
  assumes b: "length (block c) = 64"
    and digest: "length key < 2 ^ 32 \<Longrightarrow> digest key = standard_digest compress init len64 put_chain key"
    and key: "length key < 2 ^ 32" and ds: "\<forall>d \<in> set ds. length d < 2 ^ 32"
  shows "snd (digest_hmac_finish starts (digest_update process)
      (digest_finish (digest_update process) put_len put_chain)
      (foldl (digest_update process) (digest_hmac_starts starts (digest_update process) digest c key) ds)) =
    hmac (standard_digest compress init len64 put_chain) key (concat ds)"
proof -
  let ?H = "standard_digest compress init len64 put_chain"
  let ?upd = "digest_update process"
  let ?fin = "digest_finish ?upd put_len put_chain"
  let ?i = "map (\<lambda>b. b XOR 0x36) (hmac_key ?H key)"
  let ?o = "map (\<lambda>b. b XOR 0x5C) (hmac_key ?H key)"
  have pads: "hmac_pad p (if length key > 64 then digest key else key) = map (\<lambda>b. b XOR p) (hmac_key ?H key)" for p
    using digest [OF key] by (simp add: hmac_pad_key hmac_key_def digest_length Let_def)
  have lp: "length ?i = 64" "length ?o = 64"
    using digest_length [of key] by (simp_all add: hmac_key_def Let_def)
  let ?c1 = "starts (c\<lparr>ipad := ?i, opad := ?o\<rparr>)"
  let ?c2 = "foldl ?upd ?c1 (?i # ds)"
  have t1: "tracks compress init [] ?c1" using b by (intro starts_track) simp
  have c2: "foldl ?upd (digest_hmac_starts starts ?upd digest c key) ds = ?c2"
    by (simp add: digest_hmac_starts_def Let_def pads starts)
  have t2: "tracks compress init (?i @ concat ds) ?c2"
    using updates_track [OF t1, of "?i # ds"] ds lp by simp
  have o: "opad (starts (fst (?fin ?c2))) = ?o"
    using finish_keeps_pads [of ?c2] by (simp add: updates_keep_pads update_keeps_pads starts)
  let ?t = "snd (?fin ?c2)"
  have t: "?t = ?H (?i @ concat ds)" by (rule finish_tracks(1) [OF t2])
  have lt: "length ?t < 2 ^ 32" unfolding t using digest_length [of "?i @ concat ds"] by simp
  have t3: "tracks compress init [] (starts (fst (?fin ?c2)))"
    by (rule starts_track [OF finish_tracks(2) [OF t2]])
  have "digest_hmac_finish starts ?upd ?fin ?c2 =
      ?fin (foldl ?upd (starts (fst (?fin ?c2))) [opad (starts (fst (?fin ?c2))), ?t])"
    by (simp add: digest_hmac_finish_def Let_def split_beta)
  moreover have "snd (?fin (foldl ?upd (starts (fst (?fin ?c2))) [?o, ?t])) = ?H (concat [?o, ?t])"
    using lp lt by (intro finish_pieces [OF t3]) simp
  ultimately have "snd (digest_hmac_finish starts ?upd ?fin ?c2) = ?H (?o @ ?H (?i @ concat ds))"
    unfolding o t by (simp only: concat.simps append_Nil2)
  then show ?thesis
    unfolding c2 hmac_def .
qed

end

end
