(* ===== verification/Md5.thy ===== *)
theory Md5
  imports Digest
begin

text \<open>
  \<open>src/src/polarssl/md5.c\<close>. The 64 lines \<open>P(...)\<close> of \<open>md5_process\<close> are the rows of four tables, one
  for each definition of the macro \<open>F\<close>; their first four arguments rotate in the same way all
  through, so four rows at a time are executed by \<open>md5_four\<close>.

  The reference is the loop of RFC 1321 with its formulas for the word, the shift and the constant
  of step \<open>i\<close>; the constants themselves are those of the tables.
\<close>

section \<open>The block function\<close>

type_synonym md5_row = "nat \<times> nat \<times> u32"
type_synonym md5_state = "u32 \<times> u32 \<times> u32 \<times> u32"

text \<open>The macro \<open>P(a,b,c,d,k,s,t)\<close>; the result is the new value of \<open>a\<close>.\<close>

definition md5_P ::
    "(u32 \<Rightarrow> u32 \<Rightarrow> u32 \<Rightarrow> u32) \<Rightarrow> u32 list \<Rightarrow> u32 \<Rightarrow> u32 \<Rightarrow> u32 \<Rightarrow> u32 \<Rightarrow> md5_row \<Rightarrow> u32" where
  "md5_P F X a b c d row =
     (let (k, s, t) = row; a = a + (F b c d + X ! k + t) in S_left a s + b)"

definition md5_F1 :: "u32 \<Rightarrow> u32 \<Rightarrow> u32 \<Rightarrow> u32" where "md5_F1 x y z = z XOR (x AND (y XOR z))"
definition md5_F2 :: "u32 \<Rightarrow> u32 \<Rightarrow> u32 \<Rightarrow> u32" where "md5_F2 x y z = y XOR (z AND (x XOR y))"
definition md5_F3 :: "u32 \<Rightarrow> u32 \<Rightarrow> u32 \<Rightarrow> u32" where "md5_F3 x y z = (x XOR y) XOR z"
definition md5_F4 :: "u32 \<Rightarrow> u32 \<Rightarrow> u32 \<Rightarrow> u32" where "md5_F4 x y z = y XOR (x OR NOT z)"

definition md5_round1 :: "(nat \<times> nat \<times> u32) list" where
  "md5_round1 = [
     (0, 7, 0xD76AA478), (1, 12, 0xE8C7B756),
     (2, 17, 0x242070DB), (3, 22, 0xC1BDCEEE),
     (4, 7, 0xF57C0FAF), (5, 12, 0x4787C62A),
     (6, 17, 0xA8304613), (7, 22, 0xFD469501),
     (8, 7, 0x698098D8), (9, 12, 0x8B44F7AF),
     (10, 17, 0xFFFF5BB1), (11, 22, 0x895CD7BE),
     (12, 7, 0x6B901122), (13, 12, 0xFD987193),
     (14, 17, 0xA679438E), (15, 22, 0x49B40821)]"

definition md5_round2 :: "(nat \<times> nat \<times> u32) list" where
  "md5_round2 = [
     (1, 5, 0xF61E2562), (6, 9, 0xC040B340),
     (11, 14, 0x265E5A51), (0, 20, 0xE9B6C7AA),
     (5, 5, 0xD62F105D), (10, 9, 0x02441453),
     (15, 14, 0xD8A1E681), (4, 20, 0xE7D3FBC8),
     (9, 5, 0x21E1CDE6), (14, 9, 0xC33707D6),
     (3, 14, 0xF4D50D87), (8, 20, 0x455A14ED),
     (13, 5, 0xA9E3E905), (2, 9, 0xFCEFA3F8),
     (7, 14, 0x676F02D9), (12, 20, 0x8D2A4C8A)]"

definition md5_round3 :: "(nat \<times> nat \<times> u32) list" where
  "md5_round3 = [
     (5, 4, 0xFFFA3942), (8, 11, 0x8771F681),
     (11, 16, 0x6D9D6122), (14, 23, 0xFDE5380C),
     (1, 4, 0xA4BEEA44), (4, 11, 0x4BDECFA9),
     (7, 16, 0xF6BB4B60), (10, 23, 0xBEBFBC70),
     (13, 4, 0x289B7EC6), (0, 11, 0xEAA127FA),
     (3, 16, 0xD4EF3085), (6, 23, 0x04881D05),
     (9, 4, 0xD9D4D039), (12, 11, 0xE6DB99E5),
     (15, 16, 0x1FA27CF8), (2, 23, 0xC4AC5665)]"

definition md5_round4 :: "(nat \<times> nat \<times> u32) list" where
  "md5_round4 = [
     (0, 6, 0xF4292244), (7, 10, 0x432AFF97),
     (14, 15, 0xAB9423A7), (5, 21, 0xFC93A039),
     (12, 6, 0x655B59C3), (3, 10, 0x8F0CCC92),
     (10, 15, 0xFFEFF47D), (1, 21, 0x85845DD1),
     (8, 6, 0x6FA87E4F), (15, 10, 0xFE2CE6E0),
     (6, 15, 0xA3014314), (13, 21, 0x4E0811A1),
     (4, 6, 0xF7537E82), (11, 10, 0xBD3AF235),
     (2, 15, 0x2AD7D2BB), (9, 21, 0xEB86D391)]"

fun md5_four :: "(u32 \<Rightarrow> u32 \<Rightarrow> u32 \<Rightarrow> u32) \<Rightarrow> u32 list \<Rightarrow> md5_state \<Rightarrow> md5_row list \<Rightarrow> md5_state" where
  "md5_four F X (A, B, C, D) (r1 # r2 # r3 # r4 # rows) =
     (let A = md5_P F X A B C D r1;
          D = md5_P F X D A B C r2;
          C = md5_P F X C D A B r3;
          B = md5_P F X B C D A r4
      in md5_four F X (A, B, C, D) rows)"
| "md5_four F X st rows = st"

definition md5_words :: "byte list \<Rightarrow> u32 list" where
  "md5_words d = map (GET_UINT32_LE d)
     [0, 4, 8, 12, 16, 20, 24, 28, 32, 36, 40, 44, 48, 52, 56, 60]"

definition md5_process :: "digest_context \<Rightarrow> byte list \<Rightarrow> digest_context" where
  "md5_process ctx d =
     (let X = md5_words d;
          st = (chain ctx ! 0, chain ctx ! 1, chain ctx ! 2, chain ctx ! 3);
          st = md5_four md5_F1 X st md5_round1;
          st = md5_four md5_F2 X st md5_round2;
          st = md5_four md5_F3 X st md5_round3;
          (A, B, C, D) = md5_four md5_F4 X st md5_round4
      in ctx\<lparr>chain := [chain ctx ! 0 + A, chain ctx ! 1 + B, chain ctx ! 2 + C, chain ctx ! 3 + D]\<rparr>)"

section \<open>The digest\<close>

definition md5_starts :: "digest_context \<Rightarrow> digest_context" where
  "md5_starts ctx =
     ctx\<lparr>total0 := 0, total1 := 0, chain := [0x67452301, 0xEFCDAB89, 0x98BADCFE, 0x10325476]\<rparr>"

definition md5_update :: "digest_context \<Rightarrow> byte list \<Rightarrow> digest_context" where
  "md5_update = digest_update md5_process"

definition md5_bytes :: "u32 list \<Rightarrow> byte list" where
  "md5_bytes st =
     PUT_UINT32_LE (st ! 0) @ PUT_UINT32_LE (st ! 1) @ PUT_UINT32_LE (st ! 2) @ PUT_UINT32_LE (st ! 3)"

text \<open>\<open>msglen\<close> is laid out with the low word first.\<close>

definition md5_finish :: "digest_context \<Rightarrow> digest_context \<times> byte list" where
  "md5_finish ctx =
     digest_finish md5_update (\<lambda>high low. PUT_UINT32_LE low @ PUT_UINT32_LE high) md5_bytes ctx"

text \<open>\<open>md5\<close> and \<open>md5_hmac\<close> work on a local context, whose contents are indeterminate: \<open>garbage\<close>.\<close>

definition md5 :: "digest_context \<Rightarrow> byte list \<Rightarrow> byte list" where
  "md5 garbage input = snd (md5_finish (md5_update (md5_starts garbage) input))"

definition md5_hmac_starts :: "digest_context \<Rightarrow> digest_context \<Rightarrow> byte list \<Rightarrow> digest_context" where
  "md5_hmac_starts garbage ctx key = digest_hmac_starts md5_starts md5_update (md5 garbage) ctx key"

definition md5_hmac_update :: "digest_context \<Rightarrow> byte list \<Rightarrow> digest_context" where
  "md5_hmac_update ctx input = md5_update ctx input"

definition md5_hmac_finish :: "digest_context \<Rightarrow> digest_context \<times> byte list" where
  "md5_hmac_finish ctx = digest_hmac_finish md5_starts md5_update md5_finish ctx"

definition md5_hmac_reset :: "digest_context \<Rightarrow> digest_context" where
  "md5_hmac_reset ctx = digest_hmac_reset md5_starts md5_update ctx"

definition md5_hmac :: "digest_context \<Rightarrow> digest_context \<Rightarrow> byte list \<Rightarrow> byte list \<Rightarrow> byte list" where
  "md5_hmac garbage garbage' key input =
     snd (md5_hmac_finish (md5_hmac_update (md5_hmac_starts garbage garbage' key) input))"

section \<open>RFC 1321\<close>

definition md5_K :: "u32 list" where
  "md5_K = map (\<lambda>(k, s, t). t) (md5_round1 @ md5_round2 @ md5_round3 @ md5_round4)"

definition rfc_f :: "nat \<Rightarrow> u32 \<Rightarrow> u32 \<Rightarrow> u32 \<Rightarrow> u32" where
  "rfc_f i x y z =
     (if i < 16 then (x AND y) OR (NOT x AND z)
      else if i < 32 then (x AND z) OR (y AND NOT z)
      else if i < 48 then (x XOR y) XOR z
      else y XOR (x OR NOT z))"

definition rfc_word :: "nat \<Rightarrow> nat" where
  "rfc_word i =
     (if i < 16 then i
      else if i < 32 then (5 * i + 1) mod 16
      else if i < 48 then (3 * i + 5) mod 16
      else (7 * i) mod 16)"

definition rfc_shift :: "nat \<Rightarrow> nat" where
  "rfc_shift i =
     (if i < 16 then [7, 12, 17, 22] else if i < 32 then [5, 9, 14, 20]
      else if i < 48 then [4, 11, 16, 23] else [6, 10, 15, 21]) ! (i mod 4)"

definition rfc_step :: "u32 list \<Rightarrow> nat \<Rightarrow> md5_state \<Rightarrow> md5_state" where
  "rfc_step M i st =
     (case st of (A, B, C, D) \<Rightarrow>
        (D, B + word_rotl (rfc_shift i) (A + rfc_f i B C D + md5_K ! i + M ! rfc_word i), B, C))"

definition rfc_compress :: "u32 list \<Rightarrow> byte list \<Rightarrow> u32 list" where
  "rfc_compress st d =
     (case fold (rfc_step (map (\<lambda>i. GET_UINT32_LE d (4 * i)) [0..<16])) [0..<64]
          (st ! 0, st ! 1, st ! 2, st ! 3) of
        (A, B, C, D) \<Rightarrow> [st ! 0 + A, st ! 1 + B, st ! 2 + C, st ! 3 + D])"

definition rfc_md5 :: "byte list \<Rightarrow> byte list" where
  "rfc_md5 = standard_digest rfc_compress [0x67452301, 0xEFCDAB89, 0x98BADCFE, 0x10325476] le64
     md5_bytes"

section \<open>The code computes RFC 1321\<close>

lemma F_eq:
  "md5_F1 x y z = (x AND y) OR (NOT x AND z)" "md5_F2 x y z = (x AND z) OR (y AND NOT z)"
  unfolding md5_F1_def md5_F2_def by (rule bit_word_eqI; auto simp: bit_simps)+

definition md5_rotate :: "(u32 \<Rightarrow> u32 \<Rightarrow> u32 \<Rightarrow> u32) \<Rightarrow> u32 list \<Rightarrow> md5_row \<Rightarrow> md5_state \<Rightarrow> md5_state" where
  "md5_rotate F X row st = (case st of (A, B, C, D) \<Rightarrow> (D, md5_P F X A B C D row, B, C))"

lemma md5_four_rotate: "length rows mod 4 = 0 \<Longrightarrow> md5_four F X st rows = fold (md5_rotate F X) rows st"
proof (induction F X st rows rule: md5_four.induct)
  case (1 F X A B C D r1 r2 r3 r4 rows)
  then show ?case by (simp add: Let_def md5_rotate_def)
qed auto

lemma md5_rows:
  "md5_round1 = map (\<lambda>i. (rfc_word i, rfc_shift i, md5_K ! i)) [0..<16]"
  "md5_round2 = map (\<lambda>i. (rfc_word i, rfc_shift i, md5_K ! i)) [16..<32]"
  "md5_round3 = map (\<lambda>i. (rfc_word i, rfc_shift i, md5_K ! i)) [32..<48]"
  "md5_round4 = map (\<lambda>i. (rfc_word i, rfc_shift i, md5_K ! i)) [48..<64]"
  by code_simp+

lemma rfc_shift_range: "0 < rfc_shift i \<and> rfc_shift i < 32"
proof -
  have "i mod 4 < 4" by simp
  then have "i mod 4 = 0 \<or> i mod 4 = 1 \<or> i mod 4 = 2 \<or> i mod 4 = 3" by linarith
  then show ?thesis by (auto simp: rfc_shift_def)
qed

lemma rotate_step:
  assumes "\<And>x y z. F x y z = rfc_f i x y z"
  shows "md5_rotate F X (rfc_word i, rfc_shift i, md5_K ! i) st = rfc_step X i st"
  using rfc_shift_range [of i]
  by (cases st) (simp add: md5_rotate_def md5_P_def rfc_step_def assms S_left_rotl add_ac)

lemma round_steps:
  assumes "\<And>i x y z. i \<in> set is \<Longrightarrow> F x y z = rfc_f i x y z"
  shows "fold (md5_rotate F X) (map (\<lambda>i. (rfc_word i, rfc_shift i, md5_K ! i)) is) st = fold (rfc_step X) is st"
  using assms by (induction "is" arbitrary: st) (simp_all add: rotate_step)

lemma round_rows:
  assumes "\<And>i x y z. i \<in> {a..<a + 16} \<Longrightarrow> F x y z = rfc_f i x y z"
  shows "md5_four F X st (map (\<lambda>i. (rfc_word i, rfc_shift i, md5_K ! i)) [a..<a + 16]) =
    fold (rfc_step X) [a..<a + 16] st"
  using assms by (subst md5_four_rotate) (simp, rule round_steps, simp)

lemma four_rounds:
  "md5_four md5_F1 X st md5_round1 = fold (rfc_step X) [0..<16] st"
  "md5_four md5_F2 X st md5_round2 = fold (rfc_step X) [16..<32] st"
  "md5_four md5_F3 X st md5_round3 = fold (rfc_step X) [32..<48] st"
  "md5_four md5_F4 X st md5_round4 = fold (rfc_step X) [48..<64] st"
  unfolding md5_rows
  using round_rows [of 0 md5_F1 X st] round_rows [of 16 md5_F2 X st] round_rows [of 32 md5_F3 X st]
    round_rows [of 48 md5_F4 X st]
  by (simp_all add: F_eq md5_F3_def md5_F4_def rfc_f_def del: upt_rec_numeral)

lemma md5_words_eq: "md5_words d = map (\<lambda>i. GET_UINT32_LE d (4 * i)) [0..<16]"
  by (simp add: md5_words_def upt_conv_Cons)

lemma md5_process_rfc: "md5_process c d = c\<lparr>chain := rfc_compress (chain c) d\<rparr>"
proof -
  let ?X = "map (\<lambda>i. GET_UINT32_LE d (4 * i)) [0..<16]"
  let ?st = "(chain c ! 0, chain c ! 1, chain c ! 2, chain c ! 3)"
  have "[0..<64] = [0..<16] @ [16..<32] @ [32..<48] @ [48..<64]"
    using upt_split [of 0 16 64] upt_split [of 16 32 64] upt_split [of 32 48 64]
    by (simp del: upt_rec_numeral)
  then have "fold (rfc_step ?X) [0..<64] ?st =
      fold (rfc_step ?X) [48..<64] (fold (rfc_step ?X) [32..<48]
        (fold (rfc_step ?X) [16..<32] (fold (rfc_step ?X) [0..<16] ?st)))"
    by (simp only: fold_append comp_apply)
  also have "\<dots> = md5_four md5_F4 ?X (md5_four md5_F3 ?X (md5_four md5_F2 ?X
      (md5_four md5_F1 ?X ?st md5_round1) md5_round2) md5_round3) md5_round4"
    by (simp only: four_rounds)
  finally show ?thesis
    by (simp add: md5_process_def rfc_compress_def md5_words_eq Let_def split: prod.split del: upt_rec_numeral)
qed


lemma length_rfc_compress: "length (rfc_compress st d) = 4"
  by (simp add: rfc_compress_def split: prod.split)

interpretation md5: padded_digest md5_process rfc_compress
  "[0x67452301, 0xEFCDAB89, 0x98BADCFE, 0x10325476]" md5_starts
  "\<lambda>high low. PUT_UINT32_LE low @ PUT_UINT32_LE high" le64 md5_bytes
  by unfold_locales
     (simp_all add: md5_process_rfc md5_starts_def le64_halves md5_bytes_def)

lemma md5_rfc:
  assumes "length (block garbage) = 64" and "length input < 2 ^ 32"
  shows "md5 garbage input = rfc_md5 input"
  using md5.finish_pieces [OF md5.starts_track [OF assms(1)], of "[input]"] assms(2)
  by (simp add: md5_def md5_finish_def md5_update_def rfc_md5_def)

section \<open>Properties\<close>


definition blank_context :: digest_context where
  "blank_context = \<lparr>total0 = 7, total1 = 7, chain = [], block = replicate 64 9, ipad = [], opad = []\<rparr>"


text \<open>the HMAC of a message fed in pieces is the HMAC of RFC 2104 over MD5, for keys of any
  length.\<close>

theorem md5_hmac_any_pieces:
  assumes "length (block garbage) = 64" and "length (block ctx) = 64" and "length key < 2 ^ 32"
    and "\<forall>d \<in> set pieces. length d < 2 ^ 32"
  shows "snd (md5_hmac_finish (foldl md5_hmac_update (md5_hmac_starts garbage ctx key) pieces)) =
    hmac rfc_md5 key (concat pieces)"
proof -
  have "md5_hmac_update = digest_update md5_process"
    by (simp add: fun_eq_iff md5_hmac_update_def md5_update_def)
  with md5.hmac_pieces [OF assms(2) _ assms(3,4), of "md5 garbage"] md5_rfc [OF assms(1,3)]
  show ?thesis
    by (simp add: md5_hmac_starts_def md5_hmac_finish_def rfc_md5_def md5_update_def
        md5_finish_def [abs_def])
qed

theorem md5_hmac_any_pieces_witness:
  "snd (md5_hmac_finish (foldl md5_hmac_update (md5_hmac_starts blank_context blank_context (replicate 80 1))
     [[2], [3]])) = hmac rfc_md5 (replicate 80 1) [2, 3]"
  using md5_hmac_any_pieces [of blank_context blank_context "replicate 80 1" "[[2], [3]]"]
  by (simp add: blank_context_def)

text \<open>the digest of \<open>abc\<close> is the one the self test of the source expects (the row for this
  text of \<open>md5_test_sum\<close>), so no constant of the tables is wrong in a way this digest shows.\<close>

theorem md5_abc:
  "md5 blank_context [0x61, 0x62, 0x63] =
     [0x90, 0x01, 0x50, 0x98, 0x3C, 0xD2, 0x4F, 0xB0,
      0xD6, 0x96, 0x3F, 0x7D, 0x28, 0xE1, 0x7F, 0x72]"
  by code_simp

end
