(* ===== verification/Sha1.thy ===== *)
theory Sha1
  imports Digest
begin

text \<open>
  \<open>src/src/polarssl/sha1.c\<close>. The 80 lines \<open>P(...)\<close> of \<open>sha1_process\<close> differ in the word they use
  and in the rotation of the first five arguments, which returns to its start after five lines;
  \<open>sha1_lines\<close> executes five of them. The message schedule is kept in a ring of 16 words, which the
  macro \<open>R(t)\<close> extends.

  The reference is the loop of FIPS 180 with its recursive schedule of 80 words.
\<close>

section \<open>The block function\<close>

type_synonym sha1_state = "u32 \<times> u32 \<times> u32 \<times> u32 \<times> u32"

text \<open>The macro \<open>R(t)\<close>, and \<open>W[t]\<close> for the first 16 lines: the word and the ring.\<close>

definition sha1_word :: "u32 list \<Rightarrow> nat \<Rightarrow> u32 \<times> u32 list" where
  "sha1_word W t =
     (if t < 16 then (W ! t, W)
      else (let temp = ((W ! ((t - 3) mod 16) XOR W ! ((t - 8) mod 16)) XOR W ! ((t - 14) mod 16)) XOR
                         W ! (t mod 16);
                x = S_left temp 1
            in (x, W[t mod 16 := x])))"

text \<open>The macro \<open>P(a,b,c,d,e,x)\<close>; the result is the new value of \<open>e\<close> and of \<open>b\<close>.\<close>

definition sha1_P ::
    "(u32 \<Rightarrow> u32 \<Rightarrow> u32 \<Rightarrow> u32) \<Rightarrow> u32 \<Rightarrow> u32 \<Rightarrow> u32 \<Rightarrow> u32 \<Rightarrow> u32 \<Rightarrow> u32 \<Rightarrow> u32 \<Rightarrow> u32 \<times> u32" where
  "sha1_P F K a b c d e x = (e + (S_left a 5 + F b c d + K + x), S_left b 30)"

definition sha1_F1 :: "u32 \<Rightarrow> u32 \<Rightarrow> u32 \<Rightarrow> u32" where "sha1_F1 x y z = z XOR (x AND (y XOR z))"
definition sha1_F2 :: "u32 \<Rightarrow> u32 \<Rightarrow> u32 \<Rightarrow> u32" where "sha1_F2 x y z = (x XOR y) XOR z"
definition sha1_F3 :: "u32 \<Rightarrow> u32 \<Rightarrow> u32 \<Rightarrow> u32" where "sha1_F3 x y z = (x AND y) OR (z AND (x OR y))"

definition sha1_lines ::
    "(u32 \<Rightarrow> u32 \<Rightarrow> u32 \<Rightarrow> u32) \<Rightarrow> u32 \<Rightarrow> u32 list \<times> sha1_state \<Rightarrow> nat \<Rightarrow> nat \<Rightarrow> nat \<Rightarrow> nat \<Rightarrow> nat \<Rightarrow>
     u32 list \<times> sha1_state" where
  "sha1_lines F K st t1 t2 t3 t4 t5 =
     (let (W, A, B, C, D, E) = st;
          (x, W) = sha1_word W t1; (E, B) = sha1_P F K A B C D E x;
          (x, W) = sha1_word W t2; (D, A) = sha1_P F K E A B C D x;
          (x, W) = sha1_word W t3; (C, E) = sha1_P F K D E A B C x;
          (x, W) = sha1_word W t4; (B, D) = sha1_P F K C D E A B x;
          (x, W) = sha1_word W t5; (A, C) = sha1_P F K B C D E A x
      in (W, A, B, C, D, E))"

fun sha1_five ::
    "(u32 \<Rightarrow> u32 \<Rightarrow> u32 \<Rightarrow> u32) \<Rightarrow> u32 \<Rightarrow> u32 list \<times> sha1_state \<Rightarrow> nat list \<Rightarrow> u32 list \<times> sha1_state" where
  "sha1_five F K st (t1 # t2 # t3 # t4 # t5 # ts) = sha1_five F K (sha1_lines F K st t1 t2 t3 t4 t5) ts"
| "sha1_five F K st ts = st"

definition sha1_words :: "byte list \<Rightarrow> u32 list" where
  "sha1_words d = map (GET_UINT32_BE d)
     [0, 4, 8, 12, 16, 20, 24, 28, 32, 36, 40, 44, 48, 52, 56, 60]"

definition sha1_process :: "digest_context \<Rightarrow> byte list \<Rightarrow> digest_context" where
  "sha1_process ctx d =
     (let st = (sha1_words d, chain ctx ! 0, chain ctx ! 1, chain ctx ! 2, chain ctx ! 3, chain ctx ! 4);
          st = sha1_five sha1_F1 0x5A827999 st [0..<20];
          st = sha1_five sha1_F2 0x6ED9EBA1 st [20..<40];
          st = sha1_five sha1_F3 0x8F1BBCDC st [40..<60];
          (W, A, B, C, D, E) = sha1_five sha1_F2 0xCA62C1D6 st [60..<80]
      in ctx\<lparr>chain := [chain ctx ! 0 + A, chain ctx ! 1 + B, chain ctx ! 2 + C, chain ctx ! 3 + D,
                       chain ctx ! 4 + E]\<rparr>)"

section \<open>The digest\<close>

definition sha1_starts :: "digest_context \<Rightarrow> digest_context" where
  "sha1_starts ctx =
     ctx\<lparr>total0 := 0, total1 := 0,
         chain := [0x67452301, 0xEFCDAB89, 0x98BADCFE, 0x10325476, 0xC3D2E1F0]\<rparr>"

definition sha1_update :: "digest_context \<Rightarrow> byte list \<Rightarrow> digest_context" where
  "sha1_update = digest_update sha1_process"

definition sha1_bytes :: "u32 list \<Rightarrow> byte list" where
  "sha1_bytes st =
     PUT_UINT32_BE (st ! 0) @ PUT_UINT32_BE (st ! 1) @ PUT_UINT32_BE (st ! 2) @ PUT_UINT32_BE (st ! 3) @
     PUT_UINT32_BE (st ! 4)"

text \<open>\<open>msglen\<close> is laid out with the high word first.\<close>

definition sha1_finish :: "digest_context \<Rightarrow> digest_context \<times> byte list" where
  "sha1_finish ctx =
     digest_finish sha1_update (\<lambda>high low. PUT_UINT32_BE high @ PUT_UINT32_BE low) sha1_bytes ctx"

text \<open>\<open>sha1\<close> and \<open>sha1_hmac\<close> work on a local context, whose contents are indeterminate: \<open>garbage\<close>.\<close>

definition sha1 :: "digest_context \<Rightarrow> byte list \<Rightarrow> byte list" where
  "sha1 garbage input = snd (sha1_finish (sha1_update (sha1_starts garbage) input))"

definition sha1_hmac_starts :: "digest_context \<Rightarrow> digest_context \<Rightarrow> byte list \<Rightarrow> digest_context" where
  "sha1_hmac_starts garbage ctx key = digest_hmac_starts sha1_starts sha1_update (sha1 garbage) ctx key"

definition sha1_hmac_update :: "digest_context \<Rightarrow> byte list \<Rightarrow> digest_context" where
  "sha1_hmac_update ctx input = sha1_update ctx input"

definition sha1_hmac_finish :: "digest_context \<Rightarrow> digest_context \<times> byte list" where
  "sha1_hmac_finish ctx = digest_hmac_finish sha1_starts sha1_update sha1_finish ctx"

definition sha1_hmac_reset :: "digest_context \<Rightarrow> digest_context" where
  "sha1_hmac_reset ctx = digest_hmac_reset sha1_starts sha1_update ctx"

definition sha1_hmac :: "digest_context \<Rightarrow> digest_context \<Rightarrow> byte list \<Rightarrow> byte list \<Rightarrow> byte list" where
  "sha1_hmac garbage garbage' key input =
     snd (sha1_hmac_finish (sha1_hmac_update (sha1_hmac_starts garbage garbage' key) input))"

section \<open>FIPS 180\<close>

fun fips_W :: "u32 list \<Rightarrow> nat \<Rightarrow> u32" where
  "fips_W M t =
     (if t < 16 then M ! t
      else word_rotl 1 (((fips_W M (t - 3) XOR fips_W M (t - 8)) XOR fips_W M (t - 14)) XOR fips_W M (t - 16)))"

declare fips_W.simps [simp del]

definition fips_f :: "nat \<Rightarrow> u32 \<Rightarrow> u32 \<Rightarrow> u32 \<Rightarrow> u32" where
  "fips_f t x y z =
     (if t < 20 then (x AND y) OR (NOT x AND z)
      else if t < 40 then (x XOR y) XOR z
      else if t < 60 then ((x AND y) OR (x AND z)) OR (y AND z)
      else (x XOR y) XOR z)"

definition fips_K :: "nat \<Rightarrow> u32" where
  "fips_K t = [0x5A827999, 0x6ED9EBA1, 0x8F1BBCDC, 0xCA62C1D6] ! (t div 20)"

definition fips_step :: "u32 list \<Rightarrow> nat \<Rightarrow> sha1_state \<Rightarrow> sha1_state" where
  "fips_step M t st =
     (case st of (a, b, c, d, e) \<Rightarrow>
        (word_rotl 5 a + fips_f t b c d + e + fips_K t + fips_W M t, a, word_rotl 30 b, c, d))"

definition fips_compress :: "u32 list \<Rightarrow> byte list \<Rightarrow> u32 list" where
  "fips_compress H d =
     (case fold (fips_step (map (\<lambda>i. GET_UINT32_BE d (4 * i)) [0..<16])) [0..<80]
          (H ! 0, H ! 1, H ! 2, H ! 3, H ! 4) of
        (a, b, c, d, e) \<Rightarrow> [a + H ! 0, b + H ! 1, c + H ! 2, d + H ! 3, e + H ! 4])"

definition fips_sha1 :: "byte list \<Rightarrow> byte list" where
  "fips_sha1 = standard_digest fips_compress
     [0x67452301, 0xEFCDAB89, 0x98BADCFE, 0x10325476, 0xC3D2E1F0] be64 sha1_bytes"

section \<open>The code computes FIPS 180\<close>

lemma sha1_F_eq:
  "sha1_F1 x y z = (x AND y) OR (NOT x AND z)"
  "sha1_F3 x y z = ((x AND y) OR (x AND z)) OR (y AND z)"
  unfolding sha1_F1_def sha1_F3_def by (rule bit_word_eqI; auto simp: bit_simps)+

definition sha1_rotate ::
    "(u32 \<Rightarrow> u32 \<Rightarrow> u32 \<Rightarrow> u32) \<Rightarrow> u32 \<Rightarrow> nat \<Rightarrow> u32 list \<times> sha1_state \<Rightarrow> u32 list \<times> sha1_state" where
  "sha1_rotate F K t st =
     (case st of (W, A, B, C, D, E) \<Rightarrow>
        let (x, W) = sha1_word W t; (E, B) = sha1_P F K A B C D E x in (W, E, A, B, C, D))"

lemma sha1_five_rotate: "length ts mod 5 = 0 \<Longrightarrow> sha1_five F K st ts = fold (sha1_rotate F K) ts st"
proof (induction F K st ts rule: sha1_five.induct)
  case (1 F K st t1 t2 t3 t4 t5 ts)
  moreover have "sha1_lines F K st t1 t2 t3 t4 t5 = fold (sha1_rotate F K) [t1, t2, t3, t4, t5] st"
    by (cases st) (simp add: Let_def sha1_rotate_def sha1_lines_def sha1_P_def split_beta)
  ultimately show ?case by simp
qed auto

text \<open>The ring holds the last 16 words of the schedule.\<close>

definition ring_holds :: "u32 list \<Rightarrow> nat \<Rightarrow> u32 list \<Rightarrow> bool" where
  "ring_holds M t W \<longleftrightarrow> length W = 16 \<and>
     (\<forall>j. j < max 16 t \<and> max 16 t \<le> j + 16 \<longrightarrow> W ! (j mod 16) = fips_W M j)"

lemma ring_start: "length M = 16 \<Longrightarrow> ring_holds M 0 M"
  by (simp add: ring_holds_def fips_W.simps)

lemma sha1_word_step:
  assumes "ring_holds M t W"
  shows "fst (sha1_word W t) = fips_W M t \<and> ring_holds M (Suc t) (snd (sha1_word W t))"
proof (cases "t < 16")
  case True
  then show ?thesis
    using assms by (simp add: ring_holds_def sha1_word_def)
next
  case False
  then have W: "W ! (j mod 16) = fips_W M j" if "j < t" "t \<le> j + 16" for j
    using assms that by (simp add: ring_holds_def max_def)
  have "(t - 16) mod 16 = t mod 16" using False by (simp add: le_mod_geq [of 16 t])
  with W [of "t - 3"] W [of "t - 8"] W [of "t - 14"] W [of "t - 16"] False
  have x: "fst (sha1_word W t) = fips_W M t" "snd (sha1_word W t) = W[t mod 16 := fips_W M t]"
    by (simp_all add: sha1_word_def Let_def S_left_rotl fips_W.simps [of M t])
  have "W[t mod 16 := fips_W M t] ! (j mod 16) = fips_W M j" if "j < Suc t" "Suc t \<le> j + 16" for j
  proof (cases "j = t")
    case True
    then show ?thesis using assms by (simp add: ring_holds_def)
  next
    case f: False
    then have "j mod 16 \<noteq> t mod 16"
      using that mod_eq_dvd_iff_nat [of j t 16] by (auto dest: dvd_imp_le)
    with W [of j] that f show ?thesis by simp
  qed
  with x assms False show ?thesis by (simp add: ring_holds_def max_def)
qed

lemma rotate_fips_step:
  assumes "\<And>x y z. F x y z = fips_f t x y z" and "K = fips_K t" and "ring_holds M t W"
  shows "\<exists>W'. sha1_rotate F K t (W, st) = (W', fips_step M t st) \<and> ring_holds M (Suc t) W'"
  using assms(1,2) sha1_word_step [OF assms(3)]
  by (cases st) (simp add: sha1_rotate_def fips_step_def sha1_P_def S_left_rotl Let_def split_beta add_ac)

lemma fips_steps:
  assumes "ring_holds M a W" and "a \<le> b"
    and "\<And>t x y z. a \<le> t \<Longrightarrow> t < b \<Longrightarrow> F x y z = fips_f t x y z \<and> K = fips_K t"
  shows "\<exists>W'. fold (sha1_rotate F K) [a..<b] (W, st) = (W', fold (fips_step M) [a..<b] st) \<and> ring_holds M b W'"
  using assms(2,3)
proof (induction b rule: dec_induct)
  case base
  then show ?case using assms(1) by simp
next
  case (step n)
  have "\<exists>W'. fold (sha1_rotate F K) [a..<n] (W, st) = (W', fold (fips_step M) [a..<n] st) \<and>
      ring_holds M n W'"
    by (rule step.IH) (rule step.prems, simp_all)
  then obtain W' where W': "fold (sha1_rotate F K) [a..<n] (W, st) = (W', fold (fips_step M) [a..<n] st)"
    "ring_holds M n W'" by blast
  have "F x y z = fips_f n x y z" "K = fips_K n" for x y z
    using step.prems [of n] step.hyps by simp_all
  then have "\<exists>W''. sha1_rotate F K n (W', fold (fips_step M) [a..<n] st) =
      (W'', fips_step M n (fold (fips_step M) [a..<n] st)) \<and> ring_holds M (Suc n) W''"
    by (intro rotate_fips_step [OF _ _ W'(2)])
  with W'(1) step.hyps show ?case by simp
qed

lemma fips_round:
  assumes "ring_holds M a W" and "a \<le> b" and "(b - a) mod 5 = 0"
    and "\<And>t x y z. a \<le> t \<Longrightarrow> t < b \<Longrightarrow> F x y z = fips_f t x y z \<and> K = fips_K t"
  shows "\<exists>W'. sha1_five F K (W, st) [a..<b] = (W', fold (fips_step M) [a..<b] st) \<and> ring_holds M b W'"
  using fips_steps [OF assms(1,2,4), of st] assms(3) by (simp add: sha1_five_rotate)

lemma fips_K_eq:
  "t < 20 \<Longrightarrow> fips_K t = 0x5A827999" "20 \<le> t \<Longrightarrow> t < 40 \<Longrightarrow> fips_K t = 0x6ED9EBA1"
  "40 \<le> t \<Longrightarrow> t < 60 \<Longrightarrow> fips_K t = 0x8F1BBCDC" "60 \<le> t \<Longrightarrow> t < 80 \<Longrightarrow> fips_K t = 0xCA62C1D6"
proof -
  have "t div 20 = k" if "k * 20 \<le> t" "t < (k + 1) * 20" for k
    using that by (intro div_nat_eqI) simp_all
  from this [of 0] this [of 1] this [of 2] this [of 3]
  show "t < 20 \<Longrightarrow> fips_K t = 0x5A827999" "20 \<le> t \<Longrightarrow> t < 40 \<Longrightarrow> fips_K t = 0x6ED9EBA1"
    "40 \<le> t \<Longrightarrow> t < 60 \<Longrightarrow> fips_K t = 0x8F1BBCDC" "60 \<le> t \<Longrightarrow> t < 80 \<Longrightarrow> fips_K t = 0xCA62C1D6"
    by (simp_all add: fips_K_def)
qed

lemma round_functions:
  "t < 20 \<Longrightarrow> sha1_F1 x y z = fips_f t x y z \<and> 0x5A827999 = fips_K t"
  "20 \<le> t \<Longrightarrow> t < 40 \<Longrightarrow> sha1_F2 x y z = fips_f t x y z \<and> 0x6ED9EBA1 = fips_K t"
  "40 \<le> t \<Longrightarrow> t < 60 \<Longrightarrow> sha1_F3 x y z = fips_f t x y z \<and> 0x8F1BBCDC = fips_K t"
  "60 \<le> t \<Longrightarrow> t < 80 \<Longrightarrow> sha1_F2 x y z = fips_f t x y z \<and> 0xCA62C1D6 = fips_K t"
  by (simp_all add: sha1_F_eq sha1_F2_def fips_f_def fips_K_eq)

lemma sha1_words_eq: "sha1_words d = map (\<lambda>i. GET_UINT32_BE d (4 * i)) [0..<16]"
  by (simp add: sha1_words_def upt_conv_Cons)

lemma sha1_process_fips: "sha1_process c d = c\<lparr>chain := fips_compress (chain c) d\<rparr>"
proof -
  let ?M = "map (\<lambda>i. GET_UINT32_BE d (4 * i)) [0..<16]"
  let ?st = "(chain c ! 0, chain c ! 1, chain c ! 2, chain c ! 3, chain c ! 4)"
  let ?f = "fold (fips_step ?M)"
  have "ring_holds ?M 0 ?M" by (rule ring_start) simp
  then obtain W1 where 1: "sha1_five sha1_F1 0x5A827999 (?M, ?st) [0..<20] = (W1, ?f [0..<20] ?st)"
      "ring_holds ?M 20 W1"
    using fips_round [where M = ?M and a = 0 and W = ?M and b = 20 and F = sha1_F1 and K = "0x5A827999"] round_functions(1)
    by (simp del: upt_rec_numeral) blast
  from 1(2) obtain W2 where 2: "sha1_five sha1_F2 0x6ED9EBA1 (W1, ?f [0..<20] ?st) [20..<40] =
      (W2, ?f [20..<40] (?f [0..<20] ?st))" "ring_holds ?M 40 W2"
    using fips_round [where M = ?M and a = 20 and W = W1 and b = 40 and F = sha1_F2 and K = "0x6ED9EBA1"] round_functions(2)
    by (simp del: upt_rec_numeral) blast
  from 2(2) obtain W3 where 3: "sha1_five sha1_F3 0x8F1BBCDC (W2, ?f [20..<40] (?f [0..<20] ?st)) [40..<60] =
      (W3, ?f [40..<60] (?f [20..<40] (?f [0..<20] ?st)))" "ring_holds ?M 60 W3"
    using fips_round [where M = ?M and a = 40 and W = W2 and b = 60 and F = sha1_F3 and K = "0x8F1BBCDC"] round_functions(3)
    by (simp del: upt_rec_numeral) blast
  from 3(2) obtain W4 where 4: "sha1_five sha1_F2 0xCA62C1D6
      (W3, ?f [40..<60] (?f [20..<40] (?f [0..<20] ?st))) [60..<80] =
      (W4, ?f [60..<80] (?f [40..<60] (?f [20..<40] (?f [0..<20] ?st))))" "ring_holds ?M 80 W4"
    using fips_round [where M = ?M and a = 60 and W = W3 and b = 80 and F = sha1_F2 and K = "0xCA62C1D6"] round_functions(4)
    by (simp del: upt_rec_numeral) blast
  have "[0..<80] = [0..<20] @ [20..<40] @ [40..<60] @ [60..<80]"
    using upt_split [of 0 20 80] upt_split [of 20 40 80] upt_split [of 40 60 80]
    by (simp del: upt_rec_numeral)
  then have "?f [60..<80] (?f [40..<60] (?f [20..<40] (?f [0..<20] ?st))) = ?f [0..<80] ?st"
    by (simp only: fold_append comp_apply)
  then show ?thesis
    unfolding sha1_process_def Let_def sha1_words_eq 1 2 3 4 fips_compress_def
    by (simp add: add.commute split: prod.split del: upt_rec_numeral)
qed

lemma length_fips_compress: "length (fips_compress st d) = 5"
  by (simp add: fips_compress_def split: prod.split)

interpretation sha1: padded_digest sha1_process fips_compress
  "[0x67452301, 0xEFCDAB89, 0x98BADCFE, 0x10325476, 0xC3D2E1F0]" sha1_starts
  "\<lambda>high low. PUT_UINT32_BE high @ PUT_UINT32_BE low" be64 sha1_bytes
  by unfold_locales
     (simp_all add: sha1_process_fips sha1_starts_def be64_halves sha1_bytes_def)

lemma sha1_fips:
  assumes "length (block garbage) = 64" and "length input < 2 ^ 32"
  shows "sha1 garbage input = fips_sha1 input"
  using sha1.finish_pieces [OF sha1.starts_track [OF assms(1)], of "[input]"] assms(2)
  by (simp add: sha1_def sha1_finish_def sha1_update_def fips_sha1_def)

section \<open>Properties\<close>

text \<open>C22: the digest of a message fed in pieces of less than 4 GiB each is the SHA-1 digest of
  FIPS 180 of the whole message, whatever was in the context before.\<close>

theorem sha1_any_pieces:
  assumes "length (block ctx) = 64" and "\<forall>d \<in> set pieces. length d < 2 ^ 32"
  shows "snd (sha1_finish (foldl sha1_update (sha1_starts ctx) pieces)) = fips_sha1 (concat pieces)"
  using sha1.finish_pieces [OF sha1.starts_track [OF assms(1)] assms(2)]
  by (simp add: sha1_finish_def sha1_update_def fips_sha1_def)

definition used_context :: digest_context where
  "used_context = \<lparr>total0 = 5, total1 = 1, chain = [1], block = replicate 64 8, ipad = [], opad = []\<rparr>"

theorem sha1_any_pieces_witness:
  "snd (sha1_finish (foldl sha1_update (sha1_starts used_context) [[4], replicate 70 5, [6]])) =
     fips_sha1 (concat [[4], replicate 70 5, [6]])"
  by (rule sha1_any_pieces) (simp_all add: used_context_def)

text \<open>the HMAC of a message fed in pieces is the HMAC of RFC 2104 over SHA-1, for keys of any
  length.\<close>

theorem sha1_hmac_any_pieces:
  assumes "length (block garbage) = 64" and "length (block ctx) = 64" and "length key < 2 ^ 32"
    and "\<forall>d \<in> set pieces. length d < 2 ^ 32"
  shows "snd (sha1_hmac_finish (foldl sha1_hmac_update (sha1_hmac_starts garbage ctx key) pieces)) =
    hmac fips_sha1 key (concat pieces)"
proof -
  have "sha1_hmac_update = digest_update sha1_process"
    by (simp add: fun_eq_iff sha1_hmac_update_def sha1_update_def)
  with sha1.hmac_pieces [OF assms(2) _ assms(3,4), of "sha1 garbage"] sha1_fips [OF assms(1,3)]
  show ?thesis
    by (simp add: sha1_hmac_starts_def sha1_hmac_finish_def fips_sha1_def sha1_update_def
        sha1_finish_def [abs_def])
qed

theorem sha1_hmac_any_pieces_witness:
  "snd (sha1_hmac_finish (foldl sha1_hmac_update (sha1_hmac_starts used_context used_context (replicate 20 11))
     [[1], replicate 3 2])) = hmac fips_sha1 (replicate 20 11) (1 # replicate 3 2)"
  using sha1_hmac_any_pieces [of used_context used_context "replicate 20 11" "[[1], replicate 3 2]"]
  by (simp add: used_context_def)

end
