(* ===== verification/StringUtil.thy ===== *)
theory StringUtil
  imports Base64 Md5 Sha1 HttpUtil
begin

text \<open>
  The rest of \<open>src/src/stringutil.cpp\<close>: white space at the ends, digests of strings, hexadecimal text.
\<close>

section \<open>White space\<close>

definition lstrip :: "string \<Rightarrow> string" where
  "lstrip src = dropWhile isspace src"

definition rstrip :: "string \<Rightarrow> string" where
  "rstrip src = rev (dropWhile isspace (rev src))"

definition strip :: "string \<Rightarrow> string" where
  "strip src = lstrip (rstrip src)"

section \<open>Hexadecimal text\<close>

text \<open>
  \<open>hex\<close> reads \<open>src[i + 1]\<close> too, for the last \<open>i\<close> the byte \<open>beyond\<close> the input: the zero behind the
  characters of a \<open>std::string\<close>, whatever follows the array for a digest.
\<close>

definition hex_digit :: "byte \<Rightarrow> char" where
  "hex_digit b = (''0123456789'' @ ''abcdef'') ! unat b"

definition hex_step :: "byte list \<Rightarrow> byte \<Rightarrow> nat \<Rightarrow> string \<Rightarrow> string" where
  "hex_step src beyond i dest =
     (dest[i := hex_digit (drop_bit 4 (src ! i))])[i + 1 := hex_digit ((src @ [beyond]) ! (i + 1) AND 0xF)]"

definition hex :: "byte list \<Rightarrow> byte \<Rightarrow> string" where
  "hex src beyond = fold (hex_step src beyond) [0..<length src] (replicate (2 * length src) NUL)"

definition hex_of_string :: "string \<Rightarrow> string" where
  "hex_of_string src = hex (bytes_of src) 0"

section \<open>Digests of strings\<close>

text \<open>The contexts on the stack have indeterminate contents, \<open>garbage\<close>.\<close>

definition md5Bin :: "digest_context \<Rightarrow> string \<Rightarrow> string" where
  "md5Bin garbage src = string_of (md5 garbage (bytes_of src))"

definition md5Hex :: "digest_context \<Rightarrow> byte \<Rightarrow> string \<Rightarrow> string" where
  "md5Hex garbage beyond src = hex (md5 garbage (bytes_of src)) beyond"

definition sha1Bin :: "digest_context \<Rightarrow> string \<Rightarrow> string" where
  "sha1Bin garbage src = string_of (sha1 garbage (bytes_of src))"

definition sha1Hex :: "digest_context \<Rightarrow> byte \<Rightarrow> string \<Rightarrow> string" where
  "sha1Hex garbage beyond src = hex (sha1 garbage (bytes_of src)) beyond"

section \<open>What hex computes\<close>

lemma hex_fold:
  assumes "n \<le> length src" and "0 < n"
  shows "fold (hex_step src beyond) [0..<n] (replicate (2 * length src) NUL) =
    map (\<lambda>i. hex_digit (drop_bit 4 (src ! i))) [0..<n] @ hex_digit ((src @ [beyond]) ! n AND 0xF) #
    replicate (2 * length src - n - 1) NUL"
  using assms
proof (induction n)
  case (Suc n)
  let ?h = "\<lambda>i. hex_digit (drop_bit 4 (src ! i))" and ?l = "\<lambda>i. hex_digit ((src @ [beyond]) ! i AND 0xF)"
  have step: "hex_step src beyond n (xs @ a # b # zs) = xs @ ?h n # ?l (Suc n) # zs" if "length xs = n" for xs a b zs
    using that by (simp add: hex_step_def list_update_append)
  have len: "2 * length src - n - 1 = Suc (2 * length src - Suc n - 1)" using Suc.prems by simp
  show ?case
  proof (cases "n = 0")
    case True
    obtain k where "2 * length src = Suc (Suc k)" using Suc.prems by (cases "length src") auto
    then show ?thesis using True step [of "[]"] by simp
  next
    case False
    then have "fold (hex_step src beyond) [0..<n] (replicate (2 * length src) NUL) =
        map ?h [0..<n] @ ?l n # NUL # replicate (2 * length src - Suc n - 1) NUL"
      using Suc len by (simp del: replicate.simps) (simp flip: replicate_Suc)
    then show ?thesis using step [of "map ?h [0..<n]"] by simp
  qed
qed simp

text \<open>\<open>hex\<close> does not write the hexadecimal text of its input: it writes the first digit of each byte, then
  one digit of the byte behind the input, then zeros up to the length the text should have.\<close>

theorem hex_result:
  assumes "src \<noteq> []"
  shows "hex src beyond = map (\<lambda>b. hex_digit (drop_bit 4 b)) src @ hex_digit (beyond AND 0xF) #
    replicate (length src - 1) NUL"
proof -
  have "map (\<lambda>i. hex_digit (drop_bit 4 (src ! i))) [0..<length src] = map (\<lambda>b. hex_digit (drop_bit 4 b)) src"
    by (rule nth_equalityI) simp_all
  moreover have "2 * length src - length src - 1 = length src - 1" by simp
  ultimately show ?thesis using hex_fold [of "length src" src beyond] assms by (simp add: hex_def)
qed

theorem hex_result_witness: "hex [0x12, 0xAB] 0 = [CHR ''1'', CHR ''a'', CHR ''0'', NUL]"
  using hex_result [of "[0x12, 0xAB]" 0] by (simp add: hex_digit_def)

end
