(* ===== verification/HttpRequest.thy ===== *)
theory HttpRequest
  imports HttpConnector
begin

text \<open>
  \<open>httprequest.cpp\<close> and \<open>httpresponse.cpp\<close> of \<open>src/src/http\<close>, and the reason phrases of \<open>httputil.cpp\<close>: what a
  request or a response holds, how the parts of a request are read, and their text. An exception nobody
  catches, or a read or write C++ leaves undefined, is a fault. The JSON library is a parameter.
\<close>

section \<open>Faults\<close>

datatype http_fault =
    Table_index | Null_text | Behind_text | Behind_buffer | Length_error | Invalid_argument | Out_of_range | Bad_format | Parser_assertion

text \<open>
  \<open>snprintf\<close> into a buffer of 1024 bytes, and the \<open>n\<close> bytes that are then taken from it, where \<open>n\<close> is the length of the
  whole text: the last byte of the buffer is a zero.
\<close>

definition printed :: "string \<Rightarrow> http_fault + string" where
  "printed s =
     (if length s < 1024 then Inr s
      else if length s = 1024 then Inr (take 1023 s @ [NUL])
      else Inl Behind_buffer)"

definition unescaped :: "string \<Rightarrow> http_fault + string" where
  "unescaped s = (case unescape s of None \<Rightarrow> Inl Table_index | Some t \<Rightarrow> Inr t)"

section \<open>Reason phrases\<close>

definition reasons :: "(nat \<times> string) list" where
  "reasons =
     [(100, ''Continue''), (101, ''Switching Protocols''),
      (200, ''OK''), (201, ''Created''), (202, ''Accepted''), (203, ''Non-Authoritative Information''),
      (204, ''No Content''), (205, ''Reset Content''), (206, ''Partial Content''),
      (300, ''Multiple Choices''), (301, ''Moved Permanently''), (302, ''Found''), (303, ''See Other''),
      (304, ''Not Modified''), (305, ''Use Proxy''), (307, ''Temporary Redirect''),
      (400, ''Bad Request''), (401, ''Unauthorized''), (402, ''Payment Required''), (403, ''Forbidden''),
      (404, ''Not Found''), (405, ''Method Not Allowed''), (406, ''Not Acceptable''),
      (407, ''Proxy Authentication Required''), (408, ''Request Time-out''), (409, ''Conflict''), (410, ''Gone''),
      (411, ''Length Required''), (412, ''Precondition Failed''), (413, ''Request Entity Too Large''),
      (414, ''Request-URI Too Large''), (415, ''Unsupported Media Type''),
      (416, ''Requested range not satisfiable''), (417, ''Expectation Failed''),
      (500, ''Internal Server Error''), (501, ''Not Implemented''), (502, ''Bad Gateway''),
      (503, ''Service Unavailable''), (504, ''Gateway Time-out''), (505, ''HTTP Version not supported'')]"

text \<open>A negative code is a large \<open>size_t\<close>; places of the table that were not set are empty.\<close>

definition codeReason :: "int \<Rightarrow> string" where
  "codeReason num =
     (if num < 0 \<or> num \<ge> 600 then ''Unknown Error''
      else case map_of reasons (nat num) of None \<Rightarrow> ''Unknown Error'' | Some s \<Rightarrow> s)"

section \<open>Requests\<close>

type_synonym req_params = "(string \<times> string) list"

record http_request =
  req_url :: string
  req_body :: string
  schema :: string
  req_host :: string
  req_path :: string
  req_query :: string
  req_headers :: headers
  params :: req_params
  majorVersion :: nat
  minorVersion :: nat
  req_method :: http_method
  req_port :: nat
  keepAlive :: int

text \<open>The port is not set by the constructor.\<close>

definition new_request :: "nat \<Rightarrow> http_request" where
  "new_request garbage =
     \<lparr>req_url = [], req_body = [], schema = [], req_host = [], req_path = [], req_query = [], req_headers = [], params = [],
      majorVersion = 1, minorVersion = 1, req_method = HTTP_GET, req_port = garbage, keepAlive = 0\<rparr>"

definition clear_request :: "http_request \<Rightarrow> http_request" where
  "clear_request r = new_request 80"

text \<open>Inserting into a \<open>multimap\<close> that is ordered by bytes.\<close>

definition insert_param :: "string \<Rightarrow> string \<Rightarrow> req_params \<Rightarrow> req_params" where
  "insert_param k v ps =
     takeWhile (\<lambda>p. \<not> str_less k (fst p)) ps @ (k, v) # dropWhile (\<lambda>p. \<not> str_less k (fst p)) ps"

text \<open>Both strings are unescaped before the pair is inserted.\<close>

definition add_param :: "string \<Rightarrow> string \<Rightarrow> http_request \<Rightarrow> http_fault + http_request" where
  "add_param k v r =
     (case unescaped k of
        Inl e \<Rightarrow> Inl e
      | Inr k \<Rightarrow> (case unescaped v of Inl e \<Rightarrow> Inl e | Inr v \<Rightarrow> Inr (r\<lparr>params := insert_param k v (params r)\<rparr>)))"

subsection \<open>Keys and values\<close>

text \<open>Arguments of no part, or of more than two, are left out.\<close>

fun add_args :: "string list \<Rightarrow> http_request \<Rightarrow> http_fault + http_request" where
  "add_args [] r = Inr r"
| "add_args (a # as) r =
     (case split a ''='' 0 of
        [k] \<Rightarrow> (case add_param k [] r of Inl e \<Rightarrow> Inl e | Inr r \<Rightarrow> add_args as r)
      | [k, v] \<Rightarrow> (case add_param k v r of Inl e \<Rightarrow> Inl e | Inr r \<Rightarrow> add_args as r)
      | _ \<Rightarrow> add_args as r)"

definition parseKeyVal :: "string \<Rightarrow> http_request \<Rightarrow> http_fault + http_request" where
  "parseKeyVal str r = (if str = [] then Inr r else add_args (split str ''&'' 0) r)"

definition parseQuery :: "http_request \<Rightarrow> http_fault + http_request" where
  "parseQuery r = (if req_query r = [] then Inr r else parseKeyVal (req_query r) r)"

subsection \<open>The URL\<close>

definition url_part :: "string \<Rightarrow> http_parser_url \<Rightarrow> url_field \<Rightarrow> string" where
  "url_part s u f = take (unat (field_len u f)) (drop (unat (field_off u f)) s)"

text \<open>
  \<open>u0\<close> is the memory of the result. The parser of the URL fails with an assertion, or gives 0 for a URL. A
  part that begins behind the URL would throw.
\<close>

definition strcaseeq :: "string \<Rightarrow> string \<Rightarrow> bool" where
  "strcaseeq a b \<longleftrightarrow> lower (c_str a) = lower (c_str b)"

definition parseUrl :: "http_parser_url \<Rightarrow> http_request \<Rightarrow> http_fault + http_request" where
  "parseUrl u0 r =
     (if schema r \<noteq> [] then Inr r
      else case http_parser_parse_url (req_url r) False u0 of
        None \<Rightarrow> Inl Parser_assertion
      | Some (ret, u) \<Rightarrow>
          if ret \<noteq> 0 then Inr r
          else if \<exists>f \<in> set [UF_SCHEMA, UF_HOST, UF_PATH, UF_QUERY]. has_field u f \<and> unat (field_off u f) > length (req_url r)
          then Inl Behind_text
          else
            let part = url_part (req_url r) u;
                r = (if has_field u UF_SCHEMA then r\<lparr>schema := part UF_SCHEMA\<rparr> else r);
                r = (if has_field u UF_HOST then r\<lparr>req_host := part UF_HOST\<rparr> else r);
                r = r\<lparr>req_port := (if has_field u UF_PORT then unat (port u)
                  else if strcaseeq (schema r) ''https'' \<or> strcaseeq (schema r) ''wss'' then 443 else 80)\<rparr>;
                r = (if has_field u UF_PATH then r\<lparr>req_path := part UF_PATH\<rparr> else r)
            in if has_field u UF_QUERY then parseQuery (r\<lparr>req_query := part UF_QUERY\<rparr>) else Inr r)"

subsection \<open>Form data\<close>

text \<open>
  Positions are pointers into the text with its terminating zero, \<open>t\<close>. \<open>find_text\<close> is \<open>strstr\<close>, \<open>find_char\<close> is
  \<open>strchr\<close>; both stop at a zero.
\<close>

fun find_prefix :: "string \<Rightarrow> string \<Rightarrow> nat option" where
  "find_prefix [] pat = (if pat = [] then Some 0 else None)"
| "find_prefix (c # s) pat =
     (if take (length pat) (c # s) = pat then Some 0 else map_option Suc (find_prefix s pat))"

definition find_text :: "string \<Rightarrow> nat \<Rightarrow> string \<Rightarrow> nat option" where
  "find_text t i pat = map_option ((+) i) (find_prefix (c_str (drop i t)) pat)"

definition find_char :: "string \<Rightarrow> nat \<Rightarrow> char \<Rightarrow> nat option" where
  "find_char t i c =
     (let s = c_str (drop i t); n = length (takeWhile (\<lambda>d. d \<noteq> c) s) in if n < length s then Some (i + n) else None)"

definition newline :: "char \<Rightarrow> bool" where
  "newline c \<longleftrightarrow> c = CR \<or> c = LF"

text \<open>The end of a value that goes back from the boundary.\<close>

fun back_over :: "string \<Rightarrow> nat \<Rightarrow> nat \<Rightarrow> nat" where
  "back_over t lo 0 = 0"
| "back_over t lo (Suc p) =
     (if Suc p > lo \<and> (t ! Suc p = CHR ''-'' \<or> newline (t ! Suc p)) then back_over t lo p else Suc p)"

text \<open>
  Where the value ends that begins at \<open>ptr\<close>; \<open>p\<close> is the quotation mark behind the key. Without a boundary the
  end of the line behind the quotation mark is looked for, without regard to the end of the text. The condition
  after the loop with the boundary can never hold.
\<close>

definition value_end :: "string \<Rightarrow> string \<Rightarrow> nat \<Rightarrow> nat \<Rightarrow> nat option" where
  "value_end str boundary p ptr =
     (let t = str @ [NUL] in
      if boundary = []
      then (let n = length (takeWhile (\<lambda>c. \<not> newline c) (drop p t)) in
            if p + n < length t then Some (p + n) else None)
      else (case find_text t ptr (c_str boundary) of
          None \<Rightarrow> Some (length str)
        | Some q \<Rightarrow>
            let q = back_over t ptr q in
            Some (if t ! q \<noteq> CHR ''-'' \<and> t ! q = CR \<and> t ! q = LF then q + 1 else q)))"

lemma find_text_ge: "find_text t i pat = Some j \<Longrightarrow> i \<le> j"
  by (auto simp: find_text_def)

lemma find_char_ge: "find_char t i c = Some j \<Longrightarrow> i \<le> j"
  by (auto simp: find_char_def Let_def split: if_splits)

text \<open>The loop, from the position of a \<open>name=\<close>.\<close>

function form_loop :: "string \<Rightarrow> string \<Rightarrow> nat \<Rightarrow> http_request \<Rightarrow> http_fault + http_request" where
  "form_loop str boundary at r =
     (let t = str @ [NUL]; k = at + 6 in
      if k > length str then Inl Behind_text
      else case find_char t k DQUOTE of
        None \<Rightarrow> Inl Length_error
      | Some p \<Rightarrow>
          let ptr = p + 1 + length (takeWhile newline (drop (p + 1) t)) in
          (case value_end str boundary p ptr of
             None \<Rightarrow> Inl Behind_text
           | Some e \<Rightarrow>
               if e < ptr then Inl Length_error
               else (case add_param (bytes_at t k (p - k)) (bytes_at t ptr (e - ptr)) r of
                   Inl f \<Rightarrow> Inl f
                 | Inr r \<Rightarrow> (case find_text t e ''name='' of None \<Rightarrow> Inr r | Some at \<Rightarrow> form_loop str boundary at r))))"
  by pat_completeness auto
termination
  by (relation "measure (\<lambda>(str, boundary, at, r). Suc (length str) - at)")
    (use find_text_ge find_char_ge in \<open>fastforce simp: Let_def\<close>)+

declare form_loop.simps [simp del]

definition parseFormData :: "string \<Rightarrow> string \<Rightarrow> http_request \<Rightarrow> http_fault + http_request" where
  "parseFormData str boundary r =
     (case find_text (str @ [NUL]) 0 ''name='' of None \<Rightarrow> Inr r | Some at \<Rightarrow> form_loop str boundary at r)"

definition parseMFormData :: "string \<Rightarrow> string \<Rightarrow> http_request \<Rightarrow> http_fault + http_request" where
  "parseMFormData str boundary r = parseFormData str boundary r"

subsection \<open>JSON\<close>

text \<open>
  A document as the JSON library gives it: members and elements in order; a value that is none of both with the
  text the library writes for it, if it accepts to write it.
\<close>

datatype json = Json_object "(string \<times> json) list" | Json_array "json list" | Json_value "string option"

definition json_key :: "string \<Rightarrow> string \<Rightarrow> string" where
  "json_key key k = (if key = [] then k else key @ ''.'' @ k)"

text \<open>A quotation mark at the begin and one at the end are left out.\<close>

definition addJsonMember :: "string \<Rightarrow> string option \<Rightarrow> http_request \<Rightarrow> http_fault + http_request" where
  "addJsonMember key val r =
     (case val of
        None \<Rightarrow> Inr r
      | Some tmp \<Rightarrow>
          let tmp = (if tmp \<noteq> [] \<and> hd tmp = DQUOTE then tl tmp else tmp);
              tmp = (if tmp \<noteq> [] \<and> last tmp = DQUOTE then butlast tmp else tmp)
          in add_param key tmp r)"

fun addJsonNode :: "string \<Rightarrow> json \<Rightarrow> http_request \<Rightarrow> http_fault + http_request"
  and addJsonArray :: "string \<Rightarrow> nat \<Rightarrow> json list \<Rightarrow> http_request \<Rightarrow> http_fault + http_request"
  and addJsonObject :: "string \<Rightarrow> (string \<times> json) list \<Rightarrow> http_request \<Rightarrow> http_fault + http_request" where
  "addJsonNode key (Json_object ms) r = addJsonObject key ms r"
| "addJsonNode key (Json_array vs) r = addJsonArray key 0 vs r"
| "addJsonNode key (Json_value v) r = addJsonMember key v r"
| "addJsonArray key i [] r = Inr r"
| "addJsonArray key i (v # vs) r =
     (case addJsonNode (json_key key (nat_text i)) v r of Inl e \<Rightarrow> Inl e | Inr r \<Rightarrow> addJsonArray key (i + 1) vs r)"
| "addJsonObject key [] r = Inr r"
| "addJsonObject key ((n, v) # ms) r =
     (case addJsonNode (json_key key (c_str n)) v r of Inl e \<Rightarrow> Inl e | Inr r \<Rightarrow> addJsonObject key ms r)"

text \<open>\<open>json\<close> is the parser of the library. On an error its code, a number, is printed with \<open>%s\<close>.\<close>

definition parseJson :: "(string \<Rightarrow> json option) \<Rightarrow> string \<Rightarrow> http_request \<Rightarrow> http_fault + http_request" where
  "parseJson json str r =
     (case json (c_str str) of None \<Rightarrow> Inl Bad_format | Some doc \<Rightarrow> addJsonNode [] doc r)"

subsection \<open>The body\<close>

definition parseHost :: "http_request \<Rightarrow> http_request" where
  "parseHost r =
     (case find_header ''X-Real-Ip'' (req_headers r) of
        Some v \<Rightarrow> r\<lparr>req_host := v\<rparr>
      | None \<Rightarrow> (case find_header ''host'' (req_headers r) of Some v \<Rightarrow> r\<lparr>req_host := v\<rparr> | None \<Rightarrow> r))"

text \<open>A content type: what is before the first semicolon, and what begins with the first hyphen behind it.\<close>

definition content_type :: "string \<Rightarrow> string \<times> string" where
  "content_type v =
     (case dropWhile (\<lambda>c. c \<noteq> CHR '';'') v of
        [] \<Rightarrow> (v, [])
      | _ # rest \<Rightarrow> (takeWhile (\<lambda>c. c \<noteq> CHR '';'') v, dropWhile (\<lambda>c. c \<noteq> CHR ''-'') rest))"

definition parseContent :: "(string \<Rightarrow> json option) \<Rightarrow> string \<Rightarrow> http_request \<Rightarrow> http_fault + http_request" where
  "parseContent json v r =
     (let (key, boundary) = content_type v in
      if key = ''application/form-data'' then parseFormData (req_body r) boundary r
      else if key = ''application/x-www-form-urlencoded'' then parseKeyVal (req_body r) r
      else if key = ''multipart/form-data'' then parseMFormData (req_body r) boundary r
      else if key = ''application/json'' then parseJson json (req_body r) r
      else Inr r)"

fun parseContents :: "(string \<Rightarrow> json option) \<Rightarrow> string list \<Rightarrow> http_request \<Rightarrow> http_fault + http_request" where
  "parseContents json [] r = Inr r"
| "parseContents json (v # vs) r =
     (case parseContent json v r of Inl e \<Rightarrow> Inl e | Inr r \<Rightarrow> parseContents json vs r)"

definition parseContentType :: "(string \<Rightarrow> json option) \<Rightarrow> http_request \<Rightarrow> http_fault + http_request" where
  "parseContentType json r =
     parseContents json (map snd (filter (\<lambda>h. same_key ''Content-Type'' (fst h)) (req_headers r))) r"

text \<open>\<open>std::stoi\<close>.\<close>

fun decimal :: "int \<Rightarrow> string \<Rightarrow> int" where
  "decimal v [] = v"
| "decimal v (c # s) = (if 48 \<le> code c \<and> code c \<le> 57 then decimal (10 * v + int (code c - 48)) s else v)"

definition stoi :: "string \<Rightarrow> http_fault + int" where
  "stoi s =
     (let s = dropWhile isspace s;
          (sgn, s) = (case s of
              c # s' \<Rightarrow> if c = CHR ''-'' then (- 1, s') else if c = CHR ''+'' then (1, s') else (1, s)
            | [] \<Rightarrow> (1, s))
      in if s = [] \<or> \<not> (48 \<le> code (hd s) \<and> code (hd s) \<le> 57) then Inl Invalid_argument
         else let v = sgn * decimal 0 s in if v < - (2 ^ 31) \<or> v \<ge> 2 ^ 31 then Inl Out_of_range else Inr v)"

text \<open>The number is taken from the field \<open>Connection\<close>.\<close>

definition parseKeepAlive :: "http_request \<Rightarrow> http_fault + http_request" where
  "parseKeepAlive r =
     (case find_header ''Connection'' (req_headers r) of
        None \<Rightarrow> Inr r
      | Some v \<Rightarrow>
          if v = ''close'' then Inr (r\<lparr>keepAlive := - 1\<rparr>)
          else if v = ''keep-alive''
          then (case find_header ''Keep-Alive'' (req_headers r) of
              None \<Rightarrow> Inr (r\<lparr>keepAlive := 0\<rparr>)
            | Some _ \<Rightarrow> (case stoi v of Inl e \<Rightarrow> Inl e | Inr n \<Rightarrow> Inr (r\<lparr>keepAlive := n\<rparr>)))
          else Inr r)"

definition parseBody :: "(string \<Rightarrow> json option) \<Rightarrow> http_request \<Rightarrow> http_fault + http_request" where
  "parseBody json r =
     (case parseContentType json (parseHost r) of Inl e \<Rightarrow> Inl e | Inr r \<Rightarrow> parseKeepAlive r)"

section \<open>The text of messages\<close>

definition erase_header :: "string \<Rightarrow> headers \<Rightarrow> headers" where
  "erase_header k hs = filter (\<lambda>h. \<not> same_key k (fst h)) hs"

definition header_line :: "string \<times> string \<Rightarrow> string" where
  "header_line h = c_str (fst h) @ '': '' @ c_str (snd h) @ [CR, LF]"

text \<open>Lines, each printed into the buffer, one behind the other.\<close>

fun print_all :: "string list \<Rightarrow> http_fault + string" where
  "print_all [] = Inr []"
| "print_all (l # ls) =
     (case printed l of
        Inl e \<Rightarrow> Inl e
      | Inr s \<Rightarrow> (case print_all ls of Inl e \<Rightarrow> Inl e | Inr t \<Rightarrow> Inr (s @ t)))"

definition request_line :: "http_request \<Rightarrow> string" where
  "request_line r =
     method_string (req_method r) @ [SP] @ c_str (req_path r) @
       (if req_query r = [] then [] else CHR ''?'' # c_str (req_query r)) @
       '' HTTP/'' @ nat_text (majorVersion r) @ ''.'' @ nat_text (minorVersion r) @ [CR, LF]"

definition host_value :: "http_request \<Rightarrow> http_fault + string" where
  "host_value r =
     (if req_port r = 80 \<or> req_port r = 443 then Inr (req_host r)
      else printed (c_str (req_host r) @ '':'' @ nat_text (req_port r)))"

text \<open>The text of a request. The request gets a path and the fields that are sent.\<close>

definition request_dump :: "http_parser_url \<Rightarrow> http_request \<Rightarrow> http_fault + string \<times> http_request" where
  "request_dump u0 r =
     (case parseUrl u0 r of
        Inl e \<Rightarrow> Inl e
      | Inr r \<Rightarrow>
          let r = (if req_path r = [] then r\<lparr>req_path := ''/''\<rparr> else r) in
          (case printed (request_line r) of
             Inl e \<Rightarrow> Inl e
           | Inr line \<Rightarrow>
               (case host_value r of
                  Inl e \<Rightarrow> Inl e
                | Inr hv \<Rightarrow>
                    let hs = insert_header ''Host'' hv (erase_header ''Host'' (req_headers r));
                        hs = (if req_method r = HTTP_POST \<or> req_method r = HTTP_PUT
                          then insert_header ''Content-Length'' (int_text (int32 (int (length (req_body r)))))
                            (erase_header ''Content-Length'' hs)
                          else hs)
                    in (case print_all (map header_line hs) of
                        Inl e \<Rightarrow> Inl e
                      | Inr t \<Rightarrow> Inr (line @ t @ [CR, LF] @ req_body r, r\<lparr>req_headers := hs\<rparr>)))))"

section \<open>Responses\<close>

definition status_line :: "int \<Rightarrow> string" where
  "status_line n = ''HTTP/1.1 '' @ int_text n @ [SP] @ codeReason n @ [CR, LF]"

definition length_line :: "string \<Rightarrow> string" where
  "length_line s = ''Content-Length: '' @ int_text (int32 (int (length s))) @ [CR, LF]"

definition response_dump :: "http_response \<Rightarrow> http_fault + string" where
  "response_dump resp =
     (case print_all (status_line (status resp) # map header_line (resp_headers resp) @ [length_line (body resp)]) of
        Inl e \<Rightarrow> Inl e
      | Inr t \<Rightarrow> Inr (t @ [CR, LF] @ body resp))"

definition new_response :: "int \<Rightarrow> headers \<Rightarrow> string \<Rightarrow> http_response" where
  "new_response n hs s = \<lparr>status = n, body = s, resp_headers = hs\<rparr>"

definition setContentType :: "string \<Rightarrow> http_response \<Rightarrow> http_response" where
  "setContentType ct resp = resp\<lparr>resp_headers := insert_header ''Content-Type'' ct (resp_headers resp)\<rparr>"

definition setKeepAlive :: "bool \<Rightarrow> http_response \<Rightarrow> http_response" where
  "setKeepAlive on resp =
     resp\<lparr>resp_headers := insert_header ''Connection'' (if on then ''Keep-Alive'' else ''close'') (resp_headers resp)\<rparr>"

text \<open>\<open>date\<close> is the text of the time, as \<open>strftime\<close> gives it.\<close>

definition enableDate :: "string \<Rightarrow> http_response \<Rightarrow> http_response" where
  "enableDate date resp = resp\<lparr>resp_headers := insert_header ''Date'' date (resp_headers resp)\<rparr>"

end
