(* ===== verification/WsHandshake.thy ===== *)
theory WsHandshake
  imports HttpRequest StringUtil
begin

text \<open>
  The handshake of WebSocket, \<open>src/src/http/wsutil.cpp\<close>: the request a client sends, and what a server answers
  to one.
\<close>

section \<open>The client\<close>

text \<open>\<open>rnd\<close> are the numbers \<open>random\<close> gives; their bytes are the memory of an array of four \<open>int\<close>.\<close>

definition int_bytes :: "u32 \<Rightarrow> byte list" where
  "int_bytes w = map (\<lambda>i. ucast (drop_bit (8 * i) w)) [0..<4]"

definition calcKey :: "(nat \<Rightarrow> u32) \<Rightarrow> string" where
  "calcKey rnd = base64Encode (string_of (concat (map (\<lambda>i. int_bytes (rnd i)) [0..<4])))"

definition getOrigin :: "http_parser_url \<Rightarrow> http_request \<Rightarrow> http_fault + string \<times> http_request" where
  "getOrigin u0 r =
     (case parseUrl u0 r of
        Inl e \<Rightarrow> Inl e
      | Inr r \<Rightarrow>
          let h = c_str (req_host r);
              s = (if strcaseeq (schema r) ''ws'' then ''http://'' @ h
                   else if strcaseeq (schema r) ''wss'' then ''https://'' @ h
                   else c_str (schema r) @ ''://'' @ h)
          in (case printed s of
              Inl e \<Rightarrow> Inl e
            | Inr s \<Rightarrow>
                if req_port r \<noteq> 80 \<and> req_port r \<noteq> 443
                then (case printed (CHR '':'' # nat_text (req_port r)) of Inl e \<Rightarrow> Inl e | Inr p \<Rightarrow> Inr (s @ p, r))
                else Inr (s, r)))"

definition ws_buildRequest :: "http_parser_url \<Rightarrow> (nat \<Rightarrow> u32) \<Rightarrow> http_request \<Rightarrow> http_fault + http_request" where
  "ws_buildRequest u0 rnd r =
     (let add = (\<lambda>k v r. r\<lparr>req_headers := insert_header k v (req_headers r)\<rparr>);
          r = add ''Upgrade'' ''websocket'' r;
          r = add ''Connection'' ''Upgrade'' r;
          r = add ''Sec-Websocket-Protocol'' ''chat'' r;
          r = add ''Sec-Websocket-Version'' ''13'' r;
          r = add ''Sec-Websocket-Key'' (calcKey rnd) r
      in case getOrigin u0 r of Inl e \<Rightarrow> Inl e | Inr (s, r) \<Rightarrow> Inr (add ''Origin'' s r))"

section \<open>The server\<close>

text \<open>\<open>strcasestr\<close>, as a test.\<close>

definition contains_nocase :: "string \<Rightarrow> string \<Rightarrow> bool" where
  "contains_nocase s pat \<longleftrightarrow> find_prefix (lower (c_str s)) (lower pat) \<noteq> None"

text \<open>\<open>atoi\<close>: \<open>strtol\<close>, which stays within the numbers of 64 bits, converted to \<open>int\<close>.\<close>

definition atoi :: "string \<Rightarrow> int" where
  "atoi s =
     (let s = dropWhile isspace (c_str s);
          (sgn, s) = (case s of
              c # s' \<Rightarrow> if c = CHR ''-'' then (- 1, s') else if c = CHR ''+'' then (1, s') else (1, s)
            | [] \<Rightarrow> (1, s))
      in int32 (max (- (2 ^ 63)) (min (2 ^ 63 - 1) (sgn * decimal 0 s))))"

definition http_err :: "int \<Rightarrow> string \<Rightarrow> http_error" where
  "http_err n m = \<lparr>statusCode = n, message = m\<rparr>"

definition checkHeader :: "http_request \<Rightarrow> http_error" where
  "checkHeader r =
     (if req_method r \<noteq> HTTP_GET then http_err 405 []
      else case find_header ''Upgrade'' (req_headers r) of
        None \<Rightarrow> http_err 400 (''Can '' @ [DQUOTE] @ ''Upgrade'' @ [DQUOTE] @ '' only to '' @ [DQUOTE] @ ''websocket'' @ [DQUOTE])
      | Some u \<Rightarrow>
          if \<not> contains_nocase u ''websocket''
          then http_err 400 (''Can '' @ [DQUOTE] @ ''Upgrade'' @ [DQUOTE] @ '' only to '' @ [DQUOTE] @ ''websocket'' @ [DQUOTE])
          else (case find_header ''Connection'' (req_headers r) of
              None \<Rightarrow> http_err 400 ([DQUOTE] @ ''Connection'' @ [DQUOTE] @ '' must be '' @ [DQUOTE] @ ''upgrade'' @ [DQUOTE])
            | Some c \<Rightarrow>
                if \<not> contains_nocase c ''Upgrade''
                then http_err 400 ([DQUOTE] @ ''Connection'' @ [DQUOTE] @ '' must be '' @ [DQUOTE] @ ''upgrade'' @ [DQUOTE])
                else if (case find_header ''Sec-Websocket-Version'' (req_headers r) of
                    None \<Rightarrow> False | Some v \<Rightarrow> atoi v \<in> {13, 7, 8})
                then http_err 200 []
                else http_err 426 ''Sec-WebSocket-Version: 13''))"

definition wsMagicKey :: string where
  "wsMagicKey = ''258EAFA5-E914-47DA-95CA-C5AB0DC85B11''"

text \<open>\<open>garbage\<close> is the memory of the digest.\<close>

definition calcAcceptKey :: "digest_context \<Rightarrow> http_request \<Rightarrow> string" where
  "calcAcceptKey garbage r =
     (case find_header ''Sec-Websocket-Key'' (req_headers r) of
        None \<Rightarrow> []
      | Some k \<Rightarrow> base64Encode (sha1Bin garbage (k @ wsMagicKey)))"

definition handshake :: "digest_context \<Rightarrow> http_request \<Rightarrow> http_response \<Rightarrow> http_error \<times> http_response" where
  "handshake garbage r resp =
     (let error = checkHeader r in
      if statusCode error \<noteq> 200 then (error, resp)
      else
        let add = (\<lambda>k v resp. resp\<lparr>resp_headers := insert_header k v (resp_headers resp)\<rparr>);
            resp = resp\<lparr>status := 101\<rparr>;
            resp = add ''Upgrade'' ''websocket'' resp;
            resp = add ''Connection'' ''Upgrade'' resp;
            resp = add ''Sec-Websocket-Accept'' (calcAcceptKey garbage r) resp
        in (error, case find_header ''Sec-Websocket-Protocol'' (req_headers r) of
              None \<Rightarrow> resp
            | Some v \<Rightarrow> (case split v '','' 0 of [] \<Rightarrow> resp | s # _ \<Rightarrow> add ''Sec-Websocket-Protocol'' s resp)))"

end
