(* ===== verification/WsConnection.thy ===== *)
theory WsConnection
  imports TnetPrelude
begin

text \<open>
  \<open>src/src/http/wsconnection.cpp\<close>: the frames of a WebSocket connection. Data are lists of bytes; what
  the connection does to its environment (the callback of the application, the TCP connection) is the
  list of its actions, in order. The callback may call the sending operations of the connection, which
  change nothing the frame reader uses.

  A read beyond the data, a failing assertion and a failing allocation are faults. The host is little
  endian, as the conversions of the source have an effect only there.
\<close>

section \<open>State\<close>

datatype frame_status =
    FrameStart | FramePayloadLen | FramePayloadLen16 | FramePayloadLen64
  | FrameMaskingKey | FrameData | FrameFinal | FrameError

datatype ws_event = Ws_OpenEvent | Ws_CloseEvent | Ws_MessageEvent | Ws_PongEvent | Ws_ErrorEvent

datatype ws_fault = Out_of_bounds | Assertion | Out_of_memory

datatype ws_action =
    Event ws_event "byte list"
  | Conn_send "byte list"
  | Conn_shutDown int
  | Run_sendCallback nat

record ws =
  m_payloadLen :: nat
  m_status :: frame_status
  m_maskingKey :: "byte list"
  m_final :: byte
  m_opcode :: byte
  m_mask :: byte
  m_lastOpcode :: byte
  m_cache :: "byte list"
  m_appData :: "byte list"
  m_sendCallback :: "nat option"
  m_conn :: bool

text \<open>
  \<open>m_conn\<close> says whether the weak pointer can be locked; \<open>m_sendCallback\<close> names a callback, \<open>None\<close> being
  \<open>dummyCallback\<close>. The constructor does not set \<open>m_status\<close> and \<open>m_maskingKey\<close>.
\<close>

definition new_ws :: "frame_status \<Rightarrow> byte list \<Rightarrow> ws" where
  "new_ws status key = \<lparr>m_payloadLen = 0, m_status = status, m_maskingKey = key, m_final = 0, m_opcode = 0,
     m_mask = 0, m_lastOpcode = 0, m_cache = [], m_appData = [], m_sendCallback = None, m_conn = True\<rparr>"

definition onOpen :: "ws \<Rightarrow> ws \<times> ws_action list" where
  "onOpen w = (w\<lparr>m_status := FrameStart\<rparr>, [Event Ws_OpenEvent []])"

definition ws_onError :: "ws \<Rightarrow> ws \<times> ws_action list" where
  "ws_onError w = (w, [Event Ws_ErrorEvent []])"

definition isFinalFrame :: "ws \<Rightarrow> bool" where "isFinalFrame w = (m_final w > 0)"
definition isMaskFrame :: "ws \<Rightarrow> bool" where "isMaskFrame w = (m_mask w > 0)"
definition isControlFrame :: "ws \<Rightarrow> bool" where "isControlFrame w = (m_opcode w AND 0x08 > 0)"

definition isTextFrame :: "ws \<Rightarrow> bool" where
  "isTextFrame w = (if m_opcode w = 0 then m_lastOpcode w = 1 else m_opcode w = 1)"

definition isBinaryFrame :: "ws \<Rightarrow> bool" where
  "isBinaryFrame w = (if m_opcode w = 0 then m_lastOpcode w = 2 else m_opcode w = 2)"

section \<open>Sending\<close>

text \<open>The \<open>k\<close> bytes of a number, the most significant one first, and the number of bytes in either order.\<close>

fun be_bytes :: "nat \<Rightarrow> nat \<Rightarrow> byte list" where
  "be_bytes 0 n = []"
| "be_bytes (Suc k) n = be_bytes k (n div 256) @ [of_nat n]"

definition be_value :: "byte list \<Rightarrow> nat" where
  "be_value bs = foldl (\<lambda>n b. 256 * n + unat b) 0 bs"

definition le_value :: "byte list \<Rightarrow> nat" where
  "le_value bs = be_value (rev bs)"

definition masked :: "byte list \<Rightarrow> byte list \<Rightarrow> byte list" where
  "masked key bs = map2 (\<lambda>i b. b XOR key ! (i mod 4)) [0..<length bs] bs"

text \<open>\<open>mask\<close> is zero, so the branch with a random key is never taken; \<open>randomKey\<close> is its four bytes.\<close>

definition sendFrame :: "byte list \<Rightarrow> ws \<Rightarrow> bool \<Rightarrow> byte \<Rightarrow> byte list \<Rightarrow> ws_action list" where
  "sendFrame randomKey w finalFrame opcode message =
     (if \<not> m_conn w then []
      else
        let buf = [opcode OR (if finalFrame then 0x80 else 0)];
            mask = 0 :: byte;
            payloadLen = length message;
            buf = buf @
              (if payloadLen < 126 then [mask OR of_nat payloadLen]
               else if payloadLen \<le> 0xFFFF then (mask OR 126) # be_bytes 2 payloadLen
               else (mask OR 127) # be_bytes 8 payloadLen);
            buf = buf @ (if mask \<noteq> 0 then randomKey @ masked randomKey message else message)
        in [Conn_send buf])"

definition ping :: "byte list \<Rightarrow> ws \<Rightarrow> byte list \<Rightarrow> ws_action list" where
  "ping key w message = sendFrame key w True 0x9 message"

definition send_as :: "byte list \<Rightarrow> ws \<Rightarrow> byte list \<Rightarrow> bool \<Rightarrow> ws_action list" where
  "send_as key w message binary = sendFrame key w True (if binary then 2 else 1) message"

definition send :: "byte list \<Rightarrow> ws \<Rightarrow> byte list \<Rightarrow> ws_action list" where
  "send key w message = send_as key w message (\<not> isTextFrame w)"

definition send_notify :: "byte list \<Rightarrow> ws \<Rightarrow> byte list \<Rightarrow> nat \<Rightarrow> ws \<times> ws_action list" where
  "send_notify key w message cb = (let w = w\<lparr>m_sendCallback := Some cb\<rparr> in (w, send key w message))"

definition send_as_notify :: "byte list \<Rightarrow> ws \<Rightarrow> byte list \<Rightarrow> bool \<Rightarrow> nat \<Rightarrow> ws \<times> ws_action list" where
  "send_as_notify key w message binary cb =
     (let w = w\<lparr>m_sendCallback := Some cb\<rparr> in (w, send_as key w message binary))"

definition ws_close :: "byte list \<Rightarrow> ws \<Rightarrow> ws_action list" where
  "ws_close key w = sendFrame key w True 0x8 []"

definition ws_shutDown :: "ws \<Rightarrow> ws_action list" where
  "ws_shutDown w = (if m_conn w then [Conn_shutDown 0] else [])"

section \<open>Reading a frame\<close>

definition onFrameStart :: "ws \<Rightarrow> byte list \<Rightarrow> ws_fault + (int \<times> ws)" where
  "onFrameStart w data =
     (let w = w\<lparr>m_cache := []\<rparr>
      in case data of
           [] \<Rightarrow> Inl Out_of_bounds
         | header # _ \<Rightarrow>
             if header AND 0x70 \<noteq> 0 then Inr (- 1, w)
             else Inr (1, w\<lparr>m_final := header AND 0x80, m_opcode := header AND 0x0F,
                            m_status := FramePayloadLen\<rparr>))"

text \<open>\<open>reserve n\<close>: whether \<open>std::string::reserve\<close> of \<open>n\<close> bytes succeeds.\<close>

definition handleFramePayloadLen :: "(nat \<Rightarrow> bool) \<Rightarrow> ws \<Rightarrow> nat \<Rightarrow> ws_fault + ws" where
  "handleFramePayloadLen reserve w payloadLen =
     (if \<not> reserve payloadLen then Inl Out_of_memory
      else (let w = w\<lparr>m_payloadLen := payloadLen, m_cache := []\<rparr>
            in Inr (w\<lparr>m_status := (if m_payloadLen w = 0 then FrameFinal
                                else if isMaskFrame w then FrameMaskingKey else FrameData)\<rparr>)))"

definition onFramePayloadLen :: "(nat \<Rightarrow> bool) \<Rightarrow> ws \<Rightarrow> byte list \<Rightarrow> ws_fault + (int \<times> ws)" where
  "onFramePayloadLen reserve w data =
     (case data of
        [] \<Rightarrow> Inl Out_of_bounds
      | payload # _ \<Rightarrow>
          (let w = w\<lparr>m_mask := payload AND 0x80\<rparr>;
               payloadLen = payload AND 0x7F
           in if isControlFrame w \<and> payloadLen \<ge> 126 then Inr (- 1, w)
              else if payloadLen < 126
              then (case handleFramePayloadLen reserve w (unat payloadLen) of
                      Inl e \<Rightarrow> Inl e | Inr w \<Rightarrow> Inr (1, w))
              else if payloadLen = 126 then Inr (1, w\<lparr>m_status := FramePayloadLen16\<rparr>)
              else if payloadLen = 127 then Inr (1, w\<lparr>m_status := FramePayloadLen64\<rparr>)
              else Inr (- 1, w)))"

definition tryRead :: "ws \<Rightarrow> byte list \<Rightarrow> nat \<Rightarrow> ws_fault + (int \<times> ws)" where
  "tryRead w data tryReadData =
     (if \<not> length (m_cache w) < tryReadData then Inl Assertion
      else
        let pendingSize = length (m_cache w)
        in if pendingSize + length data < tryReadData
           then Inr (0, w\<lparr>m_cache := m_cache w @ data\<rparr>)
           else Inr (sint (of_nat tryReadData - of_nat pendingSize :: u32),
                     w\<lparr>m_cache := m_cache w @ take (tryReadData - pendingSize) data\<rparr>))"

text \<open>The length of 16 or 64 bits is compared with the limit before its bytes are swapped.\<close>

definition onFramePayloadLenN ::
    "nat \<Rightarrow> (nat \<Rightarrow> bool) \<Rightarrow> nat \<Rightarrow> ws \<Rightarrow> byte list \<Rightarrow> ws_fault + (int \<times> ws)" where
  "onFramePayloadLenN width reserve maxPayloadLen w data =
     (case tryRead w data width of
        Inl e \<Rightarrow> Inl e
      | Inr (readLen, w) \<Rightarrow>
          if readLen = 0 then Inr (readLen, w)
          else if le_value (m_cache w) > maxPayloadLen then Inr (- 1, w)
          else (case handleFramePayloadLen reserve w (be_value (m_cache w)) of
                  Inl e \<Rightarrow> Inl e | Inr w \<Rightarrow> Inr (readLen, w)))"

definition onFramePayloadLen16 where "onFramePayloadLen16 = onFramePayloadLenN 2"
definition onFramePayloadLen64 where "onFramePayloadLen64 = onFramePayloadLenN 8"

definition onFrameMaskingKey :: "ws \<Rightarrow> byte list \<Rightarrow> ws_fault + (int \<times> ws)" where
  "onFrameMaskingKey w data =
     (case tryRead w data 4 of
        Inl e \<Rightarrow> Inl e
      | Inr (readLen, w) \<Rightarrow>
          if readLen = 0 then Inr (0, w)
          else Inr (readLen, w\<lparr>m_maskingKey := m_cache w, m_cache := [], m_status := FrameData\<rparr>))"

definition onFrameData :: "ws \<Rightarrow> byte list \<Rightarrow> ws_fault + (int \<times> ws)" where
  "onFrameData w data =
     (case tryRead w data (m_payloadLen w) of
        Inl e \<Rightarrow> Inl e
      | Inr (readLen, w) \<Rightarrow>
          if readLen = 0 then Inr (0, w)
          else Inr (readLen,
                 w\<lparr>m_cache := (if isMaskFrame w then masked (m_maskingKey w) (m_cache w) else m_cache w),
                   m_status := FrameFinal\<rparr>))"

section \<open>Messages\<close>

definition handleMessage :: "byte list \<Rightarrow> ws \<Rightarrow> byte \<Rightarrow> byte list \<Rightarrow> int \<times> ws_action list" where
  "handleMessage key w opcode data =
     (if opcode = 0x1 \<or> opcode = 0x2 then (0, [Event Ws_MessageEvent data])
      else if opcode = 0x8 then (0, [Event Ws_CloseEvent [], Conn_shutDown 500])
      else if opcode = 0x9 then (0, sendFrame key w True 0xA data)
      else if opcode = 0xA then (0, [Event Ws_PongEvent data])
      else (- 1, []))"

text \<open>The frame becomes a message, a part of one, or an error (\<open>None\<close>).\<close>

definition assemble :: "ws \<Rightarrow> (ws \<times> byte \<times> byte list) option" where
  "assemble w =
     (if isControlFrame w
      then if \<not> isFinalFrame w then None else Some (w, m_opcode w, m_cache w)
      else if m_opcode w = 0
      then if m_appData w = [] then None
           else (let w = w\<lparr>m_appData := m_appData w @ m_cache w\<rparr>
                 in if isFinalFrame w then Some (w\<lparr>m_appData := []\<rparr>, m_lastOpcode w, m_appData w)
                    else Some (w, m_opcode w, m_cache w))
      else if m_appData w \<noteq> [] then None
      else if isFinalFrame w then Some (w, m_opcode w, m_cache w)
      else Some (w\<lparr>m_lastOpcode := m_opcode w, m_appData := m_cache w\<rparr>, m_opcode w, m_cache w))"

definition handleFrameData :: "byte list \<Rightarrow> ws \<Rightarrow> int \<times> ws \<times> ws_action list" where
  "handleFrameData key w =
     (case assemble w of
        None \<Rightarrow> (- 1, w, [])
      | Some (w, opcode, data) \<Rightarrow>
          (let w = w\<lparr>m_cache := []\<rparr>
           in if isFinalFrame w
              then (case handleMessage key w opcode data of
                      (r, acts) \<Rightarrow> if r < 0 then (- 1, w, acts) else (0, w\<lparr>m_status := FrameStart\<rparr>, acts))
              else (0, w\<lparr>m_status := FrameStart\<rparr>, [])))"

section \<open>The reading loop\<close>

text \<open>
  One pass of the loop on the data not read yet: the result, how much was read, the new state. The first
  case of the switch has no \<open>break\<close>, so the second one follows it, whatever the first returned.
\<close>

definition advance :: "ws_fault + (int \<times> ws) \<Rightarrow> ws_fault + (int \<times> nat \<times> ws \<times> ws_action list)" where
  "advance r = (case r of Inl e \<Rightarrow> Inl e
     | Inr (ret, w) \<Rightarrow> Inr (ret, (if ret > 0 then nat ret else 0), w, []))"

definition read_step ::
    "byte list \<Rightarrow> (nat \<Rightarrow> bool) \<Rightarrow> nat \<Rightarrow> ws \<Rightarrow> byte list \<Rightarrow>
     ws_fault + (int \<times> nat \<times> ws \<times> ws_action list) option" where
  "read_step key reserve limit w data =
     (case m_status w of
        FrameStart \<Rightarrow>
          (case advance (onFrameStart w data) of
             Inl e \<Rightarrow> Inl e
           | Inr (_, n, w, _) \<Rightarrow>
               (case advance (onFramePayloadLen reserve w (drop n data)) of
                  Inl e \<Rightarrow> Inl e
                | Inr (ret, n', w, acts) \<Rightarrow> Inr (Some (ret, n + n', w, acts))))
      | FramePayloadLen \<Rightarrow> map_sum id Some (advance (onFramePayloadLen reserve w data))
      | FramePayloadLen16 \<Rightarrow> map_sum id Some (advance (onFramePayloadLen16 reserve limit w data))
      | FramePayloadLen64 \<Rightarrow> map_sum id Some (advance (onFramePayloadLen64 reserve limit w data))
      | FrameMaskingKey \<Rightarrow> map_sum id Some (advance (onFrameMaskingKey w data))
      | FrameData \<Rightarrow> map_sum id Some (advance (onFrameData w data))
      | FrameFinal \<Rightarrow>
          (case handleFrameData key w of
             (ret, w, acts) \<Rightarrow> Inr (Some (ret, (if ret > 0 then nat ret else 0), w, acts)))
      | FrameError \<Rightarrow> Inr None)"


text \<open>Every pass that lets the loop go on takes at least one byte.\<close>

lemma onFramePayloadLen_result:
  "onFramePayloadLen reserve w data = Inr (ret, w') \<Longrightarrow> ret = 1 \<or> ret = - 1"
  by (auto simp: onFramePayloadLen_def Let_def split: list.splits if_splits sum.splits)

lemma handleFrameData_result: "handleFrameData key w = (ret, w', acts) \<Longrightarrow> ret = 0 \<or> ret = - 1"
  by (auto simp: handleFrameData_def Let_def split: option.splits prod.splits if_splits)

lemma read_step_progress:
  assumes "read_step key reserve limit w data = Inr (Some (ret, n, w', acts))" and "0 < ret"
  shows "0 < n"
  using assms
  by (auto simp: read_step_def advance_def map_sum_def
      dest: onFramePayloadLen_result handleFrameData_result
      split: frame_status.splits sum.splits prod.splits if_splits)

function read_loop ::
    "byte list \<Rightarrow> (nat \<Rightarrow> bool) \<Rightarrow> nat \<Rightarrow> ws \<Rightarrow> byte list \<Rightarrow> int \<Rightarrow> ws_action list \<Rightarrow>
     ws_fault + (int \<times> ws \<times> ws_action list) option" where
  "read_loop key reserve limit w data ret acts =
     (if data \<noteq> [] \<and> ret > 0
      then (case read_step key reserve limit w data of
              Inl e \<Rightarrow> Inl e
            | Inr None \<Rightarrow> Inr None
            | Inr (Some (ret, n, w, acts')) \<Rightarrow>
                read_loop key reserve limit w (drop n data) ret (acts @ acts'))
      else Inr (Some (ret, w, acts)))"
  by pat_completeness auto
termination
  by (relation "measure (\<lambda>(key, reserve, limit, w, data, ret, acts). if ret > 0 then length data + 1 else 0)")
    (auto dest: read_step_progress)

declare read_loop.simps [simp del]

definition onRead ::
    "byte list \<Rightarrow> (nat \<Rightarrow> bool) \<Rightarrow> nat \<Rightarrow> ws \<Rightarrow> byte list \<Rightarrow> ws_fault + (int \<times> ws \<times> ws_action list)" where
  "onRead key reserve limit w data =
     (case read_loop key reserve limit w data 1 [] of
        Inl e \<Rightarrow> Inl e
      | Inr None \<Rightarrow> Inr (- 1, w, [])
      | Inr (Some (ret, w, acts)) \<Rightarrow>
          (let (ret, w, acts) =
                 (if ret > 0 \<and> m_status w = FrameFinal
                  then (case handleFrameData key w of (ret, w, acts') \<Rightarrow> (ret, w, acts @ acts'))
                  else (ret, w, acts))
           in if ret < 0
              then Inr (ret, w\<lparr>m_status := FrameError\<rparr>, acts @ [Event Ws_ErrorEvent [], Conn_shutDown 0])
              else Inr (ret, w, acts)))"

datatype conn_event = Conn_ReadEvent "byte list" | Conn_WriteCompleteEvent | Conn_OtherEvent

definition onConnEvent ::
    "byte list \<Rightarrow> (nat \<Rightarrow> bool) \<Rightarrow> nat \<Rightarrow> ws \<Rightarrow> conn_event \<Rightarrow> ws_fault + (ws \<times> ws_action list)" where
  "onConnEvent key reserve limit w event =
     (case event of
        Conn_ReadEvent data \<Rightarrow>
          (case onRead key reserve limit w data of Inl e \<Rightarrow> Inl e | Inr (_, w, acts) \<Rightarrow> Inr (w, acts))
      | Conn_WriteCompleteEvent \<Rightarrow>
          Inr (w\<lparr>m_sendCallback := None\<rparr>,
               (case m_sendCallback w of None \<Rightarrow> [] | Some cb \<Rightarrow> [Run_sendCallback cb]))
      | Conn_OtherEvent \<Rightarrow> Inr (w, []))"

end
