(* ===== verification/HttpServer.thy ===== *)
theory HttpServer
  imports WsHandshake WsConnection
begin

text \<open>
  The server side of HTTP, \<open>httpconnection.cpp\<close>, \<open>httpserver.cpp\<close> and \<open>httphandler.cpp\<close> of \<open>src/src/http\<close>: a connection
  that parses requests, and a server that gives them to the callbacks of their paths. A callback of the
  application is a function from the request to what it sends. What happens on the connection below is a list
  of actions.
\<close>

section \<open>State\<close>

datatype http_send = Reply http_response | Reply_then http_response nat

record http_server =
  m_httpCallbacks :: "string \<Rightarrow> (http_request \<Rightarrow> http_send list) option"
  m_wsCallbacks :: "string \<Rightarrow> bool"
  m_authCallbacks :: "string \<Rightarrow> (http_request \<Rightarrow> http_error) option"

text \<open>Memory that is not initialised, the JSON library, what the memory of WebSocket messages allows, whether the
  connection below still exists, and the limits.\<close>

record surroundings =
  url_memory :: http_parser_url
  json_parser :: "string \<Rightarrow> json option"
  digest_memory :: digest_context
  ws_status :: frame_status
  ws_key :: "byte list"
  ws_reserve :: "nat \<Rightarrow> bool"
  ws_limit :: nat
  conn_alive :: bool
  ms_maxHeaderSize :: nat
  ms_maxBodySize :: nat

datatype conn_act = Act_send string | Act_shutDown nat | Act_idle nat | Act_sent nat | Act_ws ws_action

text \<open>\<open>crashed\<close> is the fault that ended the program; nothing happens after it.\<close>

record http_conn =
  m_request :: http_request
  sendCallback :: "nat option"
  acts :: "conn_act list"
  crashed :: "(http_fault + ws_fault) option"
  upgraded :: "ws option"

definition new_http_conn :: "nat \<Rightarrow> http_conn" where
  "new_http_conn garbage = \<lparr>m_request = new_request garbage, sendCallback = None, acts = [], crashed = None, upgraded = None\<rparr>"

definition act :: "conn_act list \<Rightarrow> http_conn \<Rightarrow> http_conn" where
  "act as c = c\<lparr>acts := acts c @ as\<rparr>"

definition alive_step :: "(http_conn \<Rightarrow> http_conn) \<Rightarrow> http_conn \<Rightarrow> http_conn" where
  "alive_step f c = (if crashed c \<noteq> None then c else f c)"

definition on_request :: "(http_request \<Rightarrow> http_fault + http_request) \<Rightarrow> http_conn \<Rightarrow> http_conn" where
  "on_request f c =
     (case f (m_request c) of Inl e \<Rightarrow> c\<lparr>crashed := Some (Inl e)\<rparr> | Inr r \<Rightarrow> c\<lparr>m_request := r\<rparr>)"

section \<open>Sending\<close>

text \<open>A connection that is not kept alive is shut down right after the text was given to it.\<close>

definition http_conn_shutDown :: "surroundings \<Rightarrow> nat \<Rightarrow> http_conn \<Rightarrow> http_conn" where
  "http_conn_shutDown env after c = (if conn_alive env then act [Act_shutDown after] c else c)"

definition http_conn_send :: "surroundings \<Rightarrow> http_response \<Rightarrow> http_conn \<Rightarrow> http_conn" where
  "http_conn_send env resp c =
     (if \<not> conn_alive env then c
      else case response_dump resp of
        Inl e \<Rightarrow> c\<lparr>crashed := Some (Inl e)\<rparr>
      | Inr t \<Rightarrow> act (Act_send t # (if keepAlive (m_request c) \<le> 0 then [Act_shutDown 0] else [])) c)"

definition http_conn_send_notify :: "surroundings \<Rightarrow> http_response \<Rightarrow> nat \<Rightarrow> http_conn \<Rightarrow> http_conn" where
  "http_conn_send_notify env resp cb c = http_conn_send env resp (c\<lparr>sendCallback := Some cb\<rparr>)"

fun do_send :: "surroundings \<Rightarrow> http_send \<Rightarrow> http_conn \<Rightarrow> http_conn" where
  "do_send env (Reply resp) c = alive_step (http_conn_send env resp) c"
| "do_send env (Reply_then resp cb) c = alive_step (http_conn_send_notify env resp cb) c"

section \<open>The server\<close>

definition new_server :: http_server where
  "new_server = \<lparr>m_httpCallbacks = Map.empty, m_wsCallbacks = (\<lambda>_. False), m_authCallbacks = Map.empty\<rparr>"

definition setHttpCallback :: "string \<Rightarrow> (http_request \<Rightarrow> http_send list) \<Rightarrow> http_server \<Rightarrow> http_server" where
  "setHttpCallback path cb s = s\<lparr>m_httpCallbacks := (m_httpCallbacks s)(path \<mapsto> cb)\<rparr>"

definition setWsCallback :: "string \<Rightarrow> http_server \<Rightarrow> http_server" where
  "setWsCallback path s = s\<lparr>m_wsCallbacks := (m_wsCallbacks s)(path := True)\<rparr>"

definition setAuthCallback :: "string \<Rightarrow> (http_request \<Rightarrow> http_error) \<Rightarrow> http_server \<Rightarrow> http_server" where
  "setAuthCallback path auth s = s\<lparr>m_authCallbacks := (m_authCallbacks s)(path \<mapsto> auth)\<rparr>"

definition setHttpCallback_auth ::
  "string \<Rightarrow> (http_request \<Rightarrow> http_send list) \<Rightarrow> (http_request \<Rightarrow> http_error) \<Rightarrow> http_server \<Rightarrow> http_server" where
  "setHttpCallback_auth path cb auth s = setAuthCallback path auth (setHttpCallback path cb s)"

definition setWsCallback_auth :: "string \<Rightarrow> (http_request \<Rightarrow> http_error) \<Rightarrow> http_server \<Rightarrow> http_server" where
  "setWsCallback_auth path auth s = setAuthCallback path auth (setWsCallback path s)"

definition httpNotFound :: "surroundings \<Rightarrow> http_conn \<Rightarrow> http_conn" where
  "httpNotFound env c = http_conn_send env (new_response 404 [] []) c"

definition server_onError :: "surroundings \<Rightarrow> http_error \<Rightarrow> http_conn \<Rightarrow> http_conn" where
  "server_onError env e c =
     alive_step (http_conn_shutDown env 1000) (http_conn_send env (new_response (statusCode e) [] (message e)) c)"

definition authRequest :: "surroundings \<Rightarrow> http_server \<Rightarrow> http_conn \<Rightarrow> bool \<times> http_conn" where
  "authRequest env s c =
     (case m_authCallbacks s (req_path (m_request c)) of
        None \<Rightarrow> (True, c)
      | Some auth \<Rightarrow>
          let err = auth (m_request c) in
          if statusCode err \<noteq> 200 then (False, server_onError env err c) else (True, c))"

text \<open>A request that is complete.\<close>

definition onRequest_complete :: "surroundings \<Rightarrow> http_server \<Rightarrow> http_conn \<Rightarrow> http_conn" where
  "onRequest_complete env s c =
     (case m_httpCallbacks s (req_path (m_request c)) of
        None \<Rightarrow> httpNotFound env c
      | Some cb \<Rightarrow>
          (let (ok, c') = authRequest env s c in
           if ok then fold (do_send env) (cb (m_request c')) c' else c'))"

text \<open>
  A request for an upgrade, with the bytes behind it. The handshake is answered on the connection below, without
  regard to \<open>keepAlive\<close>; then the new connection gets the bytes.
\<close>

definition onWebsocket :: "surroundings \<Rightarrow> http_server \<Rightarrow> string \<Rightarrow> http_conn \<Rightarrow> http_conn" where
  "onWebsocket env s data c =
     (if \<not> m_wsCallbacks s (req_path (m_request c)) then server_onError env (http_err 404 []) c
      else
        let (ok, c) = authRequest env s c in
        if \<not> ok \<or> \<not> conn_alive env then c
        else
          let (error, resp) = handshake (digest_memory env) (m_request c) (new_response 200 [] []) in
          if statusCode error \<noteq> 200 then server_onError env error c
          else (case response_dump resp of
              Inl e \<Rightarrow> c\<lparr>crashed := Some (Inl e)\<rparr>
            | Inr t \<Rightarrow>
                let (w, as) = onOpen (new_ws (ws_status env) (ws_key env));
                    c = act (Act_send t # map Act_ws as) c
                in (case onRead (ws_key env) (ws_reserve env) (ws_limit env) w (bytes_of data) of
                    Inl e \<Rightarrow> c\<lparr>crashed := Some (Inr e)\<rparr>
                  | Inr (_, w, as) \<Rightarrow> (act (map Act_ws as) c)\<lparr>upgraded := Some w\<rparr>)))"

section \<open>The connection as a parser\<close>

abbreviation on_sub :: "(http_conn \<Rightarrow> http_conn) \<Rightarrow> http_conn parser_obj \<Rightarrow> int \<times> http_conn parser_obj" where
  "on_sub f h \<equiv> (0, h\<lparr>sub := alive_step f (sub h)\<rparr>)"

definition http_onMessageBegin :: "http_parser \<Rightarrow> http_conn parser_obj \<Rightarrow> int \<times> http_conn parser_obj" where
  "http_onMessageBegin p h = on_sub (\<lambda>c. c\<lparr>m_request := clear_request (m_request c)\<rparr>) h"

definition http_onUrl :: "http_parser \<Rightarrow> string \<Rightarrow> http_conn parser_obj \<Rightarrow> int \<times> http_conn parser_obj" where
  "http_onUrl p url h =
     on_sub (\<lambda>c. c\<lparr>m_request := (m_request c)\<lparr>req_url := req_url (m_request c) @ url\<rparr>\<rparr>) h"

definition http_onHeader ::
  "surroundings \<Rightarrow> http_parser \<Rightarrow> string \<Rightarrow> string \<Rightarrow> http_conn parser_obj \<Rightarrow> int \<times> http_conn parser_obj" where
  "http_onHeader env p field val h =
     (if unat (nread p) \<ge> ms_maxHeaderSize env then (- 1, h\<lparr>errorCode := 413\<rparr>)
      else on_sub (\<lambda>c. c\<lparr>m_request := (m_request c)
        \<lparr>req_headers := insert_header field val (req_headers (m_request c))\<rparr>\<rparr>) h)"

definition http_onBody ::
  "surroundings \<Rightarrow> http_parser \<Rightarrow> string \<Rightarrow> http_conn parser_obj \<Rightarrow> int \<times> http_conn parser_obj" where
  "http_onBody env p at h =
     (if length (req_body (m_request (sub h))) + length at > ms_maxBodySize env then (- 1, h\<lparr>errorCode := 413\<rparr>)
      else on_sub (\<lambda>c. c\<lparr>m_request := (m_request c)\<lparr>req_body := req_body (m_request c) @ at\<rparr>\<rparr>) h)"

definition http_onHeadersComplete ::
  "surroundings \<Rightarrow> http_parser \<Rightarrow> http_conn parser_obj \<Rightarrow> int \<times> http_conn parser_obj" where
  "http_onHeadersComplete env p h =
     on_sub (\<lambda>c. on_request (parseUrl (url_memory env))
       (c\<lparr>m_request := (m_request c)
         \<lparr>majorVersion := unat (http_major p), minorVersion := unat (http_minor p), req_method := pmethod p\<rparr>\<rparr>)) h"

definition http_onMessageComplete ::
  "surroundings \<Rightarrow> http_server \<Rightarrow> http_parser \<Rightarrow> http_conn parser_obj \<Rightarrow> int \<times> http_conn parser_obj" where
  "http_onMessageComplete env s p h =
     on_sub (\<lambda>c. alive_step
       (\<lambda>c. let c = (if keepAlive (m_request c) > 0 \<and> conn_alive env
              then act [Act_idle (nat (keepAlive (m_request c)))] c else c)
            in if \<not> upgrade p then onRequest_complete env s c else c)
       (on_request (parseBody (json_parser env)) c)) h"

definition http_onUpgrade ::
  "surroundings \<Rightarrow> http_server \<Rightarrow> http_parser \<Rightarrow> string \<Rightarrow> http_conn parser_obj \<Rightarrow> int \<times> http_conn parser_obj" where
  "http_onUpgrade env s p data h = on_sub (onWebsocket env s data) h"

definition http_onError ::
  "surroundings \<Rightarrow> http_parser \<Rightarrow> http_error \<Rightarrow> http_conn parser_obj \<Rightarrow> int \<times> http_conn parser_obj" where
  "http_onError env p e h = on_sub (server_onError env e) h"

definition server_hooks :: "surroundings \<Rightarrow> http_server \<Rightarrow> http_conn hooks" where
  "server_hooks env s =
     \<lparr>onMessageBegin = http_onMessageBegin, onUrl = http_onUrl, onHeader = http_onHeader env,
      onHeadersComplete = http_onHeadersComplete env, onBody = http_onBody env,
      onMessageComplete = http_onMessageComplete env s, onUpgrade = http_onUpgrade env s,
      onError = http_onError env\<rparr>"

datatype http_event = Read_event string | Write_complete | Other_event

text \<open>The events of the connection below; the callback of a complete write is called once.\<close>

definition http_onConnEvent ::
  "surroundings \<Rightarrow> http_server \<Rightarrow> http_event \<Rightarrow> http_parser \<Rightarrow> http_conn parser_obj \<Rightarrow>
   (http_parser \<times> http_conn parser_obj) option" where
  "http_onConnEvent env s ev p h =
     (case ev of
        Read_event buf \<Rightarrow> map_option snd (execute (server_hooks env s) p h buf)
      | Write_complete \<Rightarrow>
          (case sendCallback (sub h) of
             None \<Rightarrow> Some (p, h)
           | Some cb \<Rightarrow> Some (p, h\<lparr>sub := (act [Act_sent cb] (sub h))\<lparr>sendCallback := None\<rparr>\<rparr>))
      | Other_event \<Rightarrow> Some (p, h))"

section \<open>Registered handlers\<close>

text \<open>The path of a registration: without quotation marks around it and with a slash before it.\<close>

definition hdl_path :: "string \<Rightarrow> string option" where
  "hdl_path key =
     (let path = c_str key in
      if path = [] then None
      else
        let path = (if hd path = DQUOTE then tl path else path);
            path = (if path \<noteq> [] \<and> last path = DQUOTE then butlast path else path)
        in Some (if path \<noteq> [] \<and> hd path = CHR ''/'' then path else CHR ''/'' # path))"

text \<open>Of two registrations for a path the first one stays.\<close>

definition hdl_reg :: "string \<Rightarrow> 'h \<Rightarrow> (string \<times> 'h) list \<Rightarrow> (string \<times> 'h) list" where
  "hdl_reg key fn funcs =
     (case hdl_path key of
        None \<Rightarrow> funcs
      | Some path \<Rightarrow> (case map_of funcs path of None \<Rightarrow> (path, fn) # funcs | Some _ \<Rightarrow> funcs))"

definition registHandl :: "(string \<times> (http_request \<Rightarrow> http_send list)) list \<Rightarrow> http_server \<Rightarrow> http_server" where
  "registHandl funcs s = fold (\<lambda>(path, cb) s. setHttpCallback path cb s) funcs s"

end
