(* ===== verification/HttpClient.thy ===== *)
theory HttpClient
  imports WsHandshake WsConnection
begin

text \<open>
  The client side: the pool of connections of \<open>src/src/http/httpclient.cpp\<close>, by the address of the server, and
  the handshake of \<open>wsclient.cpp\<close>. Connections are numbers; \<open>usable\<close> tells which of them still have a connection
  below. An action names its connection.
\<close>

record http_client =
  c_conns :: "(nat \<times> nat) list"
  c_maxClients :: nat

datatype 'f http_client_action =
    Http_clear nat | Http_shutDown nat | Http_callback nat 'f | Http_send_text nat string
  | Http_connect nat string nat string | Http_user 'f

text \<open>
  Giving back a connection; \<open>remote\<close> is the address of its peer, if the system knows it. The pool is ordered by
  the address, a new connection comes behind those of the same one.
\<close>

definition http_pushConn :: "bool \<Rightarrow> nat option \<Rightarrow> nat \<Rightarrow> http_client \<Rightarrow> 'f http_client_action list \<times> http_client" where
  "http_pushConn locked remote i cl =
     (if \<not> locked then ([Http_clear i], cl)
      else if length (c_conns cl) \<ge> c_maxClients cl then ([Http_clear i, Http_shutDown i], cl)
      else case remote of
        None \<Rightarrow> ([Http_clear i, Http_shutDown i], cl)
      | Some ip \<Rightarrow>
          ([Http_clear i], cl\<lparr>c_conns := takeWhile (\<lambda>e. fst e \<le> ip) (c_conns cl) @ (ip, i) #
             dropWhile (\<lambda>e. fst e \<le> ip) (c_conns cl)\<rparr>))"

text \<open>The first connection to the address that can be used; those before it are dropped.\<close>

fun pop_ip :: "(nat \<Rightarrow> bool) \<Rightarrow> nat \<Rightarrow> (nat \<times> nat) list \<Rightarrow> nat option \<times> (nat \<times> nat) list" where
  "pop_ip usable ip [] = (None, [])"
| "pop_ip usable ip ((a, i) # es) =
     (if a = ip then (if usable i then (Some i, es) else pop_ip usable ip es)
      else (let (c, es) = pop_ip usable ip es in (c, (a, i) # es)))"

definition http_popConn :: "(nat \<Rightarrow> bool) \<Rightarrow> nat \<Rightarrow> http_client \<Rightarrow> nat option \<times> http_client" where
  "http_popConn usable ip cl = (let (c, es) = pop_ip usable ip (c_conns cl) in (c, cl\<lparr>c_conns := es\<rparr>))"

definition http_onResponse ::
  "bool \<Rightarrow> nat option \<Rightarrow> nat \<Rightarrow> response_event \<Rightarrow> 'f \<Rightarrow> http_client \<Rightarrow> 'f http_client_action list \<times> http_client" where
  "http_onResponse locked remote i ev cb cl =
     (let (as, cl) = (if ev = Response_Complete then http_pushConn locked remote i cl else ([], cl))
      in (as @ [Http_user cb], cl))"

text \<open>\<open>resolve\<close> gives the address of a host; \<open>fresh\<close> is the connection that is made when there is none.\<close>

definition http_client_request ::
  "http_parser_url \<Rightarrow> (string \<Rightarrow> nat) \<Rightarrow> (nat \<Rightarrow> bool) \<Rightarrow> nat \<Rightarrow> http_request \<Rightarrow> 'f \<Rightarrow> http_client \<Rightarrow>
   http_fault + 'f http_client_action list \<times> http_client" where
  "http_client_request u0 resolve usable fresh r cb cl =
     (case parseUrl u0 r of
        Inl e \<Rightarrow> Inl e
      | Inr r \<Rightarrow>
          let (c, cl) = http_popConn usable (resolve (req_host r)) cl in
          (case request_dump u0 r of
             Inl e \<Rightarrow> Inl e
           | Inr (text, _) \<Rightarrow>
               Inr (case c of
                   Some i \<Rightarrow> [Http_callback i cb, Http_send_text i text]
                 | None \<Rightarrow> [Http_connect fresh (req_host r) (req_port r) text], cl)))"

definition http_onConnect :: "nat \<Rightarrow> bool \<Rightarrow> string \<Rightarrow> 'f \<Rightarrow> 'f http_client_action list" where
  "http_onConnect i connected text cb = (if \<not> connected then [] else [Http_callback i cb, Http_send_text i text])"

definition http_client_destroy :: "(nat \<Rightarrow> bool) \<Rightarrow> http_client \<Rightarrow> 'f http_client_action list" where
  "http_client_destroy there cl = map (Http_shutDown \<circ> snd) (filter (there \<circ> snd) (c_conns cl))"

section \<open>WebSocket clients\<close>

definition ws_client_connect ::
  "http_parser_url \<Rightarrow> (nat \<Rightarrow> u32) \<Rightarrow> nat \<Rightarrow> http_request \<Rightarrow> http_fault + 'f http_client_action list" where
  "ws_client_connect u0 rnd fresh r =
     (case ws_buildRequest u0 rnd r of
        Inl e \<Rightarrow> Inl e
      | Inr r \<Rightarrow>
          (case parseUrl u0 r of
             Inl e \<Rightarrow> Inl e
           | Inr r \<Rightarrow>
               (case request_dump u0 r of
                  Inl e \<Rightarrow> Inl e
                | Inr (text, _) \<Rightarrow> Inr [Http_connect fresh (req_host r) (req_port r) text])))"

text \<open>The WebSocket connection that an answer makes, if the connection below is still there.\<close>

definition ws_client_onResponse :: "bool \<Rightarrow> frame_status \<Rightarrow> byte list \<Rightarrow> http_response \<Rightarrow> (ws \<times> ws_action list) option" where
  "ws_client_onResponse locked garbage key resp =
     (if \<not> locked then None
      else let w = new_ws garbage key in Some (if status resp \<noteq> 101 then ws_onError w else onOpen w))"

end
