(* ===== verification/HttpRequestFacts.thy ===== *)
theory HttpRequestFacts
  imports HttpServer HttpClient
begin

text \<open>
  Facts about requests and responses: what the functions that read the body may change, the text of keys and
  values, form data, and the lines of a message.
\<close>

section \<open>Only the parameters change\<close>

text \<open>A function on requests that leaves all but the parameters as it is.\<close>

definition params_only :: "http_request \<Rightarrow> http_fault + http_request \<Rightarrow> bool" where
  "params_only r res \<longleftrightarrow> (\<forall>r'. res = Inr r' \<longrightarrow> (\<exists>ps. r' = r\<lparr>params := ps\<rparr>))"

lemma params_onlyI [intro]: "params_only r (Inl e)" "params_only r (Inr r)"
  by (simp_all add: params_only_def) (metis http_request.surjective http_request.update_convs(8))

lemma params_only_then:
  assumes "params_only r res" and "\<And>r'. res = Inr r' \<Longrightarrow> params_only r' (f r')"
  shows "params_only r (case res of Inl e \<Rightarrow> Inl e | Inr r \<Rightarrow> f r)"
  using assms by (auto simp: params_only_def split: sum.split)

lemma add_param_only: "params_only r (add_param k v r)"
  by (auto simp: add_param_def params_only_def split: sum.splits)

lemma add_args_only: "params_only r (add_args as r)"
proof (induction as arbitrary: r)
  case (Cons a as)
  show ?case
    using params_only_then [OF add_param_only Cons.IH] Cons.IH
    by (auto split: list.split)
qed auto

lemma parseKeyVal_only: "params_only r (parseKeyVal s r)"
  by (auto simp: parseKeyVal_def add_args_only)

lemma form_loop_only: "params_only r (form_loop s b i r)"
proof (induction s b i r rule: form_loop.induct)
  case (1 s b i r)
  show ?case
    using 1 add_param_only
    by (subst form_loop.simps)
      (fastforce simp: Let_def split: option.split intro!: params_only_then)
qed

lemma parseFormData_only: "params_only r (parseFormData s b r)"
  by (auto simp: parseFormData_def form_loop_only split: option.split)

lemma json_only:
  "params_only r (addJsonNode key v r)"
  "params_only r (addJsonArray key i vs r)"
  "params_only r (addJsonObject key ms r)"
  by (induction key v r and key i vs r and key ms r rule: addJsonNode_addJsonArray_addJsonObject.induct)
    (auto simp: addJsonMember_def add_param_only Let_def split: option.split intro: params_only_then)

lemma parseContent_only: "params_only r (parseContent json v r)"
  by (auto simp: parseContent_def parseMFormData_def parseJson_def parseFormData_only parseKeyVal_only json_only
      split: prod.split option.split)

lemma parseContents_only: "params_only r (parseContents json vs r)"
  by (induction vs arbitrary: r) (auto intro!: params_only_then parseContent_only)

lemma parseContentType_keeps:
  "parseContentType json r = Inr r' \<Longrightarrow> \<exists>ps. r' = r\<lparr>params := ps\<rparr>"
  using parseContents_only by (auto simp: parseContentType_def params_only_def)

section \<open>Splitting what was joined\<close>

fun join :: "string \<Rightarrow> string list \<Rightarrow> string" where
  "join d [] = []"
| "join d [t] = t"
| "join d (t # ts) = t @ d @ join d ts"

lemma split_from_join:
  assumes "\<forall>t \<in> set ts. t \<noteq> [] \<and> c \<notin> set t" and "length (join [c] ts) + n < p"
  shows "split_from [c] (join [c] ts) p n = ts"
  using assms
proof (induction "[c]" ts arbitrary: n rule: join.induct)
  case 1
  then show ?case by (subst split_from.simps) simp
next
  case (2 t)
  have tw: "takeWhile (\<lambda>x. x \<notin> set [c]) t = t" "dropWhile (\<lambda>x. x \<notin> set [c]) t = []"
    using 2 by (auto simp: takeWhile_eq_all_conv dropWhile_eq_Nil_conv)
  have "n + 1 \<noteq> p" using 2 by (cases t) auto
  then show ?case using 2 by (subst split_from.simps) (simp only: tw Let_def join.simps, simp)
next
  case (3 t u us)
  let ?j = "join [c] (u # us)"
  have j: "join [c] (t # u # us) = t @ c # ?j" by simp
  have tw: "takeWhile (\<lambda>x. x \<notin> set [c]) (t @ c # ?j) = t" "dropWhile (\<lambda>x. x \<notin> set [c]) (t @ c # ?j) = c # ?j"
    using 3(2) by (auto simp: takeWhile_append dropWhile_append takeWhile_eq_all_conv)
  have np: "n + 1 \<noteq> p" and len: "length ?j + (n + 1) < p" using 3(2,3) by (cases t, simp_all)+
  have "split_from [c] ?j p (n + 1) = u # us" using 3(1) 3(2) len by simp
  then show ?case
    unfolding j using 3(2) np by (subst split_from.simps) (simp only: tw Let_def, simp)
qed

lemma split_join:
  assumes "\<forall>t \<in> set ts. t \<noteq> [] \<and> c \<notin> set t" and "length (join [c] ts) < 2 ^ 64 - 1"
  shows "split (join [c] ts) [c] 0 = ts"
  using split_from_join [of ts c 0 "2 ^ 64 - 1"] assms by (simp add: split_def)

section \<open>Keys and values\<close>

text \<open>The text of keys and values.\<close>

definition pair_text :: "string \<times> string \<Rightarrow> string" where
  "pair_text kv = the (escape (fst kv)) @ ''='' @ the (escape (snd kv))"

definition query_text :: "(string \<times> string) list \<Rightarrow> string" where
  "query_text kvs = join ''&'' (map pair_text kvs)"

lemma escape_chars:
  "escape s = Some e \<Longrightarrow> CHR ''&'' \<notin> set e \<and> CHR ''='' \<notin> set e"
proof (induction s arbitrary: e)
  case (Cons c s)
  have digits: "\<forall>n \<in> set [0..<16]. DEC2HEX ! n \<notin> {CHR ''&'', CHR ''=''}" by code_simp
  have "code c < 16 * 16" by simp
  then have d: "code c div 16 \<in> set [0..<16]" "code c mod 16 \<in> set [0..<16]" by (auto intro: less_mult_imp_div_less)
  have safe: "is_safe (CHR ''&'') = Some False" "is_safe (CHR ''='') = Some False" by code_simp+
  obtain r f where r: "is_safe c = Some r" and f: "escape s = Some f"
    using Cons.prems by (auto split: option.splits bool.splits)
  show ?case
    using Cons.prems Cons.IH [OF f] r f safe bspec [OF digits d(1)] bspec [OF digits d(2)]
    by (auto split: bool.splits)
qed simp

lemma add_pair:
  assumes "k \<noteq> []" and "\<forall>c \<in> set (k @ v). code c < (128 :: nat)" and "length (pair_text (k, v)) < 2 ^ 64 - 1"
  shows "add_args (pair_text (k, v) # as) r = add_args as (r\<lparr>params := insert_param k v (params r)\<rparr>)"
proof -
  obtain ek ev where e: "escape k = Some ek" "escape v = Some ev"
    using assms(2) escape_defined [of k] escape_defined [of v] by auto
  note u = unescape_of_escape [OF e(1)] unescape_of_escape [OF e(2)]
  have ek: "ek \<noteq> []" using escape_length [OF e(1)] assms(1) by auto
  have nil: "unescape [] = Some []" by simp
  show ?thesis
  proof (cases "ev = []")
    case True
    have v: "v = []" using u(2) True by simp
    have "split_from ''='' (ek @ ''='') (2 ^ 64 - 1) 0 = [ek]"
    proof -
      have tw: "takeWhile (\<lambda>x. x \<notin> set ''='') (ek @ ''='') = ek" "dropWhile (\<lambda>x. x \<notin> set ''='') (ek @ ''='') = ''=''"
        using escape_chars [OF e(1)] by (auto simp: takeWhile_append dropWhile_append takeWhile_eq_all_conv)
      have "split_from ''='' [] p n = []" for p n by (subst split_from.simps) simp
      then show ?thesis using ek by (subst split_from.simps) (simp only: tw Let_def, simp)
    qed
    then have "split (pair_text (k, v)) ''='' 0 = [ek]" using True e by (simp add: pair_text_def split_def)
    then show ?thesis using u nil v True by (simp add: add_param_def unescaped_def)
  next
    case False
    have "split (join ''='' [ek, ev]) ''='' 0 = [ek, ev]"
      using escape_chars [OF e(1)] escape_chars [OF e(2)] ek False assms(3) e
      by (intro split_join) (auto simp: pair_text_def)
    moreover have "pair_text (k, v) = join ''='' [ek, ev]" using e by (simp add: pair_text_def)
    ultimately show ?thesis using u by (simp add: add_param_def unescaped_def)
  qed
qed

lemma add_pairs:
  assumes "\<forall>(k, v) \<in> set kvs. k \<noteq> [] \<and> (\<forall>c \<in> set (k @ v). code c < (128 :: nat)) \<and> length (pair_text (k, v)) < 2 ^ 64 - 1"
  shows "add_args (map pair_text kvs) r = Inr (r\<lparr>params := fold (\<lambda>(k, v). insert_param k v) kvs (params r)\<rparr>)"
  using assms
proof (induction kvs arbitrary: r)
  case (Cons kv kvs)
  obtain k v where kv: "kv = (k, v)" by (cases kv)
  then have "add_args (map pair_text (kv # kvs)) r = add_args (map pair_text kvs) (r\<lparr>params := insert_param k v (params r)\<rparr>)"
    using add_pair [of k v "map pair_text kvs" r] Cons.prems by (simp del: add_args.simps)
  also have "\<dots> = Inr (r\<lparr>params := fold (\<lambda>(k, v). insert_param k v) kvs (insert_param k v (params r))\<rparr>)"
    using Cons.IH Cons.prems by simp
  finally show ?case by (simp add: kv)
qed simp

lemma pair_in_query: "kv \<in> set kvs \<Longrightarrow> length (pair_text kv) \<le> length (query_text kvs)"
  unfolding query_text_def
proof (induction kvs)
  case (Cons a kvs)
  then show ?case by (cases kvs) auto
qed simp

lemma query_pairs:
  assumes "\<forall>(k, v) \<in> set kvs. k \<noteq> [] \<and> (\<forall>c \<in> set (k @ v). code c < (128 :: nat))" and "length (query_text kvs) < 2 ^ 64 - 1"
  shows "parseKeyVal (query_text kvs) r = Inr (r\<lparr>params := fold (\<lambda>(k, v). insert_param k v) kvs (params r)\<rparr>)"
proof (cases "kvs = []")
  case True
  then show ?thesis by (simp add: query_text_def parseKeyVal_def)
next
  case False
  have amp: "CHR ''&'' \<notin> set (pair_text (k, v))" "pair_text (k, v) \<noteq> []" if "(k, v) \<in> set kvs" for k v
  proof -
    have "\<forall>c \<in> set (k @ v). code c < (128 :: nat)" using bspec [OF assms(1) that] by simp
    then have "escape k \<noteq> None" "escape v \<noteq> None" unfolding escape_defined by simp_all
    then obtain ek ev where e: "escape k = Some ek" "escape v = Some ev" by blast
    show "CHR ''&'' \<notin> set (pair_text (k, v))" "pair_text (k, v) \<noteq> []"
      using escape_chars [OF e(1)] escape_chars [OF e(2)] e by (simp_all add: pair_text_def)
  qed
  then have "split (query_text kvs) ''&'' 0 = map pair_text kvs"
    unfolding query_text_def using assms(2) by (intro split_join) (auto simp: query_text_def)
  moreover have "query_text kvs \<noteq> []"
    using False amp(2) by (cases kvs rule: remdups_adj.cases) (auto simp: query_text_def)
  moreover have "\<forall>kv \<in> set kvs. length (pair_text kv) < 2 ^ 64 - 1"
    using pair_in_query assms(2) by (meson le_less_trans)
  then have "\<forall>(k, v) \<in> set kvs. k \<noteq> [] \<and> (\<forall>c \<in> set (k @ v). code c < (128 :: nat)) \<and> length (pair_text (k, v)) < 2 ^ 64 - 1"
    using assms(1) by (simp add: case_prod_beta)
  ultimately show ?thesis using add_pairs [of kvs r] by (simp add: parseKeyVal_def)
qed

section \<open>The lines of a message\<close>

lemma printed_short: "length s < 1024 \<Longrightarrow> printed s = Inr s"
  by (simp add: printed_def)

lemma print_all_short: "\<forall>l \<in> set ls. length l < 1024 \<Longrightarrow> print_all ls = Inr (concat ls)"
  by (induction ls) (simp_all add: printed_short)

lemma print_all_long: "l \<in> set ls \<Longrightarrow> length l > 1024 \<Longrightarrow> print_all ls = Inl Behind_buffer"
proof (induction ls)
  case (Cons a ls)
  show ?case
  proof (cases "length a > 1024")
    case False
    then have "l \<in> set ls" using Cons.prems by auto
    then show ?thesis using Cons.IH [OF _ Cons.prems(2)] by (simp add: printed_def)
  qed (simp add: printed_def)
qed simp

section \<open>Keeping a connection alive\<close>

lemma stoi_keep_alive: "stoi ''keep-alive'' = Inl Invalid_argument"
  by code_simp

lemma parseHost_keeps: "\<exists>h. parseHost r = r\<lparr>req_host := h\<rparr>"
  unfolding parseHost_def by (auto split: option.split) (metis http_request.surjective http_request.update_convs(4))

lemma parseBody_keep_alive:
  assumes "find_header ''Connection'' (req_headers r) = Some ''keep-alive''" and "find_header ''Keep-Alive'' (req_headers r) = Some v"
  shows "\<exists>e. parseBody json r = Inl e"
    and "(\<forall>h \<in> set (req_headers r). \<not> same_key ''Content-Type'' (fst h)) \<Longrightarrow> parseBody json r = Inl Invalid_argument"
proof -
  obtain h where h: "parseHost r = r\<lparr>req_host := h\<rparr>" using parseHost_keeps by blast
  show "\<exists>e. parseBody json r = Inl e"
  proof (cases "parseContentType json (parseHost r)")
    case (Inr r')
    then obtain ps where "r' = r\<lparr>req_host := h, params := ps\<rparr>" using parseContentType_keeps [OF Inr] h by auto
    then show ?thesis using assms Inr by (simp add: parseBody_def parseKeepAlive_def stoi_keep_alive)
  qed (simp add: parseBody_def)
  assume "\<forall>h \<in> set (req_headers r). \<not> same_key ''Content-Type'' (fst h)"
  then have "filter (\<lambda>h. same_key ''Content-Type'' (fst h)) (req_headers r) = []" by (simp add: filter_empty_conv)
  then show "parseBody json r = Inl Invalid_argument"
    using assms by (simp add: parseBody_def parseContentType_def h parseKeepAlive_def stoi_keep_alive)
qed

section \<open>Form data\<close>

lemma c_str_append: "NUL \<notin> set a \<Longrightarrow> c_str (a @ b) = a @ c_str b"
  by (induction a) (auto simp: c_str_def)

lemma c_str_id: "NUL \<notin> set a \<Longrightarrow> c_str (a @ [NUL]) = a"
  by (simp add: c_str_append) (simp add: c_str_def)

lemma back_over_run:
  assumes "lo \<le> e" and "\<And>i. 0 < i \<Longrightarrow> i \<le> n \<Longrightarrow> t ! (e + i) = CHR ''-'' \<or> newline (t ! (e + i))"
    and "\<not> (t ! e = CHR ''-'' \<or> newline (t ! e))"
  shows "back_over t lo (e + n) = e"
  using assms(2)
proof (induction n)
  case 0
  show ?case using assms(3) by (cases e) auto
next
  case (Suc n)
  have "t ! Suc (e + n) = CHR ''-'' \<or> newline (t ! Suc (e + n))" using Suc.prems [of "Suc n"] by simp
  then show ?case using Suc assms(1) by simp
qed

text \<open>
  A form with one more key: the text up to the key's quotation mark, the key, an empty line, the value, and the line with
  two hyphens and the boundary.
\<close>

definition form_text :: "string \<Rightarrow> string \<Rightarrow> string \<Rightarrow> string \<Rightarrow> string \<Rightarrow> string" where
  "form_text pre k v b rest =
     pre @ ''name='' @ [DQUOTE] @ k @ [DQUOTE, CR, LF, CR, LF] @ v @ [CR, LF] @ ''--'' @ b @ rest"

lemma form_value:
  assumes "find_prefix (form_text pre k (w @ [c]) b rest) ''name='' = Some (length pre)"
    and "NUL \<notin> set (form_text pre k (w @ [c]) b rest)" and "DQUOTE \<notin> set k" and "\<not> newline (hd (w @ [c]))"
    and "c \<noteq> CHR ''-''" and "\<not> newline c" and "b \<noteq> []" and "hd b = CHR ''-''"
    and "find_prefix ((w @ [c]) @ [CR, LF] @ ''--'' @ b @ rest) b = Some (length w + 5)"
    and "find_prefix (c # [CR, LF] @ ''--'' @ b @ rest) ''name='' = None"
  shows "parseFormData (form_text pre k (w @ [c]) b rest) b r = add_param k w r"
proof -
  define str where "str = form_text pre k (w @ [c]) b rest"
  define t where "t = str @ [NUL]"
  define tail where "tail = (w @ [c]) @ [CR, LF] @ ''--'' @ b @ rest"
  define kp where "kp = length pre + 6"
  define p where "p = kp + length k"
  define ptr where "ptr = p + 5"
  define e where "e = ptr + length w"
  have nul: "NUL \<notin> set str" "NUL \<notin> set tail" "NUL \<notin> set b" "NUL \<notin> set k"
    using assms(2) by (auto simp: str_def form_text_def tail_def)
  have t: "t = (pre @ ''name='' @ [DQUOTE]) @ k @ DQUOTE # [CR, LF, CR, LF] @ tail @ [NUL]"
    by (simp add: t_def str_def form_text_def tail_def)
  have dk: "drop kp t = k @ DQUOTE # [CR, LF, CR, LF] @ tail @ [NUL]" by (simp add: t kp_def)
  have dp: "drop (p + 1) t = [CR, LF, CR, LF] @ tail @ [NUL]"
    using arg_cong [OF dk, of "drop (length k + 1)"] by (simp add: p_def add.commute)
  have dv: "drop ptr t = tail @ [NUL]"
    using arg_cong [OF dp, of "drop 4"] by (simp add: ptr_def add.commute)
  have de: "drop e t = c # [CR, LF] @ ''--'' @ b @ rest @ [NUL]"
    using arg_cong [OF dv, of "drop (length w)"] by (simp add: e_def tail_def add.commute)
  have start: "find_text t 0 ''name='' = Some (length pre)"
    using assms(1) c_str_id [OF nul(1)] by (simp add: find_text_def t_def str_def)
  have quote: "find_char t kp DQUOTE = Some p"
  proof -
    have "c_str (drop kp t) = k @ DQUOTE # [CR, LF, CR, LF] @ tail"
      using nul c_str_id [of "k @ DQUOTE # [CR, LF, CR, LF] @ tail"] by (simp add: dk)
    moreover have "takeWhile (\<lambda>d. d \<noteq> DQUOTE) (k @ DQUOTE # [CR, LF, CR, LF] @ tail) = k"
      using assms(3) by (auto simp: takeWhile_append takeWhile_eq_all_conv)
    ultimately show ?thesis by (simp add: find_char_def Let_def p_def)
  qed
  have "takeWhile newline (tail @ [NUL]) = []"
    using assms(4) by (cases w) (simp_all add: tail_def)
  then have skip: "length (takeWhile newline (drop (p + 1) t)) = 4" unfolding dp by (simp add: newline_def)
  have found: "find_text t ptr (c_str b) = Some (e + 5)"
  proof -
    have "c_str (drop ptr t) = tail" using c_str_id [OF nul(2)] by (simp add: dv)
    moreover have "c_str b = b" using c_str_append [OF nul(3), of "[]"] by (simp add: c_str_def)
    ultimately show ?thesis using assms(9) by (simp add: find_text_def e_def tail_def)
  qed
  obtain b' where b': "b = CHR ''-'' # b'" using assms(7,8) by (cases b) auto
  have "e \<le> length t" by (simp add: t_def str_def form_text_def e_def ptr_def p_def kp_def)
  then have at: "t ! (e + i) = (c # [CR, LF] @ ''--'' @ b @ rest @ [NUL]) ! i" for i
    using nth_drop [of e t i] de by simp
  have "t ! (e + i) = CHR ''-'' \<or> newline (t ! (e + i))" if "0 < i" "i \<le> 5" for i
  proof -
    have "i = 1 \<or> i = 2 \<or> i = 3 \<or> i = 4 \<or> i = 5" using that by arith
    then show ?thesis unfolding at by (elim disjE) (simp_all add: b' newline_def numeral_eq_Suc)
  qed
  moreover have "\<not> (t ! e = CHR ''-'' \<or> newline (t ! e))" using at [of 0] assms(5,6) by simp
  ultimately have stop: "back_over t ptr (e + 5) = e"
    using back_over_run [of ptr e 5 t] by (simp add: e_def)
  have vend: "value_end str b p ptr = Some e"
    using assms(7) found stop by (simp add: value_end_def t_def [symmetric] Let_def)
  have key: "bytes_at t kp (p - kp) = k" by (simp add: bytes_at_def dk p_def)
  have val: "bytes_at t ptr (e - ptr) = w" by (simp add: bytes_at_def dv e_def tail_def)
  have "c_str (drop e t) = c # [CR, LF] @ ''--'' @ b @ rest"
    using nul(2) c_str_id [of "c # [CR, LF] @ ''--'' @ b @ rest"] by (simp add: de tail_def)
  then have "find_text t e ''name='' = None" using assms(10) by (simp add: find_text_def)
  moreover have ptr: "5 + p = ptr" by (simp add: ptr_def)
  moreover have "\<not> kp > length str" by (simp add: kp_def str_def form_text_def)
  ultimately have "form_loop str b (length pre) r = (case add_param k w r of Inl f \<Rightarrow> Inl f | Inr r \<Rightarrow> Inr r)"
    using quote skip vend key val by (subst form_loop.simps)
      (simp add: t_def [symmetric] kp_def [symmetric] ptr Let_def e_def cong: sum.case_cong)
  then show ?thesis
    using start by (simp add: parseFormData_def str_def [symmetric] t_def [symmetric] split: sum.split)
qed

end
