(* ===== verification/HttpServerProps.thy ===== *)
theory HttpServerProps
  imports HttpRequestFacts
begin

text \<open>
  What the server side of HTTP guarantees: what a request holds at any time, that it does not matter how the
  bytes of a request arrive, which callback answers it, and the text of the answer.
\<close>

section \<open>The request at any time\<close>

text \<open>
  The body is within the limit, the fields are in the order of the map, and the connection is not kept alive: no
  value of the field \<open>Connection\<close> gives a positive number.
\<close>

definition conn_ok :: "surroundings \<Rightarrow> http_conn \<Rightarrow> bool" where
  "conn_ok env c \<longleftrightarrow>
     length (req_body (m_request c)) \<le> ms_maxBodySize env \<and> sorted_headers (req_headers (m_request c)) \<and>
     keepAlive (m_request c) \<le> 0 \<and> (\<forall>a \<in> set (acts c). \<forall>n. a \<noteq> Act_idle n)"

lemma conn_ok_sent [simp]:
  "conn_ok env (c\<lparr>crashed := e\<rparr>) = conn_ok env c" "conn_ok env (c\<lparr>sendCallback := b\<rparr>) = conn_ok env c"
  "conn_ok env (c\<lparr>upgraded := w\<rparr>) = conn_ok env c"
  by (simp_all add: conn_ok_def)












lemma stoi_keepAlive: "parseKeepAlive r = Inr r' \<Longrightarrow> keepAlive r \<le> 0 \<Longrightarrow> keepAlive r' \<le> 0"
  by (auto simp: parseKeepAlive_def stoi_keep_alive split: option.splits if_splits)

lemma parseKeepAlive_keeps:
  "parseKeepAlive r = Inr r' \<Longrightarrow> req_body r' = req_body r \<and> req_headers r' = req_headers r"
  by (auto simp: parseKeepAlive_def split: option.splits if_splits sum.splits)

lemma parseBody_keeps:
  assumes "parseBody json r = Inr r'" and "keepAlive r \<le> 0"
  shows "req_body r' = req_body r \<and> req_headers r' = req_headers r \<and> keepAlive r' \<le> 0"
proof -
  obtain r1 where r1: "parseContentType json (parseHost r) = Inr r1" "parseKeepAlive r1 = Inr r'"
    using assms(1) by (auto simp: parseBody_def split: sum.splits)
  obtain ps h where "r1 = r\<lparr>req_host := h, params := ps\<rparr>"
    using parseContentType_keeps [OF r1(1)] parseHost_keeps [of r] by auto
  then show ?thesis using parseKeepAlive_keeps [OF r1(2)] stoi_keepAlive [OF r1(2)] assms(2) by simp
qed


definition http_server_ok :: "surroundings \<Rightarrow> http_conn parser_obj \<Rightarrow> bool" where
  "http_server_ok env h \<longleftrightarrow> conn_ok env (sub h)"


text \<open>\<open>http_server_ok\<close> looks only at the derived class.\<close>

lemma http_server_ok_frame [simp]:
  "http_server_ok env (h\<lparr>curField := f\<rparr>) = http_server_ok env h"
  "http_server_ok env (h\<lparr>curValue := v\<rparr>) = http_server_ok env h"
  "http_server_ok env (h\<lparr>lastWasValue := l\<rparr>) = http_server_ok env h"
  "http_server_ok env (h\<lparr>errorCode := e\<rparr>) = http_server_ok env h"
  by (simp_all add: http_server_ok_def)

lemma server_hooks_simps [simp]:
  "onMessageBegin (server_hooks env s) = http_onMessageBegin" "onUrl (server_hooks env s) = http_onUrl"
  "onHeader (server_hooks env s) = http_onHeader env" "onBody (server_hooks env s) = http_onBody env"
  "onHeadersComplete (server_hooks env s) = http_onHeadersComplete env"
  "onMessageComplete (server_hooks env s) = http_onMessageComplete env s"
  "onUpgrade (server_hooks env s) = http_onUpgrade env s" "onError (server_hooks env s) = http_onError env"
  by (simp_all add: server_hooks_def)



section \<open>The server takes a request in pieces\<close>




section \<open>The answer to a WebSocket handshake\<close>






section \<open>The lines of an answer\<close>

definition response_lines :: "http_response \<Rightarrow> string list" where
  "response_lines resp =
     status_line (status resp) # map header_line (resp_headers resp) @ [length_line (body resp)]"

lemma dump_short:
  "(\<forall>l \<in> set (response_lines resp). length l < 1024) \<Longrightarrow>
     response_dump resp = Inr (concat (response_lines resp) @ [CR, LF] @ body resp)"
  by (simp only: response_dump_def print_all_short [of "response_lines resp"] response_lines_def [symmetric] sum.case append_assoc)

lemma dump_not_found:
  "response_dump (new_response 404 [] []) =
     Inr (''HTTP/1.1 404 Not Found'' @ [CR, LF] @ ''Content-Length: 0'' @ [CR, LF, CR, LF])"
proof -
  have l: "response_lines (new_response 404 [] []) =
      [''HTTP/1.1 404 Not Found'' @ [CR, LF], ''Content-Length: 0'' @ [CR, LF]]" by code_simp
  have b: "body (new_response 404 [] []) = []" by (simp add: new_response_def)
  show ?thesis using dump_short [of "new_response 404 [] []"] unfolding l b by simp
qed

section \<open>Properties\<close>

text \<open>A server with a callback for one path, on a connection that is there.\<close>

definition example_env :: surroundings where
  "example_env =
     \<lparr>url_memory = \<lparr>field_set = 0, port = 0, field_off = (\<lambda>_. 0), field_len = (\<lambda>_. 0)\<rparr>,
      json_parser = (\<lambda>_. None), digest_memory = used_context, ws_status = FrameStart, ws_key = [0, 0, 0, 0],
      ws_reserve = (\<lambda>_. True), ws_limit = 1000, conn_alive = True, ms_maxHeaderSize = 100, ms_maxBodySize = 20\<rparr>"

definition example_server :: http_server where
  "example_server = setHttpCallback ''/a'' (\<lambda>r. [Reply (new_response 200 [] (req_query r))]) new_server"

definition example_conn :: "http_conn parser_obj" where
  "example_conn = new_parser_obj 0 (new_http_conn 0)"

text \<open>C11: the keys and values of a query come back from its text, whatever ASCII characters they have.\<close>

theorem query_roundtrip:
  assumes "\<forall>(k, v) \<in> set kvs. k \<noteq> [] \<and> (\<forall>c \<in> set (k @ v). code c < (128 :: nat))"
    and "req_query r = query_text kvs" and "length (query_text kvs) < 2 ^ 64 - 1"
  shows "parseQuery r = Inr (r\<lparr>params := fold (\<lambda>(k, v). insert_param k v) kvs (params r)\<rparr>)"
  using query_pairs [OF assms(1,3)] assms(2)
  by (cases "kvs = []") (auto simp: parseQuery_def parseKeyVal_def query_text_def)

theorem query_roundtrip_witness:
  "parseQuery ((new_request 0)\<lparr>req_query := query_text [(''b'', ''x&y''), (''a'', [])]\<rparr>) =
     Inr ((new_request 0)\<lparr>req_query := query_text [(''b'', ''x&y''), (''a'', [])], params := [(''a'', []), (''b'', ''x&y'')]\<rparr>)"
proof -
  have "query_text [(''b'', ''x&y''), (''a'', [])] = ''b=x%26y&a=''" by code_simp
  with query_roundtrip [of "[(''b'', ''x&y''), (''a'', [])]"
      "(new_request 0)\<lparr>req_query := query_text [(''b'', ''x&y''), (''a'', [])]\<rparr>"]
  show ?thesis by (simp add: new_request_def insert_param_def)
qed









text \<open>
  C36: a request that asks to keep the connection and has a field \<open>Keep-Alive\<close> ends the program, whatever else it
  holds: the number is read from the field \<open>Connection\<close>, whose text is no number, and nothing catches the exception.
\<close>

theorem keep_alive_crashes:
  assumes "find_header ''Connection'' (req_headers (m_request (sub h))) = Some ''keep-alive''"
    and "find_header ''Keep-Alive'' (req_headers (m_request (sub h))) = Some v" and "crashed (sub h) = None"
  shows "\<exists>e. http_onMessageComplete env s p h = (0, h\<lparr>sub := (sub h)\<lparr>crashed := Some (Inl e)\<rparr>\<rparr>) \<and>
    (count_header ''Content-Type'' (req_headers (m_request (sub h))) = 0 \<longrightarrow> e = Invalid_argument)"
proof -
  have "\<exists>e. parseBody (json_parser env) (m_request (sub h)) = Inl e \<and>
      (count_header ''Content-Type'' (req_headers (m_request (sub h))) = 0 \<longrightarrow> e = Invalid_argument)"
    using parseBody_keep_alive [OF assms(1,2), of "json_parser env"]
    by (auto simp: count_header_def filter_empty_conv)
  then show ?thesis
    using assms(3) by (auto simp: http_onMessageComplete_def alive_step_def on_request_def)
qed

definition keep_alive_conn :: "http_conn parser_obj" where
  "keep_alive_conn =
     new_parser_obj 0 ((new_http_conn 0)\<lparr>m_request :=
       (new_request 0)\<lparr>req_headers := [(''Connection'', ''keep-alive''), (''Keep-Alive'', ''timeout=5'')]\<rparr>\<rparr>)"

theorem keep_alive_crashes_witness:
  "http_onMessageComplete example_env example_server (http_parser_init HTTP_REQUEST) keep_alive_conn =
     (0, keep_alive_conn\<lparr>sub := (sub keep_alive_conn)\<lparr>crashed := Some (Inl Invalid_argument)\<rparr>\<rparr>)"
proof -
  have "find_header ''Connection'' (req_headers (m_request (sub keep_alive_conn))) = Some ''keep-alive''"
    "find_header ''Keep-Alive'' (req_headers (m_request (sub keep_alive_conn))) = Some ''timeout=5''"
    "count_header ''Content-Type'' (req_headers (m_request (sub keep_alive_conn))) = 0"
    by code_simp+
  moreover have "crashed (sub keep_alive_conn) = None"
    by (simp add: keep_alive_conn_def new_parser_obj_def new_http_conn_def)
  ultimately show ?thesis using keep_alive_crashes [of keep_alive_conn "''timeout=5''" example_env example_server "http_parser_init HTTP_REQUEST"] by auto
qed







text \<open>
  C9: a complete request is answered by the callback of its path. Without one the answer is 404; when the callback that
  authorizes the path does not say 200 its code and text are the answer and the callback is not called. A request
  for an upgrade is not answered here.
\<close>

theorem request_answered:
  assumes "parseBody (json_parser env) (m_request (sub h)) = Inr r" and "crashed (sub h) = None"
    and "keepAlive (m_request (sub h)) \<le> 0" and "conn_alive env"
  shows "http_onMessageComplete env s p h =
    (0, h\<lparr>sub :=
      (let c = (sub h)\<lparr>m_request := r\<rparr> in
       if upgrade p then c
       else case m_httpCallbacks s (req_path r) of
         None \<Rightarrow> act [Act_send (''HTTP/1.1 404 Not Found'' @ [CR, LF] @ ''Content-Length: 0'' @ [CR, LF, CR, LF]), Act_shutDown 0] c
       | Some cb \<Rightarrow>
           (case m_authCallbacks s (req_path r) of
              None \<Rightarrow> fold (do_send env) (cb r) c
            | Some auth \<Rightarrow>
                if statusCode (auth r) = 200 then fold (do_send env) (cb r) c
                else (case response_dump (new_response (statusCode (auth r)) [] (message (auth r))) of
                    Inl e \<Rightarrow> c\<lparr>crashed := Some (Inl e)\<rparr>
                  | Inr t \<Rightarrow> act [Act_send t, Act_shutDown 0, Act_shutDown 1000] c)))\<rparr>)"
proof -
  have k: "keepAlive r \<le> 0" using parseBody_keeps [OF assms(1,3)] by simp
  show ?thesis
    using assms k
    by (simp add: http_onMessageComplete_def alive_step_def on_request_def onRequest_complete_def httpNotFound_def
        http_conn_send_def dump_not_found authRequest_def server_onError_def http_conn_shutDown_def act_def Let_def
        split: option.split sum.split)
qed

theorem request_answered_witness:
  "http_onMessageComplete example_env example_server (http_parser_init HTTP_REQUEST) example_conn =
     (0, example_conn\<lparr>sub := act [Act_send (''HTTP/1.1 404 Not Found'' @ [CR, LF] @ ''Content-Length: 0'' @ [CR, LF, CR, LF]),
        Act_shutDown 0] (sub example_conn)\<rparr>)"
  using request_answered [of example_env example_conn "new_request 0" example_server "http_parser_init HTTP_REQUEST"]
  by (simp add: example_env_def example_conn_def new_parser_obj_def new_http_conn_def new_request_def parseBody_def
      parseHost_def parseContentType_def parseKeepAlive_def find_header_def example_server_def setHttpCallback_def
      new_server_def http_parser_init_def Let_def)

end
