(* ===== verification/HttpClientProps.thy ===== *)
theory HttpClientProps
  imports HttpClient
begin

text \<open>
  The pool of connections of an HTTP client: its order, its bound, and which connection a request gets.
\<close>

section \<open>The pool\<close>

definition http_pool_ok :: "http_client \<Rightarrow> bool" where
  "http_pool_ok cl \<longleftrightarrow> sorted (map fst (c_conns cl)) \<and> length (c_conns cl) \<le> c_maxClients cl"

lemma insert_sorted:
  assumes "sorted (map fst es)"
  shows "sorted (map fst (takeWhile (\<lambda>e. fst e \<le> ip) es @ (ip, i) # dropWhile (\<lambda>e. fst e \<le> ip) es))"
  using assms
proof (induction es)
  case (Cons e es)
  then show ?case by (auto dest!: set_takeWhileD set_dropWhileD)
qed simp

lemma pop_ip_kept:
  assumes "pop_ip usable ip es = (c, es')"
  shows "set es' \<subseteq> set es" and "length es' \<le> length es" and "sorted (map fst es) \<Longrightarrow> sorted (map fst es')"
proof -
  have "set es' \<subseteq> set es \<and> length es' \<le> length es \<and> (sorted (map fst es) \<longrightarrow> sorted (map fst es'))"
    using assms
  proof (induction es arbitrary: es')
    case (Cons e es)
    then show ?case by (cases e) (fastforce split: if_splits prod.splits)
  qed simp
  then show "set es' \<subseteq> set es" "length es' \<le> length es" "sorted (map fst es) \<Longrightarrow> sorted (map fst es')" by simp_all
qed

lemma pop_ip_usable:
  assumes "pop_ip usable ip es = (c, es')"
  shows "case c of Some i \<Rightarrow> (ip, i) \<in> set es \<and> usable i | None \<Rightarrow> \<forall>i. (ip, i) \<in> set es \<longrightarrow> \<not> usable i"
  using assms
proof (induction es arbitrary: es')
  case (Cons e es)
  then show ?case by (cases e) (fastforce split: if_splits prod.splits option.splits)
qed simp

lemma pop_ip_others: "pop_ip usable ip es = (c, es') \<Longrightarrow> filter (\<lambda>e. fst e \<noteq> ip) es' = filter (\<lambda>e. fst e \<noteq> ip) es"
proof (induction es arbitrary: es')
  case (Cons e es)
  then show ?case by (cases e) (auto split: if_splits prod.splits)
qed simp

section \<open>Properties\<close>

text \<open>
  C38: the pool stays ordered by address and within its bound. A request gets a connection to its address that can be
  used whenever the pool has one, and connections to other addresses stay.
\<close>

theorem http_pool_reuse:
  assumes "http_pool_ok cl" and "http_popConn usable ip cl = (c, cl')"
  shows "http_pool_ok (snd (http_pushConn locked remote i cl)) \<and> http_pool_ok cl' \<and>
      (case c of Some j \<Rightarrow> (ip, j) \<in> set (c_conns cl) \<and> usable j
         | None \<Rightarrow> \<forall>j. (ip, j) \<in> set (c_conns cl) \<longrightarrow> \<not> usable j) \<and>
      filter (\<lambda>e. fst e \<noteq> ip) (c_conns cl') = filter (\<lambda>e. fst e \<noteq> ip) (c_conns cl)"
proof -
  have "http_pool_ok (snd (http_pushConn locked remote i cl))"
    using assms(1) insert_sorted
    by (auto simp: http_pushConn_def http_pool_ok_def split: option.split)
      (metis length_append not_less_eq_eq takeWhile_dropWhile_id)
  moreover obtain es where es: "pop_ip usable ip (c_conns cl) = (c, es)" "cl' = cl\<lparr>c_conns := es\<rparr>"
    using assms(2) by (auto simp: http_popConn_def split: prod.splits)
  moreover have "http_pool_ok cl'"
    using assms(1) pop_ip_kept [OF es(1)] by (auto simp: http_pool_ok_def es(2))
  ultimately show ?thesis
    using pop_ip_usable [OF es(1)] pop_ip_others [OF es(1)] by simp
qed

definition example_pool :: http_client where
  "example_pool = \<lparr>c_conns = [(3, 10), (5, 11), (5, 12), (9, 13)], c_maxClients = 5\<rparr>"

theorem http_pool_reuse_witness:
  "http_popConn (\<lambda>i. i \<noteq> 11) 5 example_pool = (Some 12, example_pool\<lparr>c_conns := [(3, 10), (9, 13)]\<rparr>) \<and>
   http_pool_ok (example_pool\<lparr>c_conns := [(3, 10), (9, 13)]\<rparr>)"
proof -
  have pop: "http_popConn (\<lambda>i. i \<noteq> 11) 5 example_pool = (Some 12, example_pool\<lparr>c_conns := [(3, 10), (9, 13)]\<rparr>)"
    by (simp add: http_popConn_def example_pool_def)
  have "http_pool_ok example_pool" by (simp add: http_pool_ok_def example_pool_def)
  from http_pool_reuse [OF this pop] pop show ?thesis by blast
qed

end
