(* ===== verification/Sds.thy ===== *)
theory Sds
  imports Digest HttpUtil
begin

text \<open>
  \<open>src/src/redis/sds.c\<close>: dynamic strings. A string is its header and its buffer, whose size is
  \<open>len + free + 1\<close>; the pointer arithmetic of the source is indices into the buffer. \<open>NULL\<close> is
  \<open>None\<close>. An \<open>int\<close> has 32 bits and a \<open>size_t\<close> 64, with the conversions of the source written out.

  The allocator is a parameter: \<open>malloc n\<close> is \<open>None\<close>, or the values the \<open>n\<close> new bytes have.
\<close>

section \<open>Representation\<close>

record sdshdr =
  sds_len :: int
  sds_free :: int
  sds_buf :: string

type_synonym allocator = "nat \<Rightarrow> string option"

definition size_of_int :: "int \<Rightarrow> nat" where
  "size_of_int i = nat (i mod 2 ^ 64)"

text \<open>Sums and products of a \<open>size_t\<close> wrap; computed on integers.\<close>

definition wrap64 :: "nat \<Rightarrow> nat" where
  [simp]: "wrap64 n = n mod 2 ^ 64"

lemma wrap64_code [code]: "wrap64 n = nat (int n mod 2 ^ 64)"
  by (simp add: nat_mod_distrib nat_power_eq)

definition strlen :: "string \<Rightarrow> nat" where
  "strlen s = length (takeWhile (\<lambda>c. c \<noteq> NUL) s)"

text \<open>A block has exactly the size asked for.\<close>

definition malloc_bytes :: "allocator \<Rightarrow> nat \<Rightarrow> string option" where
  "malloc_bytes malloc n = map_option (\<lambda>junk. take n (junk @ replicate n NUL)) (malloc n)"

text \<open>\<open>malloc(sizeof(struct sdshdr) + n + 1)\<close> and \<open>realloc\<close> to that size: the bytes of \<open>buf\<close>.\<close>

definition malloc_buf :: "allocator \<Rightarrow> nat \<Rightarrow> string option" where
  "malloc_buf malloc n = map_option (drop 8) (malloc_bytes malloc (wrap64 (8 + n + 1)))"

definition realloc_buf :: "allocator \<Rightarrow> string \<Rightarrow> nat \<Rightarrow> string option" where
  "realloc_buf malloc old n =
     map_option (\<lambda>m. take (length m) (old @ drop (length old) m)) (malloc_buf malloc n)"

definition sdslen :: "sdshdr \<Rightarrow> nat" where
  "sdslen s = size_of_int (sds_len s)"

definition sdsavail :: "sdshdr \<Rightarrow> nat" where
  "sdsavail s = size_of_int (sds_free s)"

definition sdsnewlen :: "allocator \<Rightarrow> string option \<Rightarrow> nat \<Rightarrow> sdshdr option" where
  "sdsnewlen malloc init initlen =
     (case malloc_buf malloc initlen of
        None \<Rightarrow> None
      | Some b \<Rightarrow>
          (let b = (if initlen \<noteq> 0
                    then (case init of Some t \<Rightarrow> memcpy_at b 0 (take initlen t)
                          | None \<Rightarrow> memcpy_at b 0 (replicate initlen NUL))
                    else b)
           in Some \<lparr>sds_len = int32 (int initlen), sds_free = 0, sds_buf = b[initlen := NUL]\<rparr>))"

definition sdsempty :: "allocator \<Rightarrow> sdshdr option" where
  "sdsempty malloc = sdsnewlen malloc (Some []) 0"

definition sdsnew :: "allocator \<Rightarrow> string option \<Rightarrow> sdshdr option" where
  "sdsnew malloc init = sdsnewlen malloc init (case init of None \<Rightarrow> 0 | Some t \<Rightarrow> strlen t)"

definition sdsdup :: "allocator \<Rightarrow> sdshdr \<Rightarrow> sdshdr option" where
  "sdsdup malloc s = sdsnewlen malloc (Some (sds_buf s)) (sdslen s)"

definition sdsupdatelen :: "sdshdr \<Rightarrow> sdshdr" where
  "sdsupdatelen s =
     (let reallen = int32 (int (strlen (sds_buf s)))
      in s\<lparr>sds_free := int32 (sds_free s + int32 (sds_len s - reallen)), sds_len := reallen\<rparr>)"

section \<open>Growing\<close>

definition sdsMakeRoomFor :: "allocator \<Rightarrow> sdshdr \<Rightarrow> nat \<Rightarrow> sdshdr option" where
  "sdsMakeRoomFor malloc s addlen =
     (if sdsavail s \<ge> addlen then Some s
      else (let len = sdslen s; newlen = wrap64 ((len + addlen) * 2)
            in case realloc_buf malloc (sds_buf s) newlen of
                 None \<Rightarrow> None
               | Some b \<Rightarrow> Some (s\<lparr>sds_free := int32 (int32 (int newlen) - int32 (int len)), sds_buf := b\<rparr>)))"

definition sdsgrowzero :: "allocator \<Rightarrow> sdshdr \<Rightarrow> nat \<Rightarrow> sdshdr option" where
  "sdsgrowzero malloc s len =
     (let curlen = sdslen s
      in if len \<le> curlen then Some s
         else case sdsMakeRoomFor malloc s (len - curlen) of
                None \<Rightarrow> None
              | Some s \<Rightarrow>
                  (let totlen = size_of_int (int32 (sds_len s + sds_free s))
                   in Some (s\<lparr>sds_buf := memcpy_at (sds_buf s) curlen (replicate (len - curlen + 1) NUL),
                              sds_len := int32 (int len),
                              sds_free := int32 (int32 (int totlen) - int32 (int len))\<rparr>)))"

definition sdscatlen :: "allocator \<Rightarrow> sdshdr \<Rightarrow> string \<Rightarrow> nat \<Rightarrow> sdshdr option" where
  "sdscatlen malloc s t len =
     (let curlen = sdslen s
      in case sdsMakeRoomFor malloc s len of
           None \<Rightarrow> None
         | Some s \<Rightarrow>
             Some (s\<lparr>sds_buf := (memcpy_at (sds_buf s) curlen (take len t))[curlen + len := NUL],
                     sds_len := int32 (int (curlen + len)),
                     sds_free := int32 (sds_free s - int32 (int len))\<rparr>))"

definition sdscat :: "allocator \<Rightarrow> sdshdr \<Rightarrow> string \<Rightarrow> sdshdr option" where
  "sdscat malloc s t = sdscatlen malloc s t (strlen t)"

definition sdscpylen :: "allocator \<Rightarrow> sdshdr \<Rightarrow> string \<Rightarrow> nat \<Rightarrow> sdshdr option" where
  "sdscpylen malloc s t len =
     (let totlen = size_of_int (int32 (sds_free s + sds_len s))
      in case (if totlen < len then sdsMakeRoomFor malloc s (nat ((int len - sds_len s) mod 2 ^ 64))
               else Some s) of
           None \<Rightarrow> None
         | Some s \<Rightarrow>
             (let totlen = size_of_int (int32 (sds_free s + sds_len s))
              in Some (s\<lparr>sds_buf := (memcpy_at (sds_buf s) 0 (take len t))[len := NUL],
                         sds_len := int32 (int len),
                         sds_free := int32 (int32 (int totlen) - int32 (int len))\<rparr>)))"

definition sdscpy :: "allocator \<Rightarrow> sdshdr \<Rightarrow> string \<Rightarrow> sdshdr option" where
  "sdscpy malloc s t = sdscpylen malloc s t (strlen t)"

text \<open>
  \<open>sdscatvprintf\<close>: \<open>text\<close> is what the format and its arguments print; \<open>vsnprintf\<close> writes as much of
  it as fits into \<open>buflen\<close> bytes and a zero. The buffer is doubled until its last but one byte is
  zero after the call.
\<close>

definition vsnprintf :: "string \<Rightarrow> nat \<Rightarrow> string \<Rightarrow> string" where
  "vsnprintf b buflen text = memcpy_at b 0 (take (buflen - 1) text @ [NUL])"

lemma nth_memcpy_at:
  "length ws \<le> length dst \<Longrightarrow> i < length dst \<Longrightarrow>
   memcpy_at dst 0 ws ! i = (if i < length ws then ws ! i else dst ! i)"
  by (simp add: memcpy_at_def nth_append)

lemma vsnprintf_last:
  assumes "length b = n" and "2 \<le> n"
  shows "vsnprintf (b[n - 2 := NUL]) n txt ! (n - 2) = (if length txt < n - 1 then NUL else txt ! (n - 2))"
  unfolding vsnprintf_def
  by (subst nth_memcpy_at) (use assms in \<open>auto simp: nth_append min_def not_less\<close>)

lemma length_malloc_bytes: "malloc_bytes malloc n = Some b \<Longrightarrow> length b = n"
  by (auto simp: malloc_bytes_def)

function print_buffer :: "allocator \<Rightarrow> string \<Rightarrow> nat \<Rightarrow> string option" where
  "print_buffer malloc text doublings =
     (let buflen = 16 * 2 ^ doublings
      in case malloc_bytes malloc buflen of
           None \<Rightarrow> None
         | Some b \<Rightarrow>
             (let b = vsnprintf (b[buflen - 2 := NUL]) buflen text
              in if b ! (buflen - 2) \<noteq> NUL then print_buffer malloc text (doublings + 1) else Some b))"
  by pat_completeness auto
termination
proof (relation "measure (\<lambda>(malloc, text, k). length text + 2 - 16 * 2 ^ k)", goal_cases)
  case (2 malloc w k n b b')
  have "16 * 1 \<le> 16 * (2 :: nat) ^ k" by (intro mult_le_mono2) simp
  with 2(1) have "2 \<le> n" by simp
  with 2 vsnprintf_last [OF length_malloc_bytes, of malloc n b w] have "n \<le> length w + 1"
    by (auto split: if_splits)
  then show ?case using 2(1) by (auto intro!: diff_less_mono2)
qed simp

declare print_buffer.simps [simp del]

definition sdscatvprintf :: "allocator \<Rightarrow> sdshdr \<Rightarrow> string \<Rightarrow> sdshdr option" where
  "sdscatvprintf malloc s text =
     (case print_buffer malloc text 0 of None \<Rightarrow> None | Some b \<Rightarrow> sdscat malloc s b)"

section \<open>Trimming and ranges\<close>

text \<open>\<open>strchr(cset, c)\<close>: the terminating zero of \<open>cset\<close> is found too.\<close>

definition strchr :: "string \<Rightarrow> char \<Rightarrow> bool" where
  "strchr cset c = (c = NUL \<or> c \<in> set (takeWhile (\<lambda>c. c \<noteq> NUL) cset))"

function trim_sp :: "string \<Rightarrow> string \<Rightarrow> int \<Rightarrow> int \<Rightarrow> int" where
  "trim_sp cset b sp stop =
     (if sp \<le> stop \<and> strchr cset (b ! nat sp) then trim_sp cset b (sp + 1) stop else sp)"
  by pat_completeness auto
termination
  by (relation "measure (\<lambda>(cset, b, sp, stop). nat (stop + 1 - sp))") auto

function trim_ep :: "string \<Rightarrow> string \<Rightarrow> int \<Rightarrow> int" where
  "trim_ep cset b ep = (if ep > 0 \<and> strchr cset (b ! nat ep) then trim_ep cset b (ep - 1) else ep)"
  by pat_completeness auto
termination
  by (relation "measure (\<lambda>(cset, b, ep). nat ep)") auto

declare trim_sp.simps [simp del] trim_ep.simps [simp del]

definition sdstrim :: "sdshdr \<Rightarrow> string \<Rightarrow> sdshdr" where
  "sdstrim s cset =
     (let stop = int (sdslen s) - 1;
          sp = trim_sp cset (sds_buf s) 0 stop;
          ep = trim_ep cset (sds_buf s) stop;
          len = (if sp > ep then 0 else nat (ep - sp + 1));
          b = (if sp \<noteq> 0 then memcpy_at (sds_buf s) 0 (bytes_at (sds_buf s) (nat sp) len) else sds_buf s)
      in s\<lparr>sds_buf := b[len := NUL],
           sds_free := int32 (sds_free s + int32 (sds_len s - int32 (int len))),
           sds_len := int32 (int len)\<rparr>)"

definition sdsrange :: "sdshdr \<Rightarrow> int \<Rightarrow> int \<Rightarrow> sdshdr" where
  "sdsrange s first stop =
     (let len = sdslen s
      in if len = 0 then s
         else
           (let first = (if first < 0
                         then (let i = int32 (int32 (int len) + first) in if i < 0 then 0 else i) else first);
                stop = (if stop < 0
                        then (let i = int32 (int32 (int len) + stop) in if i < 0 then 0 else i) else stop);
                newlen = (if first > stop then 0 else size_of_int (int32 (int32 (stop - first) + 1)));
                (first, newlen) =
                  (if newlen \<noteq> 0
                   then if first \<ge> int32 (int len) then (first, 0)
                        else if stop \<ge> int32 (int len)
                        then (let stop = int32 (int32 (int len) - 1)
                              in (first, if first > stop then 0
                                         else size_of_int (int32 (int32 (stop - first) + 1))))
                        else (first, newlen)
                   else (0, newlen));
                b = (if first \<noteq> 0 \<and> newlen \<noteq> 0
                     then memcpy_at (sds_buf s) 0 (bytes_at (sds_buf s) (nat first) newlen) else sds_buf s)
            in s\<lparr>sds_buf := b[newlen := NUL],
                 sds_free := int32 (sds_free s + int32 (sds_len s - int32 (int newlen))),
                 sds_len := int32 (int newlen)\<rparr>))"

definition sdstolower :: "sdshdr \<Rightarrow> sdshdr" where
  "sdstolower s = s\<lparr>sds_buf := memcpy_at (sds_buf s) 0 (map tolower (bytes_at (sds_buf s) 0 (sdslen s)))\<rparr>"

definition sdstoupper :: "sdshdr \<Rightarrow> sdshdr" where
  "sdstoupper s = s\<lparr>sds_buf := memcpy_at (sds_buf s) 0 (map toupper (bytes_at (sds_buf s) 0 (sdslen s)))\<rparr>"

text \<open>\<open>memcmp\<close>: only the sign of the result is specified.\<close>

fun memcmp :: "string \<Rightarrow> string \<Rightarrow> nat \<Rightarrow> int" where
  "memcmp (a # as) (b # bs) (Suc n) = (if a = b then memcmp as bs n else if code a < code b then - 1 else 1)"
| "memcmp as bs n = 0"

definition sdscmp :: "sdshdr \<Rightarrow> sdshdr \<Rightarrow> int" where
  "sdscmp s1 s2 =
     (let l1 = sdslen s1; l2 = sdslen s2;
          cmp = memcmp (sds_buf s1) (sds_buf s2) (if l1 < l2 then l1 else l2)
      in if cmp = 0 then int32 (int32 (int l1) - int32 (int l2)) else cmp)"

section \<open>Splitting by a separator\<close>

text \<open>
  The array of tokens grows by doubling; \<open>grow\<close> says whether \<open>realloc\<close> to that many slots succeeds.
  The loop reads \<open>seplen\<close> bytes at each position.
\<close>

function split_loop ::
    "allocator \<Rightarrow> (nat \<Rightarrow> bool) \<Rightarrow> string \<Rightarrow> nat \<Rightarrow> string \<Rightarrow> sdshdr list \<Rightarrow> nat \<Rightarrow> nat \<Rightarrow> nat \<Rightarrow>
     (sdshdr list \<times> nat) option" where
  "split_loop malloc grow s len sep tokens slots start j =
     (if sep \<noteq> [] \<and> j + (length sep - 1) < len
      then (case (if slots < length tokens + 2 then if grow (slots * 2) then Some (slots * 2) else None
                  else Some slots) of
              None \<Rightarrow> None
            | Some slots \<Rightarrow>
                if bytes_at s j (length sep) = sep
                then (case sdsnewlen malloc (Some (drop start s)) (j - start) of
                        None \<Rightarrow> None
                      | Some t \<Rightarrow>
                          split_loop malloc grow s len sep (tokens @ [t]) slots (j + length sep) (j + length sep))
                else split_loop malloc grow s len sep tokens slots start (j + 1))
      else Some (tokens, start))"
  by pat_completeness auto
termination
  by (relation "measure (\<lambda>(malloc, grow, s, len, sep, tokens, slots, start, j). len - j)") (auto intro!: diff_less_mono2)

declare split_loop.simps [simp del]

text \<open>\<open>malloc\<close> of the first five slots is \<open>grow 5\<close>; the result is the array, \<open>NULL\<close> being \<open>None\<close>.\<close>

definition sdssplitlen ::
    "allocator \<Rightarrow> (nat \<Rightarrow> bool) \<Rightarrow> string \<Rightarrow> nat \<Rightarrow> string \<Rightarrow> sdshdr list option" where
  "sdssplitlen malloc grow s len sep =
     (if \<not> grow 5 \<or> sep = [] then None
      else if len = 0 then Some []
      else case split_loop malloc grow s len sep [] 5 0 0 of
             None \<Rightarrow> None
           | Some (tokens, start) \<Rightarrow>
               (case sdsnewlen malloc (Some (drop start s)) (len - start) of
                  None \<Rightarrow> None
                | Some t \<Rightarrow> Some (tokens @ [t])))"

section \<open>Numbers\<close>

function digits_back :: "u64 \<Rightarrow> string \<Rightarrow> string" where
  "digits_back v acc =
     (let acc = char_of (48 + unat (v mod 10)) # acc
      in if v div 10 \<noteq> 0 then digits_back (v div 10) acc else acc)"
  by pat_completeness auto
termination
proof (relation "measure (\<lambda>(v, acc). unat v)", goal_cases)
  case (2 v acc acc')
  then have "v \<noteq> 0" by auto
  then show ?case by (simp add: unat_div unat_gt_0)
qed simp

declare digits_back.simps [simp del]

text \<open>\<open>value\<close> is a \<open>long long\<close>; the buffer has 32 bytes and the number at most 20.\<close>

definition sdsfromlonglong :: "allocator \<Rightarrow> int \<Rightarrow> sdshdr option" where
  "sdsfromlonglong malloc value =
     (let v = (if value < 0 then - word_of_int value else word_of_int value);
          p = digits_back v [];
          p = (if value < 0 then CHR ''-'' # p else p)
      in sdsnewlen malloc (Some p) (length p))"

section \<open>Quoting and splitting a line\<close>

abbreviation BACKSLASH :: char where "BACKSLASH \<equiv> CHR 0x5C"
abbreviation BEL :: char where "BEL \<equiv> CHR 0x07"
abbreviation BS :: char where "BS \<equiv> CHR 0x08"

text \<open>What \<open>sdscatrepr\<close> appends for one byte, and whether it does so by \<open>sdscatlen\<close>.\<close>

definition repr_char :: "char \<Rightarrow> string" where
  "repr_char c =
     (if c = BACKSLASH \<or> c = DQUOTE then [BACKSLASH, c]
      else if c = LF then [BACKSLASH, CHR ''n'']
      else if c = CR then [BACKSLASH, CHR ''r'']
      else if c = HT then [BACKSLASH, CHR ''t'']
      else if c = BEL then [BACKSLASH, CHR ''a'']
      else if c = BS then [BACKSLASH, CHR ''b'']
      else if isprint c then [c]
      else [BACKSLASH, CHR ''x'', (''0123456789'' @ ''abcdef'') ! (code c div 16),
            (''0123456789'' @ ''abcdef'') ! (code c mod 16)])"

definition repr_escape :: "char \<Rightarrow> bool" where
  "repr_escape c = (c = LF \<or> c = CR \<or> c = HT \<or> c = BEL \<or> c = BS)"

fun catrepr_loop :: "allocator \<Rightarrow> sdshdr \<Rightarrow> string \<Rightarrow> sdshdr option" where
  "catrepr_loop malloc s [] = Some s"
| "catrepr_loop malloc s (c # p) =
     (case (if repr_escape c then sdscatlen malloc s (repr_char c) 2
            else sdscatvprintf malloc s (repr_char c)) of
        None \<Rightarrow> None
      | Some s \<Rightarrow> catrepr_loop malloc s p)"

definition sdscatrepr :: "allocator \<Rightarrow> sdshdr \<Rightarrow> string \<Rightarrow> nat \<Rightarrow> sdshdr option" where
  "sdscatrepr malloc s p len =
     (case sdscatlen malloc s [DQUOTE] 1 of
        None \<Rightarrow> None
      | Some s \<Rightarrow>
          (case catrepr_loop malloc s (take len p) of
             None \<Rightarrow> None
           | Some s \<Rightarrow> sdscatlen malloc s [DQUOTE] 1))"

text \<open>\<open>*p\<close> of the rest of a line, which ends with a zero.\<close>

definition peek :: "string \<Rightarrow> char" where
  "peek p = (case p of [] \<Rightarrow> NUL | c # _ \<Rightarrow> c)"

definition unescape_char :: "char \<Rightarrow> char" where
  "unescape_char c =
     (if c = CHR ''n'' then LF else if c = CHR ''r'' then CR else if c = CHR ''t'' then HT
      else if c = CHR ''b'' then BS else if c = CHR ''a'' then BEL else c)"

text \<open>
  The body of \<open>while (!done)\<close> up to its last two lines: the rest of the line, \<open>current\<close>, \<open>inq\<close> and
  \<open>done\<close>; \<open>None\<close> is \<open>goto err\<close>.
\<close>

definition args_step ::
    "allocator \<Rightarrow> string \<Rightarrow> bool \<Rightarrow> sdshdr \<Rightarrow> (string \<times> sdshdr option \<times> bool \<times> bool) option" where
  "args_step malloc p inq current =
     (if inq
      then if peek p = BACKSLASH \<and> peek (tl p) \<noteq> NUL
           then Some (tl p, sdscatlen malloc current [unescape_char (peek (tl p))] 1, inq, False)
           else if peek p = DQUOTE
           then if peek (tl p) \<noteq> NUL \<and> \<not> isspace (peek (tl p)) then None
                else Some (p, Some current, inq, True)
           else if peek p = NUL then None
           else Some (p, sdscatlen malloc current [peek p] 1, inq, False)
      else if peek p \<in> {SP, LF, CR, HT, NUL} then Some (p, Some current, inq, True)
      else if peek p = DQUOTE then Some (p, Some current, True, False)
      else Some (p, sdscatlen malloc current [peek p] 1, inq, False))"

text \<open>Every step but the last takes at least one byte of the line; no step takes the final zero.\<close>

lemma args_step_progress:
  assumes "args_step malloc p inq current = Some (p', current', inq', finished)"
  shows "length p' \<le> length p" and "\<not> finished \<Longrightarrow> peek p' \<noteq> NUL"
    and "\<not> finished \<Longrightarrow> length (tl p') < length p"
    and "peek p \<noteq> NUL \<Longrightarrow> peek p' \<noteq> NUL \<and> length (tl p') < length p"
  using assms by (auto simp: args_step_def peek_def split: if_splits list.splits)

function args_token :: "allocator \<Rightarrow> string \<Rightarrow> bool \<Rightarrow> sdshdr \<Rightarrow> (string \<times> sdshdr) option" where
  "args_token malloc p inq current =
     (case args_step malloc p inq current of
        None \<Rightarrow> None
      | Some (p, current, inq, finished) \<Rightarrow>
          (let p = (if peek p \<noteq> NUL then tl p else p)
           in case current of
                None \<Rightarrow> None
              | Some current \<Rightarrow>
                  if finished then Some (p, current) else args_token malloc p inq current))"
  by pat_completeness auto
termination
  by (relation "measure (\<lambda>(malloc, p, inq, current). length p)") (auto dest: args_step_progress)

declare args_token.simps [simp del]

lemma args_token_shorter:
  "args_token malloc p inq current = Some (p', t) \<Longrightarrow>
   length p' \<le> length p \<and> (peek p \<noteq> NUL \<longrightarrow> length p' < length p)"
proof (induction malloc p inq current rule: args_token.induct)
  case (1 malloc p inq current)
  from 1(2) obtain q cur inq' f where step: "args_step malloc p inq current = Some (q, Some cur, inq', f)"
    and res: "(if f then Some (if peek q \<noteq> NUL then tl q else q, cur)
       else args_token malloc (if peek q \<noteq> NUL then tl q else q) inq' cur) = Some (p', t)"
    by (subst (asm) args_token.simps) (auto simp: Let_def split: option.splits prod.splits)
  note progress = args_step_progress [OF step]
  show ?case
  proof (cases f)
    case True
    then show ?thesis using res progress by (auto split: if_splits)
  next
    case False
    then have "length p' \<le> length (tl q)"
      using 1(1) [OF step refl refl refl refl refl] res progress(2) by auto
    with progress False show ?thesis by fastforce
  qed
qed

text \<open>\<open>grow n\<close>: whether \<open>realloc\<close> of the vector to \<open>n\<close> entries succeeds.\<close>

function args_loop :: "allocator \<Rightarrow> (nat \<Rightarrow> bool) \<Rightarrow> string \<Rightarrow> sdshdr list \<Rightarrow> sdshdr list option" where
  "args_loop malloc grow p vector =
     (let p = dropWhile (\<lambda>c. c \<noteq> NUL \<and> isspace c) p
      in if peek p = NUL then Some vector
         else case sdsempty malloc of
                None \<Rightarrow> None
              | Some current \<Rightarrow>
                  (case args_token malloc p False current of
                     None \<Rightarrow> None
                   | Some (p, current) \<Rightarrow>
                       if grow (length vector + 1) then args_loop malloc grow p (vector @ [current]) else None))"
  by pat_completeness auto
termination
proof (relation "measure (\<lambda>(malloc, grow, p, vector). length p)", goal_cases)
  case (2 malloc grow p vector q current pt p' t)
  then have "length p' < length q" using args_token_shorter by fastforce
  moreover have "length q \<le> length p" using 2(1) by (simp add: length_dropWhile_le)
  ultimately show ?case by simp
qed simp

declare args_loop.simps [simp del]

text \<open>\<open>NULL\<close> after an error is \<open>None\<close>; for a blank line the source returns \<open>NULL\<close> and no arguments.\<close>

definition sdssplitargs :: "allocator \<Rightarrow> (nat \<Rightarrow> bool) \<Rightarrow> string \<Rightarrow> sdshdr list option" where
  "sdssplitargs malloc grow line = args_loop malloc grow line []"

end
