(* ===== verification/SdsFacts.thy ===== *)
theory SdsFacts
  imports Sds
begin

text \<open>
  What the operations on dynamic strings do to the text they hold. \<open>sds_ok\<close> is the invariant of the
  representation, \<open>contents\<close> its text. Operations that allocate either return a well-formed string
  with the text of the specification or fail because the allocator did (\<open>yields\<close>).
\<close>

section \<open>The invariant\<close>

definition sds_ok :: "sdshdr \<Rightarrow> bool" where
  "sds_ok s \<longleftrightarrow> 0 \<le> sds_len s \<and> 0 \<le> sds_free s \<and> sds_len s + sds_free s < 2 ^ 31 \<and>
     length (sds_buf s) = nat (sds_len s + sds_free s) + 1 \<and> sds_buf s ! nat (sds_len s) = NUL"

definition contents :: "sdshdr \<Rightarrow> string" where
  "contents s = take (nat (sds_len s)) (sds_buf s)"

definition layout :: "string \<Rightarrow> string \<Rightarrow> sdshdr" where
  "layout c r = \<lparr>sds_len = int (length c), sds_free = int (length r), sds_buf = c @ NUL # r\<rparr>"

definition out_of_memory :: "allocator \<Rightarrow> bool" where
  "out_of_memory malloc \<longleftrightarrow> (\<exists>n. malloc n = None)"

definition yields :: "allocator \<Rightarrow> sdshdr option \<Rightarrow> string \<Rightarrow> bool" where
  "yields malloc res c \<longleftrightarrow>
     (case res of None \<Rightarrow> out_of_memory malloc | Some s \<Rightarrow> sds_ok s \<and> contents s = c)"

lemma layout_simps [simp]:
  "sds_len (layout c r) = int (length c)" "sds_free (layout c r) = int (length r)"
  "sds_buf (layout c r) = c @ NUL # r" "contents (layout c r) = c"
  "sds_ok (layout c r) \<longleftrightarrow> length c + length r < 2 ^ 31"
  by (auto simp: layout_def contents_def sds_ok_def nat_add_distrib)

lemma layout_eqI: "sds_len s = int (length c) \<Longrightarrow> sds_free s = int (length r) \<Longrightarrow>
    sds_buf s = c @ NUL # r \<Longrightarrow> s = layout c r"
  by (simp add: layout_def)

lemma sds_okE:
  assumes "sds_ok s"
  obtains c r where "s = layout c r" and "length c + length r < 2 ^ 31" and "contents s = c"
proof -
  let ?n = "nat (sds_len s)"
  have n: "?n < length (sds_buf s)" using assms by (auto simp: sds_ok_def nat_add_distrib)
  then have b: "sds_buf s = take ?n (sds_buf s) @ NUL # drop (Suc ?n) (sds_buf s)"
    using assms id_take_nth_drop [of ?n "sds_buf s"] by (simp add: sds_ok_def)
  have "s = layout (take ?n (sds_buf s)) (drop (Suc ?n) (sds_buf s))"
    using assms n b by (intro layout_eqI) (auto simp: sds_ok_def nat_add_distrib)
  then show thesis using that assms by (metis layout_simps(4,5))
qed

lemma size_of_int_id [simp]: "n < 2 ^ 31 \<Longrightarrow> size_of_int (int n) = n"
  by (simp add: size_of_int_def)

section \<open>Writing into a buffer\<close>

lemma write_terminated:
  "length x = length t \<Longrightarrow>
   (memcpy_at (c @ x @ y # q) (length c) t)[length c + length t := NUL] = c @ t @ NUL # q"
  by (simp add: memcpy_at_def list_update_append)

lemma split_at:
  assumes "n < length b"
  obtains x y q where "b = x @ y # q" and "length x = n" and "length q = length b - n - 1"
  using that [OF id_take_nth_drop [OF assms]] assms by simp

section \<open>Allocation\<close>

lemma malloc_buf_cases:
  assumes "n < 2 ^ 63"
  obtains (none) "malloc_buf malloc n = None" "out_of_memory malloc"
    | (some) b where "malloc_buf malloc n = Some b" "length b = n + 1"
proof (cases "malloc (9 + n)")
  case None
  have "(8 + n + 1) mod 2 ^ 64 = 9 + n" using assms by simp
  with None show thesis
    using none by (auto simp: malloc_buf_def malloc_bytes_def out_of_memory_def)
next
  case (Some b)
  have "(8 + n + 1) mod 2 ^ 64 = 9 + n" using assms by simp
  with Some show thesis
    using some by (simp add: malloc_buf_def malloc_bytes_def)
qed

lemma sdsnewlen_layout:
  assumes "n \<le> length t" and "n < 2 ^ 31"
  shows "sdsnewlen malloc (Some t) n = Some (layout (take n t) []) \<or>
    sdsnewlen malloc (Some t) n = None \<and> out_of_memory malloc"
proof -
  have "n < 2 ^ 63" using assms(2) by simp
  then show ?thesis
  proof (cases rule: malloc_buf_cases [where malloc = malloc])
    case (some b)
    then obtain y where b: "b = take n b @ [y]" by (metis Suc_eq_plus1 lessI order_refl take_Suc_conv_app_nth take_all_iff)
    have "(memcpy_at b 0 (take n t))[n := NUL] = take n t @ [NUL]"
      using write_terminated [of "take n b" "take n t" "[]" y "[]"] assms(1) some(2)
      by (subst b) (simp del: take_append)
    moreover have "n = 0 \<Longrightarrow> b[0 := NUL] = [NUL]" using some(2) by (cases b) auto
    ultimately show ?thesis
      using some assms by (auto simp: sdsnewlen_def Let_def layout_def)
  qed (simp add: sdsnewlen_def)
qed

lemma sdsnewlen_yields:
  "n \<le> length t \<Longrightarrow> n < 2 ^ 31 \<Longrightarrow> yields malloc (sdsnewlen malloc (Some t) n) (take n t)"
  using sdsnewlen_layout [of n t malloc] by (auto simp: yields_def)

lemma make_room:
  assumes "length c + n < 2 ^ 30" and "length c + length r < 2 ^ 31"
  shows "(\<exists>r'. sdsMakeRoomFor malloc (layout c r) n = Some (layout c r') \<and> n \<le> length r' \<and>
      length c + length r' < 2 ^ 31) \<or>
    (sdsMakeRoomFor malloc (layout c r) n = None \<and> out_of_memory malloc)"
proof (cases "n \<le> length r")
  case True
  then show ?thesis using assms by (auto simp: sdsMakeRoomFor_def sdsavail_def)
next
  case False
  let ?new = "(length c + n) * 2"
  have new: "?new mod 2 ^ 64 = ?new" "?new < 2 ^ 63" using assms(1) by simp_all
  show ?thesis
  using new(2) proof (cases rule: malloc_buf_cases [where malloc = malloc])
    case none
    then show ?thesis using False assms
      by (auto simp: sdsMakeRoomFor_def sdsavail_def sdslen_def Let_def realloc_buf_def)
  next
    case (some b)
    let ?r = "take (?new - length c) (r @ drop (length c + length r + 1) b)"
    have "take (length b) ((c @ NUL # r) @ drop (length (c @ NUL # r)) b) = c @ NUL # ?r"
      using some False by (simp add: take_Cons' )
    moreover have "length ?r = ?new - length c"
      using some False by simp
    moreover have "int32 (int32 (int ?new) - int32 (int (length c))) = int (?new - length c)"
      using assms(1) by (simp add: int32_id of_nat_diff)
    ultimately have "sdsMakeRoomFor malloc (layout c r) n = Some (layout c ?r)"
      using some False assms new(1)
      by (auto simp: sdsMakeRoomFor_def sdsavail_def sdslen_def Let_def realloc_buf_def intro!: layout_eqI)
    then show ?thesis using \<open>length ?r = ?new - length c\<close> assms(1) by auto
  qed
qed

section \<open>Growing\<close>

text \<open>The fields after \<open>n\<close> bytes were written over the free part of a string with room for them.\<close>

lemma overwritten:
  assumes "n \<le> length r" and "length c + length r < 2 ^ 31" and "n \<le> length t"
  obtains q where "length q = length r - n"
    and "(memcpy_at (c @ NUL # r) (length c) (take n t))[length c + n := NUL] = c @ take n t @ NUL # q"
    and "int32 (int (length r) - int32 (int n)) = int (length q)"
    and "int32 (int (length c + n)) = int (length c + n)"
proof -
  have "n < length (NUL # r)" using assms(1) by simp
  then obtain x y q where r: "NUL # r = x @ y # q" "length x = n" "length q = length (NUL # r) - n - 1"
    by (rule split_at)
  show thesis
  proof (rule that)
    show "(memcpy_at (c @ NUL # r) (length c) (take n t))[length c + n := NUL] = c @ take n t @ NUL # q"
      unfolding r(1) using write_terminated [of x "take n t" c y q] r(2) assms(3) by simp
    show "int32 (int (length r) - int32 (int n)) = int (length q)"
      using assms(1,2) r(3) int32_diff [of "length r" n] by (simp add: of_nat_diff)
    show "int32 (int (length c + n)) = int (length c + n)"
      using assms(1,2) by (intro int32_nat) linarith
    show "length q = length r - n" using r(3) by simp
  qed
qed

lemma sdscatlen_layout:
  assumes "n \<le> length t" and "length c + n < 2 ^ 30" and "length c + length r < 2 ^ 31"
  shows "(\<exists>q. sdscatlen malloc (layout c r) t n = Some (layout (c @ take n t) q) \<and>
      length c + n + length q < 2 ^ 31) \<or>
    (sdscatlen malloc (layout c r) t n = None \<and> out_of_memory malloc)"
  using make_room [OF assms(2,3), of malloc]
proof (elim disjE exE conjE)
  fix r' assume room: "sdsMakeRoomFor malloc (layout c r) n = Some (layout c r')" "n \<le> length r'"
    and bound: "length c + length r' < 2 ^ 31"
  obtain q where q: "length q = length r' - n"
      "(memcpy_at (c @ NUL # r') (length c) (take n t))[length c + n := NUL] = c @ take n t @ NUL # q"
      "int32 (int (length r') - int32 (int n)) = int (length q)"
      "int32 (int (length c + n)) = int (length c + n)"
    using room(2) bound assms(1) by (rule overwritten)
  have "sdslen (layout c r) = length c" using assms(3) by (simp add: sdslen_def)
  then have "sdscatlen malloc (layout c r) t n = Some (layout (c @ take n t) q)"
    using q(2,3,4) assms(1) unfolding sdscatlen_def Let_def room(1)
    by (simp add: layout_def)
  then show ?thesis using q(1) room(2) bound by auto
qed (simp add: sdscatlen_def Let_def)

lemma sdscatlen_yields:
  assumes "sds_ok s" and "n \<le> length t" and "length (contents s) + n < 2 ^ 30"
  shows "yields malloc (sdscatlen malloc s t n) (contents s @ take n t)"
proof -
  obtain c r where s: "s = layout c r" "length c + length r < 2 ^ 31" "contents s = c"
    using assms(1) by (rule sds_okE)
  show ?thesis
    using sdscatlen_layout [OF assms(2) _ s(2), of malloc] assms(2,3)
    unfolding s(3) unfolding s(1) by (auto simp: yields_def)
qed

lemma sdscat_yields:
  "sds_ok s \<Longrightarrow> length (contents s) + strlen t < 2 ^ 30 \<Longrightarrow>
   yields malloc (sdscat malloc s t) (contents s @ takeWhile (\<lambda>c. c \<noteq> NUL) t)"
  using sdscatlen_yields [of s "strlen t" t malloc]
  by (simp add: sdscat_def strlen_def length_takeWhile_le takeWhile_eq_take [symmetric])


lemma size_of_int_total:
  "length c + length r < 2 ^ 31 \<Longrightarrow>
   size_of_int (int32 (sds_free (layout c r) + sds_len (layout c r))) = length c + length r"
  "length c + length r < 2 ^ 31 \<Longrightarrow>
   size_of_int (int32 (sds_len (layout c r) + sds_free (layout c r))) = length c + length r"
proof -
  assume b: "length c + length r < 2 ^ 31"
  have e: "sds_free (layout c r) + sds_len (layout c r) = int (length c + length r)"
    "sds_len (layout c r) + sds_free (layout c r) = int (length c + length r)" by simp_all
  show "size_of_int (int32 (sds_free (layout c r) + sds_len (layout c r))) = length c + length r"
    "size_of_int (int32 (sds_len (layout c r) + sds_free (layout c r))) = length c + length r"
    unfolding e int32_nat [OF b] using b by (simp_all only: size_of_int_id)
qed

lemma cpylen_room:
  assumes "length c + length r < 2 ^ 31" and "n < 2 ^ 30"
  obtains (some) c' r' where "(if length c + length r < n
        then sdsMakeRoomFor malloc (layout c r) (nat ((int n - int (length c)) mod 2 ^ 64))
        else Some (layout c r)) = Some (layout c' r')"
      "n \<le> length c' + length r'" "length c' + length r' < 2 ^ 31"
    | (none) "(if length c + length r < n
        then sdsMakeRoomFor malloc (layout c r) (nat ((int n - int (length c)) mod 2 ^ 64))
        else Some (layout c r)) = None" "out_of_memory malloc"
proof (cases "length c + length r < n")
  case True
  then have "nat ((int n - int (length c)) mod 2 ^ 64) = n - length c"
    using assms(2) by (simp add: nat_diff_distrib)
  with make_room [of c "n - length c" r malloc] True assms(1) assms(2) that show thesis by fastforce
next
  case False
  then show thesis using assms(1) that(1) [of c r] by simp
qed

lemma sdscpylen_yields:
  assumes "sds_ok s" and "n \<le> length t" and "n < 2 ^ 30"
  shows "yields malloc (sdscpylen malloc s t n) (take n t)"
proof -
  obtain c r where s: "s = layout c r" "length c + length r < 2 ^ 31"
    using assms(1) by (rule sds_okE)
  note total = size_of_int_total(1) [OF s(2)]
  show ?thesis
    unfolding s(1) using s(2) assms(3)
  proof (cases rule: cpylen_room [where malloc = malloc])
    case (some c' r')
    have "n < length (c' @ NUL # r')" using some(2) by simp
    then obtain x y q where r: "c' @ NUL # r' = x @ y # q" "length x = n"
        "length q = length (c' @ NUL # r') - n - 1"
      by (rule split_at)
    have buf: "(memcpy_at (c' @ NUL # r') 0 (take n t))[n := NUL] = take n t @ NUL # q"
      unfolding r(1) using write_terminated [of x "take n t" "[]" y q] r(2) assms(2) by simp
    have free: "int32 (int32 (int (length c' + length r')) - int32 (int n)) = int (length q)"
      unfolding int32_nat [OF some(3)]
      using some(2,3) int32_diff [of "length c' + length r'" n] r(3) by (simp add: of_nat_diff)
    have "sdscpylen malloc (layout c r) t n = Some (layout (take n t) q)"
      using buf free some(3) assms(2,3) size_of_int_total(1) [OF some(3)]
      unfolding sdscpylen_def Let_def total
      unfolding layout_simps(1) some(1) option.case
      by (simp add: layout_def)
    then show "yields malloc (sdscpylen malloc (layout c r) t n) (take n t)"
      using some(2,3) r(3) assms(2) by (simp add: yields_def)
  next
    case none
    then show "yields malloc (sdscpylen malloc (layout c r) t n) (take n t)"
      unfolding sdscpylen_def Let_def total unfolding layout_simps(1) by (simp only: yields_def option.case)
  qed
qed

lemma grow_layout:
  assumes "length c < n" and "n \<le> length c + length r" and "length c + length r < 2 ^ 31"
  shows "memcpy_at (c @ NUL # r) (length c) (replicate (n - length c + 1) NUL) =
      (c @ replicate (n - length c) NUL) @ NUL # drop (n - length c) r"
    and "int32 (int32 (int (length c + length r)) - int32 (int n)) = int (length (drop (n - length c) r))"
proof -
  show "memcpy_at (c @ NUL # r) (length c) (replicate (n - length c + 1) NUL) =
      (c @ replicate (n - length c) NUL) @ NUL # drop (n - length c) r"
    by (simp add: memcpy_at_def replicate_app_Cons_same)
  show "int32 (int32 (int (length c + length r)) - int32 (int n)) = int (length (drop (n - length c) r))"
    unfolding int32_nat [OF assms(3)] using assms int32_diff [of "length c + length r" n] by (simp add: of_nat_diff)
qed

lemma sdsgrowzero_yields:
  assumes "sds_ok s" and "n < 2 ^ 30"
  shows "yields malloc (sdsgrowzero malloc s n) (contents s @ replicate (n - length (contents s)) NUL)"
proof -
  obtain c r where s: "s = layout c r" "length c + length r < 2 ^ 31" "contents s = c"
    using assms(1) by (rule sds_okE)
  have len: "sdslen (layout c r) = length c" using s(2) by (simp add: sdslen_def)
  show ?thesis
    unfolding s(3) unfolding s(1)
  proof (cases "n \<le> length c")
    case True
    then show "yields malloc (sdsgrowzero malloc (layout c r) n) (c @ replicate (n - length c) NUL)"
      using s(2) by (simp add: sdsgrowzero_def len yields_def)
  next
    case False
    from make_room [of c "n - length c" r malloc] False s(2) assms(2)
    consider (some) r' where "sdsMakeRoomFor malloc (layout c r) (n - length c) = Some (layout c r')"
        "n \<le> length c + length r'" "length c + length r' < 2 ^ 31"
      | (none) "sdsMakeRoomFor malloc (layout c r) (n - length c) = None" "out_of_memory malloc"
      by fastforce
    then show "yields malloc (sdsgrowzero malloc (layout c r) n) (c @ replicate (n - length c) NUL)"
    proof cases
      case some
      let ?k = "n - length c"
      have "length c < n" using False by simp
      note grown = grow_layout [OF this some(2,3)]
      have "sdsgrowzero malloc (layout c r) n = Some (layout (c @ replicate ?k NUL) (drop ?k r'))"
        using False grown some(3) assms(2)
        unfolding sdsgrowzero_def Let_def len some(1) option.case size_of_int_total(2) [OF some(3)]
        by (simp add: layout_def)
      then show ?thesis using some False by (simp add: yields_def)
    next
      case none
      then show ?thesis using False by (simp add: yields_def sdsgrowzero_def Let_def len)
    qed
  qed
qed

end
