(* ===== verification/SdsText.thy ===== *)
theory SdsText
  imports SdsFacts
begin

text \<open>
  Formatted output, trimming, ranges, case and comparison of dynamic strings: what
  \<open>sdscatvprintf\<close>, \<open>sdstrim\<close>, \<open>sdsrange\<close>, \<open>sdstolower\<close>, \<open>sdstoupper\<close> and \<open>sdscmp\<close> do to the texts.
\<close>

section \<open>Formatted output\<close>

abbreviation c_string :: "string \<Rightarrow> string" where
  "c_string \<equiv> takeWhile (\<lambda>c. c \<noteq> NUL)"

lemma c_string_NUL: "c_string (t @ NUL # q) = c_string t"
  by (induction t) auto

lemma c_string_vsnprintf:
  assumes "length b = n" and "2 \<le> n" and "vsnprintf (b[n - 2 := NUL]) n t ! (n - 2) = NUL"
  shows "c_string (vsnprintf (b[n - 2 := NUL]) n t) = c_string t"
proof -
  let ?t = "take (n - 1) t"
  have "c_string ?t = c_string t"
  proof (cases "length t < n - 1")
    case False
    then have "t ! (n - 2) = NUL" using vsnprintf_last [OF assms(1,2), of t] assms(3) by simp
    moreover have "?t ! (n - 2) = t ! (n - 2)" "n - 2 < length ?t" using False assms(2) by auto
    ultimately have "NUL \<in> set ?t" by (metis nth_mem)
    then have "c_string (?t @ drop (n - 1) t) = c_string ?t"
      by (rule takeWhile_append1) simp
    then show ?thesis by simp
  qed simp
  then show ?thesis
    by (simp add: vsnprintf_def memcpy_at_def c_string_NUL)
qed

lemma print_buffer_text:
  "case print_buffer malloc t k of None \<Rightarrow> out_of_memory malloc | Some b \<Rightarrow> c_string b = c_string t"
proof (induction malloc t k rule: print_buffer.induct)
  case (1 malloc t k)
  show ?case
  proof (cases "malloc_bytes malloc (16 * 2 ^ k)")
    case None
    then have "out_of_memory malloc" by (auto simp: malloc_bytes_def out_of_memory_def)
    with None show ?thesis by (subst print_buffer.simps) simp
  next
    case (Some b)
    let ?n = "16 * 2 ^ k :: nat"
    have "16 * 1 \<le> ?n" by (intro mult_le_mono2) simp
    then have n: "2 \<le> ?n" by simp
    show ?thesis
    proof (cases "vsnprintf (b[?n - 2 := NUL]) ?n t ! (?n - 2) = NUL")
      case True
      with c_string_vsnprintf [OF length_malloc_bytes [OF Some] n] Some show ?thesis
        by (subst print_buffer.simps) (simp add: Let_def)
    next
      case False
      with 1 [OF refl Some refl] Some show ?thesis
        by (subst print_buffer.simps) (simp add: Let_def)
    qed
  qed
qed

lemma sdscatvprintf_yields:
  assumes "sds_ok s" and "length (contents s) + strlen t < 2 ^ 30"
  shows "yields malloc (sdscatvprintf malloc s t) (contents s @ c_string t)"
proof (cases "print_buffer malloc t 0")
  case None
  then show ?thesis using print_buffer_text [of malloc t 0] by (simp add: sdscatvprintf_def yields_def)
next
  case (Some b)
  then have b: "c_string b = c_string t" using print_buffer_text [of malloc t 0] by simp
  then show ?thesis
    using sdscat_yields [of s b malloc] assms Some
    by (simp add: sdscatvprintf_def strlen_def)
qed


section \<open>Cutting\<close>

text \<open>The record after \<open>m\<close>, found behind \<open>x\<close> in the buffer, became the text.\<close>

definition cut_to :: "sdshdr \<Rightarrow> string \<Rightarrow> nat \<Rightarrow> sdshdr" where
  "cut_to s b len = s\<lparr>sds_buf := b[len := NUL],
     sds_free := int32 (sds_free s + int32 (sds_len s - int32 (int len))), sds_len := int32 (int len)\<rparr>"

lemma cut_to_layout:
  assumes "length c + length r < 2 ^ 31" and "length m \<le> length c"
    and "length b = length c + length r + 1" and "take (length m) b = m"
  obtains q where "cut_to (layout c r) b (length m) = layout m q"
    and "length m + length q = length c + length r"
proof -
  have n: "length m < length b" using assms(2,3) by simp
  define q where "q = drop (Suc (length m)) b"
  have b: "b = m @ b ! length m # q"
    using id_take_nth_drop [OF n] assms(4) by (simp add: q_def)
  have buf: "b[length m := NUL] = m @ NUL # q" by (subst b) simp
  have len: "length m + length q = length c + length r"
    using assms(2,3) by (simp add: q_def)
  have m: "int32 (int (length m)) = int (length m)" using assms(1,2) by (intro int32_nat) simp
  have "int (length r) + int32 (int (length c) - int (length m)) = int (length q)"
    using int32_diff [of "length c" "length m"] assms(1,2) len by simp
  moreover have "int32 (int (length q)) = int (length q)"
    using assms(1,2) len by (intro int32_nat) simp
  ultimately have "cut_to (layout c r) b (length m) = layout m q"
    by (intro layout_eqI) (simp_all add: cut_to_def m buf)
  then show thesis using that len by blast
qed

lemma sdstrim_cut: "sdstrim s cset =
  (let stop = int (sdslen s) - 1; sp = trim_sp cset (sds_buf s) 0 stop;
       ep = trim_ep cset (sds_buf s) stop; len = (if sp > ep then 0 else nat (ep - sp + 1))
   in cut_to s (if sp \<noteq> 0 then memcpy_at (sds_buf s) 0 (bytes_at (sds_buf s) (nat sp) len) else sds_buf s) len)"
  by (simp add: sdstrim_def cut_to_def Let_def)

text \<open>The text without the characters in \<open>P\<close> at its ends.\<close>

definition trimmed :: "(char \<Rightarrow> bool) \<Rightarrow> string \<Rightarrow> string" where
  "trimmed P t = dropWhile P (rev (dropWhile P (rev t)))"

lemma trimmed_parts:
  obtains (all) "\<forall>ch \<in> set t. P ch" "trimmed P t = []"
    | (some) x y where "t = x @ trimmed P t @ y" "\<forall>ch \<in> set x. P ch" "\<forall>ch \<in> set y. P ch"
        "trimmed P t \<noteq> []" "\<not> P (hd (trimmed P t))" "\<not> P (last (trimmed P t))"
proof -
  define u where "u = rev (dropWhile P (rev t))"
  define y where "y = rev (takeWhile P (rev t))"
  have t: "t = u @ y"
    unfolding u_def y_def by (metis rev_append rev_rev_ident takeWhile_dropWhile_id)
  have y: "\<forall>ch \<in> set y. P ch" unfolding y_def by (auto dest: set_takeWhileD)
  have m: "trimmed P t = dropWhile P u" by (simp add: trimmed_def u_def)
  show thesis
  proof (cases "dropWhile P u = []")
    case True
    then have "\<forall>ch \<in> set u. P ch" by simp
    then have "\<forall>ch \<in> set t. P ch" using y unfolding t by auto
    then show thesis using all True m by simp
  next
    case False
    have u: "u = takeWhile P u @ dropWhile P u" by simp
    have "rev u \<noteq> []" using False by auto
    then have "\<not> P (hd (dropWhile P (rev t)))" unfolding u_def by (intro hd_dropWhile) auto
    then have "\<not> P (last u)" using \<open>rev u \<noteq> []\<close> by (simp add: u_def last_rev)
    moreover have "last u = last (dropWhile P u)" using False u by (metis last_appendR)
    ultimately show thesis
      using some [of "takeWhile P u" y] False y hd_dropWhile [of P u] u
      unfolding m by (metis append.assoc set_takeWhileD t)
  qed
qed

lemma trim_sp_skip:
  assumes "\<forall>ch \<in> set x. strchr cset ch" and "d = [] \<or> \<not> strchr cset (hd d)"
  shows "trim_sp cset (a @ x @ d @ z) (int (length a)) (int (length a + length x + length d) - 1) =
    int (length a + length x)"
  using assms(1)
proof (induction x arbitrary: a)
  case Nil
  then show ?case using assms(2)
    by (cases d) (auto simp: trim_sp.simps nth_append)
next
  case (Cons ch x)
  show ?case
    using Cons.IH [of "a @ [ch]"] Cons.prems
    by (subst trim_sp.simps) (simp add: nth_append ac_simps)
qed

lemma trim_ep_skip:
  assumes "\<forall>ch \<in> set y. strchr cset ch" and "a = [] \<or> \<not> strchr cset e"
  shows "trim_ep cset (a @ e # y @ z) (int (length a + length y)) = int (length a)"
  using assms(1)
proof (induction y arbitrary: z rule: rev_induct)
  case Nil
  show ?case using assms(2) by (subst trim_ep.simps) (auto simp: nth_append)
next
  case (snoc ch y)
  let ?ep = "int (length a + length (y @ [ch]))" and ?b = "a @ e # (y @ [ch]) @ z"
  have "nat ?ep = length (a @ e # y)" by simp
  moreover have "?b = (a @ e # y) @ ch # z" by simp
  ultimately have "?b ! nat ?ep = ch" by (simp only: nth_append_length)
  then have c: "?ep > 0 \<and> strchr cset (?b ! nat ?ep)" using snoc.prems by simp
  have prev: "?ep - 1 = int (length a + length y)" by simp
  have "trim_ep cset ?b ?ep = trim_ep cset ?b (int (length a + length y))"
    using trim_ep.simps [of cset ?b ?ep] unfolding if_P [OF c] prev .
  then show ?case using snoc.IH [of "ch # z"] snoc.prems by simp
qed

lemma sdstrim_layout:
  assumes "length c + length r < 2 ^ 31"
  obtains q where "sdstrim (layout c r) cset = layout (trimmed (strchr cset) c) q"
    and "length (trimmed (strchr cset) c) + length q = length c + length r"
proof -
  let ?P = "strchr cset" and ?m = "trimmed (strchr cset) c"
  have len: "sdslen (layout c r) = length c" using assms by (simp add: sdslen_def)
  show thesis
  proof (cases rule: trimmed_parts [where t = c and P = ?P])
    case all
    let ?b = "if c = [] then c @ NUL # r else memcpy_at (c @ NUL # r) 0 []"
    have sp: "trim_sp cset (c @ NUL # r) 0 (int (length c) - 1) = int (length c)"
      using trim_sp_skip [of c cset "[]" "[]" "NUL # r"] all(1) by simp
    have "c \<noteq> [] \<Longrightarrow> trim_ep cset (c @ NUL # r) (int (length c) - 1) = 0"
      using trim_ep_skip [of "tl c" cset "[]" "hd c" "NUL # r"] all(1)
      by (cases c) simp_all
    moreover have "c = [] \<Longrightarrow> trim_ep cset (c @ NUL # r) (int (length c) - 1) = - 1"
      by (simp add: trim_ep.simps)
    ultimately have ep: "trim_ep cset (c @ NUL # r) (int (length c) - 1) < int (length c)"
      by (cases "c = []") simp_all
    obtain q where q: "cut_to (layout c r) ?b (length ?m) = layout ?m q" "length ?m + length q = length c + length r"
      by (rule cut_to_layout [OF assms, of ?m ?b]) (simp_all add: all(2) memcpy_at_def)
    have "sdstrim (layout c r) cset = cut_to (layout c r) ?b 0"
      unfolding sdstrim_cut Let_def len layout_simps sp using ep by simp
    then show thesis using that q all(2) by simp
  next
    case (some x y)
    define m where "m = ?m"
    note parts = some [folded m_def]
    obtain d where m: "m = butlast m @ [d]" "\<not> ?P d" using parts(4,6)
      by (metis append_butlast_last_id)
    have n: "length m = length (butlast m) + 1" using parts(4) by (cases m rule: rev_cases) simp_all
    have sp: "trim_sp cset (c @ NUL # r) 0 (int (length c) - 1) = int (length x)"
      using trim_sp_skip [of x cset "m @ y" "[]" "NUL # r"] parts(2,4,5) unfolding parts(1) by simp
    have "c @ NUL # r = (x @ butlast m) @ d # y @ NUL # r"
      unfolding parts(1) by (subst m(1)) simp
    moreover have "int (length c) - 1 = int (length (x @ butlast m) + length y)"
      using parts(4) by (subst parts(1)) (cases m rule: rev_cases; simp)
    ultimately have ep: "trim_ep cset (c @ NUL # r) (int (length c) - 1) = int (length x + length (butlast m))"
      using trim_ep_skip [OF parts(3), of "x @ butlast m" d "NUL # r"] m(2)
      by (simp add: add.assoc)
    have len': "nat (int (length x + length (butlast m)) - int (length x) + 1) = length m"
      using n by simp
    have move: "bytes_at (c @ NUL # r) (nat (int (length x))) (length m) = m"
      by (subst parts(1)) (simp add: bytes_at_def)
    let ?b = "if int (length x) \<noteq> 0 then memcpy_at (c @ NUL # r) 0 m else c @ NUL # r"
    have lc: "length c = length x + length m + length y" by (subst parts(1)) simp
    have b: "length ?b = length c + length r + 1" "take (length m) ?b = m"
      using lc parts(1) by (auto simp: memcpy_at_def)
    obtain q where q: "cut_to (layout c r) ?b (length m) = layout m q" "length m + length q = length c + length r"
      by (rule cut_to_layout [OF assms _ b]) (simp add: lc)
    have "sdstrim (layout c r) cset = cut_to (layout c r) ?b (length m)"
      unfolding sdstrim_cut Let_def len layout_simps sp ep len' using move by simp
    then show thesis using that q by (simp add: m_def)
  qed
qed


text \<open>
  \<open>sdsrange\<close> keeps the characters from \<open>first\<close> to \<open>stop\<close>, both included, where a negative index
  counts from the end and is cut at the beginning.
\<close>

definition clamp :: "nat \<Rightarrow> int \<Rightarrow> nat" where
  "clamp n i = nat (if i < 0 then max 0 (int n + i) else i)"

definition range_bounds :: "nat \<Rightarrow> int \<Rightarrow> int \<Rightarrow> int \<times> nat" where
  "range_bounds len first stop =
    (let newlen = (if first > stop then 0 else size_of_int (int32 (int32 (stop - first) + 1)))
     in if newlen \<noteq> 0
        then if first \<ge> int32 (int len) then (first, 0)
             else if stop \<ge> int32 (int len)
             then (let stop = int32 (int32 (int len) - 1)
                   in (first, if first > stop then 0 else size_of_int (int32 (int32 (stop - first) + 1))))
             else (first, newlen)
        else (0, newlen))"

lemma int32_span:
  assumes "f \<le> e" and "e < 2 ^ 31 - 1"
  shows "size_of_int (int32 (int32 (int e - int f) + 1)) = Suc e - f"
proof -
  have "int32 (int e - int f) = int e - int f" using assms by (intro int32_diff) simp_all
  moreover have "int e - int f + 1 = int (Suc e - f)" using assms(1) by (simp add: of_nat_diff)
  moreover have "Suc e - f < 2 ^ 31" using assms(2) by simp
  ultimately show ?thesis by (simp only: int32_nat size_of_int_id)
qed

lemma range_bounds:
  assumes "n < 2 ^ 31" and "e < 2 ^ 31 - 1"
  shows "range_bounds n (int f) (int e) =
    (if f \<le> e then int f else 0, if f \<le> e \<and> f < n then Suc (min e (n - 1)) - f else 0)"
proof -
  have "int32 (int n - 1) = int (n - 1)" if "f < n"
    using that assms(1) int32_diff [of n 1] by (simp add: of_nat_diff)
  then show ?thesis
    using assms int32_span [of f e] int32_span [of f "n - 1"]
    by (auto simp: range_bounds_def Let_def min_def)
qed

lemma clamp_first: "n < 2 ^ 31 \<Longrightarrow> - (2 ^ 31) \<le> i \<Longrightarrow> i < 2 ^ 31 \<Longrightarrow>
    (if i < 0 then if int32 (int32 (int n) + i) < 0 then 0 else int32 (int32 (int n) + i) else i) =
      int (clamp n i)"
  by (auto simp: clamp_def int32_id)

lemma sdsrange_cut:
  "sdsrange s first stop =
    (let len = sdslen s in if len = 0 then s
     else let (f, newlen) = range_bounds len
            (if first < 0 then (let i = int32 (int32 (int len) + first) in if i < 0 then 0 else i) else first)
            (if stop < 0 then (let i = int32 (int32 (int len) + stop) in if i < 0 then 0 else i) else stop)
          in cut_to s (if f \<noteq> 0 \<and> newlen \<noteq> 0 then memcpy_at (sds_buf s) 0 (bytes_at (sds_buf s) (nat f) newlen)
                       else sds_buf s) newlen)"
  unfolding sdsrange_def range_bounds_def cut_to_def Let_def by (simp split: prod.split)

lemma sdsrange_layout:
  assumes bound: "length c + length r < 2 ^ 31"
    and idx: "- (2 ^ 31) \<le> first" "first < 2 ^ 31" "- (2 ^ 31) \<le> stop" "stop < 2 ^ 31 - 1"
  obtains q where "sdsrange (layout c r) first stop =
      layout (bytes_at c (clamp (length c) first) (Suc (clamp (length c) stop) - clamp (length c) first)) q"
    and "length (bytes_at c (clamp (length c) first) (Suc (clamp (length c) stop) - clamp (length c) first)) +
      length q = length c + length r"
proof -
  have len: "sdslen (layout c r) = length c" using bound by (simp add: sdslen_def)
  have n: "length c < 2 ^ 31" using bound by simp
  define f e where "f = clamp (length c) first" and "e = clamp (length c) stop"
  define m where "m = bytes_at c f (Suc e - f)"
  show thesis
  proof (cases "c = []")
    case True
    have "sdsrange (layout c r) first stop = layout c r"
      unfolding sdsrange_cut len by (simp add: True)
    then show thesis using that [of r] by (simp add: True bytes_at_def)
  next
    case False
    have stop: "stop < 2 ^ 31" using idx(4) by simp
    have "e < 2 ^ 31 - 1" using idx(3,4) n by (auto simp: e_def clamp_def)
    note rb = range_bounds [OF n this, of f]
    let ?new = "if f \<le> e \<and> f < length c then Suc (min e (length c - 1)) - f else 0"
    have new: "?new = length m" by (auto simp: m_def bytes_at_def min_def)
    let ?f = "if f \<le> e then int f else 0"
    let ?b = "if ?f \<noteq> 0 \<and> length m \<noteq> 0 then memcpy_at (c @ NUL # r) 0 (bytes_at (c @ NUL # r) (nat ?f) (length m))
      else c @ NUL # r"
    have cut: "sdsrange (layout c r) first stop = cut_to (layout c r) ?b (length m)"
      unfolding sdsrange_cut Let_def len clamp_first [OF n idx(1,2)] clamp_first [OF n idx(3) stop]
      unfolding f_def [symmetric] e_def [symmetric] rb new using False by simp
    have m: "bytes_at (c @ NUL # r) f (length m) = m" if "length m \<noteq> 0"
      using that by (auto simp: m_def bytes_at_def min_def)
    have mc: "length m \<le> length c" by (simp add: m_def bytes_at_def)
    have fm: "length m \<noteq> 0 \<Longrightarrow> f + length m \<le> length c" by (auto simp: m_def bytes_at_def min_def)
    have "take (length m) c = m" if "f = 0 \<or> length m = 0"
      using that by (auto simp: m_def bytes_at_def min_def)
    moreover have "length m = 0" if "\<not> f \<le> e" using that by (simp add: m_def)
    ultimately have b: "length ?b = length c + length r + 1" "take (length m) ?b = m"
      using m mc fm by (auto simp: memcpy_at_def)
    obtain q where q: "cut_to (layout c r) ?b (length m) = layout m q" "length m + length q = length c + length r"
      by (rule cut_to_layout [OF bound _ b]) (simp add: m_def bytes_at_def)
    then show thesis using that cut by (simp add: m_def f_def e_def)
  qed
qed


section \<open>Case and comparison\<close>

lemma case_layout:
  assumes "length c + length r < 2 ^ 31"
  shows "sdstolower (layout c r) = layout (map tolower c) r"
    and "sdstoupper (layout c r) = layout (map toupper c) r"
  using assms
  by (simp_all add: sdstolower_def sdstoupper_def sdslen_def bytes_at_def memcpy_at_def layout_def)

abbreviation code_less :: "(char \<times> char) set" where
  "code_less \<equiv> {(a, b). code a < code b}"

lemma memcmp_prefix:
  "memcmp (as @ NUL # r) (bs @ NUL # q) (min (length as) (length bs)) < 0 \<longleftrightarrow>
     (take (length bs) as, take (length as) bs) \<in> lexord code_less"
  "memcmp (as @ NUL # r) (bs @ NUL # q) (min (length as) (length bs)) = 0 \<longleftrightarrow>
     take (length bs) as = take (length as) bs"
proof (induction as arbitrary: bs)
  case (Cons a as)
  { case 1 show ?case using Cons.IH(1) by (cases bs) auto }
  { case 2 show ?case using Cons.IH(2) by (cases bs) auto }
qed auto

lemma lexord_by_prefix:
  "(as, bs) \<in> lexord code_less \<longleftrightarrow>
     (take (length bs) as, take (length as) bs) \<in> lexord code_less \<or>
     (take (length bs) as = take (length as) bs \<and> length as < length bs)"
proof (induction as arbitrary: bs)
  case (Cons a as)
  show ?case using Cons.IH by (cases bs) auto
qed (auto simp: neq_Nil_conv)

lemma sdscmp_layout:
  assumes "length c + length r < 2 ^ 31" and "length d + length q < 2 ^ 31"
  shows "sdscmp (layout c r) (layout d q) < 0 \<longleftrightarrow> (c, d) \<in> lexord code_less"
    and "sdscmp (layout c r) (layout d q) = 0 \<longleftrightarrow> c = d"
proof -
  let ?cmp = "memcmp (c @ NUL # r) (d @ NUL # q) (min (length c) (length d))"
  have len: "sdslen (layout c r) = length c" "sdslen (layout d q) = length d"
    using assms by (simp_all add: sdslen_def)
  have cmp: "sdscmp (layout c r) (layout d q) = (if ?cmp = 0 then int (length c) - int (length d) else ?cmp)"
    using assms int32_diff [of "length c" "length d"]
    unfolding sdscmp_def len Let_def by (simp add: min_def)
  show "sdscmp (layout c r) (layout d q) < 0 \<longleftrightarrow> (c, d) \<in> lexord code_less"
    using memcmp_prefix [of c r d q] lexord_by_prefix [of c d] unfolding cmp by auto
  have "c = d \<longleftrightarrow> take (length d) c = take (length c) d \<and> length c = length d" by auto
  then show "sdscmp (layout c r) (layout d q) = 0 \<longleftrightarrow> c = d"
    using memcmp_prefix(2) [of c r d q] unfolding cmp by auto
qed

end
