(* ===== verification/SdsSplit.thy ===== *)
theory SdsSplit
  imports SdsText "HOL-Library.Sublist"
begin

text \<open>
  \<open>sdssplitlen\<close> against a reference definition of splitting a text at the leftmost occurrences of a
  separator, and the decimal text of \<open>sdsfromlonglong\<close>.
\<close>

section \<open>Fields of a text\<close>

function fields :: "string \<Rightarrow> string \<Rightarrow> string list" where
  "fields sep [] = [[]]"
| "fields sep (ch # t) =
     (if sep \<noteq> [] \<and> take (length sep) (ch # t) = sep then [] # fields sep (drop (length sep) (ch # t))
      else case fields sep t of [] \<Rightarrow> [] | f # fs \<Rightarrow> (ch # f) # fs)"
  by pat_completeness auto
termination
proof (relation "measure (\<lambda>(sep, t). length t)", goal_cases)
  case (2 sep ch t)
  then show ?case by (cases sep) auto
qed simp_all

fun joined :: "string \<Rightarrow> string list \<Rightarrow> string" where
  "joined sep [] = []"
| "joined sep [f] = f"
| "joined sep (f # g # fs) = f @ sep @ joined sep (g # fs)"

lemma fields_nonempty [simp]: "fields sep t \<noteq> []"
  by (induction sep t rule: fields.induct) (auto split: list.splits)

lemma joined_Cons: "fs \<noteq> [] \<Longrightarrow> joined sep (f # fs) = f @ sep @ joined sep fs"
  by (cases fs) simp_all

lemma joined_hd: "joined sep ((x # f) # fs) = x # joined sep (f # fs)"
  by (cases fs) simp_all

lemma joined_fields: "joined sep (fields sep t) = t"
proof (induction sep t rule: fields.induct)
  case (2 sep ch t)
  show ?case
  proof (cases "sep \<noteq> [] \<and> take (length sep) (ch # t) = sep")
    case True
    then have "ch # t = sep @ drop (length sep) (ch # t)" by (metis append_take_drop_id)
    then show ?thesis using 2(1) [OF True] True by (simp add: joined_Cons)
  next
    case False
    obtain f fs where f: "fields sep t = f # fs" by (cases "fields sep t") simp_all
    then show ?thesis using 2(2) [OF False] False by (auto simp: joined_hd)
  qed
qed simp

lemma prefix_joined: "prefix f (joined sep (f # fs))"
  by (cases fs) simp_all

lemma fields_free: "sep \<noteq> [] \<Longrightarrow> f \<in> set (fields sep t) \<Longrightarrow> \<not> sublist sep f"
proof (induction sep t arbitrary: f rule: fields.induct)
  case (1 sep)
  then show ?case by simp
next
  case (2 sep ch t)
  show ?case
  proof (cases "sep \<noteq> [] \<and> take (length sep) (ch # t) = sep")
    case True
    then show ?thesis using 2(1) [OF True] 2(3,4) by auto
  next
    case False
    obtain g gs where g: "fields sep t = g # gs" by (cases "fields sep t") simp_all
    show ?thesis
    proof (cases "f = ch # g")
      case True
      have "prefix g t" using prefix_joined [of g sep gs] g joined_fields [of sep t] by simp
      then have "prefix f (ch # t)" using True by simp
      moreover have "\<not> prefix sep (ch # t)"
        using False 2(3) by (metis append_eq_conv_conj prefix_def)
      ultimately have "\<not> prefix sep f" by (meson prefix_order.trans)
      then show ?thesis using 2(2) [OF False 2(3), of g] g True
        by (simp add: sublist_Cons_right)
    next
      case False2: False
      then have "f \<in> set (fields sep t)" using 2(4) False g by auto
      then show ?thesis using 2(2) [OF False 2(3)] by simp
    qed
  qed
qed

lemma fields_short: "length t < length sep \<Longrightarrow> fields sep t = [t]"
  by (induction t) auto


section \<open>The loop\<close>

lemma fields_at:
  assumes "sep \<noteq> []" and "j < length t"
  shows "bytes_at t j (length sep) = sep \<Longrightarrow> fields sep (drop j t) = [] # fields sep (drop (j + length sep) t)"
    and "bytes_at t j (length sep) \<noteq> sep \<Longrightarrow> fields sep (drop (Suc j) t) = f # fs \<Longrightarrow>
      fields sep (drop j t) = (t ! j # f) # fs"
proof -
  have d: "drop j t = t ! j # drop (Suc j) t" using assms(2) by (simp add: Cons_nth_drop_Suc)
  show "bytes_at t j (length sep) = sep \<Longrightarrow> fields sep (drop j t) = [] # fields sep (drop (j + length sep) t)"
    using assms(1) by (subst d, subst fields.simps)
      (simp add: bytes_at_def d [symmetric] add.commute del: fields.simps)
  show "bytes_at t j (length sep) \<noteq> sep \<Longrightarrow> fields sep (drop (Suc j) t) = f # fs \<Longrightarrow>
      fields sep (drop j t) = (t ! j # f) # fs"
    by (subst d, subst fields.simps) (simp add: bytes_at_def d [symmetric])
qed

lemma split_loop_fields:
  assumes "sep \<noteq> []" and "start \<le> j" and "j \<le> length t" and "length t < 2 ^ 31"
    and "\<forall>tok \<in> set tokens. sds_ok tok" and "fields sep (drop j t) = f # fs"
  shows "case split_loop malloc grow t (length t) sep tokens slots start j of
      None \<Rightarrow> out_of_memory malloc \<or> (\<exists>n. \<not> grow n)
    | Some (ts, st) \<Rightarrow> st \<le> length t \<and> (\<forall>tok \<in> set ts. sds_ok tok) \<and>
        map contents ts @ [drop st t] = map contents tokens @ (bytes_at t start (j - start) @ f) # fs"
  using assms
proof (induction malloc grow t "length t" sep tokens slots start j arbitrary: f fs rule: split_loop.induct)
  case (1 malloc grow t sep tokens slots start j)
  show ?case
  proof (cases "j + (length sep - 1) < length t")
    case False
    then have "length (drop j t) < length sep" using 1(3) by (cases sep) auto
    then have "f = drop j t" "fs = []" using fields_short 1(8) by auto
    moreover have "bytes_at t start (j - start) @ drop j t = drop start t"
      using 1(4) by (simp add: bytes_at_def) (metis append_take_drop_id drop_drop le_add_diff_inverse2)
    ultimately show ?thesis using False 1(4,5,7) by (subst split_loop.simps) simp
  next
    case True
    then have j: "j < length t" and jl: "j + length sep \<le> length t" using 1(3) by (cases sep; simp)+
    obtain g gs where next_fields: "fields sep (drop (j + length sep) t) = g # gs"
      by (cases "fields sep (drop (j + length sep) t)") simp_all
    obtain h hs where next_char: "fields sep (drop (Suc j) t) = h # hs"
      by (cases "fields sep (drop (Suc j) t)") simp_all
    let ?slots = "if slots < length tokens + 2 then if grow (slots * 2) then Some (slots * 2) else None else Some slots"
    show ?thesis
    proof (cases ?slots)
      case None
      then show ?thesis using True 1(3) by (subst split_loop.simps) (auto split: if_splits)
    next
      case (Some slots')
      show ?thesis
      proof (cases "bytes_at t j (length sep) = sep")
        case match: True
        have field: "f = []" "fs = g # gs"
          using fields_at(1) [OF 1(3) j match] next_fields 1(8) by simp_all
        have tok: "yields malloc (sdsnewlen malloc (Some (drop start t)) (j - start)) (bytes_at t start (j - start))"
          unfolding bytes_at_def using 1(4-6) by (intro sdsnewlen_yields) simp_all
        show ?thesis
        proof (cases "sdsnewlen malloc (Some (drop start t)) (j - start)")
          case None
          then show ?thesis using tok True 1(3) Some match
            by (subst split_loop.simps) (simp add: yields_def)
        next
          case (Some tok')
          then have "sds_ok tok'" "contents tok' = bytes_at t start (j - start)"
            using tok by (simp_all add: yields_def)
          then show ?thesis
            using 1(1) [OF _ \<open>?slots = Some slots'\<close> match Some 1(3) order_refl _ 1(6) _ next_fields]
              True jl 1(3,5,7) field Some match \<open>?slots = Some slots'\<close>
            by (subst split_loop.simps) (auto simp: bytes_at_def split: option.splits)
        qed
      next
        case nomatch: False
        have field: "f = t ! j # h" "fs = hs"
          using fields_at(2) [OF 1(3) j nomatch next_char] 1(8) by simp_all
        have "bytes_at t start (Suc j - start) = bytes_at t start (j - start) @ [t ! j]"
          using 1(4) j by (simp add: bytes_at_def Suc_diff_le take_Suc_conv_app_nth)
        then show ?thesis
          using 1(2) [OF _ Some nomatch 1(3) _ _ 1(6,7)] next_char True 1(3,4) j field Some nomatch
          by (subst split_loop.simps) (auto split: option.splits)
      qed
    qed
  qed
qed


definition split_yields :: "allocator \<Rightarrow> (nat \<Rightarrow> bool) \<Rightarrow> sdshdr list option \<Rightarrow> string list \<Rightarrow> bool" where
  "split_yields malloc grow res fs \<longleftrightarrow>
     (case res of None \<Rightarrow> out_of_memory malloc \<or> (\<exists>n. \<not> grow n)
      | Some ts \<Rightarrow> (\<forall>tok \<in> set ts. sds_ok tok) \<and> map contents ts = fs)"

lemma sdssplitlen_fields:
  assumes "sep \<noteq> []" and "t \<noteq> []" and "length t < 2 ^ 31"
  shows "split_yields malloc grow (sdssplitlen malloc grow t (length t) sep) (fields sep t)"
proof -
  obtain f fs where f: "fields sep t = f # fs" by (cases "fields sep t") simp_all
  have loop: "case split_loop malloc grow t (length t) sep [] 5 0 0 of
      None \<Rightarrow> out_of_memory malloc \<or> (\<exists>n. \<not> grow n)
    | Some (ts, st) \<Rightarrow> st \<le> length t \<and> (\<forall>tok \<in> set ts. sds_ok tok) \<and>
        map contents ts @ [drop st t] = map contents [] @ (bytes_at t 0 (0 - 0) @ f) # fs"
    by (rule split_loop_fields) (use assms f in auto)
  show ?thesis
  proof (cases "split_loop malloc grow t (length t) sep [] 5 0 0")
    case None
    then show ?thesis using loop assms(1,2) by (auto simp: sdssplitlen_def split_yields_def)
  next
    case (Some res)
    obtain ts st where res: "res = (ts, st)" by (cases res)
    have "yields malloc (sdsnewlen malloc (Some (drop st t)) (length t - st)) (take (length t - st) (drop st t))"
      using assms(3) by (intro sdsnewlen_yields) simp_all
    then show ?thesis
      using loop Some res assms f
      by (auto simp: sdssplitlen_def split_yields_def yields_def split: option.splits)
  qed
qed

section \<open>Decimal numbers\<close>

definition decimal_value :: "string \<Rightarrow> int" where
  "decimal_value t = foldl (\<lambda>v ch. 10 * v + (int (code ch) - 48)) 0 t"

fun signed_decimal_value :: "string \<Rightarrow> int" where
  "signed_decimal_value t =
     (case t of CHR ''-'' # u \<Rightarrow> - decimal_value u | _ \<Rightarrow> decimal_value t)"

definition is_digit :: "char \<Rightarrow> bool" where
  "is_digit ch = (48 \<le> code ch \<and> code ch \<le> 57)"

lemma decimal_value_snoc: "decimal_value (ds @ [ch]) = 10 * decimal_value ds + (int (code ch) - 48)"
  by (simp add: decimal_value_def)

lemma digits_back_value:
  "\<exists>ds. digits_back v acc = ds @ acc \<and> ds \<noteq> [] \<and> (\<forall>ch \<in> set ds. is_digit ch) \<and>
     decimal_value ds = uint v \<and> (hd ds = CHR ''0'' \<longrightarrow> ds = ''0'') \<and> 10 ^ length ds \<le> 10 * max 1 (uint v)"
proof (induction v acc rule: digits_back.induct)
  case (1 v acc)
  define d where "d = (char_of (48 + unat (v mod 10)) :: char)"
  have m: "uint (v mod 10) = uint v mod 10" and q: "uint (v div 10) = uint v div 10"
    by (simp_all add: uint_mod uint_div)
  have n: "unat (v mod 10) = nat (uint v mod 10)" unfolding m [symmetric] by simp
  then have "unat (v mod 10) < 10" by simp
  then have d: "code d = 48 + nat (uint v mod 10)" unfolding d_def n by simp
  then have dig: "is_digit d" by (simp add: is_digit_def nat_less_iff)
  have v: "uint v = 10 * uint (v div 10) + (int (code d) - 48)"
    unfolding d q by simp
  show ?case
  proof (cases "v div 10 = 0")
    case True
    then have "digits_back v acc = [d] @ acc"
      by (subst digits_back.simps) (simp add: d_def)
    moreover have "decimal_value [d] = uint v" using v True by (simp add: decimal_value_def)
    moreover have "d = CHR ''0'' \<Longrightarrow> [d] = ''0''" by simp
    ultimately show ?thesis using dig by (intro exI [of _ "[d]"]) simp_all
  next
    case False
    obtain ds where ds: "digits_back (v div 10) (d # acc) = ds @ d # acc" "ds \<noteq> []"
        "\<forall>ch \<in> set ds. is_digit ch" "decimal_value ds = uint (v div 10)" "hd ds = CHR ''0'' \<longrightarrow> ds = ''0''"
        "10 ^ length ds \<le> 10 * max 1 (uint (v div 10))"
      using 1 [OF refl False] unfolding d_def by blast
    have nz: "uint (v div 10) \<noteq> 0" using False by (simp only: uint_0_iff not_False_eq_True)
    then have pos: "1 \<le> uint v div 10" unfolding q using uint_ge_0 [of "v div 10"] unfolding q by linarith
    then have len: "10 ^ length (ds @ [d]) \<le> 10 * max 1 (uint v)" using ds(6) unfolding q by simp
    have "hd ds \<noteq> CHR ''0''" using ds(4,5) nz by (auto simp: decimal_value_def)
    moreover have "digits_back v acc = (ds @ [d]) @ acc"
      using False ds(1) by (subst digits_back.simps) (simp add: d_def)
    ultimately show ?thesis
      using ds(2-4) dig v len by (intro exI [of _ "ds @ [d]"]) (auto simp: decimal_value_snoc)
  qed
qed

lemma signed_decimal_digits: "\<forall>ch \<in> set ds. is_digit ch \<Longrightarrow> signed_decimal_value ds = decimal_value ds"
  by (cases ds) (auto simp: is_digit_def split: char.splits bool.splits)

text \<open>At most twenty digits, so the 32 bytes of \<open>buf\<close> hold the number and its sign.\<close>

lemma sdsfromlonglong_yields:
  assumes "- (2 ^ 63) \<le> value" and "value < 2 ^ 63"
  obtains p where "yields malloc (sdsfromlonglong malloc value) p" and "signed_decimal_value p = value"
    and "length p \<le> 21"
proof -
  define v :: u64 where "v = (if value < 0 then - word_of_int value else word_of_int value)"
  have "uint v = \<bar>value\<bar>"
  proof (cases "value < 0")
    case True
    then have "v = word_of_int (- value)" by (simp add: v_def)
    then have "uint v = - value mod 2 ^ 64" by (simp only: uint_word_of_int) simp
    then show ?thesis using True assms(1) by simp
  next
    case False
    then show ?thesis using assms(2) by (simp add: v_def uint_word_of_int)
  qed
  obtain ds where ds: "digits_back v [] = ds" "ds \<noteq> []" "\<forall>ch \<in> set ds. is_digit ch"
      "decimal_value ds = uint v" "10 ^ length ds \<le> 10 * max 1 (uint v)"
    using digits_back_value [of v "[]"] by auto
  have "uint v < 2 ^ 64" using uint_lt2p [of v] by simp
  then have "(10 :: int) ^ length ds < 10 ^ 21" using ds(5) by simp
  then have len: "length ds < 21" by (rule power_less_imp_less_exp [rotated]) simp
  let ?p = "if value < 0 then CHR ''-'' # ds else ds"
  have "sdsfromlonglong malloc value = sdsnewlen malloc (Some ?p) (length ?p)"
    unfolding sdsfromlonglong_def Let_def v_def [symmetric] ds(1) by simp
  moreover have "yields malloc (sdsnewlen malloc (Some ?p) (length ?p)) (take (length ?p) ?p)"
    using len by (intro sdsnewlen_yields) simp_all
  moreover have "signed_decimal_value ?p = value"
    using ds(3,4) \<open>uint v = \<bar>value\<bar>\<close> by (simp add: signed_decimal_digits del: signed_decimal_value.simps)
      (simp add: signed_decimal_value.simps)
  ultimately show thesis using that [of ?p] len by simp
qed

end
