(* ===== verification/SdsArgs.thy ===== *)
theory SdsArgs
  imports SdsSplit
begin

text \<open>
  Quoting with \<open>sdscatrepr\<close> and splitting a line with \<open>sdssplitargs\<close>. Appending piece by piece is the
  interface \<open>text_builder\<close>: what a client that folds over its pieces may rely on, whatever call appends
  each of them.
\<close>

section \<open>Appending pieces\<close>

fun add_all :: "('s \<Rightarrow> 'e \<Rightarrow> 's option) \<Rightarrow> 's \<Rightarrow> 'e list \<Rightarrow> 's option" where
  "add_all add s [] = Some s"
| "add_all add s (e # es) = (case add s e of None \<Rightarrow> None | Some s \<Rightarrow> add_all add s es)"

locale text_builder =
  fixes good :: "'s \<Rightarrow> bool" and shown :: "'s \<Rightarrow> string" and limit :: nat and lost :: bool
    and piece :: "'e \<Rightarrow> string" and add :: "'s \<Rightarrow> 'e \<Rightarrow> 's option"
  assumes add_some: "good s \<Longrightarrow> length (shown s) + length (piece e) < limit \<Longrightarrow> add s e = Some s' \<Longrightarrow>
      good s' \<and> shown s' = shown s @ piece e"
    and add_none: "good s \<Longrightarrow> length (shown s) + length (piece e) < limit \<Longrightarrow> add s e = None \<Longrightarrow> lost"
begin

lemma add_all_some:
  "good s \<Longrightarrow> length (shown s) + length (concat (map piece es)) < limit \<Longrightarrow>
   add_all add s es = Some s' \<Longrightarrow> good s' \<and> shown s' = shown s @ concat (map piece es)"
proof (induction es arbitrary: s)
  case (Cons e es)
  obtain t where t: "add s e = Some t" using Cons.prems(3) by (auto split: option.splits)
  then have "good t \<and> shown t = shown s @ piece e" using Cons.prems(1,2) by (intro add_some) simp_all
  then show ?case using Cons.IH [of t] Cons.prems(2,3) t by simp
qed simp

lemma add_all_none:
  "good s \<Longrightarrow> length (shown s) + length (concat (map piece es)) < limit \<Longrightarrow>
   add_all add s es = None \<Longrightarrow> lost"
proof (induction es arbitrary: s)
  case (Cons e es)
  show ?case
  proof (cases "add s e")
    case None
    then show ?thesis using add_none [OF Cons.prems(1) _ None] Cons.prems(2) by simp
  next
    case (Some t)
    then have "good t \<and> shown t = shown s @ piece e" using Cons.prems(1,2) by (intro add_some) simp_all
    then show ?thesis using Cons.IH [of t] Cons.prems(2,3) Some by simp
  qed
qed simp

end

section \<open>Quoting\<close>

definition add_repr :: "allocator \<Rightarrow> sdshdr \<Rightarrow> char \<Rightarrow> sdshdr option" where
  "add_repr malloc s ch =
     (if repr_escape ch then sdscatlen malloc s (repr_char ch) 2 else sdscatvprintf malloc s (repr_char ch))"

lemma catrepr_loop_add_all: "catrepr_loop malloc s p = add_all (add_repr malloc) s p"
  by (induction malloc s p rule: catrepr_loop.induct) (auto simp: add_repr_def split: option.splits)

lemma hex_digit_not_nul: "n < 16 \<Longrightarrow> (''0123456789'' @ ''abcdef'') ! n \<noteq> NUL"
proof -
  assume "n < 16"
  then have "(''0123456789'' @ ''abcdef'') ! n \<in> set (''0123456789'' @ ''abcdef'')" by (intro nth_mem) simp
  then show ?thesis by auto
qed

lemma code_div_16: "code ch div 16 < 16" "code ch mod 16 < 16"
  using code_less_256 [of ch] by linarith+

lemma c_string_repr: "c_string (repr_char ch) = repr_char ch"
proof -
  define h l where "h = (''0123456789'' @ ''abcdef'') ! (code ch div 16)"
    and "l = (''0123456789'' @ ''abcdef'') ! (code ch mod 16)"
  have hl: "h \<noteq> NUL" "l \<noteq> NUL"
    unfolding h_def l_def by (rule hex_digit_not_nul [OF code_div_16(1)], rule hex_digit_not_nul [OF code_div_16(2)])
  have "isprint ch \<Longrightarrow> ch \<noteq> NUL" by (auto simp: isprint_def)
  with hl show ?thesis
    unfolding repr_char_def h_def [symmetric] l_def [symmetric] by simp
qed

lemma length_repr_char: "length (repr_char ch) \<le> 4" "repr_escape ch \<Longrightarrow> length (repr_char ch) = 2"
  by (auto simp: repr_char_def repr_escape_def)

lemma add_repr_yields:
  assumes "sds_ok s" and "length (contents s) + length (repr_char ch) < 2 ^ 30"
  shows "yields malloc (add_repr malloc s ch) (contents s @ repr_char ch)"
proof (cases "repr_escape ch")
  case True
  then show ?thesis
    using sdscatlen_yields [OF assms(1), of 2 "repr_char ch" malloc] length_repr_char(2) assms(2)
    by (simp add: add_repr_def)
next
  case False
  have "strlen (repr_char ch) = length (repr_char ch)" by (simp add: strlen_def c_string_repr)
  then show ?thesis
    using sdscatvprintf_yields [OF assms(1), of "repr_char ch" malloc] False assms(2)
    by (simp add: add_repr_def c_string_repr)
qed

interpretation repr: text_builder sds_ok contents "2 ^ 30" "out_of_memory malloc" repr_char "add_repr malloc"
  for malloc
proof
  fix s e s'
  assume "sds_ok s" "length (contents s) + length (repr_char e) < 2 ^ 30"
  then have y: "yields malloc (add_repr malloc s e) (contents s @ repr_char e)" by (rule add_repr_yields)
  show "add_repr malloc s e = Some s' \<Longrightarrow> sds_ok s' \<and> contents s' = contents s @ repr_char e"
    using y by (simp add: yields_def)
  show "add_repr malloc s e = None \<Longrightarrow> out_of_memory malloc"
    using y by (simp add: yields_def)
qed

definition quoted :: "string \<Rightarrow> string" where
  "quoted t = DQUOTE # concat (map repr_char t) @ [DQUOTE]"

lemma sdscatrepr_yields:
  assumes "sds_ok s" and "length (contents s) + length (quoted (take n p)) < 2 ^ 30"
  shows "yields malloc (sdscatrepr malloc s p n) (contents s @ quoted (take n p))"
proof -
  note q = sdscatlen_yields [where t = "[DQUOTE]" and n = 1 and malloc = malloc]
  show ?thesis
  proof (cases "sdscatlen malloc s [DQUOTE] 1")
    case None
    then show ?thesis using q [OF assms(1)] assms(2) by (simp add: sdscatrepr_def yields_def quoted_def)
  next
    case (Some s1)
    then have s1: "sds_ok s1" "contents s1 = contents s @ [DQUOTE]"
      using q [OF assms(1)] assms(2) by (simp_all add: yields_def quoted_def)
    have room: "length (contents s1) + length (concat (map repr_char (take n p))) < 2 ^ 30"
      using s1(2) assms(2) by (simp add: quoted_def)
    show ?thesis
    proof (cases "catrepr_loop malloc s1 (take n p)")
      case None
      then show ?thesis using repr.add_all_none [OF s1(1) room] Some
        by (simp add: sdscatrepr_def yields_def catrepr_loop_add_all)
    next
      case (Some s2)
      then have s2: "sds_ok s2" "contents s2 = contents s1 @ concat (map repr_char (take n p))"
        using repr.add_all_some [OF s1(1) room] by (simp_all add: catrepr_loop_add_all)
      then show ?thesis
        using q [OF s2(1)] \<open>sdscatlen malloc s [DQUOTE] 1 = Some s1\<close> Some s1(2) assms(2)
        by (simp add: sdscatrepr_def quoted_def)
    qed
  qed
qed


section \<open>Splitting a quoted line\<close>

definition parses_back :: "char \<Rightarrow> bool" where
  "parses_back ch = (isprint ch \<or> repr_escape ch)"

lemma repr_char_cases:
  "parses_back ch \<Longrightarrow>
   (\<exists>e. repr_char ch = [BACKSLASH, e] \<and> e \<noteq> NUL \<and> unescape_char e = ch) \<or>
   (repr_char ch = [ch] \<and> ch \<noteq> BACKSLASH \<and> ch \<noteq> DQUOTE \<and> ch \<noteq> NUL)"
  by (cases "ch = NUL")
    (simp_all add: parses_back_def repr_escape_def repr_char_def unescape_char_def isprint_def, blast?)

lemma token_char:
  assumes "parses_back ch"
  shows "args_token malloc (repr_char ch @ q) True cur =
    (case sdscatlen malloc cur [ch] 1 of None \<Rightarrow> None | Some cur \<Rightarrow> args_token malloc q True cur)"
proof -
  consider (escaped) e where "repr_char ch = [BACKSLASH, e]" "e \<noteq> NUL" "unescape_char e = ch"
    | (plain) "repr_char ch = [ch]" "ch \<noteq> BACKSLASH" "ch \<noteq> DQUOTE" "ch \<noteq> NUL"
    using repr_char_cases [OF assms] by blast
  then show ?thesis
  proof cases
    case escaped
    then show ?thesis
      by (subst args_token.simps) (auto simp: args_step_def peek_def Let_def split: option.split)
  next
    case plain
    then show ?thesis
      by (subst args_token.simps) (auto simp: args_step_def peek_def Let_def split: option.split)
  qed
qed

lemma token_quoted:
  assumes "\<forall>ch \<in> set t. parses_back ch" and "q = [] \<or> isspace (hd q)" and "sds_ok cur"
    and "length (contents cur) + length t < 2 ^ 30"
  shows "case args_token malloc (concat (map repr_char t) @ DQUOTE # q) True cur of
      None \<Rightarrow> out_of_memory malloc
    | Some (p, tok) \<Rightarrow> p = q \<and> sds_ok tok \<and> contents tok = contents cur @ t"
  using assms
proof (induction t arbitrary: cur)
  case Nil
  then show ?case
    by (subst args_token.simps) (cases q; auto simp: args_step_def peek_def)
next
  case (Cons ch t)
  have y: "yields malloc (sdscatlen malloc cur [ch] 1) (contents cur @ [ch])"
    using sdscatlen_yields [of cur 1 "[ch]" malloc] Cons.prems by simp
  have eq: "args_token malloc (concat (map repr_char (ch # t)) @ DQUOTE # q) True cur =
      (case sdscatlen malloc cur [ch] 1 of None \<Rightarrow> None
       | Some cur \<Rightarrow> args_token malloc (concat (map repr_char t) @ DQUOTE # q) True cur)"
    using token_char [of ch malloc "concat (map repr_char t) @ DQUOTE # q" cur] Cons.prems(1) by simp
  show ?case
  proof (cases "sdscatlen malloc cur [ch] 1")
    case None
    then show ?thesis using y unfolding eq by (simp add: yields_def)
  next
    case (Some cur')
    then have c: "sds_ok cur'" "contents cur' = contents cur @ [ch]" using y by (simp_all add: yields_def)
    have "case args_token malloc (concat (map repr_char t) @ DQUOTE # q) True cur' of
      None \<Rightarrow> out_of_memory malloc
    | Some (p, tok) \<Rightarrow> p = q \<and> sds_ok tok \<and> contents tok = contents cur' @ t"
      by (rule Cons.IH) (use Cons.prems c in auto)
    then show ?thesis unfolding eq Some c(2) by (auto split: option.splits)
  qed
qed

lemma token_opened:
  assumes "\<forall>ch \<in> set t. parses_back ch" and "q = [] \<or> isspace (hd q)" and "length t < 2 ^ 30"
    and "sds_ok cur" and "contents cur = []"
  shows "case args_token malloc (quoted t @ q) False cur of
      None \<Rightarrow> out_of_memory malloc
    | Some (p, tok) \<Rightarrow> p = q \<and> sds_ok tok \<and> contents tok = t"
proof -
  have "args_token malloc (quoted t @ q) False cur =
      args_token malloc (concat (map repr_char t) @ DQUOTE # q) True cur"
    by (subst args_token.simps) (simp add: args_step_def peek_def quoted_def)
  then show ?thesis using token_quoted [OF assms(1,2,4), of malloc] assms(3,5) by (auto split: option.splits)
qed

lemma args_loop_quoted:
  assumes "\<forall>t \<in> set ts. (\<forall>ch \<in> set t. parses_back ch) \<and> length t < 2 ^ 30"
    and "\<forall>tok \<in> set vector. sds_ok tok"
    and "p = joined '' '' (map quoted ts) \<or> p = CHR '' '' # joined '' '' (map quoted ts)"
  shows "split_yields malloc grow (args_loop malloc grow p vector) (map contents vector @ ts)"
  using assms
proof (induction ts arbitrary: vector p)
  case Nil
  then show ?case
    by (subst args_loop.simps) (auto simp: Let_def peek_def isspace_def split_yields_def)
next
  case (Cons t ts)
  define q where "q = (if ts = [] then [] else CHR '' '' # joined '' '' (map quoted ts))"
  have "joined '' '' (map quoted (t # ts)) = quoted t @ q"
    by (cases ts) (simp_all add: q_def)
  then have "p = quoted t @ q \<or> p = CHR '' '' # quoted t @ q" using Cons.prems(3) by simp
  then have skip: "dropWhile (\<lambda>c. c \<noteq> NUL \<and> isspace c) p = quoted t @ q"
    by (elim disjE) (simp_all add: isspace_def quoted_def)
  have peek: "peek (quoted t @ q) \<noteq> NUL" by (simp add: peek_def quoted_def)
  have empty: "yields malloc (sdsempty malloc) []"
    using sdsnewlen_yields [of 0 "[]" malloc] by (simp add: sdsempty_def)
  show ?case
  proof (cases "sdsempty malloc")
    case None
    then show ?thesis using empty
      by (subst args_loop.simps) (simp add: skip peek yields_def split_yields_def)
  next
    case (Some cur)
    have tok: "case args_token malloc (quoted t @ q) False cur of
        None \<Rightarrow> out_of_memory malloc
      | Some (p, tok) \<Rightarrow> p = q \<and> sds_ok tok \<and> contents tok = t"
      by (rule token_opened) (use Cons.prems(1) empty Some in \<open>auto simp: yields_def q_def isspace_def\<close>)
    show ?thesis
    proof (cases "args_token malloc (quoted t @ q) False cur")
      case None
      then show ?thesis using tok Some
        by (subst args_loop.simps) (simp add: skip peek split_yields_def)
    next
      case (Some res)
      then obtain tk where res: "args_token malloc (quoted t @ q) False cur = Some (q, tk)"
        and tk: "sds_ok tk" "contents tk = t" using tok by (cases res) auto
      have "split_yields malloc grow (args_loop malloc grow q (vector @ [tk])) (map contents (vector @ [tk]) @ ts)"
        by (rule Cons.IH) (use Cons.prems(1,2) tk in \<open>auto simp: q_def\<close>)
      then show ?thesis using \<open>sdsempty malloc = Some cur\<close> tk(2)
        by (subst args_loop.simps) (auto simp: skip peek res split_yields_def)
    qed
  qed
qed

end
