(* ===== verification/SdsProps.thy ===== *)
theory SdsProps
  imports SdsArgs
begin

text \<open>
  The properties of \<open>src/src/redis/sds.c\<close>: the operations on the representation implement operations
  on texts, splitting and quoting are inverted by joining and parsing.
\<close>

text \<open>An allocator that never fails, for the witnesses.\<close>

abbreviation zero_malloc :: allocator where
  "zero_malloc n \<equiv> Some (replicate n NUL)"

lemma zero_malloc_total: "\<not> out_of_memory zero_malloc"
  by (simp add: out_of_memory_def)

lemma sds_ok_example: "sds_ok (layout ''ab'' [NUL])"
  by simp

text \<open>C25: On a well-formed string the operations that may allocate return a well-formed string with the
  text of their specification (appending, overwriting, filling with zeros, appending formatted text up
  to its first zero), or \<open>NULL\<close> when the allocator failed; no other outcome is possible below one
  gigabyte.\<close>

theorem sds_growing_refines:
  assumes "sds_ok s" and "length (contents s) + n < 2 ^ 30" and "n \<le> length t"
    and "length (contents s) + length f < 2 ^ 30"
  shows "yields malloc (sdscatlen malloc s t n) (contents s @ take n t) \<and>
    yields malloc (sdscpylen malloc s t n) (take n t) \<and>
    yields malloc (sdsgrowzero malloc s n) (contents s @ replicate (n - length (contents s)) NUL) \<and>
    yields malloc (sdscatvprintf malloc s f) (contents s @ takeWhile (\<lambda>ch. ch \<noteq> NUL) f) \<and>
    yields malloc (sdsdup malloc s) (contents s)"
proof -
  have f: "strlen f \<le> length f" by (simp add: strlen_def length_takeWhile_le)
  obtain c r where s: "s = layout c r" "length c + length r < 2 ^ 31" "contents s = c"
    using assms(1) by (rule sds_okE)
  have "yields malloc (sdsdup malloc s) (contents s)"
    unfolding s(3) unfolding s(1) sdsdup_def
    using sdsnewlen_yields [of "length c" "c @ NUL # r" malloc] s(2) by (simp add: sdslen_def)
  then show ?thesis
    using sdscatlen_yields [OF assms(1,3,2)] sdscpylen_yields [OF assms(1,3)] sdsgrowzero_yields [OF assms(1)]
      sdscatvprintf_yields [OF assms(1)] assms(2,4) f by auto
qed

theorem sds_growing_refines_witness:
  "yields zero_malloc (sdscatlen zero_malloc (layout ''ab'' [NUL]) ''cde'' 3) ''abcde''"
  using sds_growing_refines [of "layout ''ab'' [NUL]" 3 "''cde''" "''x''" zero_malloc] by simp

text \<open>C26: The operations that only cut or rewrite a string preserve the invariant of the representation
  and its total size, and compute on texts what they are meant to: \<open>sdstrim\<close> removes the characters of
  the set (and zeros) at both ends, \<open>sdsrange\<close> keeps an index range whose negative ends count from the
  end, \<open>sdstolower\<close> and \<open>sdstoupper\<close> map the characters.\<close>

theorem sds_cutting_refines:
  assumes "sds_ok s" and "- (2 ^ 31) \<le> first" "first < 2 ^ 31" "- (2 ^ 31) \<le> stop" "stop < 2 ^ 31 - 1"
  shows "sds_ok (sdstrim s cset) \<and> contents (sdstrim s cset) = trimmed (strchr cset) (contents s) \<and>
    sds_ok (sdsrange s first stop) \<and>
    contents (sdsrange s first stop) =
      (let n = length (contents s)
       in bytes_at (contents s) (clamp n first) (Suc (clamp n stop) - clamp n first)) \<and>
    sds_ok (sdstolower s) \<and> contents (sdstolower s) = map tolower (contents s) \<and>
    sds_ok (sdstoupper s) \<and> contents (sdstoupper s) = map toupper (contents s)"
proof -
  obtain c r where s: "s = layout c r" "length c + length r < 2 ^ 31"
    using assms(1) by (rule sds_okE)
  have "sds_ok (sdstrim s cset) \<and> contents (sdstrim s cset) = trimmed (strchr cset) c"
    unfolding s(1) using s(2) by (rule sdstrim_layout [where cset = cset]) (use s(2) in simp)
  moreover have "sds_ok (sdsrange s first stop) \<and> contents (sdsrange s first stop) =
      bytes_at c (clamp (length c) first) (Suc (clamp (length c) stop) - clamp (length c) first)"
    unfolding s(1) using s(2) assms(2-5) by (rule sdsrange_layout) (use s(2) in simp)
  ultimately show ?thesis
    using case_layout [OF s(2)] s by (simp add: Let_def)
qed

theorem sds_cutting_refines_witness:
  "contents (sdsrange (layout ''hello'' []) (- 3) (- 2)) = ''ll''"
  using sds_cutting_refines [of "layout ''hello'' []" "- 3" "- 2"]
  by (simp add: Let_def clamp_def bytes_at_def)

text \<open>\<open>sdscmp\<close> is the lexicographic order of the texts by unsigned bytes, a prefix being smaller, and
  zero exactly for equal texts.\<close>

theorem sdscmp_orders:
  assumes "sds_ok a" and "sds_ok b"
  shows "(sdscmp a b < 0 \<longleftrightarrow> (contents a, contents b) \<in> lexord {(x, y). code x < code y}) \<and>
    (sdscmp a b = 0 \<longleftrightarrow> contents a = contents b)"
proof -
  obtain c r d q where "a = layout c r" "length c + length r < 2 ^ 31"
      "b = layout d q" "length d + length q < 2 ^ 31"
    using assms by (metis sds_okE)
  then show ?thesis using sdscmp_layout [of c r d q] by simp
qed

theorem sdscmp_orders_witness: "sdscmp (layout ''ab'' []) (layout ''b'' [NUL]) < 0"
  using sdscmp_orders [of "layout ''ab'' []" "layout ''b'' [NUL]"] by simp

text \<open>\<open>sdssplitlen\<close> cuts a text at the leftmost occurrences of the separator: joining the tokens
  with it gives the text back and no token contains it; it returns \<open>NULL\<close> only when an allocation
  failed.\<close>

theorem sdssplitlen_joins:
  assumes "sep \<noteq> []" and "t \<noteq> []" and "length t < 2 ^ 31"
  shows "case sdssplitlen malloc grow t (length t) sep of
      None \<Rightarrow> out_of_memory malloc \<or> (\<exists>n. \<not> grow n)
    | Some tokens \<Rightarrow> joined sep (map contents tokens) = t \<and>
        (\<forall>tok \<in> set tokens. sds_ok tok \<and> \<not> sublist sep (contents tok))"
proof (cases "sdssplitlen malloc grow t (length t) sep")
  case None
  then show ?thesis using sdssplitlen_fields [OF assms, of malloc grow] by (simp add: split_yields_def)
next
  case (Some tokens)
  then have tok: "\<forall>tok \<in> set tokens. sds_ok tok" "map contents tokens = fields sep t"
    using sdssplitlen_fields [OF assms, of malloc grow] by (simp_all add: split_yields_def)
  have "\<not> sublist sep (contents tok)" if "tok \<in> set tokens" for tok
    using fields_free [OF assms(1), of "contents tok" t] that unfolding tok(2) [symmetric] by simp
  then show ?thesis using Some tok joined_fields [of sep t] by simp
qed

theorem sdssplitlen_joins_witness:
  "case sdssplitlen zero_malloc (\<lambda>n. True) ''a, b'' (length ''a, b'') '', '' of
     None \<Rightarrow> False | Some tokens \<Rightarrow> joined '', '' (map contents tokens) = ''a, b''"
proof -
  have "case sdssplitlen zero_malloc (\<lambda>n. True) ''a, b'' (length ''a, b'') '', '' of
      None \<Rightarrow> out_of_memory zero_malloc \<or> (\<exists>n :: nat. \<not> True)
    | Some tokens \<Rightarrow> joined '', '' (map contents tokens) = ''a, b'' \<and>
        (\<forall>tok \<in> set tokens. sds_ok tok \<and> \<not> sublist '', '' (contents tok))"
    by (rule sdssplitlen_joins) simp_all
  then show ?thesis using zero_malloc_total by (auto split: option.splits)
qed

text \<open>\<open>sdsfromlonglong\<close> writes any \<open>long long\<close> in decimal, its most negative value too: the text
  has that value and at most 21 characters, so it fits the 32 bytes of the buffer.\<close>

theorem sdsfromlonglong_decimal:
  assumes "- (2 ^ 63) \<le> value" and "value < 2 ^ 63"
  shows "case sdsfromlonglong malloc value of
      None \<Rightarrow> out_of_memory malloc
    | Some s \<Rightarrow> sds_ok s \<and> signed_decimal_value (contents s) = value \<and> length (contents s) \<le> 21"
  by (rule sdsfromlonglong_yields [OF assms, of malloc]) (auto simp: yields_def split: option.splits)

theorem sdsfromlonglong_decimal_witness:
  "case sdsfromlonglong zero_malloc (- (2 ^ 63)) of
     None \<Rightarrow> False | Some s \<Rightarrow> signed_decimal_value (contents s) = - (2 ^ 63)"
  using sdsfromlonglong_decimal [of "- (2 ^ 63)" zero_malloc] zero_malloc_total
  by (auto split: option.splits)

lemma length_quoted: "length (quoted t) \<le> 4 * length t + 2"
  by (induction t) (use length_repr_char(1) in \<open>auto simp: quoted_def intro: add_mono\<close>)

text \<open>C27: Quoting and parsing are inverse on printable characters and the escapes both know: each string
  that \<open>sdscatrepr\<close> appends to an empty one is its quoted form, and \<open>sdssplitargs\<close> on a line of quoted
  strings separated by spaces gives the strings back.\<close>

theorem sds_quoting_roundtrip:
  assumes "\<forall>t \<in> set ts. (\<forall>ch \<in> set t. isprint ch \<or> ch \<in> {LF, CR, HT, BEL, BS}) \<and> length t < 2 ^ 20"
  shows "(\<forall>t \<in> set ts. yields malloc (sdscatrepr malloc (layout [] []) t (length t)) (quoted t)) \<and>
    (case sdssplitargs malloc grow (joined '' '' (map quoted ts)) of
       None \<Rightarrow> out_of_memory malloc \<or> (\<exists>n. \<not> grow n)
     | Some args \<Rightarrow> map contents args = ts)"
proof
  show "\<forall>t \<in> set ts. yields malloc (sdscatrepr malloc (layout [] []) t (length t)) (quoted t)"
  proof
    fix t assume "t \<in> set ts"
    then have "length t < 2 ^ 20" using assms by simp
    then have "length (quoted (take (length t) t)) < 2 ^ 30" using length_quoted [of t] by simp
    then show "yields malloc (sdscatrepr malloc (layout [] []) t (length t)) (quoted t)"
      using sdscatrepr_yields [of "layout [] []" "length t" t malloc] by simp
  qed
  have "\<forall>t \<in> set ts. (\<forall>ch \<in> set t. parses_back ch) \<and> length t < 2 ^ 30"
    using assms by (fastforce simp: parses_back_def repr_escape_def)
  then show "case sdssplitargs malloc grow (joined '' '' (map quoted ts)) of
       None \<Rightarrow> out_of_memory malloc \<or> (\<exists>n. \<not> grow n)
     | Some args \<Rightarrow> map contents args = ts"
    using args_loop_quoted [of ts "[]" "joined '' '' (map quoted ts)" malloc grow]
    by (auto simp: sdssplitargs_def split_yields_def split: option.splits)
qed

theorem sds_quoting_roundtrip_witness:
  "case sdssplitargs zero_malloc (\<lambda>n. True) (joined '' '' (map quoted [''a b'', [LF, DQUOTE]])) of
     None \<Rightarrow> False | Some args \<Rightarrow> map contents args = [''a b'', [LF, DQUOTE]]"
  using sds_quoting_roundtrip [of "[''a b'', [LF, DQUOTE]]" zero_malloc "\<lambda>n. True"] zero_malloc_total
  by (auto simp: isprint_def split: option.splits)

text \<open>The form \<open>\x01\<close> that \<open>sdscatrepr\<close> writes is not read back by \<open>sdssplitargs\<close>.\<close>

lemma hex_escape_not_parsed:
  "quoted [CHR 0x01] = DQUOTE # BACKSLASH # ''x01'' @ [DQUOTE]"
  "map_option (map contents) (sdssplitargs zero_malloc (\<lambda>n. True) (quoted [CHR 0x01])) = Some [''x01'']"
  by code_simp+

end
