(* ===== verification/RedisReader.thy ===== *)
theory RedisReader
  imports SdsProps
begin

text \<open>
  The reader of \<open>src/src/redis/hiredis.c\<close>: replies of the Redis protocol from a buffer that is fed in
  pieces, with the default functions that build reply objects. Objects live in a store, addresses are
  positions in it, a freed object is \<open>None\<close>. An allocation asks \<open>heap\<close> with the number of bytes. What C
  leaves undefined, and an assertion that fails, is a fault.
\<close>

section \<open>Objects\<close>

datatype reply_type = REDIS_REPLY_STRING | REDIS_REPLY_ARRAY | REDIS_REPLY_INTEGER | REDIS_REPLY_NIL
  | REDIS_REPLY_STATUS | REDIS_REPLY_ERROR

type_synonym addr = nat

text \<open>\<open>str\<close> and \<open>element\<close> are the memory the pointers of that name point to, if any.\<close>

record redisReply =
  rep_type :: reply_type
  rep_integer :: int
  rep_len :: int
  rep_str :: "string option"
  rep_elements :: u64
  rep_element :: "addr option list option"

record redisReadTask =
  task_type :: "reply_type option"
  task_elements :: int
  task_idx :: int
  task_obj :: "addr option"
  task_parent :: "nat option"

datatype reader_err = REDIS_ERR_IO | REDIS_ERR_OTHER | REDIS_ERR_EOF | REDIS_ERR_PROTOCOL | REDIS_ERR_OOM

datatype reader_fault = Null_pointer | Out_of_array | Assertion | Va_arg

text \<open>
  The reader. \<open>rstack\<close> has nine tasks, \<open>store\<close> is the heap of objects. The functions \<open>fn\<close> are the
  default ones and \<open>privdata\<close>, which they do not use, is left out.
\<close>

record redisReader =
  err :: "reader_err option"
  errstr :: string
  buf :: "sdshdr option"
  pos :: nat
  len :: nat
  maxbuf :: nat
  rstack :: "redisReadTask list"
  ridx :: int
  reply :: "addr option"
  store :: "redisReply option list"

text \<open>Allocation of objects and of strings, and of buffers, may fail.\<close>

record heap =
  get :: "nat \<Rightarrow> bool"
  realloc :: allocator

section \<open>Creating and freeing objects\<close>

definition no_reply :: "reply_type \<Rightarrow> redisReply" where
  "no_reply t = \<lparr>rep_type = t, rep_integer = 0, rep_len = 0, rep_str = None, rep_elements = 0, rep_element = None\<rparr>"

text \<open>The size of a \<open>redisReply\<close> on a 64-bit machine.\<close>

definition createReplyObject :: "heap \<Rightarrow> reply_type \<Rightarrow> redisReply option" where
  "createReplyObject hp t = (if get hp 48 then Some (no_reply t) else None)"

text \<open>
  \<open>attach\<close> writes the new object into its parent, if the task has one: the parent is an array and
  its vector has the index.
\<close>

definition attach :: "redisReadTask list \<Rightarrow> redisReadTask \<Rightarrow> addr \<Rightarrow> redisReply option list \<Rightarrow>
  reader_fault + redisReply option list" where
  "attach stack task r st =
     (case task_parent task of
        None \<Rightarrow> Inr st
      | Some p \<Rightarrow>
          (case task_obj (stack ! p) of
             None \<Rightarrow> Inl Null_pointer
           | Some a \<Rightarrow>
               (case st ! a of
                  None \<Rightarrow> Inl Null_pointer
                | Some parent \<Rightarrow>
                    if rep_type parent \<noteq> REDIS_REPLY_ARRAY then Inl Assertion
                    else case rep_element parent of
                        None \<Rightarrow> Inl Null_pointer
                      | Some es \<Rightarrow>
                          if \<not> (0 \<le> task_idx task \<and> task_idx task < int (length es)) then Inl Out_of_array
                          else Inr (st[a := Some (parent\<lparr>rep_element := Some (es[nat (task_idx task) := Some r])\<rparr>)]))))"

text \<open>A new object at the end of the store.\<close>

definition put_object ::
  "redisReadTask list \<Rightarrow> redisReadTask \<Rightarrow> redisReply \<Rightarrow> redisReply option list \<Rightarrow>
   reader_fault + addr option \<times> redisReply option list" where
  "put_object stack task r st =
     (case attach stack task (length st) (st @ [Some r]) of Inl e \<Rightarrow> Inl e | Inr st \<Rightarrow> Inr (Some (length st - 1), st))"

definition createStringObject ::
  "heap \<Rightarrow> redisReadTask list \<Rightarrow> redisReadTask \<Rightarrow> string \<Rightarrow> redisReply option list \<Rightarrow>
   reader_fault + addr option \<times> redisReply option list" where
  "createStringObject hp stack task str st =
     (case task_type task of
        None \<Rightarrow> Inl Assertion
      | Some t \<Rightarrow>
          (case createReplyObject hp t of
             None \<Rightarrow> Inr (None, st)
           | Some r \<Rightarrow>
               if \<not> get hp (length str + 1) then Inr (None, st)
               else if \<not> (t = REDIS_REPLY_ERROR \<or> t = REDIS_REPLY_STATUS \<or> t = REDIS_REPLY_STRING) then Inl Assertion
               else put_object stack task (r\<lparr>rep_str := Some (str @ [NUL]), rep_len := int32 (int (length str))\<rparr>) st))"

definition createArrayObject ::
  "heap \<Rightarrow> redisReadTask list \<Rightarrow> redisReadTask \<Rightarrow> int \<Rightarrow> redisReply option list \<Rightarrow>
   reader_fault + addr option \<times> redisReply option list" where
  "createArrayObject hp stack task elements st =
     (case createReplyObject hp REDIS_REPLY_ARRAY of
        None \<Rightarrow> Inr (None, st)
      | Some r \<Rightarrow>
          if elements > 0 \<and> \<not> get hp (nat elements * 8) then Inr (None, st)
          else
            let r = (if elements > 0 then r\<lparr>rep_element := Some (replicate (nat elements) None)\<rparr> else r) in
            put_object stack task (r\<lparr>rep_elements := word_of_int elements\<rparr>) st)"

definition createIntegerObject ::
  "heap \<Rightarrow> redisReadTask list \<Rightarrow> redisReadTask \<Rightarrow> int \<Rightarrow> redisReply option list \<Rightarrow>
   reader_fault + addr option \<times> redisReply option list" where
  "createIntegerObject hp stack task value st =
     (case createReplyObject hp REDIS_REPLY_INTEGER of
        None \<Rightarrow> Inr (None, st)
      | Some r \<Rightarrow> put_object stack task (r\<lparr>rep_integer := value\<rparr>) st)"

definition createNilObject ::
  "heap \<Rightarrow> redisReadTask list \<Rightarrow> redisReadTask \<Rightarrow> redisReply option list \<Rightarrow>
   reader_fault + addr option \<times> redisReply option list" where
  "createNilObject hp stack task st =
     (case createReplyObject hp REDIS_REPLY_NIL of
        None \<Rightarrow> Inr (None, st)
      | Some r \<Rightarrow> put_object stack task r st)"

text \<open>
  Freeing an object and what it holds. An object is older than those it holds, so their addresses are
  larger; the fuel is the size of the store.
\<close>

fun free_object :: "nat \<Rightarrow> addr \<Rightarrow> redisReply option list \<Rightarrow> redisReply option list" where
  "free_object 0 a st = st"
| "free_object (Suc n) a st =
     (case st ! a of
        None \<Rightarrow> st
      | Some r \<Rightarrow>
          let children = (case (rep_type r, rep_element r) of
                (REDIS_REPLY_ARRAY, Some es) \<Rightarrow> [c. Some c \<leftarrow> es] | _ \<Rightarrow> []) in
          (fold (free_object n) children st)[a := None])"

definition freeReplyObject :: "addr \<Rightarrow> redisReply option list \<Rightarrow> redisReply option list" where
  "freeReplyObject a st = free_object (length st) a st"

section \<open>Errors\<close>

definition redisReaderSetError :: "reader_err \<Rightarrow> string \<Rightarrow> redisReader \<Rightarrow> redisReader" where
  "redisReaderSetError e str r =
     (let r = (case reply r of None \<Rightarrow> r | Some a \<Rightarrow> r\<lparr>store := freeReplyObject a (store r), reply := None\<rparr>);
          r = (if buf r \<noteq> None then r\<lparr>buf := None, pos := 0, len := 0\<rparr> else r)
      in r\<lparr>ridx := - 1, err := Some e, errstr := take 127 str\<rparr>)"

definition hex_char :: "nat \<Rightarrow> char" where
  "hex_char n = (''0123456789abcdef'' ! n)"

definition chrtos :: "char \<Rightarrow> string" where
  "chrtos c =
     (if c = CHR 0x5C \<or> c = DQUOTE then [DQUOTE, CHR 0x5C, c, DQUOTE]
      else if c = LF then [DQUOTE, CHR 0x5C, CHR ''n'', DQUOTE]
      else if c = CR then [DQUOTE, CHR 0x5C, CHR ''r'', DQUOTE]
      else if c = HT then [DQUOTE, CHR 0x5C, CHR ''t'', DQUOTE]
      else if c = CHR 0x07 then [DQUOTE, CHR 0x5C, CHR ''a'', DQUOTE]
      else if c = CHR 0x08 then [DQUOTE, CHR 0x5C, CHR ''b'', DQUOTE]
      else if isprint c then [DQUOTE, c, DQUOTE]
      else [DQUOTE, CHR 0x5C, CHR ''x'', hex_char (code c div 16), hex_char (code c mod 16), DQUOTE])"

definition redisReaderSetErrorProtocolByte :: "char \<Rightarrow> redisReader \<Rightarrow> redisReader" where
  "redisReaderSetErrorProtocolByte c r =
     redisReaderSetError REDIS_ERR_PROTOCOL
       (''Protocol error, got '' @ take 7 (chrtos c) @ '' as reply type byte'') r"

definition redisReaderSetErrorOOM :: "redisReader \<Rightarrow> redisReader" where
  "redisReaderSetErrorOOM r = redisReaderSetError REDIS_ERR_OOM ''Out of memory'' r"

section \<open>Reading lines and numbers\<close>

text \<open>The bytes of the buffer, with those behind the \<open>len\<close> used ones.\<close>

definition buf_bytes :: "redisReader \<Rightarrow> string" where
  "buf_bytes r = (case buf r of None \<Rightarrow> [] | Some s \<Rightarrow> sds_buf s)"

definition readBytes :: "nat \<Rightarrow> redisReader \<Rightarrow> (string \<times> redisReader) option" where
  "readBytes n r =
     (if len r - pos r \<ge> n then Some (bytes_at (buf_bytes r) (pos r) n, r\<lparr>pos := pos r + n\<rparr>) else None)"

text \<open>
  The position of a carriage return with a line feed behind it, from \<open>p\<close> on; \<open>m\<close> is the length less
  one. When the last byte is a carriage return, the byte behind the length is looked at.
\<close>

function seek_cr :: "string \<Rightarrow> nat \<Rightarrow> nat \<Rightarrow> nat" where
  "seek_cr s m p = (if p < m \<and> s ! p \<noteq> CR then seek_cr s m (p + 1) else p)"
  by pat_completeness auto
termination
  by (relation "measure (\<lambda>(s, m, p). m - p)") auto

declare seek_cr.simps [simp del]

lemma seek_cr_ge: "p \<le> seek_cr s m p"
  by (induction s m p rule: seek_cr.induct) (subst seek_cr.simps, auto)

function newline_loop :: "string \<Rightarrow> nat \<Rightarrow> nat \<Rightarrow> nat option" where
  "newline_loop s m p =
     (if p < m
      then (let q = seek_cr s m p in
            if s ! q \<noteq> CR then None
            else if s ! (q + 1) = LF then Some q
            else newline_loop s m (q + 1))
      else None)"
  by pat_completeness auto
termination
proof (relation "measure (\<lambda>(s, m, p). m - p)")
  fix s m p q
  assume "p < m" "q = seek_cr s m p"
  then show "((s, m, q + 1), (s, m, p)) \<in> measure (\<lambda>(s, m, p). m - p)" using seek_cr_ge [of p s m] by simp
qed simp

declare newline_loop.simps [simp del]

definition seekNewline :: "string \<Rightarrow> nat \<Rightarrow> nat option" where
  "seekNewline s n = newline_loop s (nat (int32 (int n) - 1)) 0"

text \<open>
  A number up to a carriage return. The arithmetic is that of the machine, which wraps around (C
  leaves it undefined).
\<close>

definition int64 :: "int \<Rightarrow> int" where
  "int64 i = signed_take_bit 63 i"

fun read_digits :: "int \<Rightarrow> string \<Rightarrow> int option" where
  "read_digits v [] = None"
| "read_digits v (c # s) =
     (if c = CR then Some v
      else if 48 \<le> code c \<and> code c \<le> 57 then read_digits (int64 (int64 (v * 10) + int (code c - 48))) s
      else None)"

definition readLongLong :: "string \<Rightarrow> int" where
  "readLongLong s =
     (let (mult, s) = (case s of
            c # s' \<Rightarrow> if c = CHR ''-'' then (- 1, s') else if c = CHR ''+'' then (1, s') else (1, s)
          | [] \<Rightarrow> (1, s))
      in case read_digits 0 s of None \<Rightarrow> - 1 | Some v \<Rightarrow> int64 (mult * v))"

text \<open>A line: where it begins and its length without the end.\<close>

definition readLine :: "redisReader \<Rightarrow> (nat \<times> nat \<times> redisReader) option" where
  "readLine r =
     (case seekNewline (drop (pos r) (buf_bytes r)) (len r - pos r) of
        None \<Rightarrow> None
      | Some n \<Rightarrow> Some (pos r, n, r\<lparr>pos := pos r + n + 2\<rparr>))"

section \<open>Items\<close>

abbreviation task :: "redisReader \<Rightarrow> int \<Rightarrow> redisReadTask" where
  "task r i \<equiv> rstack r ! nat i"

definition set_task :: "redisReader \<Rightarrow> int \<Rightarrow> redisReadTask \<Rightarrow> redisReader" where
  "set_task r i t = r\<lparr>rstack := (rstack r)[nat i := t]\<rparr>"

function moveToNextTask :: "redisReader \<Rightarrow> reader_fault + redisReader" where
  "moveToNextTask r =
     (if ridx r < 0 then Inr r
      else if ridx r = 0 then Inr (r\<lparr>ridx := - 1\<rparr>)
      else
        let cur = task r (ridx r); prv = task r (ridx r - 1) in
        if task_type prv \<noteq> Some REDIS_REPLY_ARRAY then Inl Assertion
        else if task_idx cur = task_elements prv - 1 then moveToNextTask (r\<lparr>ridx := ridx r - 1\<rparr>)
        else if \<not> task_idx cur < task_elements prv then Inl Assertion
        else Inr (set_task r (ridx r) (cur\<lparr>task_type := None, task_elements := - 1, task_idx := task_idx cur + 1\<rparr>)))"
  by pat_completeness auto
termination
  by (relation "measure (\<lambda>r. nat (ridx r + 1))") auto

declare moveToNextTask.simps [simp del]

text \<open>What an item of a line or a bulk does with its object: \<open>None\<close> is an allocation that failed.\<close>

type_synonym step_result = "reader_fault + bool \<times> redisReader"

definition finish_item :: "reader_fault + addr option \<times> redisReply option list \<Rightarrow> nat \<Rightarrow> redisReader \<Rightarrow> step_result" where
  "finish_item obj bytes r =
     (case obj of
        Inl e \<Rightarrow> Inl e
      | Inr (None, st) \<Rightarrow> Inr (False, redisReaderSetErrorOOM (r\<lparr>store := st\<rparr>))
      | Inr (Some a, st) \<Rightarrow>
          let r = r\<lparr>store := st, pos := pos r + bytes\<rparr>;
              r = (if ridx r = 0 then r\<lparr>reply := Some a\<rparr> else r)
          in map_sum id (\<lambda>r. (True, r)) (moveToNextTask r))"

definition processLineItem :: "heap \<Rightarrow> redisReader \<Rightarrow> step_result" where
  "processLineItem hp r =
     (let cur = task r (ridx r) in
      case readLine r of
        None \<Rightarrow> Inr (False, r)
      | Some (p, n, r) \<Rightarrow>
          finish_item
            (if task_type cur = Some REDIS_REPLY_INTEGER
             then createIntegerObject hp (rstack r) cur (readLongLong (drop p (buf_bytes r))) (store r)
             else createStringObject hp (rstack r) cur (bytes_at (buf_bytes r) p n) (store r)) 0 r)"

definition processBulkItem :: "heap \<Rightarrow> redisReader \<Rightarrow> step_result" where
  "processBulkItem hp r =
     (let cur = task r (ridx r); p = drop (pos r) (buf_bytes r) in
      case seekNewline p (len r - pos r) of
        None \<Rightarrow> Inr (False, r)
      | Some s \<Rightarrow>
          let bytelen = s + 2; n = readLongLong p in
          if n < 0 then finish_item (createNilObject hp (rstack r) cur (store r)) bytelen r
          else
            let bytelen = bytelen + nat n + 2 in
            if pos r + bytelen \<le> len r
            then finish_item (createStringObject hp (rstack r) cur (bytes_at p (s + 2) (nat n)) (store r)) bytelen r
            else Inr (False, r))"

text \<open>The number of elements, a \<open>long\<close>, is converted to \<open>int\<close> for the object and for the task.\<close>

definition processMultiBulkItem :: "heap \<Rightarrow> redisReader \<Rightarrow> step_result" where
  "processMultiBulkItem hp r =
     (let cur = task r (ridx r) in
      if ridx r = 8
      then Inr (False, redisReaderSetError REDIS_ERR_PROTOCOL
        ''No support for nested multi bulk replies with depth > 7'' r)
      else case readLine r of
        None \<Rightarrow> Inr (False, r)
      | Some (p, _, r) \<Rightarrow>
          let elements = readLongLong (drop p (buf_bytes r)); root = (ridx r = 0);
              obj = (if elements = - 1 then createNilObject hp (rstack r) cur (store r)
                     else createArrayObject hp (rstack r) cur (int32 elements) (store r))
          in case obj of
            Inl e \<Rightarrow> Inl e
          | Inr (None, st) \<Rightarrow> Inr (False, redisReaderSetErrorOOM (r\<lparr>store := st\<rparr>))
          | Inr (Some a, st) \<Rightarrow>
              let r = r\<lparr>store := st\<rparr>;
                  moved = (if elements = - 1 \<or> \<not> elements > 0 then moveToNextTask r
                    else if length (rstack r) \<le> nat (ridx r + 1) then Inl Out_of_array
                    else
                      let r' = set_task r (ridx r) (cur\<lparr>task_elements := int32 elements, task_obj := Some a\<rparr>) in
                      Inr (set_task (r'\<lparr>ridx := ridx r + 1\<rparr>) (ridx r + 1)
                        \<lparr>task_type = None, task_elements = - 1, task_idx = 0, task_obj = None,
                         task_parent = Some (nat (ridx r))\<rparr>))
              in map_sum id (\<lambda>r. (True, if root then r\<lparr>reply := Some a\<rparr> else r)) moved)"

definition type_of_byte :: "char \<Rightarrow> reply_type option" where
  "type_of_byte c =
     (if c = CHR ''-'' then Some REDIS_REPLY_ERROR
      else if c = CHR ''+'' then Some REDIS_REPLY_STATUS
      else if c = CHR '':'' then Some REDIS_REPLY_INTEGER
      else if c = CHR ''$'' then Some REDIS_REPLY_STRING
      else if c = CHR ''*'' then Some REDIS_REPLY_ARRAY
      else None)"

definition process_typed :: "heap \<Rightarrow> redisReader \<Rightarrow> step_result" where
  "process_typed hp r =
     (case task_type (task r (ridx r)) of
        Some REDIS_REPLY_ERROR \<Rightarrow> processLineItem hp r
      | Some REDIS_REPLY_STATUS \<Rightarrow> processLineItem hp r
      | Some REDIS_REPLY_INTEGER \<Rightarrow> processLineItem hp r
      | Some REDIS_REPLY_STRING \<Rightarrow> processBulkItem hp r
      | Some REDIS_REPLY_ARRAY \<Rightarrow> processMultiBulkItem hp r
      | _ \<Rightarrow> Inl Assertion)"

definition processItem :: "heap \<Rightarrow> redisReader \<Rightarrow> step_result" where
  "processItem hp r =
     (if task_type (task r (ridx r)) = None
      then case readBytes 1 r of
          None \<Rightarrow> Inr (False, r)
        | Some (p, r) \<Rightarrow>
            (case type_of_byte (hd p) of
               None \<Rightarrow> Inr (False, redisReaderSetErrorProtocolByte (hd p) r)
             | Some t \<Rightarrow> process_typed hp (set_task r (ridx r) ((task r (ridx r))\<lparr>task_type := Some t\<rparr>)))
      else process_typed hp r)"

section \<open>The interface\<close>

definition REDIS_READER_MAX_BUF :: nat where
  "REDIS_READER_MAX_BUF = 1024 * 16"

text \<open>Memory of the stack is zero at first (\<open>calloc\<close>): type 0 is none of the types.\<close>

definition zero_task :: redisReadTask where
  "zero_task = \<lparr>task_type = None, task_elements = 0, task_idx = 0, task_obj = None, task_parent = None\<rparr>"

definition redisReaderCreate :: "heap \<Rightarrow> redisReply option list \<Rightarrow> redisReader option" where
  "redisReaderCreate hp st =
     (if \<not> get hp 400 then None
      else case sdsempty (realloc hp) of
          None \<Rightarrow> None
        | Some b \<Rightarrow> Some \<lparr>err = None, errstr = [], buf = Some b, pos = 0, len = 0, maxbuf = REDIS_READER_MAX_BUF,
            rstack = replicate 9 zero_task, ridx = - 1, reply = None, store = st\<rparr>)"

definition redisReaderFree :: "redisReader \<Rightarrow> redisReply option list" where
  "redisReaderFree r = (case reply r of None \<Rightarrow> store r | Some a \<Rightarrow> freeReplyObject a (store r))"

definition redisReaderFeed :: "heap \<Rightarrow> redisReader \<Rightarrow> string option \<Rightarrow> step_result" where
  "redisReaderFeed hp r data =
     (if err r \<noteq> None then Inr (False, r)
      else case data of
        None \<Rightarrow> Inr (True, r)
      | Some bytes \<Rightarrow>
          if \<not> length bytes \<ge> 1 then Inr (True, r)
          else case buf r of
            None \<Rightarrow> Inl Null_pointer
          | Some b \<Rightarrow>
              let fresh = (len r = 0 \<and> maxbuf r \<noteq> 0 \<and> sdsavail b > maxbuf r);
                  b' = (if fresh then sdsempty (realloc hp) else Some b);
                  r = (if fresh then r\<lparr>buf := b', pos := 0\<rparr> else r)
              in case b' of
                None \<Rightarrow> Inl Assertion
              | Some b \<Rightarrow>
                  (case sdscatlen (realloc hp) b bytes (length bytes) of
                     None \<Rightarrow> Inr (False, redisReaderSetErrorOOM r)
                   | Some b \<Rightarrow> Inr (True, r\<lparr>buf := Some b, len := sdslen b\<rparr>)))"

text \<open>The loop over the items; the buffer decides whether it returns.\<close>

partial_function (option) process_items :: "heap \<Rightarrow> redisReader \<Rightarrow> (reader_fault + redisReader) option" where
  "process_items hp r =
     (if ridx r \<ge> 0
      then case processItem hp r of
          Inl e \<Rightarrow> Some (Inl e)
        | Inr (ok, r) \<Rightarrow> if ok then process_items hp r else Some (Inr r)
      else Some (Inr r))"

declare process_items.simps [code]

definition start_reply :: "redisReader \<Rightarrow> redisReader" where
  "start_reply r =
     (if ridx r = - 1
      then (set_task r 0 \<lparr>task_type = None, task_elements = - 1, task_idx = - 1, task_obj = None, task_parent = None\<rparr>)
        \<lparr>ridx := 0\<rparr>
      else r)"

definition redisReaderGetReply :: "heap \<Rightarrow> redisReader \<Rightarrow> (reader_fault + bool \<times> addr option \<times> redisReader) option" where
  "redisReaderGetReply hp r =
     (if err r \<noteq> None then Some (Inr (False, None, r))
      else if len r = 0 then Some (Inr (True, None, r))
      else case process_items hp (start_reply r) of
          None \<Rightarrow> None
        | Some (Inl e) \<Rightarrow> Some (Inl e)
        | Some (Inr r) \<Rightarrow>
            if err r \<noteq> None then Some (Inr (False, None, r))
            else
              let r = (if pos r \<ge> 1024
                then (case buf r of
                    None \<Rightarrow> r
                  | Some b \<Rightarrow> let b = sdsrange b (int32 (int (pos r))) (- 1) in r\<lparr>buf := Some b, pos := 0, len := sdslen b\<rparr>)
                else r)
              in if ridx r = - 1 then Some (Inr (True, reply r, r\<lparr>reply := None\<rparr>))
                 else Some (Inr (True, None, r)))"

end
