(* ===== verification/RedisFacts.thy ===== *)
theory RedisFacts
  imports RedisReader
begin

text \<open>
  Facts about the reader of replies: what it does depends on the bytes that are not yet consumed only,
  more bytes behind them do not change an item that is complete, and an item that is not complete
  waits for them.
\<close>

section \<open>Lines\<close>

text \<open>The place of the first carriage return with a line feed behind it.\<close>

fun line_end :: "string \<Rightarrow> nat option" where
  "line_end [] = None"
| "line_end (c # s) = (if c = CR \<and> s \<noteq> [] \<and> hd s = LF then Some 0 else map_option Suc (line_end s))"

lemma line_end_append: "line_end p = Some n \<Longrightarrow> line_end (p @ x) = Some n"
  by (induction p arbitrary: n) (auto split: if_splits simp: hd_append)

lemma line_end_bound: "line_end p = Some n \<Longrightarrow> n + 2 \<le> length p"
  by (induction p arbitrary: n) (auto split: if_splits simp: Suc_le_eq)

lemma line_end_CR: "line_end p = Some n \<Longrightarrow> p ! n = CR"
  by (induction p arbitrary: n) (auto split: if_splits)

lemma line_end_line: "CR \<notin> set l \<Longrightarrow> line_end (l @ CR # LF # x) = Some (length l)"
  by (induction l) auto

lemma newline_loop_step:
  assumes "s ! (m + 1) \<noteq> LF"
  shows "newline_loop s m i =
    (if i < m then if s ! i = CR \<and> s ! (i + 1) = LF then Some i else newline_loop s m (i + 1) else None)"
proof (cases "i < m \<and> s ! i \<noteq> CR")
  case True
  then have q: "seek_cr s m i = seek_cr s m (i + 1)" by (subst seek_cr.simps) simp
  show ?thesis
  proof (cases "i + 1 < m")
    case False
    then have "seek_cr s m (i + 1) = m" using True by (subst seek_cr.simps) auto
    have "i + 1 = m" using True False by simp
    moreover have "newline_loop s m m = None" "newline_loop s m (m + 1) = None" by (simp_all add: newline_loop.simps)
    ultimately show ?thesis using True assms \<open>seek_cr s m (i + 1) = m\<close>
      by (simp add: newline_loop.simps [of s m i] q Let_def)
  next
    case lt: True
    show ?thesis
      by (subst newline_loop.simps, subst newline_loop.simps [of s m "i + 1"]) (use True lt in \<open>simp add: q Let_def\<close>)
  qed
next
  case False
  then have "seek_cr s m i = i" by (subst seek_cr.simps) auto
  then show ?thesis using False by (subst newline_loop.simps) (auto simp: Let_def)
qed

lemma newline_loop_line_end:
  assumes "s = p @ NUL # q" and "i \<le> length p"
  shows "newline_loop s (length p - 1) i = map_option ((+) i) (line_end (drop i p))"
  using assms(2)
proof (induction "length p - i" arbitrary: i)
  case 0
  then show ?case by (subst newline_loop.simps) auto
next
  case (Suc n)
  then have i: "i < length p" by simp
  then have "length p - 1 + 1 = length p" by simp
  then have "s ! (length p - 1 + 1) \<noteq> LF" by (simp only: assms(1) nth_append_length) simp
  note step = newline_loop_step [OF this, of i]
  have dr: "drop i p = p ! i # drop (i + 1) p" using i by (simp add: Cons_nth_drop_Suc)
  have IH: "newline_loop s (length p - 1) (i + 1) = map_option ((+) (i + 1)) (line_end (drop (i + 1) p))"
    using Suc(2) i by (intro Suc(1)) auto
  have si: "s ! i = p ! i" using i by (simp add: assms(1) nth_append)
  show ?case
  proof (cases "i < length p - 1")
    case True
    then have "s ! (i + 1) = hd (drop (i + 1) p)" "drop (i + 1) p \<noteq> []"
      by (auto simp: assms(1) nth_append hd_drop_conv_nth)
    then show ?thesis using True
      unfolding step IH dr by (auto simp: si map_option_case split: option.split)
  next
    case False
    then have "drop (i + 1) p = []" using i by simp
    then show ?thesis using False unfolding step dr by simp
  qed
qed

lemma seekNewline_line_end:
  assumes "length p < 2 ^ 31"
  shows "seekNewline (p @ NUL # q) (length p) = line_end p"
proof -
  have "nat (int32 (int (length p)) - 1) = length p - 1" unfolding int32_nat [OF assms] by simp
  then show ?thesis using newline_loop_line_end [OF refl, of 0 p q]
    unfolding seekNewline_def by (simp add: option.map_ident fun_eq_iff map_option_case split: option.split)
qed

lemma read_digits_append: "CR \<in> set p \<Longrightarrow> read_digits v (p @ x) = read_digits v p"
  by (induction p arbitrary: v) auto

lemma readLongLong_append: "CR \<in> set p \<Longrightarrow> readLongLong (p @ x) = readLongLong p"
  by (cases p) (auto simp: readLongLong_def read_digits_append)

section \<open>Readers with the same bytes ahead\<close>

text \<open>\<open>ready r p\<close>: no error, and \<open>p\<close> is ahead in the buffer.\<close>

definition ready :: "redisReader \<Rightarrow> string \<Rightarrow> bool" where
  "ready r p \<longleftrightarrow> err r = None \<and> (\<exists>c q. buf r = Some (layout c q) \<and> length c + length q < 2 ^ 31 \<and>
     len r = length c \<and> pos r \<le> length c \<and> p = drop (pos r) c)"

lemma readyE:
  assumes "ready r p"
  obtains u q where "err r = None" and "buf_bytes r = u @ p @ NUL # q" and "length u = pos r" and "len r = pos r + length p" and "len r < 2 ^ 31"
proof -
  obtain c q where "err r = None" "buf r = Some (layout c q)" "length c + length q < 2 ^ 31" "len r = length c"
      "pos r \<le> length c" "p = drop (pos r) c"
    using assms by (auto simp: ready_def)
  then show thesis by (intro that [of "take (pos r) c" q]) (auto simp: buf_bytes_def)
qed

lemma ready_ahead:
  assumes "ready r p"
  shows "len r - pos r = length p" and "len r = pos r + length p" and "err r = None"
    and "seekNewline (drop (pos r) (buf_bytes r)) (length p) = line_end p"
    and "CR \<in> set p \<Longrightarrow> readLongLong (drop (pos r) (buf_bytes r)) = readLongLong p"
    and "i + n \<le> length p \<Longrightarrow> bytes_at (buf_bytes r) (pos r + i) n = bytes_at p i n"
    and "i + n \<le> length p \<Longrightarrow> bytes_at (drop (pos r) (buf_bytes r)) i n = bytes_at p i n"
proof -
  obtain u q where q: "err r = None" "buf_bytes r = u @ p @ NUL # q" "length u = pos r" "len r = pos r + length p" "len r < 2 ^ 31"
    using assms by (rule readyE)
  have d: "drop (pos r) (buf_bytes r) = p @ NUL # q"
    by (simp add: q(2,3))
  show "len r - pos r = length p" "len r = pos r + length p" "err r = None" using q by simp_all
  show "seekNewline (drop (pos r) (buf_bytes r)) (length p) = line_end p"
    unfolding d using q(4,5) by (intro seekNewline_line_end) simp
  show "CR \<in> set p \<Longrightarrow> readLongLong (drop (pos r) (buf_bytes r)) = readLongLong p"
    unfolding d by (rule readLongLong_append)
  show b: "i + n \<le> length p \<Longrightarrow> bytes_at (drop (pos r) (buf_bytes r)) i n = bytes_at p i n"
    unfolding d by (rule bytes_at_append1)
  show "i + n \<le> length p \<Longrightarrow> bytes_at (buf_bytes r) (pos r + i) n = bytes_at p i n"
    using b by (simp add: bytes_at_def add.commute)
qed

lemma ready_unique: "ready r p \<Longrightarrow> ready r q \<Longrightarrow> q = p"
  by (auto simp: ready_def layout_def)

lemma ready_step: "ready r p \<Longrightarrow> n \<le> length p \<Longrightarrow> ready (r\<lparr>pos := pos r + n\<rparr>) (drop n p)"
  unfolding ready_def by (elim conjE exE) (auto simp: add.commute intro!: exI)

lemma ready_update [simp]:
  "ready (r\<lparr>store := st\<rparr>) p = ready r p" "ready (r\<lparr>reply := a\<rparr>) p = ready r p"
  "ready (r\<lparr>ridx := i\<rparr>) p = ready r p" "ready (r\<lparr>rstack := s\<rparr>) p = ready r p"
  "ready (set_task r i t) p = ready r p"
  by (simp_all add: ready_def set_task_def)

text \<open>
  Two readers that differ in their buffers only: what is ahead in the second is what is ahead in the first
  and \<open>x\<close>.
\<close>

definition rebuf :: "redisReader \<Rightarrow> redisReader \<Rightarrow> redisReader" where
  "rebuf r' r = r\<lparr>buf := buf r', pos := pos r', len := len r'\<rparr>"

definition ahead :: "string \<Rightarrow> redisReader \<Rightarrow> redisReader \<Rightarrow> bool" where
  "ahead x r r' \<longleftrightarrow> r' = rebuf r' r \<and> (\<exists>p. ready r p \<and> ready r' (p @ x))"

text \<open>Results of a step that agree: the same fault, the same error, or a reader that goes on.\<close>

fun agree :: "string \<Rightarrow> step_result \<Rightarrow> step_result \<Rightarrow> bool" where
  "agree x (Inl e) y \<longleftrightarrow> y = Inl e"
| "agree x (Inr (True, r)) y \<longleftrightarrow> (\<exists>r'. y = Inr (True, r') \<and> ahead x r r')"
| "agree x (Inr (False, r)) y \<longleftrightarrow> y = Inr (False, r) \<and> err r \<noteq> None"

lemma rebuf_simps [simp]:
  "err (rebuf r' r) = err r" "errstr (rebuf r' r) = errstr r" "maxbuf (rebuf r' r) = maxbuf r"
  "rstack (rebuf r' r) = rstack r" "ridx (rebuf r' r) = ridx r" "reply (rebuf r' r) = reply r"
  "store (rebuf r' r) = store r"
  by (simp_all add: rebuf_def)

lemma aheadD:
  assumes "ahead x r r'"
  shows "err r' = err r" "errstr r' = errstr r" "maxbuf r' = maxbuf r" "rstack r' = rstack r" "ridx r' = ridx r"
    "reply r' = reply r" "store r' = store r" "err r = None" "buf r \<noteq> None" "buf r' \<noteq> None"
proof -
  have "r' = rebuf r' r" using assms by (simp add: ahead_def)
  then show "err r' = err r" "errstr r' = errstr r" "maxbuf r' = maxbuf r" "rstack r' = rstack r" "ridx r' = ridx r"
    "reply r' = reply r" "store r' = store r" by (metis rebuf_simps)+
  show "err r = None" "buf r \<noteq> None" "buf r' \<noteq> None" using assms by (auto simp: ahead_def ready_def)
qed

lemma ahead_update [simp]:
  assumes "ahead x r r'"
  shows "ahead x (r\<lparr>store := st\<rparr>) (r'\<lparr>store := st\<rparr>)" "ahead x (r\<lparr>reply := a\<rparr>) (r'\<lparr>reply := a\<rparr>)"
    "ahead x (r\<lparr>ridx := i\<rparr>) (r'\<lparr>ridx := i\<rparr>)" "ahead x (r\<lparr>rstack := s\<rparr>) (r'\<lparr>rstack := s\<rparr>)"
    "ahead x (set_task r i t) (set_task r' i t)"
  using assms aheadD [OF assms] by (auto simp: ahead_def rebuf_def set_task_def)

lemma ahead_step:
  assumes "ahead x r r'" and "ready r p" and "n \<le> length p"
  shows "ahead x (r\<lparr>pos := pos r + n\<rparr>) (r'\<lparr>pos := pos r' + n\<rparr>)"
proof -
  obtain p' where r': "r' = rebuf r' r" and p: "ready r p'" "ready r' (p' @ x)" using assms(1) by (auto simp: ahead_def)
  have "p' = p" using p(1) assms(2) ready_unique by metis
  then have "ready (r\<lparr>pos := pos r + n\<rparr>) (drop n p)" "ready (r'\<lparr>pos := pos r' + n\<rparr>) (drop n p @ x)"
    using ready_step [OF assms(2,3)] ready_step [OF p(2), of n] assms(3) by simp_all
  moreover have "r'\<lparr>pos := pos r' + n\<rparr> = rebuf (r'\<lparr>pos := pos r' + n\<rparr>) (r\<lparr>pos := pos r + n\<rparr>)"
    by (subst r') (simp add: rebuf_def)
  ultimately show ?thesis unfolding ahead_def by blast
qed

lemma set_error_ahead: "ahead x r r' \<Longrightarrow> redisReaderSetError e s r' = redisReaderSetError e s r"
  using aheadD [of x r r']
  by (auto simp: redisReaderSetError_def Let_def split: option.split)

lemma set_error_err [simp]: "err (redisReaderSetError e s r) = Some e"
  by (simp add: redisReaderSetError_def Let_def)

lemma move_ahead:
  "ahead x r r' \<Longrightarrow> rel_sum (=) (ahead x) (moveToNextTask r) (moveToNextTask r')"
proof (induction r arbitrary: r' rule: moveToNextTask.induct)
  case (1 r)
  note core = aheadD [OF 1(2)]
  show ?case
    using 1(2)
    by (subst moveToNextTask.simps, subst moveToNextTask.simps [of r']) (use core in \<open>auto simp: Let_def intro!: 1(1)\<close>)
qed

lemma moved_agree:
  assumes "rel_sum (=) (ahead x) y y'" and "\<And>a b. ahead x a b \<Longrightarrow> ahead x (f a) (f b)"
  shows "agree x (map_sum id (\<lambda>r. (True, f r)) y) (map_sum id (\<lambda>r. (True, f r)) y')"
  using assms(1) by (cases rule: rel_sum.cases) (auto intro: assms(2))

lemma finish_agree:
  assumes "ahead x r r'" and "ready r p" and "n \<le> length p"
  shows "agree x (finish_item obj n r) (finish_item obj n r')"
proof (cases obj)
  case (Inr z)
  obtain a st where z: "z = (a, st)" by (cases z)
  note core = aheadD [OF assms(1)]
  show ?thesis
  proof (cases a)
    case None
    then show ?thesis using set_error_ahead [OF ahead_update(1) [OF assms(1), of st]] core
      by (simp add: finish_item_def Inr z redisReaderSetErrorOOM_def)
  next
    case (Some b)
    have "ahead x (r\<lparr>store := st, pos := pos r + n\<rparr>) (r'\<lparr>store := st, pos := pos r' + n\<rparr>)"
      using ahead_step [OF ahead_update(1) [OF assms(1), of st], of p n] assms(2,3) by simp
    note a = this ahead_update(2) [OF this, of "Some b"]
    show ?thesis using moved_agree [OF move_ahead [OF a(1)], of "\<lambda>r. r"] moved_agree [OF move_ahead [OF a(2)], of "\<lambda>r. r"] core
      by (simp add: finish_item_def Inr z Some Let_def)
  qed
qed (simp add: finish_item_def)

text \<open>The stack of tasks is not left, and the reply is there from the root item on.\<close>

definition in_stack :: "redisReader \<Rightarrow> bool" where
  "in_stack r \<longleftrightarrow> length (rstack r) = 9 \<and> - 1 \<le> ridx r \<and> ridx r \<le> 8 \<and> (ridx r > 0 \<longrightarrow> reply r \<noteq> None)"

definition has_reply :: "redisReader \<Rightarrow> bool" where
  "has_reply r \<longleftrightarrow> in_stack r \<and> reply r \<noteq> None"

lemma in_stack_update [simp]:
  "in_stack (r\<lparr>store := st\<rparr>) = in_stack r" "in_stack (r\<lparr>pos := n\<rparr>) = in_stack r"
  "in_stack (set_task r i t) = in_stack r" "has_reply (r\<lparr>store := st\<rparr>) = has_reply r"
  by (simp_all add: in_stack_def set_task_def has_reply_def)

section \<open>Items and more bytes\<close>

lemma readLine_ahead:
  assumes "ahead x r r'"
  shows "readLine r = None \<or>
    (\<exists>n p. readLine r = Some (pos r, n, r\<lparr>pos := pos r + (n + 2)\<rparr>) \<and> readLine r' = Some (pos r', n, r'\<lparr>pos := pos r' + (n + 2)\<rparr>) \<and>
      ready r p \<and> ready r' (p @ x) \<and> n + 2 \<le> length p \<and> line_end p = Some n)"
proof -
  obtain p where p: "ready r p" "ready r' (p @ x)" using assms by (auto simp: ahead_def)
  show ?thesis
  proof (cases "line_end p")
    case (Some n)
    then show ?thesis using line_end_append [OF Some, of x] line_end_bound [OF Some] 
      ready_ahead(4) [OF p(1)] ready_ahead(4) [OF p(2)] ready_ahead(1) [OF p(1)] ready_ahead(1) [OF p(2)]
      by (intro disjI2 exI [of _ n] exI [of _ p]) (simp add: readLine_def add.assoc p)
  qed (use ready_ahead(4) [OF p(1)] ready_ahead(1) [OF p(1)] in \<open>simp add: readLine_def\<close>)
qed

lemma buf_bytes_pos [simp]: "buf_bytes (r\<lparr>pos := n\<rparr>) = buf_bytes r"
  by (simp add: buf_bytes_def)

lemma line_end_mem: "line_end p = Some n \<Longrightarrow> CR \<in> set p"
  using line_end_CR [of p n] line_end_bound [of p n] nth_mem [of n p] by simp

lemma processLineItem_ahead:
  assumes "ahead x r r'"
  shows "processLineItem hp r = Inr (False, r) \<or> agree x (processLineItem hp r) (processLineItem hp r')"
  using readLine_ahead [OF assms]
proof (elim disjE exE conjE)
  fix n p
  assume l: "readLine r = Some (pos r, n, r\<lparr>pos := pos r + (n + 2)\<rparr>)" "readLine r' = Some (pos r', n, r'\<lparr>pos := pos r' + (n + 2)\<rparr>)"
    and p: "ready r p" "ready r' (p @ x)" and n: "n + 2 \<le> length p" "line_end p = Some n"
  note core = aheadD [OF assms]
  have cr: "CR \<in> set p" using n(2) by (rule line_end_mem)
  have eq: "readLongLong (drop (pos r) (buf_bytes r)) = readLongLong p"
      "readLongLong (drop (pos r') (buf_bytes r')) = readLongLong p"
      "bytes_at (buf_bytes r) (pos r) n = bytes_at p 0 n" "bytes_at (buf_bytes r') (pos r') n = bytes_at p 0 n"
    using ready_ahead(5) [OF p(1)] ready_ahead(5) [OF p(2)] ready_ahead(6) [OF p(1), of 0 n] ready_ahead(6) [OF p(2), of 0 n]
      readLongLong_append [OF cr, of x] cr n(1) bytes_at_append1 [of 0 n p x] by simp_all
  have "ready (r\<lparr>pos := pos r + (n + 2)\<rparr>) (drop (n + 2) p)" by (rule ready_step [OF p(1) n(1)])
  from finish_agree [OF ahead_step [OF assms p(1) n(1)] this, of 0] show ?thesis
    by (simp add: processLineItem_def Let_def l core eq)
qed (simp add: processLineItem_def)

lemma processBulkItem_ahead:
  assumes "ahead x r r'"
  shows "processBulkItem hp r = Inr (False, r) \<or> agree x (processBulkItem hp r) (processBulkItem hp r')"
proof -
  obtain p where p: "ready r p" "ready r' (p @ x)" using assms by (auto simp: ahead_def)
  note core = aheadD [OF assms]
  note a = ready_ahead(1,4) [OF p(1)] ready_ahead(1,4) [OF p(2), simplified length_append]
  show ?thesis
  proof (cases "line_end p")
    case None
    then show ?thesis by (simp add: processBulkItem_def Let_def a)
  next
    case (Some s)
    define n where "n = readLongLong p"
    have cr: "CR \<in> set p" using Some by (rule line_end_mem)
    have eq: "readLongLong (drop (pos r) (buf_bytes r)) = n" "readLongLong (drop (pos r') (buf_bytes r')) = n"
      using ready_ahead(5) [OF p(1)] ready_ahead(5) [OF p(2)] readLongLong_append [OF cr, of x] cr
      by (simp_all add: n_def)
    note s = line_end_append [OF Some, of x] line_end_bound [OF Some]
    consider "n < 0" | "0 \<le> n" "s + 2 + nat n + 2 \<le> length p" | "0 \<le> n" "\<not> s + 2 + nat n + 2 \<le> length p" by linarith
    then show ?thesis
    proof cases
      case 1
      then show ?thesis using finish_agree [OF assms p(1) s(2)]
        by (simp add: processBulkItem_def Let_def a Some s(1) eq core)
    next
      case 2
      have b: "bytes_at (drop (pos r) (buf_bytes r)) (s + 2) (nat n) = bytes_at p (s + 2) (nat n)"
          "bytes_at (drop (pos r') (buf_bytes r')) (s + 2) (nat n) = bytes_at p (s + 2) (nat n)"
        using ready_ahead(7) [OF p(1), of "s + 2" "nat n"] ready_ahead(7) [OF p(2), of "s + 2" "nat n"] 2(2)
          bytes_at_append1 [of "s + 2" "nat n" p x] by simp_all
      have l: "pos r + (s + 2 + nat n + 2) \<le> len r" "pos r' + (s + 2 + nat n + 2) \<le> len r'"
        using 2(2) ready_ahead(2) [OF p(1)] ready_ahead(2) [OF p(2)] by simp_all
      show ?thesis using finish_agree [OF assms p(1) 2(2)] 2(1) l b
        by (simp add: processBulkItem_def Let_def a Some s(1) eq core)
    next
      case 3
      then show ?thesis using ready_ahead(2) [OF p(1)] by (simp add: processBulkItem_def Let_def a Some eq)
    qed
  qed
qed

text \<open>What is done with the number of elements, when the line is read.\<close>

definition after_count :: "heap \<Rightarrow> redisReader \<Rightarrow> int \<Rightarrow> step_result" where
  "after_count hp r elements =
     (case (if elements = - 1 then createNilObject hp (rstack r) (task r (ridx r)) (store r)
            else createArrayObject hp (rstack r) (task r (ridx r)) (int32 elements) (store r)) of
        Inl e \<Rightarrow> Inl e
      | Inr (None, st) \<Rightarrow> Inr (False, redisReaderSetErrorOOM (r\<lparr>store := st\<rparr>))
      | Inr (Some a, st) \<Rightarrow>
          map_sum id (\<lambda>s. (True, if ridx r = 0 then s\<lparr>reply := Some a\<rparr> else s))
            (if elements = - 1 \<or> \<not> elements > 0 then moveToNextTask (r\<lparr>store := st\<rparr>)
             else if length (rstack r) \<le> nat (ridx r + 1) then Inl Out_of_array
             else Inr (set_task
                (set_task (r\<lparr>store := st\<rparr>) (ridx r)
                  ((task r (ridx r))\<lparr>task_elements := int32 elements, task_obj := Some a\<rparr>)\<lparr>ridx := ridx r + 1\<rparr>)
                (ridx r + 1)
                \<lparr>task_type = None, task_elements = - 1, task_idx = 0, task_obj = None,
                 task_parent = Some (nat (ridx r))\<rparr>)))"

lemma processMultiBulkItem_line:
  assumes "readLine r = Some (k, n, r\<lparr>pos := m\<rparr>)" and "ridx r \<noteq> 8"
  shows "processMultiBulkItem hp r = after_count hp (r\<lparr>pos := m\<rparr>) (readLongLong (drop k (buf_bytes r)))"
proof -
  define e where "e = readLongLong (drop k (buf_bytes r))"
  have "processMultiBulkItem hp r = after_count hp (r\<lparr>pos := m\<rparr>) e"
    unfolding processMultiBulkItem_def Let_def assms(1) option.case prod.case buf_bytes_pos e_def [symmetric] after_count_def
    using assms(2) by (auto split: sum.split option.split simp: set_task_def)
  then show ?thesis by (simp add: e_def)
qed

lemma after_count_ahead:
  assumes "ahead x q q'"
  shows "agree x (after_count hp q e) (after_count hp q' e)"
proof -
  note core = aheadD [OF assms]
  define obj where "obj = (if e = - 1 then createNilObject hp (rstack q) (task q (ridx q)) (store q)
    else createArrayObject hp (rstack q) (task q (ridx q)) (int32 e) (store q))"
  have obj': "(if e = - 1 then createNilObject hp (rstack q') (task q' (ridx q')) (store q')
    else createArrayObject hp (rstack q') (task q' (ridx q')) (int32 e) (store q')) = obj" by (simp add: obj_def core)
  show ?thesis
  proof (cases obj)
    case (Inr z)
    obtain a st where z: "z = (a, st)" by (cases z)
    have st: "ahead x (q\<lparr>store := st\<rparr>) (q'\<lparr>store := st\<rparr>)" using assms by simp
    show ?thesis
    proof (cases a)
      case None
      then show ?thesis using set_error_ahead [OF st] aheadD [OF st]
        by (simp add: after_count_def obj_def [symmetric] obj' Inr z redisReaderSetErrorOOM_def)
    next
      case (Some b)
      let ?f = "\<lambda>s. if ridx q = 0 then s\<lparr>reply := Some b\<rparr> else s"
      show ?thesis
        using moved_agree [OF move_ahead [OF st], of ?f] st core
        by (simp add: after_count_def obj_def [symmetric] obj' Inr z Some)
    qed
  qed (simp add: after_count_def obj_def [symmetric] obj')
qed

lemma processMultiBulkItem_ahead:
  assumes "ahead x r r'"
  shows "processMultiBulkItem hp r = Inr (False, r) \<or> agree x (processMultiBulkItem hp r) (processMultiBulkItem hp r')"
proof (cases "ridx r = 8")
  case True
  then show ?thesis using set_error_ahead [OF assms] aheadD [OF assms] by (simp add: processMultiBulkItem_def)
next
  case False
  then have ridx: "ridx r \<noteq> 8" "ridx r' \<noteq> 8" using aheadD [OF assms] by simp_all
  show ?thesis
    using readLine_ahead [OF assms]
  proof (elim disjE exE conjE)
    fix n p
    assume l: "readLine r = Some (pos r, n, r\<lparr>pos := pos r + (n + 2)\<rparr>)" "readLine r' = Some (pos r', n, r'\<lparr>pos := pos r' + (n + 2)\<rparr>)"
      and p: "ready r p" "ready r' (p @ x)" and n: "n + 2 \<le> length p" "line_end p = Some n"
    have cr: "CR \<in> set p" using n(2) by (rule line_end_mem)
    have eq: "readLongLong (drop (pos r) (buf_bytes r)) = readLongLong p"
        "readLongLong (drop (pos r') (buf_bytes r')) = readLongLong p"
      using ready_ahead(5) [OF p(1)] ready_ahead(5) [OF p(2)] readLongLong_append [OF cr, of x] cr by simp_all
    show ?thesis using after_count_ahead [OF ahead_step [OF assms p(1) n(1)]]
      unfolding processMultiBulkItem_line [OF l(1) ridx(1)] processMultiBulkItem_line [OF l(2) ridx(2)] eq by simp
  qed (simp add: processMultiBulkItem_def Let_def ridx)
qed

lemma process_typed_ahead:
  assumes "ahead x r r'"
  shows "process_typed hp r = Inr (False, r) \<or> agree x (process_typed hp r) (process_typed hp r')"
  using processLineItem_ahead [OF assms] processBulkItem_ahead [OF assms] processMultiBulkItem_ahead [OF assms]
    aheadD [OF assms]
  by (auto simp: process_typed_def split: option.split reply_type.split)

text \<open>An item is complete, and the bytes behind it do not matter, or the reader waits for them.\<close>

lemma processItem_ahead:
  assumes "ahead x r r'" and "nat (ridx r) < length (rstack r)"
  shows "(\<exists>w w'. processItem hp r = Inr (False, w) \<and> (ridx w = ridx r \<and> in_stack w = in_stack r) \<and> len w' = len r' \<and> ahead x w w' \<and>
      processItem hp r' = processItem hp w') \<or>
    agree x (processItem hp r) (processItem hp r')"
proof -
  obtain p where p: "ready r p" "ready r' (p @ x)" using assms(1) by (auto simp: ahead_def)
  note core = aheadD [OF assms(1)]
  show ?thesis
  proof (cases "task_type (task r (ridx r)) = None")
    case False
    then have "processItem hp r = process_typed hp r" "processItem hp r' = process_typed hp r'"
      using core by (simp_all only: processItem_def if_False)
    then show ?thesis using process_typed_ahead [OF assms(1), of hp] assms(1) by metis
  next
    case none: True
    show ?thesis
    proof (cases p)
      case Nil
      then have "readBytes 1 r = None" using ready_ahead(1) [OF p(1)] by (simp add: readBytes_def)
      then have "processItem hp r = Inr (False, r)" using none by (simp only: processItem_def if_True option.case simp_thms)
      then show ?thesis using assms(1) by blast
    next
      case (Cons c s)
      have rb: "readBytes 1 r = Some ([c], r\<lparr>pos := pos r + 1\<rparr>)" "readBytes 1 r' = Some ([c], r'\<lparr>pos := pos r' + 1\<rparr>)"
        using ready_ahead(1) [OF p(1)] ready_ahead(1) [OF p(2)] ready_ahead(6) [OF p(1), of 0 1] ready_ahead(6) [OF p(2), of 0 1]
        by (simp_all add: readBytes_def Cons) (simp_all add: bytes_at_def)
      have st: "ahead x (r\<lparr>pos := pos r + 1\<rparr>) (r'\<lparr>pos := pos r' + 1\<rparr>)"
        using ahead_step [OF assms(1) p(1), of 1] Cons by simp
      show ?thesis
      proof (cases "type_of_byte c")
        case None
        then show ?thesis using set_error_ahead [OF st] none core rb
          by (simp add: processItem_def redisReaderSetErrorProtocolByte_def)
      next
        case (Some t)
        define w w' where "w = set_task (r\<lparr>pos := pos r + 1\<rparr>) (ridx r) ((task r (ridx r))\<lparr>task_type := Some t\<rparr>)"
          and "w' = set_task (r'\<lparr>pos := pos r' + 1\<rparr>) (ridx r) ((task r (ridx r))\<lparr>task_type := Some t\<rparr>)"
        have w: "ahead x w w'" "ridx w = ridx r" "len w' = len r'" "in_stack w = in_stack r" using st by (simp_all add: w_def w'_def) (simp_all add: set_task_def in_stack_def)
        have pr: "processItem hp r = process_typed hp w" "processItem hp r' = process_typed hp w'"
          using none core rb Some by (simp_all add: processItem_def w_def w'_def)
        have "task_type (task w' (ridx w')) \<noteq> None" using core assms(2) by (simp add: w'_def set_task_def)
        then have "processItem hp w' = process_typed hp w'" by (simp only: processItem_def if_False)
        then show ?thesis using process_typed_ahead [OF w(1), of hp] w pr by metis
      qed
    qed
  qed
qed

section \<open>Progress\<close>

text \<open>An item that is complete has been taken from the buffer.\<close>

definition onward :: "redisReader \<Rightarrow> redisReader \<Rightarrow> bool" where
  "onward r r' \<longleftrightarrow> buf r' = buf r \<and> len r' = len r \<and> pos r < pos r' \<and> pos r' \<le> len r \<and> err r' = err r"

lemma move_keeps:
  "moveToNextTask r = Inr r' \<Longrightarrow> buf r' = buf r \<and> len r' = len r \<and> pos r' = pos r \<and> err r' = err r \<and>
     reply r' = reply r \<and> store r' = store r \<and> length (rstack r') = length (rstack r) \<and> maxbuf r' = maxbuf r \<and> ridx r' \<le> ridx r \<and>
     (- 1 \<le> ridx r \<longrightarrow> - 1 \<le> ridx r')"
proof (induction r rule: moveToNextTask.induct)
  case (1 r)
  then show ?case
    by (subst (asm) moveToNextTask.simps [of r]) (auto simp: Let_def set_task_def order_less_imp_le split: if_splits)
qed

lemma finish_onward:
  "finish_item obj n r = Inr (True, r') \<Longrightarrow> buf r' = buf r \<and> len r' = len r \<and> pos r' = pos r + n \<and> err r' = err r"
  unfolding finish_item_def
  by (auto simp: map_sum_def Let_def split: sum.splits option.splits if_splits dest!: move_keeps)

lemma process_typed_onward:
  assumes "ready r p" and "process_typed hp r = Inr (True, r')"
  shows "onward r r'"
proof -
  have ah: "ahead [] r r" using assms(1) by (auto simp: ahead_def rebuf_def)
  note a = ready_ahead(1,2,4) [OF assms(1)]
  have line: "onward r r'" if "processLineItem hp r = Inr (True, r')"
    using readLine_ahead [OF ah] that a(2) ready_unique [OF assms(1)]
    by (fastforce simp: processLineItem_def Let_def onward_def dest!: finish_onward)
  have bulk: "onward r r'" if "processBulkItem hp r = Inr (True, r')"
    using that a line_end_bound [of p]
    by (auto simp: processBulkItem_def Let_def onward_def split: option.splits if_splits dest!: finish_onward)
  have multi: "onward r r'" if m: "processMultiBulkItem hp r = Inr (True, r')"
    using readLine_ahead [OF ah]
  proof (elim disjE exE conjE)
    fix n q
    assume l: "readLine r = Some (pos r, n, r\<lparr>pos := pos r + (n + 2)\<rparr>)" and q: "ready r q" "n + 2 \<le> length q"
    have "ridx r \<noteq> 8" using m by (auto simp: processMultiBulkItem_def)
    from m [unfolded processMultiBulkItem_line [OF l this]] ready_ahead(2) [OF q(1)] q(2) show ?thesis
      unfolding after_count_def
      by (auto simp: onward_def set_task_def map_sum_def split: sum.splits option.splits if_splits dest!: move_keeps)
  qed (use m in \<open>simp add: processMultiBulkItem_def Let_def split: if_splits\<close>)
  show ?thesis using assms(2) line bulk multi
    by (auto simp: process_typed_def split: option.splits reply_type.splits)
qed

lemma processItem_onward:
  assumes "ready r p" and "processItem hp r = Inr (True, r')"
  shows "onward r r'"
proof (cases "task_type (task r (ridx r)) = None")
  case False
  then have "processItem hp r = process_typed hp r" by (simp only: processItem_def if_False)
  then show ?thesis using process_typed_onward assms by metis
next
  case True
  obtain c s where p: "p = c # s"
    using assms(2) True ready_ahead(1) [OF assms(1)] by (cases p) (auto simp: processItem_def readBytes_def)
  have rb: "readBytes 1 r = Some ([c], r\<lparr>pos := pos r + 1\<rparr>)"
    using ready_ahead(1) [OF assms(1)] ready_ahead(6) [OF assms(1), of 0 1] by (simp add: readBytes_def p) (simp add: bytes_at_def)
  then obtain t where t: "process_typed hp (set_task (r\<lparr>pos := pos r + 1\<rparr>) (ridx r) ((task r (ridx r))\<lparr>task_type := Some t\<rparr>)) = Inr (True, r')"
    using assms(2) True by (auto simp: processItem_def split: option.splits)
  have "ready (set_task (r\<lparr>pos := pos r + 1\<rparr>) (ridx r) ((task r (ridx r))\<lparr>task_type := Some t\<rparr>)) s"
    using ready_step [OF assms(1), of 1] p by simp
  from process_typed_onward [OF this t] show ?thesis by (simp add: onward_def set_task_def)
qed

lemma in_stack_reply: "in_stack r \<Longrightarrow> has_reply (r\<lparr>reply := Some a\<rparr>)"
  by (simp add: in_stack_def has_reply_def)

lemma has_reply_deep: "in_stack r \<Longrightarrow> 0 \<le> ridx r \<Longrightarrow> ridx r \<noteq> 0 \<Longrightarrow> has_reply r"
  by (simp add: in_stack_def has_reply_def)

lemma move_has_reply: "moveToNextTask r = Inr r' \<Longrightarrow> has_reply r \<Longrightarrow> has_reply r'"
  using move_keeps [of r r'] by (auto simp: in_stack_def has_reply_def)

lemma finish_in_stack:
  assumes "finish_item obj n r = Inr (True, r')" and "in_stack r" and "0 \<le> ridx r"
  shows "has_reply r'"
proof -
  obtain a st where "moveToNextTask ((if ridx r = 0 then (\<lambda>r. r\<lparr>reply := Some a\<rparr>) else id) (r\<lparr>store := st, pos := pos r + n\<rparr>)) = Inr r'"
    using assms(1) unfolding finish_item_def
    by (auto simp: map_sum_def Let_def split: sum.splits option.splits if_splits)
  moreover have "in_stack (r\<lparr>store := st, pos := pos r + n\<rparr>)" using assms(2) by simp
  ultimately show ?thesis using in_stack_reply has_reply_deep assms(3)
    by (auto elim!: move_has_reply split: if_splits)
qed

lemma process_typed_in_stack:
  assumes "process_typed hp r = Inr (True, r')" and "in_stack r" and "0 \<le> ridx r"
  shows "has_reply r'"
proof -
  have line: "has_reply r'" if "processLineItem hp r = Inr (True, r')"
    using that assms(2,3) by (auto simp: processLineItem_def Let_def readLine_def split: option.splits if_splits elim!: finish_in_stack)
  have bulk: "has_reply r'" if "processBulkItem hp r = Inr (True, r')"
    using that assms(2,3) by (auto simp: processBulkItem_def Let_def split: option.splits if_splits elim!: finish_in_stack)
  have multi: "has_reply r'" if m: "processMultiBulkItem hp r = Inr (True, r')"
  proof -
    have "ridx r \<noteq> 8" using m by (auto simp: processMultiBulkItem_def)
    moreover obtain n where l: "readLine r = Some (pos r, n, r\<lparr>pos := pos r + n + 2\<rparr>)"
      using m by (auto simp: processMultiBulkItem_def Let_def readLine_def split: option.splits if_splits)
    ultimately have a: "after_count hp (r\<lparr>pos := pos r + n + 2\<rparr>) (readLongLong (drop (pos r) (buf_bytes r))) = Inr (True, r')"
      using processMultiBulkItem_line [OF l] m by simp
    obtain e where e: "after_count hp (r\<lparr>pos := pos r + n + 2\<rparr>) e = Inr (True, r')" using a by blast
    have st: "in_stack (r\<lparr>pos := pos r + n + 2\<rparr>)" using assms(2) by simp
    show ?thesis using e st assms(3) \<open>ridx r \<noteq> 8\<close> unfolding after_count_def
      by (auto simp: map_sum_def in_stack_def has_reply_def set_task_def split: sum.splits option.splits if_splits dest!: move_keeps)
  qed
  show ?thesis using assms(1) line bulk multi
    by (auto simp: process_typed_def split: option.splits reply_type.splits)
qed

lemma processItem_in_stack:
  assumes "processItem hp r = Inr (True, r')" and "in_stack r" and "0 \<le> ridx r"
  shows "has_reply r'"
proof (cases "task_type (task r (ridx r)) = None")
  case False
  then have "processItem hp r = process_typed hp r" by (simp only: processItem_def if_False)
  then show ?thesis using process_typed_in_stack assms by metis
next
  case True
  obtain q t where q: "q = set_task (r\<lparr>pos := pos r + 1\<rparr>) (ridx r) ((task r (ridx r))\<lparr>task_type := Some t\<rparr>)"
      "process_typed hp q = Inr (True, r')"
    using assms(1) True by (auto simp: processItem_def readBytes_def split: option.splits if_splits)
  moreover have "ridx q = ridx r" by (simp add: q(1) set_task_def)
  ultimately show ?thesis using process_typed_in_stack [OF q(2)] assms(2,3) by simp
qed

lemma onward_ready: "ready r p \<Longrightarrow> onward r r' \<Longrightarrow> \<exists>p'. ready r' p' \<and> length p' < length p"
  unfolding ready_def onward_def by (elim conjE exE) (intro exI [of _ "drop (pos r') _"] conjI exI, auto)

text \<open>So the loop over the items returns, for every content of the buffer and every heap.\<close>

lemma process_items_returns: "ready r p \<Longrightarrow> \<exists>res. process_items hp r = Some res"
proof (induction "length p" arbitrary: r p rule: less_induct)
  case less
  show ?case
  proof (cases "processItem hp r")
    case (Inr z)
    then show ?thesis
      using onward_ready [OF less(2) processItem_onward [OF less(2)]] less(1)
      by (subst process_items.simps) (cases z, fastforce)
  qed (subst process_items.simps, simp)
qed

text \<open>
  What the loop does with the bytes of \<open>r\<close> decides what it does when more bytes are behind them: a
  complete reply or an error stays, a reader that waits goes on from where it stopped.
\<close>

lemma process_items_ahead:
  assumes "ahead x r r'" and "in_stack r"
  shows "(\<exists>e. process_items hp r = Some (Inl e) \<and> process_items hp r' = Some (Inl e)) \<or>
    (\<exists>a. process_items hp r = Some (Inr a) \<and> err a \<noteq> None \<and> process_items hp r' = Some (Inr a)) \<or>
    (\<exists>a b. process_items hp r = Some (Inr a) \<and> ridx a = - 1 \<and> ahead x a b \<and> process_items hp r' = Some (Inr b) \<and>
      (0 \<le> ridx r \<or> reply r \<noteq> None \<longrightarrow> reply a \<noteq> None) \<and> in_stack a) \<or>
    (\<exists>a b. process_items hp r = Some (Inr a) \<and> ridx a \<ge> 0 \<and> len b = len r' \<and> ahead x a b \<and>
      process_items hp r' = process_items hp b \<and> in_stack a)"
proof -
  obtain p where "ready r p" using assms(1) by (auto simp: ahead_def)
  then show ?thesis using assms
  proof (induction "length p" arbitrary: r r' p rule: less_induct)
    case less
    note core = aheadD [OF less(3)]
    show ?case
    proof (cases "ridx r \<ge> 0")
      case False
      then have "process_items hp r = Some (Inr r)" "process_items hp r' = Some (Inr r')"
        using core by (subst process_items.simps, simp)+
      moreover have "ridx r = - 1" using less(4) False by (auto simp: in_stack_def)
      ultimately show ?thesis using less(3,4) by auto
    next
      case True
      have bound: "nat (ridx r) < length (rstack r)" using less(4) by (auto simp: in_stack_def)
      have step: "process_items hp r = (case processItem hp r of Inl e \<Rightarrow> Some (Inl e)
          | Inr (ok, r) \<Rightarrow> if ok then process_items hp r else Some (Inr r))"
        "process_items hp r' = (case processItem hp r' of Inl e \<Rightarrow> Some (Inl e)
          | Inr (ok, r) \<Rightarrow> if ok then process_items hp r else Some (Inr r))"
        using True core by (subst process_items.simps, simp)+
      from processItem_ahead [OF less(3) bound, of hp] show ?thesis
      proof (elim disjE exE conjE)
        fix w w'
        assume w: "processItem hp r = Inr (False, w)" "ridx w = ridx r" "len w' = len r'"
          "ahead x w w'" "in_stack w = in_stack r" "processItem hp r' = processItem hp w'"
        then have "process_items hp w' = process_items hp r'"
          using aheadD [OF w(4)] True by (subst process_items.simps) (simp add: step(2))
        then show ?thesis using w(1-5) True less(4) by (auto simp: step(1))
      next
        assume agree: "agree x (processItem hp r) (processItem hp r')"
        show ?thesis
        proof (cases "processItem hp r")
          case (Inl e)
          then show ?thesis using agree by (simp add: step)
        next
          case (Inr z)
          obtain ok q where z: "z = (ok, q)" by (cases z)
          show ?thesis
          proof (cases ok)
            case False
            then show ?thesis using agree by (simp add: step Inr z)
          next
            case True
            then obtain q' where q': "processItem hp r' = Inr (True, q')" "ahead x q q'" using agree by (auto simp: Inr z)
            obtain p' where p': "ready q p'" "length p' < length p"
              using onward_ready [OF less(2) processItem_onward [OF less(2)]] Inr z True by metis
            have q: "in_stack q" "reply q \<noteq> None"
              using processItem_in_stack [OF _ less(4) \<open>ridx r \<ge> 0\<close>] Inr z True by (auto simp: has_reply_def)
            obtain p2 where "ready r' p2" using less(3) by (auto simp: ahead_def)
            then have len: "len q' = len r'" using processItem_onward [OF _ q'(1)] by (auto simp: onward_def)
            show ?thesis using len less(1) [OF p'(2,1) q'(2) q(1)] q(2) \<open>ridx r \<ge> 0\<close> by (simp add: step Inr z True q'(1))
          qed
        qed
      qed
    qed
  qed
qed

end
