(* ===== verification/RedisFormat.thy ===== *)
theory RedisFormat
  imports RedisFacts
begin

text \<open>
  Commands of the Redis protocol, \<open>src/src/redis/hiredis.c\<close>: from a format with arguments and from a
  vector of arguments. The text of a \<open>printf\<close> conversion is a parameter (\<open>print\<close>), which gets the
  conversion and the variable arguments from the one it converts on.
\<close>

section \<open>Lengths\<close>

text \<open>Division of C truncates towards zero.\<close>

function digit_count :: "int \<Rightarrow> nat" where
  "digit_count i = (if \<bar>i\<bar> < 10 then 1 else Suc (digit_count (sgn i * (\<bar>i\<bar> div 10))))"
  by pat_completeness auto
termination
proof (relation "measure (\<lambda>i. nat \<bar>i\<bar>)")
  fix i :: int
  assume "\<not> \<bar>i\<bar> < 10"
  then have "\<bar>sgn i * (\<bar>i\<bar> div 10)\<bar> < \<bar>i\<bar>" by (cases "i < 0") (simp_all add: sgn_if)
  then show "(sgn i * (\<bar>i\<bar> div 10), i) \<in> measure (\<lambda>i. nat \<bar>i\<bar>)" by simp
qed simp

declare digit_count.simps [simp del]

definition intlen :: "int \<Rightarrow> int" where
  "intlen i = (if i < 0 then 1 + int (digit_count (int32 (- i))) else int (digit_count i))"

definition bulklen :: "nat \<Rightarrow> nat" where
  "bulklen n = wrap64 (size_of_int (1 + intlen (int32 (int n)) + 2) + n + 2)"

section \<open>Building a command\<close>

definition CRLF :: string where
  "CRLF = [CR, LF]"

definition bulk_text :: "string \<Rightarrow> string" where
  "bulk_text s = CHR ''$'' # nat_text (length s) @ CRLF @ s @ CRLF"

text \<open>
  The command is written into \<open>totlen + 1\<close> bytes, then its length is compared. \<open>None\<close> is the result -1.
\<close>

definition build_command :: "heap \<Rightarrow> string list \<Rightarrow> int \<Rightarrow> reader_fault + string option" where
  "build_command hp args totlen =
     (if \<not> get hp (size_of_int (int32 (totlen + 1))) then Inr None
      else
        let cmd = CHR ''*'' # int_text (int (length args)) @ CRLF @ concat (map bulk_text args) in
        if int (length cmd) > totlen then Inl Out_of_array
        else if int (length cmd) \<noteq> totlen then Inl Assertion
        else Inr (Some cmd))"

section \<open>A vector of arguments\<close>

text \<open>The length of an argument: the one given, or that of the C string. The bytes are its memory.\<close>

definition arg_len :: "nat list option \<Rightarrow> string list \<Rightarrow> nat \<Rightarrow> nat" where
  "arg_len argvlen argv j = (case argvlen of Some l \<Rightarrow> l ! j | None \<Rightarrow> strlen (argv ! j))"

definition redisFormatCommandArgv :: "heap \<Rightarrow> string list \<Rightarrow> nat list option \<Rightarrow> reader_fault + string option" where
  "redisFormatCommandArgv hp argv argvlen =
     (let lens = map (arg_len argvlen argv) [0..<length argv];
          totlen = fold (\<lambda>n t. int32 (t + int32 (int (bulklen n)))) lens (1 + intlen (int (length argv)) + 2)
      in if get hp (size_of_int (int32 (totlen + 1))) \<and> (\<exists>(a, n) \<in> set (zip argv lens). n > length a) then Inl Out_of_array
         else build_command hp (map (\<lambda>(a, n). take n a) (zip argv lens)) totlen)"

section \<open>A format\<close>

text \<open>Variable arguments: a pointer to bytes, a \<open>size_t\<close>, integers of the sizes, a \<open>double\<close>.\<close>

datatype 'd va_arg = Va_str string | Va_size nat | Va_int int | Va_longlong int | Va_long int | Va_double 'd

datatype va_kind = Kind_int | Kind_double | Kind_longlong | Kind_long

fun is_kind :: "va_kind \<Rightarrow> 'd va_arg \<Rightarrow> bool" where
  "is_kind Kind_int (Va_int _) = True"
| "is_kind Kind_double (Va_double _) = True"
| "is_kind Kind_longlong (Va_longlong _) = True"
| "is_kind Kind_long (Va_long _) = True"
| "is_kind _ _ = False"

definition isdigit :: "char \<Rightarrow> bool" where
  "isdigit c = (48 \<le> code c \<and> code c \<le> 57)"

definition intfmts :: string where
  "intfmts = ''diouxX''"

definition skip_if :: "char \<Rightarrow> string \<Rightarrow> string" where
  "skip_if c s = (if s \<noteq> [] \<and> hd s = c then tl s else s)"

text \<open>The format behind the flags, the field width and the precision of a conversion.\<close>

definition skip_spec :: "string \<Rightarrow> string" where
  "skip_spec s =
     (let s = skip_if (CHR ''+'') (skip_if SP (skip_if (CHR ''-'') (skip_if (CHR ''0'') (skip_if (CHR ''#'') s))));
          s = dropWhile isdigit s
      in if s \<noteq> [] \<and> hd s = CHR ''.'' then dropWhile isdigit (tl s) else s)"

text \<open>
  The kind of the argument and the format from the conversion character on. A format that ends is seen
  as its terminating zero, which \<open>strchr\<close> finds.
\<close>

definition conversion :: "string \<Rightarrow> (va_kind \<times> string) option" where
  "conversion p =
     (let size = (\<lambda>kind p. if p \<noteq> [] \<and> strchr intfmts (peek p) then Some (kind, p) else None) in
      if strchr intfmts (peek p) then Some (Kind_int, p)
      else if strchr ''eEfFgGaA'' (peek p) then Some (Kind_double, p)
      else if peek p = CHR ''h'' \<and> peek (tl p) = CHR ''h'' then size Kind_int (drop 2 p)
      else if peek p = CHR ''h'' then size Kind_int (tl p)
      else if peek p = CHR ''l'' \<and> peek (tl p) = CHR ''l'' then size Kind_longlong (drop 2 p)
      else if peek p = CHR ''l'' then size Kind_long (tl p)
      else None)"

text \<open>The state of the loop: the argument that is built, whether it was touched, those done, their length.\<close>

record 'd format_state =
  curarg :: sdshdr
  touched :: bool
  curargv :: "sdshdr list"
  totlen :: int
  va :: "'d va_arg list"

text \<open>The end of an argument; \<open>None\<close> is an allocation that failed.\<close>

definition push_arg :: "heap \<Rightarrow> ('d, 'z) format_state_scheme \<Rightarrow> ('d, 'z) format_state_scheme option" where
  "push_arg hp st =
     (if \<not> get hp (8 * (length (curargv st) + 1)) then None
      else Some (st\<lparr>curargv := curargv st @ [curarg st],
                    totlen := int32 (totlen st + int32 (int (bulklen (sdslen (curarg st)))))\<rparr>))"

definition plain_char :: "heap \<Rightarrow> char \<Rightarrow> 'd format_state \<Rightarrow> 'd format_state option" where
  "plain_char hp c st =
     (if c = SP
      then if touched st
           then case push_arg hp st of
               None \<Rightarrow> None
             | Some st \<Rightarrow> map_option (\<lambda>e. st\<lparr>curarg := e, touched := False\<rparr>) (sdsempty (realloc hp))
           else Some st
      else map_option (\<lambda>a. st\<lparr>curarg := a, touched := True\<rparr>) (sdscatlen (realloc hp) (curarg st) [c] 1))"

text \<open>
  A conversion, with the format from the character behind the percent sign: the state and what is left of
  the format.
\<close>

definition convert ::
  "(string \<Rightarrow> 'd va_arg list \<Rightarrow> string) \<Rightarrow> heap \<Rightarrow> string \<Rightarrow> 'd format_state \<Rightarrow>
   reader_fault + ('d format_state \<times> string) option" where
  "convert print hp s st =
     (let set_arg = (\<lambda>new rest_va rest. Inr (map_option (\<lambda>a. (st\<lparr>curarg := a, va := rest_va, touched := True\<rparr>, rest)) new)) in
      if hd s = CHR ''s'' then
        (case va st of
           Va_str a # ap \<Rightarrow>
             set_arg (if strlen a > 0 then sdscatlen (realloc hp) (curarg st) a (strlen a) else Some (curarg st)) ap (tl s)
         | _ \<Rightarrow> Inl Va_arg)
      else if hd s = CHR ''b'' then
        (case va st of
           Va_str a # Va_size n # ap \<Rightarrow>
             if n > length a then Inl Out_of_array
             else set_arg (if n > 0 then sdscatlen (realloc hp) (curarg st) a n else Some (curarg st)) ap (tl s)
         | _ \<Rightarrow> Inl Va_arg)
      else if hd s = CHR ''%'' then set_arg (sdscat (realloc hp) (curarg st) ''%'') (va st) (tl s)
      else
        (case conversion (skip_spec s) of
           None \<Rightarrow> Inr None
         | Some (kind, p) \<Rightarrow>
             (case va st of
                [] \<Rightarrow> Inl Va_arg
              | a # ap' \<Rightarrow>
                  if \<not> is_kind kind a then Inl Va_arg
                  else
                    let fmt = CHR ''%'' # take (length s - length p + 1) s; l = length s - length p + 2 in
                    if l < 14
                    then if p = [] then Inl Out_of_array
                         else set_arg (sdscatvprintf (realloc hp) (curarg st) (print fmt (va st))) ap' (tl p)
                    else set_arg (Some (curarg st)) ap' (tl s))))"

lemma skip_if_shorter: "length (skip_if c s) \<le> length s"
  by (cases s) (auto simp: skip_if_def)

lemma skip_spec_shorter: "length (skip_spec s) \<le> length s"
proof -
  define f where "f = skip_if (CHR ''+'') (skip_if SP (skip_if (CHR ''-'') (skip_if (CHR ''0'') (skip_if (CHR ''#'') s))))"
  have f: "length f \<le> length s" unfolding f_def by (meson skip_if_shorter order_trans)
  define d where "d = dropWhile isdigit f"
  have d: "length d \<le> length s" unfolding d_def using f length_dropWhile_le [of isdigit f] by simp
  have "length (dropWhile isdigit (tl d)) \<le> length s" using length_dropWhile_le [of isdigit "tl d"] d by simp
  then show ?thesis using d unfolding skip_spec_def Let_def f_def [symmetric] d_def [symmetric] by simp
qed

lemma conversion_shorter: "conversion p = Some (k, q) \<Longrightarrow> length q \<le> length p"
  unfolding conversion_def Let_def by (auto split: if_splits)

lemma convert_shorter: "s \<noteq> [] \<Longrightarrow> convert print hp s st = Inr (Some (st', rest)) \<Longrightarrow> length rest < length s"
  using skip_spec_shorter [of s] conversion_shorter [of "skip_spec s"]
  unfolding convert_def Let_def
  by (cases s) (fastforce split: if_splits list.splits va_arg.splits option.splits prod.splits)+

function format_loop ::
  "(string \<Rightarrow> 'd va_arg list \<Rightarrow> string) \<Rightarrow> heap \<Rightarrow> string \<Rightarrow> 'd format_state \<Rightarrow> reader_fault + 'd format_state option" where
  "format_loop print hp [] st = Inr (Some st)"
| "format_loop print hp (c # s) st =
     (if c \<noteq> CHR ''%'' \<or> s = []
      then case plain_char hp c st of None \<Rightarrow> Inr None | Some st \<Rightarrow> format_loop print hp s st
      else case convert print hp s st of
          Inl e \<Rightarrow> Inl e
        | Inr None \<Rightarrow> Inr None
        | Inr (Some (st, rest)) \<Rightarrow> format_loop print hp rest st)"
  by pat_completeness auto
termination
  by (relation "measure (\<lambda>(print, hp, s, st). length s)") (auto dest: convert_shorter)

definition redisvFormatCommand ::
  "(string \<Rightarrow> 'd va_arg list \<Rightarrow> string) \<Rightarrow> heap \<Rightarrow> string \<Rightarrow> 'd va_arg list \<Rightarrow> reader_fault + string option" where
  "redisvFormatCommand print hp format args =
     (case sdsempty (realloc hp) of
        None \<Rightarrow> Inr None
      | Some e \<Rightarrow>
          (case format_loop print hp (takeWhile (\<lambda>c. c \<noteq> NUL) format)
              \<lparr>curarg = e, touched = False, curargv = [], totlen = 0, va = args\<rparr> of
             Inl f \<Rightarrow> Inl f
           | Inr None \<Rightarrow> Inr None
           | Inr (Some st) \<Rightarrow>
               (case if touched st then push_arg hp st else Some st of
                  None \<Rightarrow> Inr None
                | Some st \<Rightarrow>
                    let argv = map (\<lambda>s. bytes_at (sds_buf s) 0 (sdslen s)) (curargv st) in
                    build_command hp argv (int32 (totlen st + int32 (1 + intlen (int (length argv)) + 2))))))"

section \<open>The context\<close>

record redisContext =
  cerr :: "reader_err option"
  cerrstr :: string
  obuf :: "sdshdr option"
  reader :: "redisReader option"

text \<open>
  An error without a description is one of the system: \<open>strerror\<close> gives its text.
\<close>

definition redisSetError ::
  "string \<Rightarrow> reader_err \<Rightarrow> string option \<Rightarrow> redisContext \<Rightarrow> reader_fault + redisContext" where
  "redisSetError strerror type str c =
     (case str of
        Some s \<Rightarrow> Inr (c\<lparr>cerr := Some type, cerrstr := take 127 s\<rparr>)
      | None \<Rightarrow> if type \<noteq> REDIS_ERR_IO then Inl Assertion
          else Inr (c\<lparr>cerr := Some type, cerrstr := take 127 strerror\<rparr>))"

definition redisContextInit :: "heap \<Rightarrow> redisReply option list \<Rightarrow> redisContext option" where
  "redisContextInit hp st =
     (if \<not> get hp 160 then None
      else Some \<lparr>cerr = None, cerrstr = [], obuf = sdsempty (realloc hp), reader = redisReaderCreate hp st\<rparr>)"

definition redisFree :: "redisContext \<Rightarrow> redisReply option list option" where
  "redisFree c = map_option redisReaderFree (reader c)"

text \<open>The error of a reader is given to its context.\<close>

definition redisGetReplyFromReader ::
  "heap \<Rightarrow> redisContext \<Rightarrow> (reader_fault + bool \<times> addr option \<times> redisContext) option" where
  "redisGetReplyFromReader hp c =
     (case reader c of
        None \<Rightarrow> Some (Inl Null_pointer)
      | Some r \<Rightarrow>
          (case redisReaderGetReply hp r of
             None \<Rightarrow> None
           | Some (Inl e) \<Rightarrow> Some (Inl e)
           | Some (Inr (True, a, r)) \<Rightarrow> Some (Inr (True, a, c\<lparr>reader := Some r\<rparr>))
           | Some (Inr (False, a, r)) \<Rightarrow>
               Some (Inr (False, a, c\<lparr>reader := Some r, cerr := err r, cerrstr := take 127 (errstr r)\<rparr>))))"

definition append_command :: "heap \<Rightarrow> redisContext \<Rightarrow> string \<Rightarrow> reader_fault + bool \<times> redisContext" where
  "append_command hp c cmd =
     (case obuf c of
        None \<Rightarrow> Inl Null_pointer
      | Some b \<Rightarrow>
          (case sdscatlen (realloc hp) b cmd (length cmd) of
             None \<Rightarrow> Inr (False, c\<lparr>cerr := Some REDIS_ERR_OOM, cerrstr := ''Out of memory''\<rparr>)
           | Some b \<Rightarrow> Inr (True, c\<lparr>obuf := Some b\<rparr>)))"

text \<open>A formatted command, or that there is none, is appended.\<close>

definition append_formatted ::
  "heap \<Rightarrow> redisContext \<Rightarrow> reader_fault + string option \<Rightarrow> reader_fault + bool \<times> redisContext" where
  "append_formatted hp c cmd =
     (case cmd of
        Inl e \<Rightarrow> Inl e
      | Inr None \<Rightarrow> Inr (False, c\<lparr>cerr := Some REDIS_ERR_OOM, cerrstr := ''Out of memory''\<rparr>)
      | Inr (Some cmd) \<Rightarrow> append_command hp c cmd)"

definition redisvAppendCommand ::
  "(string \<Rightarrow> 'd va_arg list \<Rightarrow> string) \<Rightarrow> heap \<Rightarrow> redisContext \<Rightarrow> string \<Rightarrow> 'd va_arg list \<Rightarrow>
   reader_fault + bool \<times> redisContext" where
  "redisvAppendCommand print hp c format args = append_formatted hp c (redisvFormatCommand print hp format args)"

definition redisAppendCommandArgv ::
  "heap \<Rightarrow> redisContext \<Rightarrow> string list \<Rightarrow> nat list option \<Rightarrow> reader_fault + bool \<times> redisContext" where
  "redisAppendCommandArgv hp c argv argvlen = append_formatted hp c (redisFormatCommandArgv hp argv argvlen)"

end
