(* ===== verification/RedisConnection.thy ===== *)
theory RedisConnection
  imports RedisFormat
begin

text \<open>
  \<open>redisconnection.cpp\<close>, \<open>redisclient.cpp\<close> and \<open>redistrans.cpp\<close> of \<open>src/src/redis\<close>: connections to a Redis
  server, the pool of a client and its transactions. What they tell the layer below and the callbacks of the
  user is a list of actions. Callbacks see the objects of a reply in the store of the reader.
\<close>

section \<open>Requests\<close>

definition buildRequest :: "string list \<Rightarrow> string" where
  "buildRequest args =
     CHR ''*'' # int_text (int32 (int (length args))) @ CRLF @
     concat (map (\<lambda>a. CHR ''$'' # int_text (int32 (int (length a))) @ CRLF @ a @ CRLF) args)"

section \<open>The connection\<close>

datatype redis_reply = Err_reply "reader_err option" | Got_reply addr "redisReply option list"

text \<open>
  \<open>'f\<close> are the reply callbacks, \<open>None\<close> the dummy one; \<open>'c\<close> are the connect callbacks. A connection that waits
  for the answer to its password has the connect callback in \<open>m_authCallback\<close>.
\<close>

record ('f, 'c) redis_conn =
  m_context :: redisContext
  rc_callback :: "'f option"
  m_authCallback :: "'c option"

datatype ('f, 'c) redis_action = On_reply 'f redis_reply | On_connect 'c int | Send string | Shut_down

type_synonym ('f, 'c) conn_result = "reader_fault + ('f, 'c) redis_action list \<times> ('f, 'c) redis_conn"

definition new_redis_conn :: "heap \<Rightarrow> ('f, 'c) redis_conn option" where
  "new_redis_conn hp =
     map_option (\<lambda>c. \<lparr>m_context = c, rc_callback = None, m_authCallback = None\<rparr>) (redisContextInit hp [])"

definition clearCallback :: "('f, 'c) redis_conn \<Rightarrow> ('f, 'c) redis_conn" where
  "clearCallback c = c\<lparr>rc_callback := None\<rparr>"

definition setCallback :: "'f \<Rightarrow> ('f, 'c) redis_conn \<Rightarrow> ('f, 'c) redis_conn" where
  "setCallback f c = c\<lparr>rc_callback := Some f\<rparr>"

text \<open>\<open>a && b\<close> binds tighter than \<open>||\<close>: a reply that is no status is compared, whatever it is.\<close>

definition onAuth :: "redis_reply \<Rightarrow> 'c \<Rightarrow> ('f, 'c) redis_conn \<Rightarrow> ('f, 'c) conn_result" where
  "onAuth r cb c =
     (let c = c\<lparr>m_authCallback := None\<rparr>; fail = Inr ([On_connect cb (- 2), Shut_down], c); ok = Inr ([On_connect cb 0], c) in
      case r of
        Err_reply None \<Rightarrow> Inl Null_pointer
      | Err_reply (Some _) \<Rightarrow> fail
      | Got_reply a st \<Rightarrow>
          (case st ! a of
             None \<Rightarrow> Inl Null_pointer
           | Some obj \<Rightarrow>
               if rep_type obj = REDIS_REPLY_STATUS then ok
               else case rep_str obj of
                   None \<Rightarrow> Inl Null_pointer
                 | Some s \<Rightarrow> if map tolower (takeWhile (\<lambda>c. c \<noteq> NUL) s) \<noteq> ''ok'' then fail else ok))"

datatype ('f, 'c) reply_handler = Auth_handler 'c | User_handler "'f option"

fun run_handler :: "('f, 'c) reply_handler \<Rightarrow> redis_reply \<Rightarrow> ('f, 'c) redis_conn \<Rightarrow> ('f, 'c) conn_result" where
  "run_handler (Auth_handler cb) r c = onAuth r cb c"
| "run_handler (User_handler f) r c = Inr (case f of None \<Rightarrow> [] | Some f \<Rightarrow> [On_reply f r], c)"

text \<open>
  The replies that are complete go to one callback, the one that was set when the bytes arrived. A reply is
  freed after its callback.
\<close>

partial_function (option) reply_loop ::
  "heap \<Rightarrow> ('f, 'c) reply_handler \<Rightarrow> ('f, 'c) redis_conn \<Rightarrow> ('f, 'c) conn_result option" where
  "reply_loop hp h c =
     (case redisGetReplyFromReader hp (m_context c) of
        None \<Rightarrow> None
      | Some (Inl e) \<Rightarrow> Some (Inl e)
      | Some (Inr (ok, a, ctx)) \<Rightarrow>
          (let c = c\<lparr>m_context := ctx\<rparr> in
           case reader ctx of
             None \<Rightarrow> Some (Inl Null_pointer)
           | Some r \<Rightarrow>
               if \<not> ok
               then Some (run_handler h (Err_reply (err r)) c)
               else (case a of
                   None \<Rightarrow> Some (Inr ([], c))
                 | Some a \<Rightarrow>
                     (case run_handler h (Got_reply a (store r)) c of
                        Inl e \<Rightarrow> Some (Inl e)
                      | Inr (acts, c) \<Rightarrow>
                          Option.bind (reply_loop hp h
                              (c\<lparr>m_context := ctx\<lparr>reader := Some (r\<lparr>store := freeReplyObject a (store r)\<rparr>)\<rparr>\<rparr>))
                            (\<lambda>res. Some (map_sum id (\<lambda>(acts', c). (acts @ acts', c)) res))))))"

declare reply_loop.simps [code]

definition redis_handleRead ::
  "heap \<Rightarrow> string \<Rightarrow> ('f, 'c) redis_conn \<Rightarrow> ('f, 'c) conn_result option" where
  "redis_handleRead hp bytes c =
     (let h = (case m_authCallback c of Some cb \<Rightarrow> Auth_handler cb | None \<Rightarrow> User_handler (rc_callback c)) in
      case reader (m_context c) of
        None \<Rightarrow> Some (Inl Null_pointer)
      | Some r \<Rightarrow>
          (case redisReaderFeed hp r (Some bytes) of
             Inl e \<Rightarrow> Some (Inl e)
           | Inr (ok, r) \<Rightarrow>
               (let c = c\<lparr>m_context := (m_context c)\<lparr>reader := Some r\<rparr>\<rparr> in
                if \<not> ok
                then Some (run_handler h (Err_reply (err r)) c)
                else reply_loop hp h c)))"

definition redis_exec :: "string list \<Rightarrow> ('f, 'c) redis_action list" where
  "redis_exec cmd = [Send (buildRequest cmd)]"

definition redis_onConnect :: "bool \<Rightarrow> string \<Rightarrow> 'c \<Rightarrow> ('f, 'c) redis_conn \<Rightarrow>
  ('f, 'c) redis_action list \<times> ('f, 'c) redis_conn" where
  "redis_onConnect connected password cb c =
     (if \<not> connected then ([On_connect cb (- 1)], c)
      else if password \<noteq> [] then ([Send (buildRequest [''AUTH'', password])], c\<lparr>m_authCallback := Some cb\<rparr>)
      else ([On_connect cb 0], c))"

section \<open>The pool of a client\<close>

text \<open>
  Connections are numbers; \<open>alive\<close> tells which weak pointers can still be locked. An action names its
  connection. \<open>conns\<close> has the last connection at the end, as the vector of the code.
\<close>

record client =
  m_conns :: "nat list"
  m_maxClients :: nat

datatype 'f client_action = Clear_callback nat | Close_conn nat | Set_callback nat 'f | Exec nat "string list"
  | Connect_for nat "string list" | Call_user 'f | Set_trans nat | Connect_trans nat | New_trans nat int

definition pushConn :: "nat option \<Rightarrow> client \<Rightarrow> 'f client_action list \<times> client" where
  "pushConn conn cl =
     (case conn of
        None \<Rightarrow> ([], cl)
      | Some i \<Rightarrow>
          if length (m_conns cl) > m_maxClients cl then ([Clear_callback i, Close_conn i], cl)
          else ([Clear_callback i], cl\<lparr>m_conns := m_conns cl @ [i]\<rparr>))"

text \<open>The last connection that is still there; the dead ones behind it are dropped.\<close>

fun pop_alive :: "(nat \<Rightarrow> bool) \<Rightarrow> nat list \<Rightarrow> nat option \<times> nat list" where
  "pop_alive alive [] = (None, [])"
| "pop_alive alive (i # is) = (if alive i then (Some i, is) else pop_alive alive is)"

definition popConn :: "(nat \<Rightarrow> bool) \<Rightarrow> client \<Rightarrow> nat option \<times> client" where
  "popConn alive cl = (let (c, rest) = pop_alive alive (rev (m_conns cl)) in (c, cl\<lparr>m_conns := rev rest\<rparr>))"

definition client_onReply :: "nat \<Rightarrow> 'f \<Rightarrow> client \<Rightarrow> 'f client_action list \<times> client" where
  "client_onReply conn cb cl = (let (acts, cl) = pushConn (Some conn) cl in (acts @ [Call_user cb], cl))"

text \<open>\<open>fresh\<close> is the connection that is made when none is in the pool.\<close>

definition client_exec ::
  "(nat \<Rightarrow> bool) \<Rightarrow> nat \<Rightarrow> string list \<Rightarrow> 'f \<Rightarrow> client \<Rightarrow> 'f client_action list \<times> client" where
  "client_exec alive fresh cmd cb cl =
     (case popConn alive cl of
        (Some i, cl) \<Rightarrow> ([Set_callback i cb, Exec i cmd], cl)
      | (None, cl) \<Rightarrow> ([Set_callback fresh cb, Connect_for fresh cmd], cl))"

definition client_onConnect :: "nat \<Rightarrow> int \<Rightarrow> string list \<Rightarrow> 'f client_action list" where
  "client_onConnect conn status cmd = (if status \<noteq> 0 then [] else [Exec conn cmd])"

text \<open>
  A new transaction on a connection: the callback of the user gets it with a status. \<open>Set_trans\<close> lets the replies of
  the connection go to the transaction.
\<close>

definition client_newTrans :: "(nat \<Rightarrow> bool) \<Rightarrow> nat \<Rightarrow> client \<Rightarrow> 'f client_action list \<times> client" where
  "client_newTrans alive fresh cl =
     (case popConn alive cl of
        (Some i, cl) \<Rightarrow> ([Set_trans i, New_trans i 0], cl)
      | (None, cl) \<Rightarrow> ([Connect_trans fresh], cl))"

definition trans_onConnect :: "nat \<Rightarrow> int \<Rightarrow> 'f client_action list" where
  "trans_onConnect conn status =
     (if status \<noteq> 0 then [New_trans conn status] else [Set_trans conn, New_trans conn 0])"

text \<open>The destructors: a transaction gives its connection back, a client closes those of its pool.\<close>

definition trans_destroy :: "(nat \<Rightarrow> bool) \<Rightarrow> nat \<Rightarrow> client \<Rightarrow> 'f client_action list \<times> client" where
  "trans_destroy alive conn cl = pushConn (if alive conn then Some conn else None) cl"

definition client_destroy :: "(nat \<Rightarrow> bool) \<Rightarrow> client \<Rightarrow> 'f client_action list" where
  "client_destroy alive cl = map Close_conn [i \<leftarrow> m_conns cl. alive i]"

section \<open>Transactions\<close>

text \<open>The callback of a transaction: none, or what a commit or a cancel put there.\<close>

datatype 'f trans_callback = No_callback | On_commit 'f | On_cancel 'f

record 'f trans =
  m_transNum :: int
  m_callback' :: "'f trans_callback"
  conn_alive :: bool

definition new_trans :: "'f trans" where
  "new_trans = \<lparr>m_transNum = 0, m_callback' = No_callback, conn_alive = True\<rparr>"

datatype 'f trans_action = Trans_exec "string list" | Trans_call 'f

type_synonym 'f trans_result = "'f trans_action list \<times> 'f trans"

definition trans_request :: "string list \<Rightarrow> 'f trans \<Rightarrow> 'f trans_result" where
  "trans_request cmd t =
     (if \<not> conn_alive t then ([], t) else ([Trans_exec cmd], t\<lparr>m_transNum := m_transNum t + 1\<rparr>))"

definition trans_begin :: "'f trans \<Rightarrow> 'f trans_result" where
  "trans_begin t = (if m_transNum t > 0 then ([], t) else trans_request [''MULTI''] t)"

definition trans_exec :: "string list \<Rightarrow> 'f trans \<Rightarrow> 'f trans_result" where
  "trans_exec cmd t =
     (let (a, t) = (if m_transNum t = 0 then trans_begin t else ([], t)); (b, t) = trans_request cmd t in (a @ b, t))"

definition trans_commit :: "'f \<Rightarrow> 'f trans \<Rightarrow> 'f trans_result" where
  "trans_commit cb t =
     (if m_transNum t = 0 then ([], t) else trans_request [''EXEC''] (t\<lparr>m_callback' := On_commit cb\<rparr>))"

definition trans_cancel :: "'f \<Rightarrow> 'f trans \<Rightarrow> 'f trans_result" where
  "trans_cancel cb t =
     (if m_transNum t = 0 then ([], t) else trans_request [''DISCARD''] (t\<lparr>m_callback' := On_cancel cb\<rparr>))"

text \<open>\<open>onCommit\<close> and \<open>onCancel\<close> do the same: they wait for the last reply.\<close>

definition onCommit :: "'f \<Rightarrow> 'f trans \<Rightarrow> 'f trans_result" where
  "onCommit cb t = (if m_transNum t \<noteq> 0 then ([], t) else ([Trans_call cb], t\<lparr>m_callback' := No_callback\<rparr>))"

definition onCancel :: "'f \<Rightarrow> 'f trans \<Rightarrow> 'f trans_result" where
  "onCancel cb t = (if m_transNum t \<noteq> 0 then ([], t) else ([Trans_call cb], t\<lparr>m_callback' := No_callback\<rparr>))"

text \<open>\<open>None\<close> is the assertion that fails: a reply to no request.\<close>

definition trans_onReply :: "'f trans \<Rightarrow> 'f trans_result option" where
  "trans_onReply t =
     (let t = t\<lparr>m_transNum := m_transNum t - 1\<rparr> in
      if \<not> m_transNum t \<ge> 0 then None
      else Some (case m_callback' t of
          No_callback \<Rightarrow> ([], t)
        | On_commit cb \<Rightarrow> onCommit cb t
        | On_cancel cb \<Rightarrow> onCancel cb t))"

text \<open>What happens to a transaction.\<close>

datatype 'f trans_event = Do_begin | Do_exec "string list" | Do_commit 'f | Do_cancel 'f | Reply_came

definition trans_step :: "'f trans_event \<Rightarrow> 'f trans \<Rightarrow> 'f trans_result option" where
  "trans_step e t =
     (case e of
        Do_begin \<Rightarrow> Some (trans_begin t)
      | Do_exec cmd \<Rightarrow> Some (trans_exec cmd t)
      | Do_commit cb \<Rightarrow> Some (trans_commit cb t)
      | Do_cancel cb \<Rightarrow> Some (trans_cancel cb t)
      | Reply_came \<Rightarrow> trans_onReply t)"

fun trans_run :: "'f trans_event list \<Rightarrow> 'f trans \<Rightarrow> 'f trans_result option" where
  "trans_run [] t = Some ([], t)"
| "trans_run (e # es) t =
     (case trans_step e t of
        None \<Rightarrow> None
      | Some (a, t) \<Rightarrow> map_option (\<lambda>(b, t). (a @ b, t)) (trans_run es t))"

end
