(* ===== verification/RedisStream.thy ===== *)
theory RedisStream
  imports RedisConnection
begin

text \<open>
  Replies that arrive in pieces: feeding a reader, taking a reply and reading a connection depend on the
  bytes that are ahead only, so the callbacks get the same replies however the bytes are cut.
\<close>

section \<open>Feeding\<close>

definition roomy :: "heap \<Rightarrow> bool" where
  "roomy hp \<longleftrightarrow> (\<forall>n. realloc hp n \<noteq> None)"

lemma roomy_memory: "roomy hp \<Longrightarrow> \<not> out_of_memory (realloc hp)"
  by (auto simp: roomy_def out_of_memory_def)

lemma sdsempty_roomy: "roomy hp \<Longrightarrow> sdsempty (realloc hp) = Some (layout [] [])"
  using sdsnewlen_layout [of 0 "[]" "realloc hp"] roomy_memory [of hp] by (simp add: sdsempty_def)

lemma feed_ready:
  assumes "ready r p" and "roomy hp" and "len r + length b < 2 ^ 30"
  shows "\<exists>r'. redisReaderFeed hp r (Some b) = Inr (True, r') \<and> ready r' (p @ b) \<and> r' = rebuf r' r \<and>
    len r' = len r + length b"
proof (cases "b = []")
  case True
  then show ?thesis using assms(1) by (auto simp: redisReaderFeed_def rebuf_def ready_def)
next
  case False
  obtain c q where r: "err r = None" "buf r = Some (layout c q)" "length c + length q < 2 ^ 31" "len r = length c"
      "pos r \<le> length c" "p = drop (pos r) c"
    using assms(1) by (auto simp: ready_def)
  have mem: "\<not> out_of_memory (realloc hp)" using assms(2) by (rule roomy_memory)
  define big where "big \<longleftrightarrow> len r = 0 \<and> maxbuf r \<noteq> 0 \<and> sdsavail (layout c q) > maxbuf r"
  define b0 where "b0 = (if big then layout [] [] else layout c q)"
  obtain q0 where b0: "b0 = layout c q0" "length c + length q0 < 2 ^ 31"
    using r(3,4) by (cases big) (auto simp: b0_def, auto simp: big_def)
  obtain q' where q': "sdscatlen (realloc hp) b0 b (length b) = Some (layout (c @ b) q')" "length c + length b + length q' < 2 ^ 31"
    using sdscatlen_layout [of "length b" b c q0 "realloc hp"] b0 assms(3) mem by (auto simp: r(4))
  have len: "sdslen (layout (c @ b) q') = length c + length b" 
    using q'(2) size_of_int_id [of "length c + length b"] by (simp add: sdslen_def)
  define r0 where "r0 = (if big then r\<lparr>buf := Some (layout [] []), pos := 0\<rparr> else r)"
  have "redisReaderFeed hp r (Some b) = Inr (True, r0\<lparr>buf := Some (layout (c @ b) q'), len := length c + length b\<rparr>)"
  proof -
    have ge: "length b \<ge> 1" using False by (cases b) auto
    show ?thesis
    proof (cases big)
      case True
      then have "len r = 0" "maxbuf r \<noteq> 0" "sdsavail (layout c q) > maxbuf r" by (simp_all add: big_def)
      then show ?thesis using q'(1) ge sdsempty_roomy [OF assms(2)] len True
        by (simp add: redisReaderFeed_def r(1,2) r0_def b0_def)
    next
      case False
      then have n: "(len r = 0 \<and> maxbuf r \<noteq> 0 \<and> sdsavail (layout c q) > maxbuf r) = False"
        unfolding big_def by blast
      then show ?thesis using q'(1) ge len False
        unfolding redisReaderFeed_def r(1,2) option.case Let_def n if_False
          by (simp add: r0_def b0_def)
    qed
  qed
  moreover have "pos r0 = pos r" using r(4,5) by (auto simp: r0_def big_def)
  then have "ready (r0\<lparr>buf := Some (layout (c @ b) q'), len := length c + length b\<rparr>) (p @ b)"
    using r q'(2) unfolding ready_def
    by (intro conjI exI [of _ "c @ b"] exI [of _ q']) (auto simp: r0_def)
  moreover have "r0\<lparr>buf := Some (layout (c @ b) q'), len := length c + length b\<rparr> =
      rebuf (r0\<lparr>buf := Some (layout (c @ b) q'), len := length c + length b\<rparr>) r"
    by (auto simp: rebuf_def r0_def)
  ultimately show ?thesis using r(4) by auto
qed

section \<open>Taking a reply\<close>

text \<open>What \<open>redisReaderGetReply\<close> does to the buffer when much of it is consumed.\<close>

definition compact :: "redisReader \<Rightarrow> redisReader" where
  "compact r =
     (if pos r \<ge> 1024
      then (case buf r of
          None \<Rightarrow> r
        | Some b \<Rightarrow> let b = sdsrange b (int32 (int (pos r))) (- 1) in r\<lparr>buf := Some b, pos := 0, len := sdslen b\<rparr>)
      else r)"

lemma compact_ready:
  assumes "ready r p"
  shows "ready (compact r) p" and "compact r = rebuf (compact r) r" and "len (compact r) \<le> len r"
proof -
  obtain c q where r: "err r = None" "buf r = Some (layout c q)" "length c + length q < 2 ^ 31" "len r = length c"
      "pos r \<le> length c" "p = drop (pos r) c"
    using assms by (auto simp: ready_def)
  have pos: "int32 (int (pos r)) = int (pos r)" using r(3,5) by simp
  have i: "- (2 ^ 31) \<le> int (pos r)" "int (pos r) < 2 ^ 31" "- (2 ^ 31) \<le> (- 1 :: int)" "(- 1 :: int) < 2 ^ 31 - 1"
    using r(3,5) by simp_all
  obtain q' where q': "sdsrange (layout c q) (int (pos r)) (- 1) =
      layout (bytes_at c (clamp (length c) (int (pos r))) (Suc (clamp (length c) (- 1)) - clamp (length c) (int (pos r)))) q'"
    "length (bytes_at c (clamp (length c) (int (pos r))) (Suc (clamp (length c) (- 1)) - clamp (length c) (int (pos r)))) +
      length q' = length c + length q"
    by (rule sdsrange_layout [OF r(3) i])
  have "bytes_at c (clamp (length c) (int (pos r))) (Suc (clamp (length c) (- 1)) - clamp (length c) (int (pos r))) = p"
    using r(5,6) by (cases "c = []") (auto simp: clamp_def bytes_at_def nat_diff_distrib')
  with q' have s: "sdsrange (layout c q) (int (pos r)) (- 1) = layout p q'" "length p + length q' = length c + length q"
    by simp_all
  have "sdslen (layout p q') = length p" using s(2) r(3) by (simp add: sdslen_def)
  then have c: "compact r = (if pos r \<ge> 1024 then r\<lparr>buf := Some (layout p q'), pos := 0, len := length p\<rparr> else r)"
    by (simp add: compact_def r(2) pos s(1))
  show "ready (compact r) p"
    using assms r(1,3) s(2) unfolding c by (auto simp: ready_def intro!: exI [of _ p] exI [of _ q'])
  show "compact r = rebuf (compact r) r" "len (compact r) \<le> len r"
    unfolding c using r(4,6) by (auto simp: rebuf_def)
qed

lemma compact_ahead:
  assumes "ahead x a b"
  shows "ahead x (compact a) (compact b)"
proof -
  obtain p where p: "ready a p" "ready b (p @ x)" and b: "b = rebuf b a" using assms by (auto simp: ahead_def)
  have "compact b = rebuf (compact b) (rebuf b a)" using compact_ready(2) [OF p(2)] b by metis
  then have "compact b = rebuf (compact b) (rebuf (compact a) a)" by (simp add: rebuf_def)
  then have "compact b = rebuf (compact b) (compact a)" using compact_ready(2) [OF p(1)] by simp
  then show ?thesis using compact_ready(1) [OF p(1)] compact_ready(1) [OF p(2)] unfolding ahead_def by blast
qed

lemma getReply_def':
  "redisReaderGetReply hp r =
     (if err r \<noteq> None then Some (Inr (False, None, r))
      else if len r = 0 then Some (Inr (True, None, r))
      else case process_items hp (start_reply r) of
          None \<Rightarrow> None
        | Some (Inl e) \<Rightarrow> Some (Inl e)
        | Some (Inr r) \<Rightarrow>
            if err r \<noteq> None then Some (Inr (False, None, r))
            else if ridx (compact r) = - 1 then Some (Inr (True, reply (compact r), (compact r)\<lparr>reply := None\<rparr>))
            else Some (Inr (True, None, compact r)))"
  unfolding redisReaderGetReply_def compact_def Let_def by (rule refl)

lemma processItem_len:
  assumes "processItem hp r = Inr (ok, r')" and "ready r p" and "err r' = None"
  shows "len r' = len r"
proof (cases ok)
  case True
  then show ?thesis using processItem_onward [OF assms(2)] assms(1) by (auto simp: onward_def)
next
  case False
  have fin: "err q = None \<Longrightarrow> finish_item obj n s = Inr (False, q) \<Longrightarrow> False" for obj n s q
    by (auto simp: finish_item_def redisReaderSetErrorOOM_def map_sum_def Let_def split: sum.splits option.splits if_splits)
  have cnt: "err q = None \<Longrightarrow> after_count hp s e = Inr (False, q) \<Longrightarrow> False" for s e q
    unfolding after_count_def
    by (auto simp: redisReaderSetErrorOOM_def map_sum_def split: sum.splits option.splits if_splits)
  have typed: "q = s" if "process_typed hp s = Inr (False, q)" "err q = None" for s q
  proof -
    have "q = s" if m: "processMultiBulkItem hp s = Inr (False, q)"
    proof -
      have deep: "ridx s \<noteq> 8"
      proof
        assume "ridx s = 8"
        then show False using m \<open>err q = None\<close> by (auto simp: processMultiBulkItem_def)
      qed
      show ?thesis
      proof (cases "readLine s")
        case (Some z)
        then obtain n where l: "readLine s = Some (pos s, n, s\<lparr>pos := pos s + n + 2\<rparr>)"
          by (auto simp: readLine_def split: option.splits)
        show ?thesis using m processMultiBulkItem_line [OF l deep, of hp] cnt [OF \<open>err q = None\<close>] by metis
      qed (use m deep in \<open>simp add: processMultiBulkItem_def\<close>)
    qed
    then show ?thesis using that fin [OF that(2)]
      by (auto simp: process_typed_def processLineItem_def processBulkItem_def Let_def
          split: option.splits reply_type.splits if_splits)
  qed
  show ?thesis
  proof (cases "task_type (task r (ridx r)) = None")
    case True
    then show ?thesis using assms(1,3) False typed
      by (auto simp: processItem_def readBytes_def redisReaderSetErrorProtocolByte_def set_task_def
          split: option.splits if_splits dest!: typed)
  next
    case False
    then have "processItem hp r = process_typed hp r" by (simp only: processItem_def if_False)
    then show ?thesis using typed [of r r'] assms(1,3) \<open>\<not> ok\<close> by simp
  qed
qed

lemma process_items_len:
  "ready r p \<Longrightarrow> process_items hp r = Some (Inr a) \<Longrightarrow> err a = None \<Longrightarrow> len a = len r"
proof (induction "length p" arbitrary: r p rule: less_induct)
  case less
  show ?case
  proof (cases "ridx r \<ge> 0")
    case False
    then show ?thesis using less(3) by (subst (asm) process_items.simps) simp
  next
    case True
    then obtain ok q where q: "processItem hp r = Inr (ok, q)" "(if ok then process_items hp q else Some (Inr q)) = Some (Inr a)"
      using less(3) by (subst (asm) process_items.simps) (auto split: sum.splits)
    show ?thesis
    proof (cases ok)
      case True
      then have on: "onward r q" using processItem_onward [OF less(2)] q(1) by simp
      then obtain p' where p': "ready q p'" "length p' < length p" using onward_ready [OF less(2)] by blast
      show ?thesis using less(1) [OF p'(2,1) _ less(4)] q(2) True on by (simp add: onward_def)
    next
      case False
      then show ?thesis using processItem_len [OF q(1) less(2)] q(2) less(4) by simp
    qed
  qed
qed

text \<open>
  Readers that go on in the same way, but for \<open>x\<close>, which is ahead of the second one only.
\<close>

definition resumes :: "string \<Rightarrow> redisReader \<Rightarrow> redisReader \<Rightarrow> bool" where
  "resumes x r r' \<longleftrightarrow> ahead x (start_reply r) (start_reply r') \<and> in_stack r \<and> in_stack r'"

lemma start_ready [simp]: "ready (start_reply r) p = ready r p"
  by (simp add: start_reply_def ready_def set_task_def)

lemma start_fields [simp]: "err (start_reply r) = err r" "len (start_reply r) = len r" "pos (start_reply r) = pos r"
  "store (start_reply r) = store r" "reply (start_reply r) = reply r"
  by (simp_all add: start_reply_def set_task_def)

lemma start_in_stack: "in_stack r \<Longrightarrow> in_stack (start_reply r) \<and> 0 \<le> ridx (start_reply r)"
  by (auto simp: start_reply_def in_stack_def set_task_def)

lemma start_idle: "ridx r \<noteq> - 1 \<Longrightarrow> start_reply r = r"
  by (simp add: start_reply_def)

lemma ahead_start: "ahead x a b \<Longrightarrow> ahead x (start_reply a) (start_reply b)"
  using aheadD [of x a b] by (simp add: start_reply_def)

lemma ahead_in_stack: "ahead x a b \<Longrightarrow> in_stack a = in_stack b"
  using aheadD [of x a b] by (simp add: in_stack_def)

lemma ahead_resumes: "ahead x a b \<Longrightarrow> in_stack a \<Longrightarrow> resumes x a b"
  using ahead_start ahead_in_stack by (auto simp: resumes_def)

lemma ahead_sym: "ahead [] a b \<Longrightarrow> ahead [] b a"
  unfolding ahead_def by (metis append_Nil2 rebuf_def rebuf_simps redisReader.surjective redisReader.update_convs(3-5))

lemma compact_fields [simp]: "ridx (compact a) = ridx a" "reply (compact a) = reply a" "err (compact a) = err a"
  "in_stack (compact a) = in_stack a" "store (compact a) = store a"
  by (auto simp: compact_def in_stack_def Let_def split: option.split)

lemma compact_left: "ahead x a b \<Longrightarrow> ahead x (compact a) b"
proof -
  assume a: "ahead x a b"
  then obtain p where p: "ready a p" "ready b (p @ x)" and b: "b = rebuf b a" by (auto simp: ahead_def)
  have "b = rebuf b (rebuf (compact a) a)" using b by (simp add: rebuf_def)
  then have "b = rebuf b (compact a)" using compact_ready(2) [OF p(1)] by simp
  then show ?thesis using compact_ready(1) [OF p(1)] p(2) unfolding ahead_def by blast
qed

text \<open>What a call for a reply gives, and what the other reader gives then.\<close>

fun same_reply :: "heap \<Rightarrow> string \<Rightarrow> redisReader \<Rightarrow> reader_fault + bool \<times> addr option \<times> redisReader \<Rightarrow> bool" where
  "same_reply hp x r' (Inl e) \<longleftrightarrow> redisReaderGetReply hp r' = Some (Inl e)"
| "same_reply hp x r' (Inr (False, a, s)) \<longleftrightarrow> err s \<noteq> None \<and> redisReaderGetReply hp r' = Some (Inr (False, a, s))"
| "same_reply hp x r' (Inr (True, Some a, s)) \<longleftrightarrow>
     ridx s = - 1 \<and> (\<exists>s'. redisReaderGetReply hp r' = Some (Inr (True, Some a, s')) \<and> resumes x s s')"
| "same_reply hp x r' (Inr (True, None, s)) \<longleftrightarrow>
     (\<exists>s'. redisReaderGetReply hp r' = redisReaderGetReply hp s' \<and> resumes x s s')"

lemma getReply_ahead:
  assumes "resumes x r r'" and "ready r p" and "len r' \<noteq> 0"
  obtains y where "redisReaderGetReply hp r = Some y" and "same_reply hp x r' y"
    and "\<And>ok a s. y = Inr (ok, a, s) \<Longrightarrow> err s = None \<Longrightarrow> len s \<le> len r"
proof (cases "len r = 0")
  case True
  have "redisReaderGetReply hp r = Some (Inr (True, None, r))"
    using True assms(2) by (simp add: getReply_def' ready_def)
  then show thesis using that [of "Inr (True, None, r)"] assms(1) by auto
next
  case False
  have a: "ahead x (start_reply r) (start_reply r')" and st: "in_stack (start_reply r)" "0 \<le> ridx (start_reply r)"
    using assms(1) start_in_stack by (auto simp: resumes_def)
  have e: "err r = None" "err r' = None" using aheadD [OF a] by simp_all
  have d: "redisReaderGetReply hp s = (case process_items hp (start_reply s) of
          None \<Rightarrow> None
        | Some (Inl e) \<Rightarrow> Some (Inl e)
        | Some (Inr r) \<Rightarrow>
            if err r \<noteq> None then Some (Inr (False, None, r))
            else if ridx (compact r) = - 1 then Some (Inr (True, reply (compact r), (compact r)\<lparr>reply := None\<rparr>))
            else Some (Inr (True, None, compact r)))" if "err s = None" "len s \<noteq> 0" for s
    using that by (simp add: getReply_def')
  note dr = d [OF e(1) False] d [OF e(2) assms(3)]
  have rs: "ready (start_reply r) p" using assms(2) by simp
  from process_items_ahead [OF a st(1), of hp] show thesis
  proof (elim disjE exE conjE)
    fix f assume "process_items hp (start_reply r) = Some (Inl f)" "process_items hp (start_reply r') = Some (Inl f)"
    then show thesis by (intro that [of "Inl f"]) (simp_all add: dr)
  next
    fix q assume "process_items hp (start_reply r) = Some (Inr q)" "err q \<noteq> None" "process_items hp (start_reply r') = Some (Inr q)"
    then show thesis by (intro that [of "Inr (False, None, q)"]) (simp_all add: dr)
  next
    fix q q'
    assume q: "process_items hp (start_reply r) = Some (Inr q)" "ridx q = - 1" "ahead x q q'"
        "process_items hp (start_reply r') = Some (Inr q')"
      and rep: "0 \<le> ridx (start_reply r) \<or> reply (start_reply r) \<noteq> None \<longrightarrow> reply q \<noteq> None" and "in_stack q"
    obtain v where v: "reply q = Some v" using rep st(2) by auto
    have errs: "err q = None" "err q' = None" "ridx q' = - 1" "reply q' = Some v" using aheadD [OF q(3)] q(2) v by simp_all
    obtain w where "ready q w" using q(3) by (auto simp: ahead_def)
    then have l: "len (compact q) \<le> len r"
      using compact_ready(3) process_items_len [OF rs q(1) errs(1)] by (metis start_fields(2))
    have "ahead x ((compact q)\<lparr>reply := None\<rparr>) ((compact q')\<lparr>reply := None\<rparr>)" using compact_ahead [OF q(3)] by simp
    moreover have "in_stack ((compact q)\<lparr>reply := None\<rparr>)" using \<open>in_stack q\<close> q(2) by (simp add: compact_def in_stack_def Let_def split: option.split)
    ultimately have "resumes x ((compact q)\<lparr>reply := None\<rparr>) ((compact q')\<lparr>reply := None\<rparr>)" by (rule ahead_resumes)
    then show thesis using q errs v l
      by (intro that [of "Inr (True, Some v, (compact q)\<lparr>reply := None\<rparr>)"]) (auto simp: dr)
  next
    fix q q'
    assume q: "process_items hp (start_reply r) = Some (Inr q)" "0 \<le> ridx q" "len q' = len (start_reply r')" "ahead x q q'"
        "process_items hp (start_reply r') = process_items hp q'" "in_stack q"
    have errs: "err q = None" "err q' = None" "ridx q' \<ge> 0" using aheadD [OF q(4)] q(2) by simp_all
    obtain w where "ready q w" using q(4) by (auto simp: ahead_def)
    then have l: "len (compact q) \<le> len r"
      using compact_ready(3) process_items_len [OF rs q(1) errs(1)] by (metis start_fields(2))
    have "start_reply q' = q'" using errs(3) by (intro start_idle) simp
    moreover have "len q' \<noteq> 0" using q(3) assms(3) by simp
    ultimately have "redisReaderGetReply hp r' = redisReaderGetReply hp q'"
      using d [OF errs(2)] by (simp add: dr q(5))
    moreover have "resumes x (compact q) q'" using compact_left [OF q(4)] q(6) by (intro ahead_resumes) simp_all
    ultimately show thesis using q(1,2) errs l
      by (intro that [of "Inr (True, None, compact q)"]) (auto simp: dr)
  qed
qed

lemma resumes_sym: "resumes [] r r' \<Longrightarrow> resumes [] r' r"
  by (auto simp: resumes_def intro: ahead_sym)

lemma resumes_ready: "resumes x r r' \<Longrightarrow> \<exists>p. ready r p \<and> ready r' (p @ x)"
  by (auto simp: resumes_def ahead_def)

lemma resumes_store: "resumes x r r' \<Longrightarrow> store r' = store r"
  using aheadD(7) [of x "start_reply r" "start_reply r'"] by (simp add: resumes_def)

text \<open>With the same bytes ahead, a reader waits when the other one does.\<close>

lemma getReply_same_none:
  assumes "resumes [] r r'" and "len r \<noteq> 0" and "len r' \<noteq> 0" and "redisReaderGetReply hp r = Some (Inr (True, None, s))"
  shows "\<exists>s'. redisReaderGetReply hp r' = Some (Inr (True, None, s'))"
proof -
  obtain p where "ready r' p" using resumes_ready [OF assms(1)] by auto
  then obtain y where y: "redisReaderGetReply hp r' = Some y" "same_reply hp [] r y"
    using getReply_ahead [OF resumes_sym [OF assms(1)] _ assms(2)] by metis
  then show ?thesis using assms(4) by (cases "(hp, [] :: string, r, y)" rule: same_reply.cases) auto
qed

lemma getReply_idle:
  assumes "ready r []" and "in_stack r" and "task_type (task (start_reply r) (ridx (start_reply r))) = None"
  shows "\<exists>s. redisReaderGetReply hp r = Some (Inr (True, None, s))"
proof (cases "len r = 0")
  case True
  then show ?thesis using assms(1) by (simp add: getReply_def' ready_def)
next
  case False
  have rd: "ready (start_reply r) []" using assms(1) by simp
  have "readBytes 1 (start_reply r) = None" using ready_ahead(1) [OF rd] by (simp add: readBytes_def)
  then have "processItem hp (start_reply r) = Inr (False, start_reply r)"
    using assms(3) by (simp only: processItem_def if_True option.case simp_thms)
  then have "process_items hp (start_reply r) = Some (Inr (start_reply r))"
    using start_in_stack [OF assms(2)] by (subst process_items.simps) simp
  then show ?thesis using False assms(1) start_in_stack [OF assms(2)]
    by (auto simp: getReply_def' ready_def)
qed

section \<open>The callbacks\<close>

definition with_reader :: "('f, 'c) redis_conn \<Rightarrow> redisReader \<Rightarrow> ('f, 'c) redis_conn" where
  "with_reader c r = c\<lparr>m_context := (m_context c)\<lparr>reader := Some r\<rparr>\<rparr>"

definition told :: "'f option \<Rightarrow> redis_reply \<Rightarrow> ('f, 'c) redis_action list" where
  "told f r = (case f of None \<Rightarrow> [] | Some f \<Rightarrow> [On_reply f r])"

definition after_told :: "('f, 'c) redis_action list \<Rightarrow> ('f, 'c) conn_result option \<Rightarrow> ('f, 'c) conn_result option" where
  "after_told acts res = Option.bind res (\<lambda>res. Some (map_sum id (\<lambda>(acts', c). (acts @ acts', c)) res))"

definition freed :: "addr \<Rightarrow> redisReader \<Rightarrow> redisReader" where
  "freed a s = s\<lparr>store := freeReplyObject a (store s)\<rparr>"

definition no_error :: "('f, 'c) redis_conn \<Rightarrow> bool" where
  "no_error c \<longleftrightarrow> (case reader (m_context c) of None \<Rightarrow> True | Some r \<Rightarrow> err r = None)"

lemma with_reader_simps [simp]:
  "reader (m_context (with_reader c r)) = Some r" "with_reader (with_reader c r) s = with_reader c s"
  "m_authCallback (with_reader c r) = m_authCallback c" "rc_callback (with_reader c r) = rc_callback c"
  by (simp_all add: with_reader_def)

lemma with_reader_same: "reader (m_context c) = Some r \<Longrightarrow> with_reader c r = c"
  by (simp add: with_reader_def)

lemma after_told_simps [simp]:
  "after_told acts None = None" "after_told acts (Some (Inl e)) = Some (Inl e)"
  "after_told acts (Some (Inr (acts', c))) = Some (Inr (acts @ acts', c))"
  "after_told [] res = res" "after_told acts (after_told acts' res) = after_told (acts @ acts') res"
  by (cases res; simp add: after_told_def map_sum_def split: sum.split prod.split)+

lemma after_told_Some:
  "after_told acts res = Some (Inr (acts', c)) \<longleftrightarrow> (\<exists>more. res = Some (Inr (more, c)) \<and> acts' = acts @ more)"
  by (cases res; auto simp: after_told_def map_sum_def split: sum.split)

lemma reply_loop_reader:
  "reply_loop hp (User_handler f) (with_reader c r) =
    (case redisReaderGetReply hp r of
       None \<Rightarrow> None
     | Some (Inl e) \<Rightarrow> Some (Inl e)
     | Some (Inr (False, a, s)) \<Rightarrow> Some (Inr (told f (Err_reply (err s)),
         c\<lparr>m_context := (m_context c)\<lparr>reader := Some s, cerr := err s, cerrstr := take 127 (errstr s)\<rparr>\<rparr>))
     | Some (Inr (True, None, s)) \<Rightarrow> Some (Inr ([], with_reader c s))
     | Some (Inr (True, Some a, s)) \<Rightarrow>
         after_told (told f (Got_reply a (store s))) (reply_loop hp (User_handler f) (with_reader c (freed a s))))"
  by (subst reply_loop.simps)
    (auto simp: redisGetReplyFromReader_def with_reader_def Let_def told_def after_told_def freed_def
      split: option.split sum.split prod.split bool.split)

lemma freed_ready [simp]: "ready (freed a s) p = ready s p" "len (freed a s) = len s" "ridx (freed a s) = ridx s"
  by (simp_all add: freed_def)

lemma freed_resumes: "resumes x s s' \<Longrightarrow> resumes x (freed a s) (freed a s')"
proof -
  have c: "start_reply (s\<lparr>store := st\<rparr>) = (start_reply s)\<lparr>store := st\<rparr>" for s st
    by (simp add: start_reply_def set_task_def)
  assume "resumes x s s'"
  then show ?thesis using aheadD(7) [of x "start_reply s" "start_reply s'"] by (auto simp: resumes_def freed_def c)
qed

text \<open>A reply has taken bytes from the buffer, so the loop ends.\<close>

lemma process_items_shorter:
  "ready r p \<Longrightarrow> in_stack r \<Longrightarrow> 0 \<le> ridx r \<Longrightarrow> process_items hp r = Some (Inr a) \<Longrightarrow> err a = None \<Longrightarrow> ridx a < 0 \<Longrightarrow>
   \<exists>p'. ready a p' \<and> length p' < length p"
proof (induction "length p" arbitrary: r p rule: less_induct)
  case less
  have ah: "ahead [] r r" using less(2) by (auto simp: ahead_def rebuf_def)
  have bound: "nat (ridx r) < length (rstack r)" using less(3) by (auto simp: in_stack_def)
  obtain ok q where q: "processItem hp r = Inr (ok, q)" "(if ok then process_items hp q else Some (Inr q)) = Some (Inr a)"
    using less(4,5) by (subst (asm) process_items.simps) (auto split: sum.splits)
  show ?case
  proof (cases ok)
    case True
    then have on: "onward r q" using processItem_onward [OF less(2)] q(1) by simp
    then obtain p' where p': "ready q p'" "length p' < length p" using onward_ready [OF less(2)] by blast
    show ?thesis
    proof (cases "0 \<le> ridx q")
      case qr: True
      have "in_stack q" using processItem_in_stack [OF _ less(3,4)] q(1) True by (auto simp: has_reply_def)
      then show ?thesis using less(1) [OF p'(2,1) _ qr _ less(6,7)] q(2) True p'(2) by force
    next
      case False
      then have "process_items hp q = Some (Inr q)" by (subst process_items.simps) simp
      then show ?thesis using q(2) True p' by auto
    qed
  next
    case False
    then show ?thesis using processItem_ahead [OF ah bound, of hp] q less(4,6,7) by auto
  qed
qed

lemma getReply_shorter:
  assumes "redisReaderGetReply hp r = Some (Inr (True, Some a, s))" and "ready r p" and "in_stack r"
  shows "\<exists>p'. ready s p' \<and> length p' < length p" and "in_stack s" and "ridx s = - 1"
proof -
  have "err r = None" "len r \<noteq> 0" using assms(1,2) by (auto simp: getReply_def' ready_def split: if_splits)
  then obtain q where q: "process_items hp (start_reply r) = Some (Inr q)" "err q = None" "ridx q = - 1" "s = (compact q)\<lparr>reply := None\<rparr>"
    using assms(1) by (auto simp: getReply_def' split: option.splits sum.splits if_splits)
  have st: "in_stack (start_reply r)" "0 \<le> ridx (start_reply r)" using start_in_stack [OF assms(3)] by simp_all
  have rd: "ready (start_reply r) p" using assms(2) by simp
  have ah: "ahead [] (start_reply r) (start_reply r)" using rd by (auto simp: ahead_def rebuf_def)
  obtain p' where p': "ready q p'" "length p' < length p"
    using process_items_shorter [OF rd st q(1,2)] q(3) by auto
  show "\<exists>p'. ready s p' \<and> length p' < length p" using compact_ready(1) [OF p'(1)] p'(2) q(4) by auto
  have "in_stack q" using process_items_ahead [OF ah st(1), of hp] q by auto
  then show "in_stack s" "ridx s = - 1" using q by (auto simp: compact_def in_stack_def Let_def split: option.split)
qed

lemma getReply_true_err: "redisReaderGetReply hp r = Some (Inr (True, a, s)) \<Longrightarrow> err s = None"
  by (auto simp: getReply_def' split: option.splits sum.splits if_splits)

lemma no_error_reader [simp]: "no_error (with_reader c s) \<longleftrightarrow> err s = None"
  by (simp add: no_error_def)

lemma reply_loop_same:
  assumes "reply_loop hp (User_handler f) (with_reader c r) = Some (Inr (acts, d))" and "resumes [] r r'" and "ready r p"
    and "p \<noteq> [] \<or> ridx r = - 1"
  shows "\<exists>d'. reply_loop hp (User_handler f) (with_reader c r') = Some (Inr (acts, d')) \<and> no_error d' = no_error d"
  using assms
proof (induction "length p" arbitrary: r r' p acts rule: less_induct)
  case less
  obtain p2 where p2: "ready r p2" "ready r' (p2 @ [])" using resumes_ready [OF less(3)] by blast
  have ready': "ready r' p" using p2 ready_unique [OF p2(1) less(4)] by simp
  have stack: "in_stack r" "in_stack r'" using less(3) by (auto simp: resumes_def)
  have startr: "rstack (start_reply r') = rstack (start_reply r)" "ridx (start_reply r') = ridx (start_reply r)"
    using less(3) aheadD(4,5) by (auto simp: resumes_def)
  show ?case
  proof (cases "p = []")
    case True
    then have "ridx r = - 1" using less(5) by simp
    then have ty: "task_type (task (start_reply r) (ridx (start_reply r))) = None"
      using stack(1) by (simp add: start_reply_def set_task_def in_stack_def)
    obtain s s' where s: "redisReaderGetReply hp r = Some (Inr (True, None, s))" "redisReaderGetReply hp r' = Some (Inr (True, None, s'))"
      using getReply_idle [OF _ stack(1) ty] getReply_idle [OF _ stack(2)] ty startr less(4) ready' True by metis
    then show ?thesis using less(2) getReply_true_err [OF s(1)] getReply_true_err [OF s(2)]
      by (auto simp: reply_loop_reader [of hp f c r] reply_loop_reader [of hp f c r'])
  next
    case False
    have lens: "len r \<noteq> 0" "len r' \<noteq> 0" using ready_ahead(2) [OF less(4)] ready_ahead(2) [OF ready'] False by auto
    obtain y where y: "redisReaderGetReply hp r = Some y" "same_reply hp [] r' y"
      using getReply_ahead [OF less(3,4) lens(2)] by metis
    show ?thesis
    proof (cases y)
      case (Inl e)
      then show ?thesis using less(2) y(1) by (simp add: reply_loop_reader [of hp f c r] reply_loop_reader [of hp f c r'])
    next
      case (Inr z)
      obtain ok a s where z: "z = (ok, a, s)" by (cases z)
      consider "\<not> ok" | "ok" "a = None" | v where "ok" "a = Some v" by fastforce
      then show ?thesis
      proof cases
        case 1
        then show ?thesis using y less(2) by (auto simp: reply_loop_reader [of hp f c r] reply_loop_reader [of hp f c r'] Inr z)
      next
        case 2
        then obtain s' where s': "redisReaderGetReply hp r' = Some (Inr (True, None, s'))"
          using getReply_same_none [OF less(3) lens] y(1) by (auto simp: Inr z)
        have "redisReaderGetReply hp r = Some (Inr (True, None, s))" using y(1) 2 by (simp add: Inr z)
        then show ?thesis using less(2) getReply_true_err [OF s'] getReply_true_err [of hp r None s] s' by (auto simp: reply_loop_reader [of hp f c r] reply_loop_reader [of hp f c r'] Inr z)
      next
        case 3
        then obtain s' where s': "redisReaderGetReply hp r' = Some (Inr (True, Some v, s'))" "resumes [] s s'" "ridx s = - 1"
          using y(2) by (auto simp: Inr z)
        have g: "redisReaderGetReply hp r = Some (Inr (True, Some v, s))" using y(1) 3 by (simp add: Inr z)
        obtain p' where p': "ready s p'" "length p' < length p" using getReply_shorter(1) [OF g less(4) stack(1)] by blast
        have st: "store s' = store s" using s'(2) by (rule resumes_store)
        obtain acts' where acts': "reply_loop hp (User_handler f) (with_reader c (freed v s)) = Some (Inr (acts', d))"
            "acts = told f (Got_reply v (store s)) @ acts'"
          using less(2) by (auto simp: reply_loop_reader [of hp f c r] g after_told_Some)
        obtain d' where "reply_loop hp (User_handler f) (with_reader c (freed v s')) = Some (Inr (acts', d'))"
            "no_error d' = no_error d"
          using less(1) [OF p'(2) acts'(1) freed_resumes [OF s'(2)]] p'(1) s'(3) by auto
        then show ?thesis using acts'(2) by (simp add: reply_loop_reader [of hp f c r'] s'(1) st)
      qed
    qed
  qed
qed

text \<open>
  With more bytes ahead, the other reader gives the same replies first, and then goes on where this one waits.
\<close>

lemma reply_loop_ahead:
  assumes "reply_loop hp (User_handler f) (with_reader c r) = Some res" and "resumes x r r'" and "ready r p"
    and "x \<noteq> []"
  shows "case res of
      Inl e \<Rightarrow> reply_loop hp (User_handler f) (with_reader c r') = Some (Inl e)
    | Inr (acts, d) \<Rightarrow>
        if no_error d
        then \<exists>s s' p'. d = with_reader c s \<and> ready s p' \<and> len s \<le> len r \<and> resumes x s s' \<and>
          reply_loop hp (User_handler f) (with_reader c r') =
            after_told acts (reply_loop hp (User_handler f) (with_reader c s'))
        else reply_loop hp (User_handler f) (with_reader c r') = Some (Inr (acts, d))"
  using assms(1-3)
proof (induction "length p" arbitrary: r r' p res rule: less_induct)
  case less
  obtain p2 where p2: "ready r p2" "ready r' (p2 @ x)" using resumes_ready [OF less(3)] by blast
  have stack: "in_stack r" "in_stack r'" using less(3) by (auto simp: resumes_def)
  have len': "len r' \<noteq> 0" using ready_ahead(2) [OF p2(2)] assms(4) by auto
  obtain y where y: "redisReaderGetReply hp r = Some y" "same_reply hp x r' y"
      "\<And>ok a s. y = Inr (ok, a, s) \<Longrightarrow> err s = None \<Longrightarrow> len s \<le> len r"
    using getReply_ahead [OF less(3,4) len'] by metis
  note loops = reply_loop_reader [of hp f c r] reply_loop_reader [of hp f c r']
  show ?case
  proof (cases y)
    case (Inl e)
    then show ?thesis using less(2) y(1,2) by (auto simp: loops)
  next
    case (Inr z)
    obtain ok a s where z: "z = (ok, a, s)" by (cases z)
    consider "\<not> ok" | "ok" "a = None" | v where "ok" "a = Some v" by fastforce
    then show ?thesis
    proof cases
      case 1
      then show ?thesis using y less(2) by (auto simp: loops Inr z no_error_def)
    next
      case 2
      then obtain s' where s': "redisReaderGetReply hp r' = redisReaderGetReply hp s'" "resumes x s s'"
        using y(2) by (auto simp: Inr z)
      have g: "redisReaderGetReply hp r = Some (Inr (True, None, s))" using y(1) 2 by (simp add: Inr z)
      have d: "res = Inr ([], with_reader c s)" using less(2) by (simp add: loops(1) g)
      obtain p' where p': "ready s p'" "ready s' (p' @ x)" using resumes_ready [OF s'(2)] by blast
      have "reply_loop hp (User_handler f) (with_reader c r') = reply_loop hp (User_handler f) (with_reader c s')"
        by (simp only: reply_loop_reader [of hp f c r'] reply_loop_reader [of hp f c s'] s'(1))
      then show ?thesis using d s'(2) p'(1) y(3) [OF Inr [unfolded z]] getReply_true_err [OF g] by auto
    next
      case 3
      then obtain s' where s': "redisReaderGetReply hp r' = Some (Inr (True, Some v, s'))" "resumes x s s'" "ridx s = - 1"
        using y(2) by (auto simp: Inr z)
      have g: "redisReaderGetReply hp r = Some (Inr (True, Some v, s))" using y(1) 3 by (simp add: Inr z)
      obtain p' where p': "ready s p'" "length p' < length p" using getReply_shorter(1) [OF g less(4) stack(1)] by blast
      have len: "len s \<le> len r" using y(3) [OF Inr [unfolded z]] p'(1) by (simp add: ready_def)
      have st: "store s' = store s" using s'(2) by (rule resumes_store)
      obtain res' where res': "reply_loop hp (User_handler f) (with_reader c (freed v s)) = Some res'"
          "after_told (told f (Got_reply v (store s))) (Some res') = Some res"
        using less(2) by (cases "reply_loop hp (User_handler f) (with_reader c (freed v s))") (simp_all add: loops(1) g)
      have "ready (freed v s) p'" using p'(1) by simp
      from less(1) [OF p'(2) res'(1) freed_resumes [OF s'(2)] this] res'(2) show ?thesis
        using len by (cases res') (fastforce simp: loops(2) s'(1) st)+
    qed
  qed
qed

lemma reply_loop_returns:
  assumes "ready r p" and "in_stack r"
  shows "\<exists>res. reply_loop hp (User_handler f) (with_reader c r) = Some res"
  using assms
proof (induction "length p" arbitrary: r p rule: less_induct)
  case less
  have "\<exists>y. redisReaderGetReply hp r = Some y"
    using process_items_returns [of "start_reply r" p hp] less(2)
    by (auto simp: getReply_def' split: sum.split)
  then obtain y where y: "redisReaderGetReply hp r = Some y" ..
  show ?case
  proof (cases "\<exists>a s. y = Inr (True, Some a, s)")
    case True
    then obtain a s where s: "redisReaderGetReply hp r = Some (Inr (True, Some a, s))" using y by auto
    obtain p' where p': "ready s p'" "length p' < length p" using getReply_shorter(1) [OF s less(2,3)] by blast
    have "in_stack (freed a s)" using getReply_shorter(2) [OF s less(2,3)] by (simp add: freed_def)
    then obtain res where "reply_loop hp (User_handler f) (with_reader c (freed a s)) = Some res"
      using less(1) [OF p'(2), of "freed a s"] p'(1) by auto
    then show ?thesis by (cases res) (auto simp: reply_loop_reader [of hp f c r] s)
  next
    case False
    then show ?thesis using y
      by (cases "(hp, [] :: string, r, y)" rule: same_reply.cases) (auto simp: reply_loop_reader [of hp f c r])
  qed
qed

section \<open>Reading in pieces\<close>

text \<open>A connection whose reader has \<open>n\<close> bytes in its buffer and no error.\<close>

definition reading :: "nat \<Rightarrow> ('f, 'c) redis_conn \<Rightarrow> bool" where
  "reading n c \<longleftrightarrow> m_authCallback c = None \<and>
     (\<exists>r p. reader (m_context c) = Some r \<and> ready r p \<and> in_stack r \<and> len r \<le> n)"

lemma redis_handleRead_reader:
  assumes "reader (m_context c) = Some r" and "m_authCallback c = None" and "redisReaderFeed hp r (Some b) = Inr (True, r')"
  shows "redis_handleRead hp b c = reply_loop hp (User_handler (rc_callback c)) (with_reader c r')"
  using assms by (simp add: redis_handleRead_def Let_def with_reader_def)

lemma fed_in_stack: "r' = rebuf r' r \<Longrightarrow> in_stack r \<Longrightarrow> in_stack r'"
  by (metis in_stack_def rebuf_simps(4-6))

lemma rebuf_resumes:
  assumes "resumes x s s'" and "ready s p" and "s2 = rebuf s2 s" and "ready s2 (p @ x)"
  shows "resumes [] s2 s'"
proof -
  obtain q where q: "ready s q" "ready s' (q @ x)" using resumes_ready [OF assms(1)] by blast
  have "q = p" using ready_unique [OF q(1) assms(2)] by simp
  then have r': "ready (start_reply s') (p @ x)" using q(2) by simp
  have "start_reply (rebuf s2 s) = rebuf s2 (start_reply s)" by (simp add: start_reply_def rebuf_def set_task_def)
  then have s2: "start_reply s2 = rebuf s2 (start_reply s)" using assms(3) by simp
  have "start_reply s' = rebuf (start_reply s') (start_reply s)" using assms(1) by (simp add: resumes_def ahead_def)
  then have "start_reply s' = rebuf (start_reply s') (start_reply s2)" unfolding s2 by (simp add: rebuf_def)
  moreover have "ready (start_reply s2) (p @ x)" using assms(4) by simp
  ultimately have "ahead [] (start_reply s2) (start_reply s')" using r' by (auto simp: ahead_def)
  then show ?thesis using assms(1) fed_in_stack [OF assms(3)] by (auto simp: resumes_def)
qed

text \<open>The first of two pieces: what the connection does with it, and with both at once.\<close>

lemma handleRead_first:
  assumes "roomy hp" and "reading n c" and "n + length a + length b < 2 ^ 30" and "b \<noteq> []"
  obtains res where "redis_handleRead hp a c = Some res" and
    "case res of
      Inl e \<Rightarrow> redis_handleRead hp (a @ b) c = Some (Inl e)
    | Inr (acts, c1) \<Rightarrow>
        if no_error c1
        then \<exists>s s' p'. c1 = with_reader c s \<and> ready s p' \<and> len s \<le> n + length a \<and> resumes b s s' \<and>
          redis_handleRead hp (a @ b) c = after_told acts (reply_loop hp (User_handler (rc_callback c)) (with_reader c s'))
        else redis_handleRead hp (a @ b) c = Some (Inr (acts, c1))"
proof -
  obtain r p where r: "reader (m_context c) = Some r" "ready r p" "in_stack r" "len r \<le> n" "m_authCallback c = None"
    using assms(2) by (auto simp: reading_def)
  define f where "f = rc_callback c"
  obtain r1 where r1: "redisReaderFeed hp r (Some a) = Inr (True, r1)" "ready r1 (p @ a)" "r1 = rebuf r1 r" "len r1 = len r + length a"
    using feed_ready [OF r(2) assms(1), of a] r(4) assms(3) by auto
  obtain r2 where r2: "redisReaderFeed hp r (Some (a @ b)) = Inr (True, r2)" "ready r2 (p @ a @ b)" "r2 = rebuf r2 r"
    using feed_ready [OF r(2) assms(1), of "a @ b"] r(4) assms(3) by auto
  have h1: "redis_handleRead hp a c = reply_loop hp (User_handler f) (with_reader c r1)"
    and h2: "redis_handleRead hp (a @ b) c = reply_loop hp (User_handler f) (with_reader c r2)"
    using redis_handleRead_reader [OF r(1,5)] r1(1) r2(1) by (simp_all add: f_def)
  have "r2 = rebuf r2 r1" using r1(3) r2(3) by (metis rebuf_def redisReader.surjective redisReader.update_convs(3-5) rebuf_simps)
  then have "ahead b r1 r2" using r1(2) r2(2) by (auto simp: ahead_def)
  then have res: "resumes b r1 r2" using fed_in_stack [OF r1(3) r(3)] by (rule ahead_resumes)
  obtain y where y: "reply_loop hp (User_handler f) (with_reader c r1) = Some y"
    using reply_loop_returns [OF r1(2) fed_in_stack [OF r1(3) r(3)]] by blast
  have l: "len r1 \<le> n + length a" using r(4) r1(4) by simp
  note ah = reply_loop_ahead [OF y res r1(2) assms(4)]
  show thesis
  proof (rule that)
    show "redis_handleRead hp a c = Some y" by (simp add: h1 y)
    show "case y of
      Inl e \<Rightarrow> redis_handleRead hp (a @ b) c = Some (Inl e)
    | Inr (acts, c1) \<Rightarrow>
        if no_error c1
        then \<exists>s s' p'. c1 = with_reader c s \<and> ready s p' \<and> len s \<le> n + length a \<and> resumes b s s' \<and>
          redis_handleRead hp (a @ b) c = after_told acts (reply_loop hp (User_handler (rc_callback c)) (with_reader c s'))
        else redis_handleRead hp (a @ b) c = Some (Inr (acts, c1))"
    proof (cases y)
      case (Inr z)
      obtain acts c1 where z: "z = (acts, c1)" by (cases z)
      show ?thesis
      proof (cases "no_error c1")
        case True
        then obtain s s' p' where "c1 = with_reader c s" "ready s p'" "len s \<le> len r1" "resumes b s s'"
            "reply_loop hp (User_handler f) (with_reader c r2) = after_told acts (reply_loop hp (User_handler f) (with_reader c s'))"
          using ah by (auto simp: Inr z)
        then have "\<exists>s s' p'. c1 = with_reader c s \<and> ready s p' \<and> len s \<le> n + length a \<and> resumes b s s' \<and>
            redis_handleRead hp (a @ b) c = after_told acts (reply_loop hp (User_handler f) (with_reader c s'))"
          using l unfolding h2 by (intro exI conjI) (assumption, assumption, simp, assumption, assumption)
        then show ?thesis using True by (simp add: Inr z f_def)
      qed (use ah in \<open>simp add: Inr z h2\<close>)
    qed (use ah in \<open>simp add: h2\<close>)
  qed
qed

lemma handleRead_reading:
  assumes "roomy hp" and "reading n c" and "n + length a + 1 < 2 ^ 30"
    and "redis_handleRead hp a c = Some (Inr (acts, c1))" and "no_error c1"
  shows "reading (n + length a) c1"
proof -
  obtain s s' p' where "c1 = with_reader c s" "ready s p'" "len s \<le> n + length a" "resumes [CR] s s'"
    by (rule handleRead_first [OF assms(1,2), of a "[CR]"]) (use assms(3-5) in auto)
  then show ?thesis using assms(2) by (auto simp: reading_def resumes_def)
qed

lemma handleRead_join:
  assumes "roomy hp" and "reading n c" and "n + length a + length b < 2 ^ 30" and "b \<noteq> []"
    and "redis_handleRead hp a c = Some (Inr (acts, c1))" and "no_error c1"
  shows "redis_handleRead hp b c1 = Some (Inr (rest, d)) \<Longrightarrow>
      \<exists>d'. redis_handleRead hp (a @ b) c = Some (Inr (acts @ rest, d')) \<and> no_error d' = no_error d"
    and "redis_handleRead hp (a @ b) c = Some (Inr (all, d)) \<Longrightarrow>
      \<exists>rest d'. all = acts @ rest \<and> redis_handleRead hp b c1 = Some (Inr (rest, d')) \<and> no_error d' = no_error d"
proof -
  obtain s s' p' where s': "c1 = with_reader c s" "ready s p'" "len s \<le> n + length a" "resumes b s s'"
      "redis_handleRead hp (a @ b) c = after_told acts (reply_loop hp (User_handler (rc_callback c)) (with_reader c s'))"
    by (rule handleRead_first [OF assms(1-4)]) (use assms(5,6) in auto)
  have s: "reader (m_context c1) = Some s" "m_authCallback c1 = None" "rc_callback c1 = rc_callback c"
    using assms(2) by (simp_all add: s'(1) reading_def)
  obtain s2 where s2: "redisReaderFeed hp s (Some b) = Inr (True, s2)" "ready s2 (p' @ b)" "s2 = rebuf s2 s"
    using feed_ready [OF s'(2) assms(1), of b] s'(3) assms(3) by auto
  have h: "redis_handleRead hp b c1 = reply_loop hp (User_handler (rc_callback c)) (with_reader c s2)"
    using redis_handleRead_reader [OF s(1,2) s2(1)] s(3) s'(1) by simp
  have rs: "resumes [] s2 s'" by (rule rebuf_resumes [OF s'(4,2) s2(3,2)])
  have r': "ready s' (p' @ b)" using resumes_ready [OF rs] ready_unique [OF s2(2)] by auto
  have ne: "p' @ b \<noteq> [] \<or> ridx s2 = - 1" "p' @ b \<noteq> [] \<or> ridx s' = - 1" using assms(4) by simp_all
  show "\<exists>d'. redis_handleRead hp (a @ b) c = Some (Inr (acts @ rest, d')) \<and> no_error d' = no_error d"
    if "redis_handleRead hp b c1 = Some (Inr (rest, d))"
    using reply_loop_same [OF that [unfolded h] rs s2(2) ne(1)] s'(5) by auto
  show "\<exists>rest d'. all = acts @ rest \<and> redis_handleRead hp b c1 = Some (Inr (rest, d')) \<and> no_error d' = no_error d"
    if all: "redis_handleRead hp (a @ b) c = Some (Inr (all, d))"
  proof -
    obtain rest where rest: "reply_loop hp (User_handler (rc_callback c)) (with_reader c s') = Some (Inr (rest, d))" "all = acts @ rest"
      using all unfolding s'(5) after_told_Some by blast
    then show ?thesis using reply_loop_same [OF rest(1) resumes_sym [OF rs] r' ne(2)] by (auto simp: h)
  qed
qed

text \<open>The actions of reading pieces one after the other, until one fails.\<close>

fun read_pieces :: "heap \<Rightarrow> string list \<Rightarrow> ('f, 'c) redis_conn \<Rightarrow> ('f, 'c) conn_result option" where
  "read_pieces hp [] c = Some (Inr ([], c))"
| "read_pieces hp (b # bs) c =
     (case redis_handleRead hp b c of
        None \<Rightarrow> None
      | Some (Inl e) \<Rightarrow> Some (Inl e)
      | Some (Inr (acts, c)) \<Rightarrow> after_told acts (read_pieces hp bs c))"

lemma reply_loop_auth:
  assumes "reply_loop hp h c = Some y"
  shows "\<forall>f acts d. h = User_handler f \<longrightarrow> y = Inr (acts, d) \<longrightarrow> m_authCallback d = m_authCallback c"
proof (rule reply_loop.raw_induct [OF _ assms], intro allI impI)
  fix rec hp h f acts y and c d :: "('a, 'b) redis_conn"
  assume IH: "\<And>hp h c y. rec hp h c = Some y \<Longrightarrow>
      \<forall>f acts d. h = User_handler f \<longrightarrow> y = Inr (acts, d) \<longrightarrow> m_authCallback d = m_authCallback (c :: ('a, 'b) redis_conn)"
    and body: "(case redisGetReplyFromReader hp (m_context c) of
        None \<Rightarrow> None
      | Some (Inl e) \<Rightarrow> Some (Inl e)
      | Some (Inr (ok, a, ctx)) \<Rightarrow>
          (let c = c\<lparr>m_context := ctx\<rparr> in
           case reader ctx of
             None \<Rightarrow> Some (Inl Null_pointer)
           | Some r \<Rightarrow>
               if \<not> ok then Some (run_handler h (Err_reply (err r)) c)
               else (case a of
                   None \<Rightarrow> Some (Inr ([], c))
                 | Some a \<Rightarrow>
                     (case run_handler h (Got_reply a (store r)) c of
                        Inl e \<Rightarrow> Some (Inl e)
                      | Inr (acts, c) \<Rightarrow>
                          Option.bind (rec hp h
                              (c\<lparr>m_context := ctx\<lparr>reader := Some (r\<lparr>store := freeReplyObject a (store r)\<rparr>)\<rparr>\<rparr>))
                            (\<lambda>res. Some (map_sum id (\<lambda>(acts', c). (acts @ acts', c)) res)))))) = Some y"
    and h: "h = User_handler f" and y: "y = Inr (acts, d)"
  obtain ok a ctx where g: "redisGetReplyFromReader hp (m_context c) = Some (Inr (ok, a, ctx))"
    using body y by (auto split: option.splits sum.splits)
  obtain r where r: "reader ctx = Some r" using body y by (auto simp: g Let_def split: option.splits)
  have told: "run_handler h q e = Inr (told f q, e)" for q and e :: "('a, 'b) redis_conn" by (simp add: h told_def)
  show "m_authCallback d = m_authCallback c"
  proof (cases "ok \<and> a \<noteq> None")
    case True
    then obtain v where v: "a = Some v" "ok" by auto
    obtain res where res: "rec hp h (c\<lparr>m_context := ctx\<lparr>reader := Some (r\<lparr>store := freeReplyObject v (store r)\<rparr>)\<rparr>\<rparr>) = Some res"
        "y = map_sum id (\<lambda>(acts', c). (told f (Got_reply v (store r)) @ acts', c)) res"
      using body by (auto simp: g r v told Let_def bind_eq_Some_conv)
    then show ?thesis using IH [OF res(1)] h y by (cases res) auto
  next
    case False
    then show ?thesis using body y by (auto simp: g r told Let_def split: if_splits option.splits)
  qed
qed

lemma handleRead_auth:
  assumes "redis_handleRead hp b c = Some (Inr (acts, d))" and "m_authCallback c = None"
  shows "m_authCallback d = None"
proof -
  obtain r where r: "reader (m_context c) = Some r" using assms(1) by (auto simp: redis_handleRead_def Let_def split: option.splits)
  show ?thesis
  proof (cases "redisReaderFeed hp r (Some b)")
    case (Inr z)
    obtain ok q where z: "z = (ok, q)" by (cases z)
    show ?thesis
    proof (cases ok)
      case True
      then show ?thesis
        using assms reply_loop_auth [of hp "User_handler (rc_callback c)" "with_reader c q" "Inr (acts, d)"]
        by (simp add: redis_handleRead_reader [OF r assms(2)] Inr z)
    qed (use assms r in \<open>auto simp: redis_handleRead_def Let_def Inr z\<close>)
  qed (use assms(1) r in \<open>simp add: redis_handleRead_def Let_def\<close>)
qed

text \<open>An error stays.\<close>

lemma handleRead_error_stays:
  assumes "redis_handleRead hp b c = Some (Inr (acts, d))" and "m_authCallback c = None" and "\<not> no_error c"
  shows "\<not> no_error d \<and> m_authCallback d = None"
proof -
  obtain r where r: "reader (m_context c) = Some r" "err r \<noteq> None" using assms(3) by (auto simp: no_error_def split: option.splits)
  then show ?thesis using assms(1,2)
    by (auto simp: redis_handleRead_def redisReaderFeed_def Let_def no_error_def split: option.splits)
qed

lemma read_pieces_error_stays:
  "read_pieces hp bs c = Some (Inr (acts, d)) \<Longrightarrow> m_authCallback c = None \<Longrightarrow> \<not> no_error c \<Longrightarrow> \<not> no_error d"
proof (induction bs arbitrary: c acts)
  case (Cons b bs)
  then obtain a c1 more where c1: "redis_handleRead hp b c = Some (Inr (a, c1))" "read_pieces hp bs c1 = Some (Inr (more, d))"
    by (auto simp: after_told_Some split: option.splits sum.splits)
  then show ?case using Cons.IH [OF c1(2)] handleRead_error_stays [OF c1(1) Cons.prems(2,3)] by simp
qed simp

lemma read_pieces_at_once:
  assumes "roomy hp"
  shows "reading n c \<Longrightarrow> n + length (concat bs) + 1 < 2 ^ 30 \<Longrightarrow> [] \<notin> set bs \<Longrightarrow> bs \<noteq> [] \<Longrightarrow>
    (\<exists>d. read_pieces hp bs c = Some (Inr (acts, d)) \<and> no_error d) \<longleftrightarrow>
    (\<exists>d. redis_handleRead hp (concat bs) c = Some (Inr (acts, d)) \<and> no_error d)"
proof (induction bs arbitrary: n c acts)
  case (Cons b bs)
  show ?case
  proof (cases "bs = []")
    case True
    then show ?thesis by (cases "redis_handleRead hp b c") (auto split: sum.split prod.split)
  next
    case False
    have n: "n + length b + 1 < 2 ^ 30" "n + length b + length (concat bs) < 2 ^ 30" using Cons.prems(2) by simp_all
    have ne: "concat bs \<noteq> []" using False Cons.prems(3) by (cases bs) auto
    obtain res where res: "redis_handleRead hp b c = Some res" and both: "case res of
        Inl e \<Rightarrow> redis_handleRead hp (b @ concat bs) c = Some (Inl e)
      | Inr (acts, c1) \<Rightarrow>
          if no_error c1
          then \<exists>s s' p'. c1 = with_reader c s \<and> ready s p' \<and> len s \<le> n + length b \<and> resumes (concat bs) s s' \<and>
            redis_handleRead hp (b @ concat bs) c =
              after_told acts (reply_loop hp (User_handler (rc_callback c)) (with_reader c s'))
          else redis_handleRead hp (b @ concat bs) c = Some (Inr (acts, c1))"
      by (rule handleRead_first [OF assms Cons.prems(1) n(2) ne])
    show ?thesis
    proof (cases res)
      case (Inl e)
      then show ?thesis using res both by simp
    next
      case (Inr z)
      obtain a c1 where z: "z = (a, c1)" by (cases z)
      have h: "redis_handleRead hp b c = Some (Inr (a, c1))" using res Inr z by simp
      have auth: "m_authCallback c1 = None" using handleRead_auth [OF h] Cons.prems(1) by (simp add: reading_def)
      show ?thesis
      proof (cases "no_error c1")
        case False
        then show ?thesis using both h read_pieces_error_stays [OF _ auth False]
          by (auto simp: Inr z after_told_Some)
      next
        case True
        have rd: "reading (n + length b) c1" by (rule handleRead_reading [OF assms Cons.prems(1) n(1) h True])
        have b2: "n + length b + length (concat bs) + 1 < 2 ^ 30" "[] \<notin> set bs" using Cons.prems(2,3) by simp_all
        note join = handleRead_join [OF assms Cons.prems(1) n(2) ne h True]
        have "(\<exists>d. read_pieces hp (b # bs) c = Some (Inr (acts, d)) \<and> no_error d) \<longleftrightarrow>
            (\<exists>rest. acts = a @ rest \<and> (\<exists>d. read_pieces hp bs c1 = Some (Inr (rest, d)) \<and> no_error d))"
          by (auto simp: h after_told_Some)
        also have "\<dots> \<longleftrightarrow> (\<exists>rest. acts = a @ rest \<and> (\<exists>d. redis_handleRead hp (concat bs) c1 = Some (Inr (rest, d)) \<and> no_error d))"
          using Cons.IH [OF rd b2 False] by simp
        also have "\<dots> \<longleftrightarrow> (\<exists>d. redis_handleRead hp (b @ concat bs) c = Some (Inr (acts, d)) \<and> no_error d)"
          using join by metis
        finally show ?thesis by simp
      qed
    qed
  qed
qed simp

end
