(* ===== verification/RedisSafety.thy ===== *)
theory RedisSafety
  imports RedisStream
begin

text \<open>
  The well-formedness of a reader: open tasks have arrays with room for the element that is read. Every
  operation keeps it and none runs into undefined behaviour, as long as no count of elements is so large that
  its conversion to \<open>int\<close> is not positive.
\<close>

section \<open>The invariant\<close>

definition open_task :: "redisReply option list \<Rightarrow> redisReadTask \<Rightarrow> bool" where
  "open_task st t \<longleftrightarrow> task_type t = Some REDIS_REPLY_ARRAY \<and>
     (\<exists>a obj es. task_obj t = Some a \<and> a < length st \<and> st ! a = Some obj \<and> rep_type obj = REDIS_REPLY_ARRAY \<and>
        rep_element obj = Some es \<and> int (length es) = task_elements t)"

definition sound :: "redisReader \<Rightarrow> bool" where
  "sound r \<longleftrightarrow> in_stack r \<and>
     (\<forall>i < nat (ridx r). open_task (store r) (rstack r ! i) \<and> 0 \<le> task_idx (rstack r ! Suc i) \<and>
        task_idx (rstack r ! Suc i) < task_elements (rstack r ! i) \<and> task_parent (rstack r ! Suc i) = Some i) \<and>
     (0 \<le> ridx r \<longrightarrow> task_parent (rstack r ! 0) = None \<and> task_type (task r (ridx r)) \<noteq> Some REDIS_REPLY_NIL)"

text \<open>The stores in which everything open is still open.\<close>

definition keeps_open :: "redisReply option list \<Rightarrow> redisReply option list \<Rightarrow> bool" where
  "keeps_open st st' \<longleftrightarrow> (\<forall>t. open_task st t \<longrightarrow> open_task st' t)"

lemma sound_store: "sound r \<Longrightarrow> keeps_open (store r) st \<Longrightarrow> sound (r\<lparr>store := st\<rparr>)"
  by (simp add: sound_def keeps_open_def)

lemma sound_update [simp]:
  "sound (r\<lparr>pos := n\<rparr>) = sound r" "sound (r\<lparr>len := n\<rparr>) = sound r" "sound (r\<lparr>buf := b\<rparr>) = sound r"
  by (simp_all add: sound_def in_stack_def)

lemma sound_reply: "sound r \<Longrightarrow> sound (r\<lparr>reply := Some a\<rparr>)"
  by (simp add: sound_def in_stack_def)

lemma keeps_open_append: "keeps_open st (st @ xs)"
  by (auto simp: keeps_open_def open_task_def nth_append)

lemma keeps_open_update:
  assumes "st ! a = Some p" and "rep_type p = REDIS_REPLY_ARRAY" and "rep_element p = Some es" and "length es' = length es"
  shows "keeps_open st (st[a := Some (p\<lparr>rep_element := Some es'\<rparr>)])"
  unfolding keeps_open_def
proof (intro allI impI)
  fix t assume "open_task st t"
  then obtain b obj fs where t: "task_type t = Some REDIS_REPLY_ARRAY" "task_obj t = Some b" "b < length st" "st ! b = Some obj"
      "rep_type obj = REDIS_REPLY_ARRAY" "rep_element obj = Some fs" "int (length fs) = task_elements t"
    by (auto simp: open_task_def)
  then show "open_task (st[a := Some (p\<lparr>rep_element := Some es'\<rparr>)]) t"
    using assms by (cases "a = b") (auto simp: open_task_def)
qed

lemma keeps_open_trans: "keeps_open a b \<Longrightarrow> keeps_open b c \<Longrightarrow> keeps_open a c"
  by (simp add: keeps_open_def)

lemma sound_put:
  assumes "sound r" and "0 \<le> ridx r" and "task_parent t = task_parent (task r (ridx r))" and "task_idx t = task_idx (task r (ridx r))"
  shows "\<exists>st. put_object (rstack r) t obj (store r) = Inr (Some (length (store r)), st) \<and> length st = Suc (length (store r)) \<and>
    st ! length (store r) = Some obj \<and> keeps_open (store r) st"
proof (cases "ridx r = 0")
  case True
  then have "task_parent t = None" using assms by (simp add: sound_def)
  then show ?thesis using keeps_open_append [of "store r" "[Some obj]"] by (simp add: put_object_def attach_def)
next
  case False
  define i where "i = nat (ridx r) - 1"
  have i: "nat (ridx r) = Suc i" using False assms(2) by (simp add: i_def)
  have "i < nat (ridx r)" using i by simp
  then have ok: "open_task (store r) (rstack r ! i)" "0 \<le> task_idx t" "task_idx t < task_elements (rstack r ! i)"
      "task_parent t = Some i"
    using assms unfolding sound_def i by auto
  obtain a p es where a: "task_obj (rstack r ! i) = Some a" "a < length (store r)" "store r ! a = Some p"
      "rep_type p = REDIS_REPLY_ARRAY" "rep_element p = Some es" "int (length es) = task_elements (rstack r ! i)"
    using ok(1) by (auto simp: open_task_def)
  let ?n = "length (store r)"
  let ?st = "(store r @ [Some obj])[a := Some (p\<lparr>rep_element := Some (es[nat (task_idx t) := Some ?n])\<rparr>)]"
  have "put_object (rstack r) t obj (store r) = Inr (Some ?n, ?st)"
    using ok a by (simp add: put_object_def attach_def nth_append)
  moreover have "keeps_open (store r) ?st"
    by (rule keeps_open_trans [OF keeps_open_append keeps_open_update]) (use a in \<open>simp_all add: nth_append\<close>)
  ultimately show ?thesis using a(2) by (simp add: nth_append)
qed

lemma sound_move: "sound r \<Longrightarrow> \<exists>r'. moveToNextTask r = Inr r' \<and> sound r'"
proof (induction r rule: moveToNextTask.induct)
  case (1 r)
  show ?case
  proof (cases "ridx r \<le> 0")
    case True
    then show ?thesis using 1(2)
      by (subst moveToNextTask.simps, subst moveToNextTask.simps) (auto simp: sound_def in_stack_def)
  next
    case False
    define i where "i = nat (ridx r) - 1"
    have i: "nat (ridx r) = Suc i" "nat (ridx r - 1) = i" "ridx r = int i + 1" using False by (simp_all add: i_def)
    have ok: "open_task (store r) (rstack r ! i)" "0 \<le> task_idx (rstack r ! Suc i)"
        "task_idx (rstack r ! Suc i) < task_elements (rstack r ! i)"
      using 1(2) unfolding sound_def i by auto
    have ty: "task_type (rstack r ! i) = Some REDIS_REPLY_ARRAY" using ok(1) by (simp add: open_task_def)
    show ?thesis
    proof (cases "task_idx (rstack r ! Suc i) = task_elements (rstack r ! i) - 1")
      case True
      have "sound (r\<lparr>ridx := ridx r - 1\<rparr>)" using 1(2) False ty i by (auto simp: sound_def in_stack_def)
      then show ?thesis using 1(1) [of "task r (ridx r)" "task r (ridx r - 1)"] False ty True i
        by (subst moveToNextTask.simps) (simp add: Let_def)
    next
      case neq: False
      define t where "t = (rstack r ! Suc i)\<lparr>task_type := None, task_elements := - 1, task_idx := task_idx (rstack r ! Suc i) + 1\<rparr>"
      have "moveToNextTask r = Inr (set_task r (ridx r) t)"
        using False ty neq ok i by (subst moveToNextTask.simps) (simp add: Let_def t_def)
      moreover have "sound (set_task r (ridx r) t)"
        using 1(2) ok neq i unfolding sound_def by (auto simp: set_task_def t_def in_stack_def nth_list_update)
      ultimately show ?thesis by blast
    qed
  qed
qed

section \<open>Items keep it\<close>

text \<open>The counts of elements in a text: behind every asterisk there is no number that an \<open>int\<close> cannot hold.\<close>

definition small_count :: "string \<Rightarrow> bool" where
  "small_count s \<longleftrightarrow> readLongLong s < 2 ^ 31"

fun counts_ok :: "string \<Rightarrow> bool" where
  "counts_ok [] = True"
| "counts_ok (c # s) = ((c = CHR ''*'' \<longrightarrow> small_count s) \<and> counts_ok s)"

lemma counts_ok_drop: "counts_ok (p @ x) \<Longrightarrow> counts_ok (drop n p @ x)"
  by (induction p arbitrary: n) (auto simp: drop_Cons split: nat.split)

lemma read_digits_line: "CR \<notin> set p \<Longrightarrow> read_digits v p = None"
  by (induction p arbitrary: v) auto

lemma small_count_prefix: "small_count (p @ x) \<Longrightarrow> small_count p"
  using readLongLong_append [of p x] read_digits_line [of p] read_digits_line [of "tl p"]
  by (cases "CR \<in> set p") (auto simp: small_count_def readLongLong_def split: list.split)

text \<open>No type has been read for the next item.\<close>

definition fresh_task :: "redisReader \<Rightarrow> bool" where
  "fresh_task r \<longleftrightarrow> (0 \<le> ridx r \<longrightarrow> task_type (task r (ridx r)) = None)"

lemma sound_error: "sound r \<Longrightarrow> sound (redisReaderSetError e s r)"
  by (auto simp: redisReaderSetError_def Let_def sound_def in_stack_def split: option.split)

lemma move_fresh: "moveToNextTask r = Inr r' \<Longrightarrow> in_stack r \<Longrightarrow> fresh_task r'"
proof (induction r rule: moveToNextTask.induct)
  case (1 r)
  show ?case
    using 1(2,3) 1(1)
    by (subst (asm) moveToNextTask.simps [of r])
      (auto simp: Let_def fresh_task_def set_task_def in_stack_def split: if_splits)
qed

text \<open>What the functions that create objects give.\<close>

definition created :: "redisReader \<Rightarrow> reader_fault + addr option \<times> redisReply option list \<Rightarrow> bool" where
  "created r obj \<longleftrightarrow> (\<exists>a st. obj = Inr (a, st) \<and> keeps_open (store r) st)"

lemma keeps_open_refl [simp]: "keeps_open st st"
  by (simp add: keeps_open_def)

lemma put_created:
  assumes "sound r" and "0 \<le> ridx r"
  shows "created r (put_object (rstack r) (task r (ridx r)) obj (store r))"
  using sound_put [OF assms refl refl, of obj] by (auto simp: created_def)

lemma createInteger_created: "sound r \<Longrightarrow> 0 \<le> ridx r \<Longrightarrow> created r (createIntegerObject hp (rstack r) (task r (ridx r)) v (store r))"
  by (simp add: createIntegerObject_def put_created split: option.split) (simp add: created_def)

lemma createNil_created: "sound r \<Longrightarrow> 0 \<le> ridx r \<Longrightarrow> created r (createNilObject hp (rstack r) (task r (ridx r)) (store r))"
  by (simp add: createNilObject_def put_created split: option.split) (simp add: created_def)

lemma createString_created:
  "sound r \<Longrightarrow> 0 \<le> ridx r \<Longrightarrow>
   task_type (task r (ridx r)) \<in> {Some REDIS_REPLY_ERROR, Some REDIS_REPLY_STATUS, Some REDIS_REPLY_STRING} \<Longrightarrow>
   created r (createStringObject hp (rstack r) (task r (ridx r)) s (store r))"
  by (auto simp: createStringObject_def put_created split: option.split) (simp_all add: created_def)

lemma finish_sound:
  assumes "sound r" and "0 \<le> ridx r" and "created r obj"
  shows "\<exists>g r'. finish_item obj n r = Inr (g, r') \<and> sound r' \<and> (if g then fresh_task r' else err r' \<noteq> None)"
proof -
  obtain a st where obj: "obj = Inr (a, st)" "keeps_open (store r) st" using assms(3) by (auto simp: created_def)
  have st: "sound (r\<lparr>store := st\<rparr>)" using assms(1) obj(2) by (rule sound_store)
  show ?thesis
  proof (cases a)
    case None
    then show ?thesis using sound_error [OF st] by (auto simp: finish_item_def obj redisReaderSetErrorOOM_def)
  next
    case (Some b)
    define q where "q = (if ridx r = 0 then r\<lparr>store := st, pos := pos r + n, reply := Some b\<rparr> else r\<lparr>store := st, pos := pos r + n\<rparr>)"
    have "sound q" using st by (auto simp: q_def intro: sound_reply)
    then obtain r' where "moveToNextTask q = Inr r'" "sound r'" using sound_move by blast
    moreover have "in_stack q" using \<open>sound q\<close> by (simp add: sound_def)
    moreover have "finish_item obj n r = map_sum id (\<lambda>r. (True, r)) (moveToNextTask q)"
      by (simp add: finish_item_def obj Some Let_def q_def)
    ultimately show ?thesis using move_fresh by auto
  qed
qed

lemma createArray_created:
  assumes "sound r" and "0 \<le> ridx r" and "t = task r (ridx r)"
  shows "created r (createArrayObject hp (rstack r) t e (store r))"
    and "createArrayObject hp (rstack r) t e (store r) = Inr (Some a, st) \<Longrightarrow> 0 < e \<Longrightarrow> task_type t = Some REDIS_REPLY_ARRAY \<Longrightarrow>
      open_task st (t\<lparr>task_elements := e, task_obj := Some a\<rparr>)"
proof -
  show "created r (createArrayObject hp (rstack r) t e (store r))"
    using assms by (auto simp: createArrayObject_def put_created Let_def split: option.split) (simp_all add: created_def)
  show "open_task st (t\<lparr>task_elements := e, task_obj := Some a\<rparr>)"
    if "createArrayObject hp (rstack r) t e (store r) = Inr (Some a, st)" "0 < e" "task_type t = Some REDIS_REPLY_ARRAY"
  proof -
    define obj where "obj = (no_reply REDIS_REPLY_ARRAY)\<lparr>rep_element := Some (replicate (nat e) None), rep_elements := word_of_int e\<rparr>"
    have "put_object (rstack r) t obj (store r) = Inr (Some a, st)"
      using that(1,2) by (auto simp: createArrayObject_def createReplyObject_def obj_def Let_def split: option.splits if_splits)
    then have "a < length st" "st ! a = Some obj"
      using sound_put [OF assms(1,2), of t obj] assms(3) by auto
    then show ?thesis using that(2,3) by (simp add: open_task_def obj_def no_reply_def)
  qed
qed

lemma sound_push:
  assumes "sound r" and "0 \<le> ridx r" and "ridx r < 8" and "keeps_open (store r) st" and "ridx r \<noteq> 0 \<or> a \<noteq> None"
    and "open_task st t" and "task_idx t = task_idx (task r (ridx r))" and "task_parent t = task_parent (task r (ridx r))"
    and "0 < task_elements t" and "task_idx u = 0" and "task_parent u = Some (nat (ridx r))" and "task_type u = None"
    and "ridx r = 0 \<Longrightarrow> reply r' = a" and "ridx r \<noteq> 0 \<Longrightarrow> reply r' = reply r"
    and "rstack r' = (rstack r)[nat (ridx r) := t, nat (ridx r + 1) := u]" and "ridx r' = ridx r + 1" and "store r' = st"
  shows "sound r'"
proof -
  define i where "i = nat (ridx r)"
  have i: "nat (ridx r) = i" "nat (ridx r + 1) = Suc i" "ridx r = int i" "i < 8" using assms(2,3) by (simp_all add: i_def)
  have len: "length (rstack r) = 9" and reply: "ridx r > 0 \<Longrightarrow> reply r \<noteq> None" using assms(1) by (simp_all add: sound_def in_stack_def)
  have below: "open_task st (rstack r ! j) \<and> 0 \<le> task_idx (rstack r ! Suc j) \<and>
      task_idx (rstack r ! Suc j) < task_elements (rstack r ! j) \<and> task_parent (rstack r ! Suc j) = Some j" if "j < i" for j
    using assms(1,4) that by (simp add: sound_def keeps_open_def i)
  have root: "task_parent (rstack r ! 0) = None" using assms(1,2) by (simp add: sound_def)
  have "reply r' \<noteq> None" using assms(5,13,14) reply i by (cases "i = 0") simp_all
  then have "in_stack r'" using assms(15,16) len i by (simp add: in_stack_def)
  moreover have "open_task (store r') (rstack r' ! j) \<and> 0 \<le> task_idx (rstack r' ! Suc j) \<and>
      task_idx (rstack r' ! Suc j) < task_elements (rstack r' ! j) \<and> task_parent (rstack r' ! Suc j) = Some j"
    if "j < nat (ridx r')" for j
  proof -
    have "j < Suc i" using that assms(16) i by simp
    then consider "j = i" | "Suc j = i" | "Suc j < i" by linarith
    then show ?thesis
      using below [of j] len i assms(6-11) by cases (simp_all add: assms(15-17) nth_list_update)
  qed
  moreover have "task_parent (rstack r' ! 0) = None" using root assms(8) len i by (auto simp: assms(15) nth_list_update)
  moreover have "task_type (task r' (ridx r')) = None" using assms(12) len i by (simp add: assms(15,16))
  ultimately show ?thesis by (simp add: sound_def)
qed

lemma after_count_sound:
  assumes "sound r" and "0 \<le> ridx r" and "ridx r < 8" and "task_type (task r (ridx r)) = Some REDIS_REPLY_ARRAY" and "e < 2 ^ 31"
  shows "\<exists>g r'. after_count hp r e = Inr (g, r') \<and> sound r' \<and> (if g then fresh_task r' else err r' \<noteq> None)"
proof -
  define t obj where "t = task r (ridx r)" and "obj = (if e = - 1 then createNilObject hp (rstack r) t (store r)
    else createArrayObject hp (rstack r) t (int32 e) (store r))"
  have "created r obj"
    using createNil_created [OF assms(1,2)] createArray_created(1) [OF assms(1,2) t_def] by (simp add: obj_def t_def)
  then obtain a st where obj: "obj = Inr (a, st)" "keeps_open (store r) st" by (auto simp: created_def)
  have st: "sound (r\<lparr>store := st\<rparr>)" using assms(1) obj(2) by (rule sound_store)
  have len: "length (rstack r) = 9" using assms(1) by (simp add: sound_def in_stack_def)
  note unfold = after_count_def t_def [symmetric] obj_def [symmetric] obj(1) sum.case prod.case
  show ?thesis
  proof (cases a)
    case None
    then have "after_count hp r e = Inr (False, redisReaderSetErrorOOM (r\<lparr>store := st\<rparr>))"
      unfolding unfold by simp
    then show ?thesis using sound_error [OF st] by (auto simp: redisReaderSetErrorOOM_def)
  next
    case (Some b)
    show ?thesis
    proof (cases "e > 0")
      case False
      obtain r' where r': "moveToNextTask (r\<lparr>store := st\<rparr>) = Inr r'" "sound r'" using sound_move [OF st] by blast
      have "fresh_task r'" using move_fresh [OF r'(1)] st by (simp add: sound_def)
      then have "fresh_task (r'\<lparr>reply := Some b\<rparr>)" by (simp add: fresh_task_def)
      moreover have "after_count hp r e = Inr (True, if ridx r = 0 then r'\<lparr>reply := Some b\<rparr> else r')"
        unfolding unfold using r' False Some by simp
      ultimately show ?thesis using r' sound_reply [OF r'(2)] \<open>fresh_task r'\<close> by auto
    next
      case True
      have i32: "int32 e = e" using True assms(5) by (simp add: int32_def signed_take_bit_int_eq_self)
      have "createArrayObject hp (rstack r) t e (store r) = Inr (Some b, st)"
        using obj(1) True Some by (simp add: obj_def i32)
      then have open_t: "open_task st (t\<lparr>task_elements := e, task_obj := Some b\<rparr>)"
        using createArray_created(2) [OF assms(1,2) t_def] True assms(4) by (simp add: t_def)
      define u where "u = \<lparr>task_type = None, task_elements = - 1, task_idx = 0, task_obj = None, task_parent = Some (nat (ridx r))\<rparr>"
      define s where "s = set_task (set_task (r\<lparr>store := st\<rparr>) (ridx r) (t\<lparr>task_elements := e, task_obj := Some b\<rparr>)\<lparr>ridx := ridx r + 1\<rparr>)
        (ridx r + 1) u"
      define r' where "r' = (if ridx r = 0 then s\<lparr>reply := Some b\<rparr> else s)"
      have "after_count hp r e = Inr (True, r')"
        unfolding unfold using True Some len assms(2,3) by (simp add: i32 r'_def s_def u_def)
      moreover have "sound r'"
        by (rule sound_push [OF assms(1-3) obj(2) _ open_t, where a = "Some b" and u = u])
          (use True in \<open>simp_all add: t_def u_def r'_def s_def set_task_def\<close>)
      moreover have "fresh_task r'" using assms(2,3) len by (simp add: fresh_task_def r'_def s_def set_task_def u_def)
      ultimately show ?thesis by auto
    qed
  qed
qed

text \<open>
  What is ahead for the reader, and what is still to come (\<open>x\<close>): numbers of elements that an \<open>int\<close> can
  hold.
\<close>

definition counted :: "string \<Rightarrow> redisReader \<Rightarrow> string \<Rightarrow> bool" where
  "counted x r p \<longleftrightarrow> ready r p \<and> counts_ok (p @ x) \<and>
     (0 \<le> ridx r \<and> task_type (task r (ridx r)) = Some REDIS_REPLY_ARRAY \<longrightarrow> small_count (p @ x))"

text \<open>A step on a sound reader: no fault; the reader goes on, waits or has an error.\<close>

definition steps_well :: "redisReader \<Rightarrow> step_result \<Rightarrow> bool" where
  "steps_well r res \<longleftrightarrow> (\<exists>g r'. res = Inr (g, r') \<and> sound r' \<and> (if g then fresh_task r' else r' = r \<or> err r' \<noteq> None))"

lemma finish_steps_well:
  assumes "sound r" and "0 \<le> ridx r" and "created r obj" and "sound q" and "ridx q = ridx r" and "store q = store r"
  shows "steps_well r (finish_item obj n q)"
proof -
  have "created q obj" "0 \<le> ridx q" using assms by (simp_all add: created_def)
  then show ?thesis using finish_sound [OF assms(4), of obj n] unfolding steps_well_def by (metis (full_types))
qed

lemma process_typed_sound:
  assumes "sound r" and "0 \<le> ridx r" and "counted x r p" and "task_type (task r (ridx r)) \<noteq> None"
  shows "steps_well r (process_typed hp r)"
proof -
  have p: "ready r p" "task_type (task r (ridx r)) = Some REDIS_REPLY_ARRAY \<Longrightarrow> small_count p"
    using assms(2,3) small_count_prefix by (auto simp: counted_def)
  have stay: "steps_well r (Inr (False, r))" using assms(1) by (auto simp: steps_well_def)
  note keep = finish_steps_well [OF assms(1,2)]
  note a = ready_ahead(1,4) [OF p(1)]
  have readLine: "readLine r = map_option (\<lambda>n. (pos r, n, r\<lparr>pos := pos r + n + 2\<rparr>)) (line_end p)"
    by (simp add: readLine_def a map_option_case split: option.split)
  have line: "steps_well r (processLineItem hp r)"
    if "task_type (task r (ridx r)) \<in> {Some REDIS_REPLY_ERROR, Some REDIS_REPLY_STATUS, Some REDIS_REPLY_INTEGER}"
    using stay createInteger_created [OF assms(1,2)] createString_created [OF assms(1,2)] that assms(1)
    by (auto simp: processLineItem_def Let_def readLine split: option.split intro!: keep)
  have bulk: "steps_well r (processBulkItem hp r)" if "task_type (task r (ridx r)) = Some REDIS_REPLY_STRING"
    using stay createNil_created [OF assms(1,2)] createString_created [OF assms(1,2)] that assms(1)
    by (auto simp: processBulkItem_def Let_def split: option.split intro!: keep)
  have multi: "steps_well r (processMultiBulkItem hp r)" if t: "task_type (task r (ridx r)) = Some REDIS_REPLY_ARRAY"
  proof (cases "ridx r = 8")
    case True
    then show ?thesis using sound_error [OF assms(1)] by (auto simp: processMultiBulkItem_def steps_well_def)
  next
    case False
    then have r8: "ridx r < 8" using assms(1) by (simp add: sound_def in_stack_def)
    show ?thesis
    proof (cases "line_end p")
      case None
      then show ?thesis using stay False by (simp add: processMultiBulkItem_def Let_def readLine)
    next
      case (Some n)
      define q where "q = r\<lparr>pos := pos r + n + 2\<rparr>"
      have q: "sound q" "0 \<le> ridx q" "ridx q < 8" "task_type (task q (ridx q)) = Some REDIS_REPLY_ARRAY"
        using assms(1,2) r8 t by (simp_all add: q_def)
      have l: "readLine r = Some (pos r, n, r\<lparr>pos := pos r + n + 2\<rparr>)" by (simp add: readLine Some)
      have e: "readLongLong (drop (pos r) (buf_bytes r)) < 2 ^ 31"
        using ready_ahead(5) [OF p(1) line_end_mem [OF Some]] p(2) [OF t] by (simp add: small_count_def)
      have "processMultiBulkItem hp r = after_count hp q (readLongLong (drop (pos r) (buf_bytes r)))"
        unfolding q_def by (rule processMultiBulkItem_line [OF l False])
      moreover have "\<exists>g r'. after_count hp q (readLongLong (drop (pos r) (buf_bytes r))) = Inr (g, r') \<and> sound r' \<and>
          (if g then fresh_task r' else err r' \<noteq> None)"
        using q e by (rule after_count_sound)
      ultimately show ?thesis unfolding steps_well_def by (metis (full_types))
    qed
  qed
  have "task_type (task r (ridx r)) \<noteq> Some REDIS_REPLY_NIL" using assms(1,2) by (simp add: sound_def)
  then show ?thesis using assms(4) line bulk multi
    by (auto simp: process_typed_def split: option.split reply_type.split)
qed

lemma fresh_counted: "fresh_task r \<Longrightarrow> ready r p \<Longrightarrow> counts_ok (p @ x) \<Longrightarrow> counted x r p"
  by (auto simp: counted_def fresh_task_def)

lemma onward_drop: "ready r p \<Longrightarrow> onward r r' \<Longrightarrow> ready r' (drop (pos r' - pos r) p)"
  unfolding ready_def onward_def by (elim conjE exE) (intro conjI exI, auto)

text \<open>What is left for the reader after an item.\<close>

definition goes_well :: "string \<Rightarrow> redisReader \<Rightarrow> string \<Rightarrow> bool" where
  "goes_well x r p \<longleftrightarrow> sound r \<and> (err r = None \<longrightarrow> (\<exists>n. counted x r (drop n p)))"

lemma steps_well_typed:
  assumes "sound r" and "0 \<le> ridx r" and "counted x r p" and "task_type (task r (ridx r)) \<noteq> None"
  shows "\<exists>g r'. process_typed hp r = Inr (g, r') \<and> goes_well x r' p"
proof -
  obtain g r' where r': "process_typed hp r = Inr (g, r')" "sound r'" "if g then fresh_task r' else r' = r \<or> err r' \<noteq> None"
    using process_typed_sound [OF assms, of hp] unfolding steps_well_def by blast
  have p: "ready r p" "counts_ok (p @ x)" using assms(3) by (simp_all add: counted_def)
  have "goes_well x r' p"
  proof (cases g)
    case True
    have "ready r' (drop (pos r' - pos r) p)" using onward_drop [OF p(1) process_typed_onward [OF p(1)]] r'(1) True by metis
    then show ?thesis using r' True fresh_counted counts_ok_drop [OF p(2)] unfolding goes_well_def by (metis (full_types))
  next
    case False
    then have "r' = r \<or> err r' \<noteq> None" using r'(3) by simp
    then show ?thesis using r'(2) assms(3) unfolding goes_well_def by (metis drop_0)
  qed
  then show ?thesis using r'(1) by blast
qed

lemma sound_typed:
  assumes "sound r" and "0 \<le> ridx r" and "t \<noteq> REDIS_REPLY_NIL"
  shows "sound (set_task r (ridx r) ((task r (ridx r))\<lparr>task_type := Some t\<rparr>))"
proof -
  have len: "length (rstack r) = 9" "ridx r \<le> 8" using assms(1) by (simp_all add: sound_def in_stack_def)
  then show ?thesis using assms
    by (cases "ridx r = 0") (auto simp: sound_def set_task_def in_stack_def nth_list_update)
qed

lemma type_of_byte_ARRAY: "type_of_byte c = Some REDIS_REPLY_ARRAY \<longleftrightarrow> c = CHR ''*''"
  by (auto simp: type_of_byte_def)

lemma type_of_byte_NIL: "type_of_byte c \<noteq> Some REDIS_REPLY_NIL"
  by (auto simp: type_of_byte_def)

lemma processItem_sound:
  assumes "sound r" and "0 \<le> ridx r" and "counted x r p"
  shows "\<exists>g r'. processItem hp r = Inr (g, r') \<and> goes_well x r' p"
proof (cases "task_type (task r (ridx r)) = None")
  case False
  then have "processItem hp r = process_typed hp r" by (simp only: processItem_def if_False)
  then show ?thesis using steps_well_typed [OF assms False] by simp
next
  case none: True
  have p: "ready r p" "counts_ok (p @ x)" using assms(3) by (simp_all add: counted_def)
  show ?thesis
  proof (cases p)
    case Nil
    then have "readBytes 1 r = None" using ready_ahead(1) [OF p(1)] by (simp add: readBytes_def)
    then have "processItem hp r = Inr (False, r)" using none by (simp only: processItem_def if_True option.case simp_thms)
    then show ?thesis using assms(1,3) unfolding goes_well_def by (metis drop_0)
  next
    case (Cons c s)
    have rb: "readBytes 1 r = Some ([c], r\<lparr>pos := pos r + 1\<rparr>)"
      using ready_ahead(1) [OF p(1)] ready_ahead(6) [OF p(1), of 0 1] by (simp add: readBytes_def Cons) (simp add: bytes_at_def)
    show ?thesis
    proof (cases "type_of_byte c")
      case None
      have e: "sound (redisReaderSetErrorProtocolByte c (r\<lparr>pos := pos r + 1\<rparr>))"
        using sound_error assms(1) by (simp add: redisReaderSetErrorProtocolByte_def)
      have "processItem hp r = Inr (False, redisReaderSetErrorProtocolByte c (r\<lparr>pos := pos r + 1\<rparr>))"
        using none rb None by (simp add: processItem_def)
      moreover have "err (redisReaderSetErrorProtocolByte c (r\<lparr>pos := pos r + 1\<rparr>)) \<noteq> None"
        by (simp add: redisReaderSetErrorProtocolByte_def)
      ultimately show ?thesis using e unfolding goes_well_def by metis
    next
      case (Some t)
      define q where "q = r\<lparr>pos := pos r + 1\<rparr>"
      define w where "w = set_task q (ridx q) ((task q (ridx q))\<lparr>task_type := Some t\<rparr>)"
      have sq: "sound q" "0 \<le> ridx q" using assms(1,2) by (simp_all add: q_def)
      have "t \<noteq> REDIS_REPLY_NIL" using Some type_of_byte_NIL by metis
      then have sw: "sound w" unfolding w_def using sq by (intro sound_typed)
      have len: "nat (ridx r) < length (rstack r)" using assms(1,2) by (auto simp: sound_def in_stack_def)
      have tw: "task_type (task w (ridx w)) = Some t" "ridx w = ridx r" using len by (simp_all add: w_def q_def set_task_def)
      have "ready w s" using ready_step [OF p(1), of 1] Cons by (simp add: w_def q_def)
      moreover have "counts_ok (s @ x)" "c = CHR ''*'' \<Longrightarrow> small_count (s @ x)" using p(2) Cons by simp_all
      ultimately have "counted x w s" using tw Some type_of_byte_ARRAY [of c] by (auto simp: counted_def)
      then obtain g r' where r': "process_typed hp w = Inr (g, r')" "goes_well x r' s"
        using steps_well_typed [OF sw, of x s hp] tw assms(2) by auto
      have "processItem hp r = process_typed hp w"
        using none rb Some by (simp add: processItem_def w_def q_def)
      moreover have "goes_well x r' p" using r'(2) Cons unfolding goes_well_def by (metis drop_Suc_Cons)
      ultimately show ?thesis using r'(1) by simp
    qed
  qed
qed

lemma process_items_sound:
  "sound r \<Longrightarrow> counted x r p \<Longrightarrow> \<exists>r'. process_items hp r = Some (Inr r') \<and> goes_well x r' p"
proof (induction "length p" arbitrary: r p rule: less_induct)
  case less
  show ?case
  proof (cases "ridx r \<ge> 0")
    case False
    then have "process_items hp r = Some (Inr r)" by (subst process_items.simps) simp
    then show ?thesis using less(2,3) unfolding goes_well_def by (metis drop_0)
  next
    case True
    obtain g q where q: "processItem hp r = Inr (g, q)" "goes_well x q p"
      using processItem_sound [OF less(2) True less(3), of hp] by blast
    have step: "process_items hp r = (if g then process_items hp q else Some (Inr q))"
      using True q(1) by (subst process_items.simps) simp
    show ?thesis
    proof (cases g)
      case False
      then show ?thesis using step q(2) by simp
    next
      case g: True
      have p: "ready r p" using less(3) by (simp add: counted_def)
      have on: "onward r q" using processItem_onward [OF p] q(1) g by metis
      then have "err q = None" using p by (simp add: onward_def ready_def)
      then obtain n where n: "sound q" "counted x q (drop n p)" using q(2) by (auto simp: goes_well_def)
      have "drop n p = drop (pos q - pos r) p"
        using onward_drop [OF p on] n(2) ready_unique by (auto simp: counted_def)
      then have "length (drop n p) = length p - (pos q - pos r)" by simp
      moreover have "pos r < pos q" "length p > 0" using on ready_ahead(2) [OF p] by (auto simp: onward_def)
      ultimately have "length (drop n p) < length p" by linarith
      from less(1) [OF this n] obtain r' where "process_items hp q = Some (Inr r')" "goes_well x r' (drop n p)" by blast
      then show ?thesis using step g unfolding goes_well_def drop_drop by auto
    qed
  qed
qed

lemma start_sound: "sound r \<Longrightarrow> sound (start_reply r)"
  by (cases "ridx r = - 1") (simp_all add: start_reply_def sound_def set_task_def in_stack_def)

lemma start_counted: "counted x r p \<Longrightarrow> sound r \<Longrightarrow> counted x (start_reply r) p"
  by (cases "ridx r = - 1") (simp_all add: start_reply_def counted_def set_task_def sound_def in_stack_def ready_def)

lemma compact_sound: "sound r \<Longrightarrow> sound (compact r)"
  by (simp add: compact_def Let_def split: option.split)

lemma compact_counted: "counted x r p \<Longrightarrow> counted x (compact r) p"
  using compact_ready [of r p]
  by (auto simp: counted_def) (metis compact_fields(1) rebuf_simps(4))

text \<open>Taking a reply from a sound reader: no fault, and it stays sound.\<close>

lemma getReply_sound:
  assumes "sound r" and "counted x r p"
  shows "\<exists>g a r'. redisReaderGetReply hp r = Some (Inr (g, a, r')) \<and> goes_well x r' p"
proof -
  have stay: "goes_well x r p" using assms unfolding goes_well_def by (metis drop_0)
  obtain q where q: "process_items hp (start_reply r) = Some (Inr q)" "goes_well x q p"
    using process_items_sound [OF start_sound start_counted, of r x p hp] assms by blast
  have c: "goes_well x (compact q) p" if "err q = None"
    using q(2) that compact_sound compact_counted unfolding goes_well_def by metis
  have n: "goes_well x ((compact q)\<lparr>reply := None\<rparr>) p" if "err q = None" "ridx (compact q) = - 1"
    using c [OF that(1)] that(2) by (auto simp: goes_well_def sound_def in_stack_def counted_def)
  show ?thesis using stay q c n by (auto simp: getReply_def')
qed

section \<open>Connections keep it\<close>

text \<open>
  A connection with a user's callback whose reader has an error, or is sound with at most \<open>n\<close> bytes in its
  buffer; \<open>x\<close> is still to come.
\<close>

definition steady :: "nat \<Rightarrow> string \<Rightarrow> ('f, 'c) redis_conn \<Rightarrow> bool" where
  "steady n x c \<longleftrightarrow> m_authCallback c = None \<and>
     (\<exists>r. reader (m_context c) = Some r \<and> (err r = None \<longrightarrow> sound r \<and> (\<exists>p. counted x r p) \<and> len r \<le> n))"

lemma getReply_len:
  assumes "redisReaderGetReply hp r = Some (Inr (g, a, s))" and "ready r p" and "in_stack r" and "err s = None"
  shows "len s \<le> len r"
proof (cases "len r = 0")
  case True
  then have "redisReaderGetReply hp r = Some (Inr (True, None, r))" using assms(2) by (simp add: getReply_def' ready_def)
  then show ?thesis using assms(1) by simp
next
  case False
  have "ahead [] r r" using assms(2) by (auto simp: ahead_def rebuf_def)
  then have "resumes [] r r" using assms(3) by (rule ahead_resumes)
  then obtain y where "redisReaderGetReply hp r = Some y" "\<And>ok a s. y = Inr (ok, a, s) \<Longrightarrow> err s = None \<Longrightarrow> len s \<le> len r"
    using getReply_ahead [of "[]" r r p hp thesis for thesis] assms(2) False by metis
  moreover from this(1) have "y = Inr (g, a, s)" using assms(1) by simp
  ultimately show ?thesis using assms(4) by blast
qed

lemma getReply_false_err: "redisReaderGetReply hp r = Some (Inr (False, a, s)) \<Longrightarrow> err s \<noteq> None"
  by (auto simp: getReply_def' split: option.splits sum.splits if_splits)

lemma reply_loop_safe:
  assumes "sound r" and "counted x r p" and "len r \<le> n" and "m_authCallback c = None"
  shows "\<exists>acts d. reply_loop hp (User_handler f) (with_reader c r) = Some (Inr (acts, d)) \<and> steady n x d"
  using assms(1-3)
proof (induction "length p" arbitrary: r p rule: less_induct)
  case less
  have p: "ready r p" using less(3) by (simp add: counted_def)
  have st: "in_stack r" using less(2) by (simp add: sound_def)
  obtain g a s where s: "redisReaderGetReply hp r = Some (Inr (g, a, s))" "goes_well x s p"
    using getReply_sound [OF less(2,3), of hp] by blast
  have len: "err s = None \<Longrightarrow> len s \<le> n" using getReply_len [OF s(1) p st] less(4) by simp
  show ?case
  proof (cases g)
    case False
    then have "err s \<noteq> None" using getReply_false_err s(1) by (metis (full_types))
    then show ?thesis using s(1) False assms(4) by (auto simp: reply_loop_reader [of hp f c r] steady_def)
  next
    case g: True
    then have e: "err s = None" using s(1) getReply_true_err by simp
    then obtain k where k: "sound s" "counted x s (drop k p)" using s(2) by (auto simp: goes_well_def)
    show ?thesis
    proof (cases a)
      case None
      then show ?thesis using s(1) g k len [OF e] assms(4) by (auto simp: reply_loop_reader [of hp f c r] steady_def)
    next
      case (Some b)
      have sh: "redisReaderGetReply hp r = Some (Inr (True, Some b, s))" using s(1) g Some by simp
      obtain p' where p': "ready s p'" "length p' < length p" using getReply_shorter(1) [OF sh p st] by blast
      have i: "in_stack s" "ridx s = - 1" using getReply_shorter(2,3) [OF sh p st] by simp_all
      have "drop k p = p'" using k(2) p'(1) ready_unique by (auto simp: counted_def)
      moreover have "sound (freed b s)" using i by (simp add: sound_def freed_def)
      moreover have "counted x (freed b s) (drop k p)" using k(2) i(2) by (simp add: counted_def)
      moreover have "len (freed b s) \<le> n" using len [OF e] by simp
      ultimately obtain acts d where "reply_loop hp (User_handler f) (with_reader c (freed b s)) = Some (Inr (acts, d))" "steady n x d"
        using less(1) [of "drop k p" "freed b s"] p'(2) by auto
      then show ?thesis by (simp add: reply_loop_reader [of hp f c r] sh)
    qed
  qed
qed

lemma handleRead_safe:
  assumes "roomy hp" and "steady n (b @ x) c" and "n + length b < 2 ^ 30"
  shows "\<exists>acts d. redis_handleRead hp b c = Some (Inr (acts, d)) \<and> steady (n + length b) x d"
proof -
  obtain r where r: "m_authCallback c = None" "reader (m_context c) = Some r"
      "err r = None \<Longrightarrow> sound r \<and> (\<exists>p. counted (b @ x) r p) \<and> len r \<le> n"
    using assms(2) by (auto simp: steady_def)
  show ?thesis
  proof (cases "err r = None")
    case False
    then show ?thesis using r(1,2) by (auto simp: redis_handleRead_def redisReaderFeed_def Let_def steady_def)
  next
    case True
    then obtain p where p: "sound r" "counted (b @ x) r p" "len r \<le> n" using r(3) by blast
    have rd: "ready r p" using p(2) by (simp add: counted_def)
    obtain r' where r': "redisReaderFeed hp r (Some b) = Inr (True, r')" "ready r' (p @ b)" "r' = rebuf r' r" "len r' = len r + length b"
      using feed_ready [OF rd assms(1), of b] p(3) assms(3) by auto
    have "sound (rebuf r' r)" using p(1) by (simp add: rebuf_def)
    then have s: "sound r'" using r'(3) by simp
    have "ridx r' = ridx (rebuf r' r)" "rstack r' = rstack (rebuf r' r)" by (rule arg_cong [OF r'(3)])+
    then have c: "counted x r' (p @ b)" using p(2) r'(2) by (simp add: counted_def)
    have "len r' \<le> n + length b" using p(3) r'(4) by simp
    from reply_loop_safe [OF s c this r(1)] show ?thesis
      by (simp add: redis_handleRead_reader [OF r(2,1) r'(1)])
  qed
qed

lemma read_pieces_safe:
  assumes "roomy hp"
  shows "steady n (concat bs) c \<Longrightarrow> n + length (concat bs) < 2 ^ 30 \<Longrightarrow>
    \<exists>acts d. read_pieces hp bs c = Some (Inr (acts, d)) \<and> steady (n + length (concat bs)) [] d"
proof (induction bs arbitrary: n c)
  case (Cons b bs)
  obtain acts c1 where c1: "redis_handleRead hp b c = Some (Inr (acts, c1))" "steady (n + length b) (concat bs) c1"
    using handleRead_safe [OF assms, of n b "concat bs" c] Cons.prems by auto
  obtain acts' d where "read_pieces hp bs c1 = Some (Inr (acts', d))" "steady (n + length b + length (concat bs)) [] d"
    using Cons.IH [OF c1(2)] Cons.prems(2) by auto
  then show ?case using c1(1) by (simp add: add.assoc)
qed simp

lemma new_conn_steady:
  assumes "new_redis_conn hp = Some (c :: ('f, 'c) redis_conn)" and "roomy hp" and "reader (m_context c) \<noteq> None" and "counts_ok x"
  shows "steady 0 x (setCallback f c)"
proof -
  define r where "r = \<lparr>err = None, errstr = [], buf = Some (layout [] []), pos = 0, len = 0, maxbuf = REDIS_READER_MAX_BUF,
    rstack = replicate 9 zero_task, ridx = - 1, reply = None, store = []\<rparr>"
  have "reader (m_context c) = Some r" "m_authCallback c = None"
    using assms(1,3) by (auto simp: new_redis_conn_def redisContextInit_def redisReaderCreate_def sdsempty_roomy [OF assms(2)]
        r_def split: if_splits)
  moreover have "ready r []" unfolding ready_def r_def by (intro conjI exI [of _ "[]"]) simp_all
  then have "counted x r []" using assms(4) by (simp add: counted_def r_def)
  moreover have "sound r" "len r = 0" by (simp_all add: sound_def in_stack_def r_def)
  ultimately show ?thesis unfolding steady_def by (auto simp: setCallback_def)
qed

end
