(* ===== verification/RedisTree.thy ===== *)
theory RedisTree
  imports RedisConnection
begin

text \<open>
  Replies as trees, the text the protocol gives them and the objects the reader builds for them. A reader
  that gets the text of a reply builds its objects and attaches them to one another.
\<close>

section \<open>Replies\<close>

datatype resp = Status string | Error string | Integer int | Bulk string | Nil | Array "resp list"

definition line_text :: "char \<Rightarrow> string \<Rightarrow> string" where
  "line_text c s = c # s @ CRLF"

fun resp_text :: "resp \<Rightarrow> string" where
  "resp_text (Status s) = line_text (CHR ''+'') s"
| "resp_text (Error s) = line_text (CHR ''-'') s"
| "resp_text (Integer i) = line_text (CHR '':'') (int_text i)"
| "resp_text (Bulk s) = line_text (CHR ''$'') (int_text (int (length s))) @ s @ CRLF"
| "resp_text Nil = line_text (CHR ''$'') (int_text (- 1))"
| "resp_text (Array vs) = line_text (CHR ''*'') (int_text (int (length vs))) @ concat (map resp_text vs)"

text \<open>What the protocol can transport: lines without a carriage return, numbers of 64 bits, lengths of an \<open>int\<close>.\<close>

fun resp_ok :: "resp \<Rightarrow> bool" where
  "resp_ok (Status s) \<longleftrightarrow> CR \<notin> set s \<and> length s < 2 ^ 31"
| "resp_ok (Error s) \<longleftrightarrow> CR \<notin> set s \<and> length s < 2 ^ 31"
| "resp_ok (Integer i) \<longleftrightarrow> \<bar>i\<bar> < 2 ^ 63"
| "resp_ok (Bulk s) \<longleftrightarrow> length s < 2 ^ 31"
| "resp_ok Nil \<longleftrightarrow> True"
| "resp_ok (Array vs) \<longleftrightarrow> length vs < 2 ^ 31 \<and> (\<forall>v \<in> set vs. resp_ok v)"

text \<open>How deep arrays are nested, an array of no elements included.\<close>

fun depth :: "resp \<Rightarrow> nat" where
  "depth (Array vs) = Suc (fold (\<lambda>v m. max (depth v) m) vs 0)"
| "depth _ = 0"

text \<open>The number of objects of a reply and the objects, from an address on.\<close>

fun resp_size :: "resp \<Rightarrow> nat" where
  "resp_size (Array vs) = Suc (sum_list (map resp_size vs))"
| "resp_size _ = 1"

fun addresses :: "addr \<Rightarrow> resp list \<Rightarrow> addr list" where
  "addresses a [] = []"
| "addresses a (v # vs) = a # addresses (a + resp_size v) vs"

definition string_object :: "reply_type \<Rightarrow> string \<Rightarrow> redisReply" where
  "string_object t s = (no_reply t)\<lparr>rep_str := Some (s @ [NUL]), rep_len := int (length s)\<rparr>"

definition array_object :: "addr option list \<Rightarrow> redisReply" where
  "array_object es = (no_reply REDIS_REPLY_ARRAY)
     \<lparr>rep_elements := of_nat (length es), rep_element := (if es = [] then None else Some es)\<rparr>"

lemma array_object_simps [simp]:
  "rep_type (array_object es) = REDIS_REPLY_ARRAY" "rep_elements (array_object es) = of_nat (length es)"
  "rep_element (array_object es) = (if es = [] then None else Some es)"
  by (simp_all add: array_object_def no_reply_def)

fun objects :: "addr \<Rightarrow> resp \<Rightarrow> redisReply list"
  and object_list :: "addr \<Rightarrow> resp list \<Rightarrow> redisReply list" where
  "objects a (Status s) = [string_object REDIS_REPLY_STATUS s]"
| "objects a (Error s) = [string_object REDIS_REPLY_ERROR s]"
| "objects a (Integer i) = [(no_reply REDIS_REPLY_INTEGER)\<lparr>rep_integer := i\<rparr>]"
| "objects a (Bulk s) = [string_object REDIS_REPLY_STRING s]"
| "objects a Nil = [no_reply REDIS_REPLY_NIL]"
| "objects a (Array vs) = array_object (map Some (addresses (a + 1) vs)) # object_list (a + 1) vs"
| "object_list a [] = []"
| "object_list a (v # vs) = objects a v @ object_list (a + resp_size v) vs"

lemma length_objects [simp]: "length (objects a v) = resp_size v"
  and length_object_list [simp]: "length (object_list a vs) = sum_list (map resp_size vs)"
  by (induction a v and a vs rule: objects_object_list.induct) simp_all

lemma object_list_append: "object_list a (vs @ ws) = object_list a vs @ object_list (a + sum_list (map resp_size vs)) ws"
  by (induction a vs rule: addresses.induct) (simp_all add: add.assoc)

lemma addresses_append: "addresses a (vs @ ws) = addresses a vs @ addresses (a + sum_list (map resp_size vs)) ws"
  by (induction a vs rule: addresses.induct) (simp_all add: add.assoc)

lemma length_addresses [simp]: "length (addresses a vs) = length vs"
  by (induction a vs rule: addresses.induct) simp_all

section \<open>Numbers and lines\<close>

lemma int64_id: "\<bar>i\<bar> < 2 ^ 63 \<Longrightarrow> int64 i = i"
  unfolding int64_def by (rule signed_take_bit_int_eq_self) simp_all

lemma code_digit: "d < 10 \<Longrightarrow> code (char_of (48 + d) :: char) = 48 + d"
  unfolding of_char_of by simp

lemma nat_text_digits: "c \<in> set (nat_text n) \<Longrightarrow> 48 \<le> code c \<and> code c \<le> 57"
proof (induction n rule: nat_text.induct)
  case (1 n)
  then show ?case
    by (subst (asm) (2) nat_text.simps) (auto simp: code_digit split: if_splits)
qed

lemma CR_code: "code CR = 13"
  by simp

lemma nat_text_CR: "CR \<notin> set (nat_text n)"
  using nat_text_digits [of CR n] by auto

lemma read_digits_text:
  "0 \<le> v \<Longrightarrow> v * 10 ^ length (nat_text n) + int n < 2 ^ 63 \<Longrightarrow>
   read_digits v (nat_text n @ s) = read_digits (v * 10 ^ length (nat_text n) + int n) s"
proof (induction n arbitrary: v s rule: nat_text.induct)
  case (1 n)
  have digit: "read_digits w (char_of (48 + d) # s) = read_digits (w * 10 + int d) s"
    if "d < 10" "0 \<le> w" "w * 10 + int d < 2 ^ 63" for w d s
  proof -
    have c: "code (char_of (48 + d) :: char) = 48 + d" using that(1) by (rule code_digit)
    have ne: "(char_of (48 + d) :: char) \<noteq> CR"
    proof
      assume "(char_of (48 + d) :: char) = CR"
      then show False using c unfolding CR_code by simp
    qed
    have i: "int64 (w * 10) = w * 10" "int64 (w * 10 + int d) = w * 10 + int d" using that(2,3) by (simp_all add: int64_id)
    show ?thesis using that(1) by (simp add: ne c i)
  qed
  show ?case
  proof (cases "n < 10")
    case True
    then have t: "nat_text n = [char_of (48 + n)]" by (subst nat_text.simps) simp
    show ?thesis using digit [of n v s] 1(2,3) True by (simp add: t)
  next
    case False
    then have t: "nat_text n = nat_text (n div 10) @ [char_of (48 + n mod 10)]" by (subst nat_text.simps) simp
    define k where "k = length (nat_text (n div 10))"
    have m: "int n = int (n div 10) * 10 + int (n mod 10)"
      by (metis div_mult_mod_eq of_nat_add of_nat_mult of_nat_numeral)
    have e: "(v * 10 ^ k + int (n div 10)) * 10 + int (n mod 10) = v * 10 ^ Suc k + int n" by (simp add: m algebra_simps)
    have b: "(v * 10 ^ k + int (n div 10)) * 10 + int (n mod 10) < 2 ^ 63" using 1(3) unfolding e by (simp add: t k_def)
    have p: "0 \<le> v * 10 ^ k + int (n div 10)" using 1(2) by simp
    have "read_digits v (nat_text (n div 10) @ char_of (48 + n mod 10) # s) =
        read_digits (v * 10 ^ k + int (n div 10)) (char_of (48 + n mod 10) # s)"
      unfolding k_def by (rule 1(1) [OF False 1(2)]) (use b p in \<open>simp add: k_def\<close>)
    also have "\<dots> = read_digits (v * 10 ^ Suc k + int n) s" using digit [OF _ p b, of s] by (simp only: e)
    finally show ?thesis by (simp add: t k_def)
  qed
qed

lemma readLongLong_text:
  assumes "\<bar>i\<bar> < 2 ^ 63"
  shows "readLongLong (int_text i @ CR # s) = i"
proof -
  have r: "read_digits 0 (nat_text n @ CR # s) = Some (int n)" if "int n < 2 ^ 63" for n
    using read_digits_text [of 0 n "CR # s"] that by simp
  show ?thesis
  proof (cases "i < 0")
    case True
    then have "int (nat (- i)) = - i" by simp
    then show ?thesis using True assms r [of "nat (- i)"] by (simp add: readLongLong_def int_text_def int64_id)
  next
    case False
    obtain c t where t: "nat_text (nat i) = c # t" by (cases "nat_text (nat i)") (auto simp: nat_text.simps [of "nat i"] split: if_splits)
    then have "48 \<le> code c" using nat_text_digits [of c "nat i"] by simp
    then have "c \<noteq> CHR ''-''" "c \<noteq> CHR ''+''" by auto
    then show ?thesis using False assms r [of "nat i"] by (simp add: readLongLong_def int_text_def int64_id t)
  qed
qed

lemma int_text_CR: "CR \<notin> set (int_text i)"
  using nat_text_CR by (auto simp: int_text_def)

lemma line_end_text: "CR \<notin> set s \<Longrightarrow> line_end (s @ CRLF @ x) = Some (length s)"
  using line_end_line [of s x] by (simp add: CRLF_def)

section \<open>Building one item\<close>

definition plenty :: "heap \<Rightarrow> bool" where
  "plenty hp \<longleftrightarrow> (\<forall>n. get hp n)"

text \<open>A reader that is about to read the type of an item.\<close>

definition fresh_item :: "redisReader \<Rightarrow> bool" where
  "fresh_item r \<longleftrightarrow> length (rstack r) = 9 \<and> 0 \<le> ridx r \<and> ridx r \<le> 8 \<and> task_type (task r (ridx r)) = None"

text \<open>Attaching the next object gives the store \<open>st0\<close>, with the new objects behind it.\<close>

definition fits :: "redisReader \<Rightarrow> redisReply option list \<Rightarrow> bool" where
  "fits r st0 \<longleftrightarrow> length st0 = length (store r) \<and>
     (\<forall>stack t more. (\<forall>i < nat (ridx r). stack ! i = rstack r ! i) \<longrightarrow> task_parent t = task_parent (task r (ridx r)) \<longrightarrow>
       task_idx t = task_idx (task r (ridx r)) \<longrightarrow> attach stack t (length (store r)) (store r @ more) = Inr (st0 @ more))"

lemma fits_put:
  assumes "fits r st0" and "\<forall>i < nat (ridx r). stack ! i = rstack r ! i" and "task_parent t = task_parent (task r (ridx r))"
    and "task_idx t = task_idx (task r (ridx r))"
  shows "put_object stack t obj (store r) = Inr (Some (length (store r)), st0 @ [Some obj])"
  using assms unfolding fits_def put_object_def by auto

text \<open>The reader when an item is built and the next task is due.\<close>

definition built :: "redisReader \<Rightarrow> redisReply option list \<Rightarrow> resp \<Rightarrow> string \<Rightarrow> redisReader \<Rightarrow> bool" where
  "built r st0 v x q \<longleftrightarrow> ready q x \<and> ridx q = ridx r \<and> length (rstack q) = 9 \<and>
     (\<forall>i < nat (ridx r). rstack q ! i = rstack r ! i) \<and>
     task_idx (task q (ridx r)) = task_idx (task r (ridx r)) \<and> task_parent (task q (ridx r)) = task_parent (task r (ridx r)) \<and>
     store q = st0 @ map Some (objects (length (store r)) v) \<and>
     reply q = (if ridx r = 0 then Some (length (store r)) else reply r)"

definition continue :: "heap \<Rightarrow> reader_fault + redisReader \<Rightarrow> (reader_fault + redisReader) option" where
  "continue hp res = (case res of Inl e \<Rightarrow> Some (Inl e) | Inr r \<Rightarrow> process_items hp r)"

definition typed :: "redisReader \<Rightarrow> reply_type \<Rightarrow> redisReader" where
  "typed r t = set_task (r\<lparr>pos := pos r + 1\<rparr>) (ridx r) ((task r (ridx r))\<lparr>task_type := Some t\<rparr>)"

lemma typed_fields [simp]:
  "ridx (typed r t) = ridx r" "store (typed r t) = store r" "reply (typed r t) = reply r"
  "length (rstack (typed r t)) = length (rstack r)"
  by (simp_all add: typed_def set_task_def)

lemma typed_stack:
  assumes "fresh_item r"
  shows "\<forall>i < nat (ridx r). rstack (typed r t) ! i = rstack r ! i"
    and "rstack (typed r t) ! nat (ridx r) = (task r (ridx r))\<lparr>task_type := Some t\<rparr>"
  using assms by (auto simp: typed_def set_task_def fresh_item_def)

lemma type_step:
  assumes "fresh_item r" and "ready r (c # p)" and "type_of_byte c = Some t"
  shows "ready (typed r t) p"
    and "process_items hp r =
      (case process_typed hp (typed r t) of Inl e \<Rightarrow> Some (Inl e) | Inr (ok, q) \<Rightarrow> if ok then process_items hp q else Some (Inr q))"
proof -
  show "ready (typed r t) p" using ready_step [OF assms(2), of 1] by (simp add: typed_def)
  have rb: "readBytes 1 r = Some ([c], r\<lparr>pos := pos r + 1\<rparr>)"
    using ready_ahead(1) [OF assms(2)] ready_ahead(6) [OF assms(2), of 0 1] by (simp add: readBytes_def) (simp add: bytes_at_def)
  have "processItem hp r = process_typed hp (typed r t)"
    using assms(1,3) rb by (simp add: processItem_def typed_def fresh_item_def)
  then show "process_items hp r =
      (case process_typed hp (typed r t) of Inl e \<Rightarrow> Some (Inl e) | Inr (ok, q) \<Rightarrow> if ok then process_items hp q else Some (Inr q))"
    using assms(1) by (subst process_items.simps) (simp add: fresh_item_def)
qed

lemma moved_continue:
  "(case map_sum id (\<lambda>r. (True, r)) y of Inl e \<Rightarrow> Some (Inl e) | Inr (ok, q) \<Rightarrow> if ok then process_items hp q else Some (Inr q)) =
    continue hp y"
  by (cases y) (simp_all add: continue_def)

lemma finish_built:
  assumes "fresh_item r" and "fits r st0" and "ready (typed r t) p" and "n \<le> length p"
    and "objects (length (store r)) v = [obj]"
  shows "\<exists>q. finish_item (Inr (Some (length (store r)), st0 @ [Some obj])) n (typed r t) =
      map_sum id (\<lambda>r. (True, r)) (moveToNextTask q) \<and> built r st0 v (drop n p) q"
proof -
  define q where "q = (typed r t)\<lparr>store := st0 @ [Some obj], pos := pos (typed r t) + n\<rparr>"
  have q: "ready q (drop n p)" using ready_step [OF assms(3,4)] by (simp add: q_def ready_def)
  define q' where "q' = (if ridx r = 0 then q\<lparr>reply := Some (length (store r))\<rparr> else q)"
  have "built r st0 v (drop n p) q'"
    using q typed_stack [OF assms(1), of t] assms(1,5)
    by (auto simp: built_def q'_def q_def fresh_item_def)
  then show ?thesis unfolding finish_item_def by (auto simp: q'_def q_def Let_def intro!: exI [of _ q'])
qed

lemma typed_put:
  assumes "fresh_item r" and "fits r st0"
  shows "put_object (rstack (typed r t)) (task (typed r t) (ridx r)) obj (store r) =
    Inr (Some (length (store r)), st0 @ [Some obj])"
  using fits_put [OF assms(2) typed_stack(1) [OF assms(1)]] typed_stack(2) [OF assms(1)] by simp

lemma finish_shift: "finish_item (Inr (Some a, st)) 0 (r\<lparr>pos := pos r + k\<rparr>) = finish_item (Inr (Some a, st)) k r"
  by (simp add: finish_item_def)

text \<open>An item that is one line, with the object that is built from it.\<close>

lemma line_item:
  assumes "fresh_item r" and "fits r st0" and "ready r (c # s @ CRLF @ x)" and "type_of_byte c = Some t" and "CR \<notin> set s"
    and "t = REDIS_REPLY_STATUS \<or> t = REDIS_REPLY_ERROR \<or> t = REDIS_REPLY_INTEGER"
    and "(if t = REDIS_REPLY_INTEGER
      then createIntegerObject hp (rstack (typed r t)) (task (typed r t) (ridx r)) (readLongLong (s @ CRLF @ x)) (store r)
      else createStringObject hp (rstack (typed r t)) (task (typed r t) (ridx r)) s (store r)) =
      Inr (Some (length (store r)), st0 @ [Some obj])"
    and "objects (length (store r)) v = [obj]"
  shows "\<exists>q. built r st0 v x q \<and> process_items hp r = continue hp (moveToNextTask q)"
proof -
  note rd = type_step(1) [OF assms(1,3,4)]
  note le = line_end_text [OF assms(5), of x]
  have sk: "seekNewline (drop (pos (typed r t)) (buf_bytes (typed r t))) (len (typed r t) - pos (typed r t)) = Some (length s)"
    using ready_ahead(4) [OF rd] ready_ahead(1) [OF rd] le by simp
  have rl: "readLine (typed r t) = Some (pos (typed r t), length s, (typed r t)\<lparr>pos := pos (typed r t) + (length s + 2)\<rparr>)"
    unfolding readLine_def sk by (simp add: add.assoc)
  have num: "readLongLong (drop (pos (typed r t)) (buf_bytes (typed r t))) = readLongLong (s @ CRLF @ x)"
    using ready_ahead(5) [OF rd] by (simp add: CRLF_def)
  have str: "bytes_at (buf_bytes (typed r t)) (pos (typed r t)) (length s) = s"
    using ready_ahead(6) [OF rd, of 0 "length s"] by (simp add: bytes_at_def)
  have ty: "task_type (task (typed r t) (ridx r)) = Some t" using typed_stack(2) [OF assms(1)] by simp
  define w where "w = typed r t"
  have w: "ridx w = ridx r" "store w = store r" by (simp_all add: w_def)
  have "processLineItem hp w = finish_item
      (if t = REDIS_REPLY_INTEGER
       then createIntegerObject hp (rstack w) (task w (ridx r)) (readLongLong (s @ CRLF @ x)) (store r)
       else createStringObject hp (rstack w) (task w (ridx r)) s (store r)) 0 (w\<lparr>pos := pos w + (length s + 2)\<rparr>)"
    unfolding processLineItem_def Let_def rl [folded w_def] option.case prod.case w
    using ty num str unfolding w_def [symmetric] by (simp add: w)
  then have "processLineItem hp (typed r t) =
      finish_item (Inr (Some (length (store r)), st0 @ [Some obj])) (length s + 2) (typed r t)"
    unfolding w_def assms(7) finish_shift .
  moreover have "process_typed hp (typed r t) = processLineItem hp (typed r t)"
    using assms(6) ty by (auto simp: process_typed_def)
  moreover obtain q where q: "finish_item (Inr (Some (length (store r)), st0 @ [Some obj])) (length s + 2) (typed r t) =
      map_sum id (\<lambda>r. (True, r)) (moveToNextTask q)" "built r st0 v (drop (length s + 2) (s @ CRLF @ x)) q"
    using finish_built [OF assms(1,2) rd _ assms(8), of "length s + 2"] by (auto simp: CRLF_def)
  ultimately have "process_items hp r = continue hp (moveToNextTask q)"
    using type_step(2) [OF assms(1,3,4), of hp] by (simp only: moved_continue)
  moreover have "drop (length s + 2) (s @ CRLF @ x) = x" by (simp add: CRLF_def)
  ultimately show ?thesis using q(2) by metis
qed

lemma bulk_item:
  assumes "fresh_item r" and "fits r st0" and "ready r (line_text (CHR ''$'') (int_text i) @ y @ x)" and "\<bar>i\<bar> < 2 ^ 63"
    and "i < 0 \<and> y = [] \<and> obj = no_reply REDIS_REPLY_NIL \<or>
      (\<exists>s. i = int (length s) \<and> length s < 2 ^ 31 \<and> y = s @ CRLF \<and> obj = string_object REDIS_REPLY_STRING s)"
    and "plenty hp" and "objects (length (store r)) v = [obj]"
  shows "\<exists>q. built r st0 v x q \<and> process_items hp r = continue hp (moveToNextTask q)"
proof -
  let ?t = REDIS_REPLY_STRING and ?l = "int_text i"
  have ready': "ready r (CHR ''$'' # ?l @ CRLF @ y @ x)" using assms(3) by (simp add: line_text_def)
  have ty: "type_of_byte (CHR ''$'') = Some ?t" by (simp add: type_of_byte_def)
  note rd = type_step(1) [OF assms(1) ready' ty]
  note le = line_end_text [OF int_text_CR, of i "y @ x"]
  have sk: "seekNewline (drop (pos (typed r ?t)) (buf_bytes (typed r ?t))) (len (typed r ?t) - pos (typed r ?t)) = Some (length ?l)"
    using ready_ahead(4) [OF rd] ready_ahead(1) [OF rd] le by simp
  have num: "readLongLong (drop (pos (typed r ?t)) (buf_bytes (typed r ?t))) = i"
    using ready_ahead(5) [OF rd] readLongLong_text [OF assms(4)] by (simp add: CRLF_def)
  have tk: "task_type (task (typed r ?t) (ridx r)) = Some ?t" using typed_stack(2) [OF assms(1)] by simp
  have cr: "createReplyObject hp u = Some (no_reply u)" for u using assms(6) by (simp add: createReplyObject_def plenty_def)
  define n where "n = length ?l + 2 + length y"
  have b: "processBulkItem hp (typed r ?t) = finish_item (Inr (Some (length (store r)), st0 @ [Some obj])) n (typed r ?t)"
    using assms(5)
  proof (elim disjE exE conjE)
    assume i: "i < 0" "y = []" "obj = no_reply REDIS_REPLY_NIL"
    have "createNilObject hp (rstack (typed r ?t)) (task (typed r ?t) (ridx r)) (store r) =
        Inr (Some (length (store r)), st0 @ [Some obj])"
      unfolding createNilObject_def cr i(3) by (simp add: typed_put [OF assms(1,2)])
    then show ?thesis using i(1,2) by (simp add: processBulkItem_def Let_def sk num n_def)
  next
    fix s assume s: "i = int (length s)" "length s < 2 ^ 31" "y = s @ CRLF" "obj = string_object REDIS_REPLY_STRING s"
    have nn: "length ?l + 2 + length s + 2 = n" by (simp add: n_def s(3) CRLF_def)
    have str: "bytes_at (drop (pos (typed r ?t)) (buf_bytes (typed r ?t))) (length ?l + 2) (length s) = s"
      using ready_ahead(7) [OF rd, of "length ?l + 2" "length s"] by (simp add: bytes_at_def s(3) CRLF_def)
    have "n \<le> length (?l @ CRLF @ y @ x)" by (simp add: n_def CRLF_def)
    then have fit: "pos (typed r ?t) + n \<le> len (typed r ?t)" using ready_ahead(2) [OF rd] by linarith
    have "createStringObject hp (rstack (typed r ?t)) (task (typed r ?t) (ridx r)) s (store r) =
        Inr (Some (length (store r)), st0 @ [Some obj])"
      using s(2) assms(6) typed_put [OF assms(1,2)]
      by (simp add: createStringObject_def tk cr s(4) plenty_def string_object_def)
    then show ?thesis using s(1) fit nn str by (simp add: processBulkItem_def Let_def sk num)
  qed
  have "n \<le> length (?l @ CRLF @ y @ x)" by (simp add: n_def CRLF_def)
  then obtain q where q: "finish_item (Inr (Some (length (store r)), st0 @ [Some obj])) n (typed r ?t) =
      map_sum id (\<lambda>r. (True, r)) (moveToNextTask q)" "built r st0 v (drop n (?l @ CRLF @ y @ x)) q"
    using finish_built [OF assms(1,2) rd _ assms(7)] by blast
  have "process_items hp r = continue hp (moveToNextTask q)"
    using type_step(2) [OF assms(1) ready' ty, of hp] tk b q(1) by (simp add: process_typed_def moved_continue)
  moreover have "drop n (?l @ CRLF @ y @ x) = x" by (simp add: n_def CRLF_def)
  ultimately show ?thesis using q(2) by metis
qed

section \<open>Arrays\<close>

lemma fold_max_ge: "a \<le> fold (\<lambda>v m. max (f v) m) vs (a :: nat)"
  by (induction vs arbitrary: a) (auto intro: order_trans [OF max.cobounded2])

lemma fold_max_mem: "v \<in> set vs \<Longrightarrow> f v \<le> fold (\<lambda>v m. max (f v) m) vs (a :: nat)"
  by (induction vs arbitrary: a) (auto intro: order_trans [OF max.cobounded1 fold_max_ge])

lemma depth_mem: "v \<in> set vs \<Longrightarrow> Suc (depth v) \<le> depth (Array vs)"
  using fold_max_mem [of v vs depth 0] by simp

text \<open>An array whose first elements, those of \<open>vs\<close>, are built.\<close>

definition partial_array :: "addr \<Rightarrow> resp list \<Rightarrow> nat \<Rightarrow> redisReply option list" where
  "partial_array b vs k =
     Some (array_object (map Some (addresses (b + 1) vs) @ replicate k None)) # map Some (object_list (b + 1) vs)"

lemma length_partial_array [simp]: "length (partial_array b vs k) = Suc (sum_list (map resp_size vs))"
  by (simp add: partial_array_def)

lemma partial_array_next:
  "(Some (array_object (map Some (addresses (b + 1) (vs @ [v])) @ replicate k None)) # map Some (object_list (b + 1) vs)) @
     map Some (objects (b + 1 + sum_list (map resp_size vs)) v) = partial_array b (vs @ [v]) k"
  by (simp add: partial_array_def object_list_append)

lemma partial_array_full: "partial_array b vs 0 = map Some (objects b (Array vs))"
  by (simp add: partial_array_def)

lemma list_update_next: "length xs = n \<Longrightarrow> (xs @ replicate (Suc k) None)[n := y] = (xs @ [y]) @ replicate k None"
  by (simp add: list_update_append)

text \<open>A reader that is about to read an element of the array at \<open>b\<close>.\<close>

definition in_array :: "nat \<Rightarrow> addr \<Rightarrow> redisReply option list \<Rightarrow> resp list \<Rightarrow> nat \<Rightarrow> redisReader \<Rightarrow> bool" where
  "in_array d b base vs k r \<longleftrightarrow> length (rstack r) = 9 \<and> d \<le> 7 \<and> ridx r = int (Suc d) \<and>
     task_type (rstack r ! Suc d) = None \<and> task_parent (rstack r ! Suc d) = Some d \<and>
     task_idx (rstack r ! Suc d) = int (length vs) \<and> task_type (rstack r ! d) = Some REDIS_REPLY_ARRAY \<and>
     task_elements (rstack r ! d) = int (length vs + k) \<and> task_obj (rstack r ! d) = Some b \<and>
     length base = b \<and> store r = base @ partial_array b vs k"

lemma in_array_fits:
  assumes "in_array d b base vs (Suc k) r"
  shows "fresh_item r" and "length (store r) = b + 1 + sum_list (map resp_size vs)"
    and "fits r (base @ Some (array_object (map Some (addresses (b + 1) (vs @ [v])) @ replicate k None)) #
      map Some (object_list (b + 1) vs))"
proof -
  have nat: "nat (ridx r) = Suc d" using assms by (simp add: in_array_def)
  show "fresh_item r" using assms nat by (auto simp: in_array_def fresh_item_def)
  show len: "length (store r) = b + 1 + sum_list (map resp_size vs)" using assms by (simp add: in_array_def)
  let ?es = "map Some (addresses (b + 1) vs) @ replicate (Suc k) None"
  have nth: "(store r @ more) ! b = Some (array_object ?es)" for more
    using assms by (auto simp: in_array_def partial_array_def nth_append)
  have upd: "?es[length vs := Some (length (store r))] = map Some (addresses (b + 1) (vs @ [v])) @ replicate k None"
    using list_update_next [of "map Some (addresses (b + 1) vs)" "length vs" k "Some (length (store r))"] len
    by (simp add: addresses_append)
  have obj: "(array_object ?es)\<lparr>rep_element := Some (?es[length vs := Some (length (store r))])\<rparr> =
      array_object (map Some (addresses (b + 1) (vs @ [v])) @ replicate k None)"
    unfolding upd by (simp add: array_object_def no_reply_def addresses_append)
  show "fits r (base @ Some (array_object (map Some (addresses (b + 1) (vs @ [v])) @ replicate k None)) #
      map Some (object_list (b + 1) vs))"
    unfolding fits_def
  proof (intro conjI allI impI)
    fix stack and t :: redisReadTask and more
    assume s: "\<forall>i<nat (ridx r). stack ! i = rstack r ! i" and p: "task_parent t = task_parent (task r (ridx r))"
      and i: "task_idx t = task_idx (task r (ridx r))"
    have "task_obj (stack ! d) = Some b" using s nat assms by (simp add: in_array_def)
    moreover have "task_parent t = Some d" "task_idx t = int (length vs)" using p i assms nat by (simp_all add: in_array_def)
    moreover have "rep_type (array_object ?es) = REDIS_REPLY_ARRAY" "rep_element (array_object ?es) = Some ?es"
      by (simp_all add: array_object_def no_reply_def)
    ultimately have "attach stack t (length (store r)) (store r @ more) =
        Inr ((store r @ more)[b := Some ((array_object ?es)\<lparr>rep_element := Some (?es[length vs := Some (length (store r))])\<rparr>)])"
      by (simp add: attach_def nth del: replicate_Suc)
    then show "attach stack t (length (store r)) (store r @ more) = Inr ((base @ Some (array_object (map Some (addresses (b + 1) (vs @ [v])) @
        replicate k None)) # map Some (object_list (b + 1) vs)) @ more)"
      unfolding obj using assms by (auto simp: in_array_def partial_array_def list_update_append)
  qed (use assms in \<open>simp add: in_array_def\<close>)
qed

text \<open>What the reader does with an item, as the induction over replies proves it.\<close>

definition reads_item :: "heap \<Rightarrow> resp \<Rightarrow> bool" where
  "reads_item hp v \<longleftrightarrow> (\<forall>r st0 x. resp_ok v \<longrightarrow> nat (ridx r) + depth v \<le> 8 \<longrightarrow> fresh_item r \<longrightarrow> fits r st0 \<longrightarrow>
     ready r (resp_text v @ x) \<longrightarrow> (\<exists>q. built r st0 v x q \<and> process_items hp r = continue hp (moveToNextTask q)))"

lemma reads_itemD:
  "reads_item hp v \<and> resp_ok v \<and> n + depth v \<le> 8 \<Longrightarrow> nat (ridx r) = n \<Longrightarrow> fresh_item r \<Longrightarrow> fits r st0 \<Longrightarrow>
   ready r (resp_text v @ x) \<Longrightarrow> \<exists>q. built r st0 v x q \<and> process_items hp r = continue hp (moveToNextTask q)"
  unfolding reads_item_def by blast

lemma reads_elements:
  assumes "rest \<noteq> []" and "in_array d b base vs (length rest) r" and "ready r (concat (map resp_text rest) @ x)"
    and "\<And>v. v \<in> set rest \<Longrightarrow> reads_item hp v \<and> resp_ok v \<and> Suc d + depth v \<le> 8"
  shows "\<exists>q. process_items hp r = continue hp (moveToNextTask q) \<and> ready q x \<and> ridx q = int d \<and> length (rstack q) = 9 \<and>
    (\<forall>i \<le> d. rstack q ! i = rstack r ! i) \<and> store q = base @ map Some (objects b (Array (vs @ rest))) \<and> reply q = reply r"
  using assms
proof (induction rest arbitrary: vs r)
  case (Cons v rest)
  let ?st = "base @ Some (array_object (map Some (addresses (b + 1) (vs @ [v])) @ replicate (length rest) None)) #
      map Some (object_list (b + 1) vs)"
  have arr: "in_array d b base vs (Suc (length rest)) r" using Cons.prems(2) by simp
  note fit = in_array_fits [OF arr]
  have nat: "nat (ridx r) = Suc d" "ridx r = int (Suc d)" using arr by (simp_all add: in_array_def)
  have "ready r (resp_text v @ concat (map resp_text rest) @ x)" using Cons.prems(3) by simp
  with Cons.prems(4) [of v] nat(1) fit(1) fit(3) [of v]
  have "\<exists>q. built r ?st v (concat (map resp_text rest) @ x) q \<and> process_items hp r = continue hp (moveToNextTask q)"
    by (intro reads_itemD) simp_all
  then obtain q where q: "built r ?st v (concat (map resp_text rest) @ x) q" "process_items hp r = continue hp (moveToNextTask q)"
    by blast
  have qs: "ready q (concat (map resp_text rest) @ x)" "ridx q = int (Suc d)" "length (rstack q) = 9"
      "\<forall>i < Suc d. rstack q ! i = rstack r ! i" "task_idx (rstack q ! Suc d) = int (length vs)"
      "task_parent (rstack q ! Suc d) = Some d" "reply q = reply r"
    using q(1) nat arr by (simp_all add: built_def in_array_def)
  have store: "store q = base @ partial_array b (vs @ [v]) (length rest)"
    using q(1) partial_array_next [of b vs v "length rest"] unfolding built_def fit(2) by simp
  have prv: "task_type (rstack q ! d) = Some REDIS_REPLY_ARRAY" "task_elements (rstack q ! d) = int (length vs + Suc (length rest))"
      "task_obj (rstack q ! d) = Some b"
    using qs(4) arr by (simp_all add: in_array_def)
  show ?case
  proof (cases "rest = []")
    case True
    have "moveToNextTask q = moveToNextTask (q\<lparr>ridx := int d\<rparr>)"
      using qs(2,5) prv True by (subst moveToNextTask.simps) (simp add: Let_def nat_add_distrib)
    then show ?thesis using q(2) qs store True partial_array_full [of b "vs @ [v]"]
      by (intro exI [of _ "q\<lparr>ridx := int d\<rparr>"]) simp
  next
    case False
    define t where "t = (rstack q ! Suc d)\<lparr>task_type := None, task_elements := - 1, task_idx := int (length vs) + 1\<rparr>"
    have m: "moveToNextTask q = Inr (set_task q (ridx q) t)"
      using qs(2,5) prv False by (subst moveToNextTask.simps) (auto simp: Let_def t_def nat_add_distrib)
    have "in_array d b base (vs @ [v]) (length rest) (set_task q (ridx q) t)"
      using qs prv store arr by (simp add: in_array_def set_task_def t_def nat_add_distrib)
    moreover have "ready (set_task q (ridx q) t) (concat (map resp_text rest) @ x)" using qs(1) by simp
    ultimately obtain q' where "process_items hp (set_task q (ridx q) t) = continue hp (moveToNextTask q')"
        "ready q' x \<and> ridx q' = int d \<and> length (rstack q') = 9 \<and> (\<forall>i \<le> d. rstack q' ! i = rstack (set_task q (ridx q) t) ! i) \<and>
         store q' = base @ map Some (objects b (Array ((vs @ [v]) @ rest))) \<and> reply q' = reply (set_task q (ridx q) t)"
      using Cons.IH [OF False, of "vs @ [v]" "set_task q (ridx q) t"] Cons.prems(4) by (auto simp del: objects.simps)
    moreover have "process_items hp r = process_items hp (set_task q (ridx q) t)" by (simp add: q(2) m continue_def)
    ultimately show ?thesis using qs(2,4,7) by (intro exI [of _ q']) (simp add: set_task_def nat_add_distrib)
  qed
qed simp

text \<open>The line that begins an array.\<close>

lemma array_header:
  assumes "fresh_item r" and "fits r st0" and "ready r (line_text (CHR ''*'') (int_text (int n)) @ y)" and "n < 2 ^ 31"
    and "ridx r \<noteq> 8" and "plenty hp"
  obtains w where "ready w y" and "ridx w = ridx r" and "length (rstack w) = 9"
    and "\<forall>i < nat (ridx r). rstack w ! i = rstack r ! i"
    and "rstack w ! nat (ridx r) = (task r (ridx r))\<lparr>task_type := Some REDIS_REPLY_ARRAY\<rparr>"
    and "store w = st0 @ [Some (array_object (replicate n None))]" and "reply w = reply r"
    and "process_items hp r =
      (case map_sum id (\<lambda>s. (True, if ridx r = 0 then s\<lparr>reply := Some (length (store r))\<rparr> else s))
            (if \<not> int n > 0 then moveToNextTask w
             else Inr (set_task (set_task w (ridx r)
                  ((task w (ridx r))\<lparr>task_elements := int n, task_obj := Some (length (store r))\<rparr>)\<lparr>ridx := ridx r + 1\<rparr>)
                (ridx r + 1)
                \<lparr>task_type = None, task_elements = - 1, task_idx = 0, task_obj = None,
                 task_parent = Some (nat (ridx r))\<rparr>)) of
        Inl e \<Rightarrow> Some (Inl e) | Inr (ok, q) \<Rightarrow> if ok then process_items hp q else Some (Inr q))"
proof -
  let ?t = REDIS_REPLY_ARRAY and ?l = "int_text (int n)"
  have ready': "ready r (CHR ''*'' # ?l @ CRLF @ y)" using assms(3) by (simp add: line_text_def)
  have ty: "type_of_byte (CHR ''*'') = Some ?t" by (simp add: type_of_byte_def)
  note rd = type_step(1) [OF assms(1) ready' ty]
  define w0 where "w0 = typed r ?t"
  have w0: "ridx w0 = ridx r" "store w0 = store r" "reply w0 = reply r" "length (rstack w0) = 9"
      "rstack w0 ! nat (ridx r) = (task r (ridx r))\<lparr>task_type := Some ?t\<rparr>"
      "\<forall>i < nat (ridx r). rstack w0 ! i = rstack r ! i" "ready w0 (?l @ CRLF @ y)"
    using assms(1) typed_stack [OF assms(1), of ?t] rd by (simp_all add: w0_def fresh_item_def)
  have le: "line_end (?l @ CRLF @ y) = Some (length ?l)" by (rule line_end_text [OF int_text_CR])
  have sk: "seekNewline (drop (pos w0) (buf_bytes w0)) (len w0 - pos w0) = Some (length ?l)"
    using ready_ahead(4) [OF w0(7)] ready_ahead(1) [OF w0(7)] le by simp
  have rl: "readLine w0 = Some (pos w0, length ?l, w0\<lparr>pos := pos w0 + (length ?l + 2)\<rparr>)"
    unfolding readLine_def sk by (simp add: add.assoc)
  have num: "readLongLong (drop (pos w0) (buf_bytes w0)) = int n"
    using ready_ahead(5) [OF w0(7)] readLongLong_text [of "int n"] assms(4) by (simp add: CRLF_def)
  define w1 where "w1 = w0\<lparr>pos := pos w0 + (length ?l + 2)\<rparr>"
  have w1: "ready w1 y" using ready_step [OF w0(7), of "length ?l + 2"] by (simp add: w1_def CRLF_def)
  have fields: "ridx w1 = ridx r" "store w1 = store r" "reply w1 = reply r" "rstack w1 = rstack w0" by (simp_all add: w1_def w0)
  have n: "int32 (int n) = int n" using assms(4) by simp
  define obj where "obj = array_object (replicate n None)"
  have cr: "createArrayObject hp (rstack w1) (task w1 (ridx r)) (int n) (store r) =
      Inr (Some (length (store r)), st0 @ [Some obj])"
    using fits_put [OF assms(2) w0(6), of "task w0 (ridx r)" obj] assms(6) w0(5)
    by (cases "n = 0") (simp_all add: createArrayObject_def createReplyObject_def plenty_def fields obj_def array_object_def
        no_reply_def)
  define w where "w = w1\<lparr>store := st0 @ [Some obj]\<rparr>"
  have st: "process_typed hp w0 = map_sum id (\<lambda>s. (True, if ridx r = 0 then s\<lparr>reply := Some (length (store r))\<rparr> else s))
      (if \<not> int n > 0 then moveToNextTask w
       else Inr (set_task (set_task w (ridx r)
            ((task w (ridx r))\<lparr>task_elements := int n, task_obj := Some (length (store r))\<rparr>)\<lparr>ridx := ridx r + 1\<rparr>)
          (ridx r + 1)
          \<lparr>task_type = None, task_elements = - 1, task_idx = 0, task_obj = None,
           task_parent = Some (nat (ridx r))\<rparr>))"
  proof -
    have "task_type (task w0 (ridx w0)) = Some ?t" using w0(1,5) by simp
    then have "process_typed hp w0 = after_count hp w1 (int n)"
      using processMultiBulkItem_line [OF rl, of hp] assms(5) w0(1) by (simp add: process_typed_def num w1_def)
    moreover have "\<not> length (rstack w1) \<le> nat (ridx r + 1)" using assms(1,5) w0(4) by (auto simp: fields fresh_item_def)
    moreover have "after_count hp w1 (int n) = map_sum id (\<lambda>s. (True, if ridx r = 0 then s\<lparr>reply := Some (length (store r))\<rparr> else s))
      (if \<not> int n > 0 then moveToNextTask w
       else Inr (set_task (set_task w (ridx r)
            ((task w (ridx r))\<lparr>task_elements := int n, task_obj := Some (length (store r))\<rparr>)\<lparr>ridx := ridx r + 1\<rparr>)
          (ridx r + 1)
          \<lparr>task_type = None, task_elements = - 1, task_idx = 0, task_obj = None,
           task_parent = Some (nat (ridx r))\<rparr>))" if "\<not> length (rstack w1) \<le> nat (ridx r + 1)"
      using that by (simp add: after_count_def fields n cr [unfolded fields] w_def)
    ultimately show ?thesis by simp
  qed
  show thesis
  proof (rule that [of w])
    show "ready w y" using w1 by (simp add: w_def)
    show "process_items hp r =
      (case map_sum id (\<lambda>s. (True, if ridx r = 0 then s\<lparr>reply := Some (length (store r))\<rparr> else s))
            (if \<not> int n > 0 then moveToNextTask w
             else Inr (set_task (set_task w (ridx r)
                  ((task w (ridx r))\<lparr>task_elements := int n, task_obj := Some (length (store r))\<rparr>)\<lparr>ridx := ridx r + 1\<rparr>)
                (ridx r + 1)
                \<lparr>task_type = None, task_elements = - 1, task_idx = 0, task_obj = None,
                 task_parent = Some (nat (ridx r))\<rparr>)) of
        Inl e \<Rightarrow> Some (Inl e) | Inr (ok, q) \<Rightarrow> if ok then process_items hp q else Some (Inr q))"
      unfolding st [symmetric] w0_def by (rule type_step(2) [OF assms(1) ready' ty])
  qed (use w0 fields in \<open>simp_all add: w_def obj_def\<close>)
qed

lemma array_reads:
  assumes "plenty hp" and "\<And>v. v \<in> set vs \<Longrightarrow> reads_item hp v"
  shows "reads_item hp (Array vs)"
  unfolding reads_item_def
proof (intro allI impI)
  fix r st0 x
  assume ok: "resp_ok (Array vs)" and dp: "nat (ridx r) + depth (Array vs) \<le> 8" and fresh: "fresh_item r" and fit: "fits r st0"
    and rd: "ready r (resp_text (Array vs) @ x)"
  define b where "b = length (store r)"
  define d where "d = nat (ridx r)"
  have d: "ridx r = int d" "d \<le> 7" using fresh dp by (auto simp: d_def fresh_item_def)
  have b: "length st0 = b" using fit by (simp add: fits_def b_def)
  have rd': "ready r (line_text (CHR ''*'') (int_text (int (length vs))) @ concat (map resp_text vs) @ x)" using rd by simp
  have n: "length vs < 2 ^ 31" "ridx r \<noteq> 8" using ok d by simp_all
  obtain w where w: "ready w (concat (map resp_text vs) @ x)" "ridx w = ridx r" "length (rstack w) = 9"
      "\<forall>i < nat (ridx r). rstack w ! i = rstack r ! i"
      "rstack w ! nat (ridx r) = (task r (ridx r))\<lparr>task_type := Some REDIS_REPLY_ARRAY\<rparr>"
      "store w = st0 @ [Some (array_object (replicate (length vs) None))]" "reply w = reply r"
      "process_items hp r =
      (case map_sum id (\<lambda>s. (True, if ridx r = 0 then s\<lparr>reply := Some (length (store r))\<rparr> else s))
            (if \<not> int (length vs) > 0 then moveToNextTask w
             else Inr (set_task (set_task w (ridx r)
                  ((task w (ridx r))\<lparr>task_elements := int (length vs), task_obj := Some (length (store r))\<rparr>)\<lparr>ridx := ridx r + 1\<rparr>)
                (ridx r + 1)
                \<lparr>task_type = None, task_elements = - 1, task_idx = 0, task_obj = None,
                 task_parent = Some (nat (ridx r))\<rparr>)) of
        Inl e \<Rightarrow> Some (Inl e) | Inr (ok, q) \<Rightarrow> if ok then process_items hp q else Some (Inr q))"
    by (rule array_header [OF fresh fit rd' n assms(1)])
  show "\<exists>q. built r st0 (Array vs) x q \<and> process_items hp r = continue hp (moveToNextTask q)"
  proof (cases "vs = []")
    case True
    define q where "q = (if ridx r = 0 then w\<lparr>reply := Some b\<rparr> else w)"
    have "map_sum id (\<lambda>s. (True, if ridx r = 0 then s\<lparr>reply := Some b\<rparr> else s)) (moveToNextTask w) =
        map_sum id (\<lambda>s. (True, s)) (moveToNextTask q)"
    proof (cases "ridx r = 0")
      case True
      then show ?thesis using w(2) by (simp add: q_def moveToNextTask.simps)
    qed (simp add: q_def)
    then have "process_items hp r = continue hp (moveToNextTask q)"
      using w(8) True unfolding b_def [symmetric] by (simp add: moved_continue)
    moreover have "built r st0 (Array vs) x q"
      using w True by (auto simp: built_def q_def b_def array_object_def)
    ultimately show ?thesis by blast
  next
    case False
    define r1 where "r1 = set_task (set_task w (ridx r)
        ((task w (ridx r))\<lparr>task_elements := int (length vs), task_obj := Some b\<rparr>)\<lparr>ridx := ridx r + 1\<rparr>) (ridx r + 1)
        \<lparr>task_type = None, task_elements = - 1, task_idx = 0, task_obj = None, task_parent = Some d\<rparr>"
    define r0 where "r0 = (if ridx r = 0 then r1\<lparr>reply := Some b\<rparr> else r1)"
    have p: "process_items hp r = process_items hp r0"
      using w(8) False by (simp add: r0_def r1_def b_def d_def)
    have arr: "in_array d b st0 [] (length vs) r0"
      using w(2,3,5,6) d b by (auto simp: in_array_def r0_def r1_def set_task_def partial_array_def nat_add_distrib)
    have rr: "ready r0 (concat (map resp_text vs) @ x)" using w(1) by (simp add: r0_def r1_def)
    have el: "v \<in> set vs \<Longrightarrow> reads_item hp v \<and> resp_ok v \<and> Suc d + depth v \<le> 8" for v
      using assms(2) ok dp depth_mem [of v vs] by (simp add: d_def del: depth.simps)
    obtain q where q: "process_items hp r0 = continue hp (moveToNextTask q)" "ready q x" "ridx q = int d" "length (rstack q) = 9"
        "\<forall>i \<le> d. rstack q ! i = rstack r0 ! i" "store q = st0 @ map Some (objects b (Array ([] @ vs)))" "reply q = reply r0"
      using reads_elements [OF False arr rr el] by blast
    have "rstack r0 ! i = rstack r ! i" if "i < d" for i
      using that w(4) by (simp add: r0_def r1_def set_task_def d_def nat_add_distrib)
    moreover have "task_idx (rstack r0 ! d) = task_idx (rstack r ! d)" "task_parent (rstack r0 ! d) = task_parent (rstack r ! d)"
      using w(3,5) d by (auto simp: r0_def r1_def set_task_def nat_add_distrib)
    ultimately have "built r st0 (Array vs) x q"
      using q(2-7) d w(7) by (simp add: built_def b_def r0_def r1_def set_task_def del: objects.simps)
    then show ?thesis using p q(1) by metis
  qed
qed

lemma line_reads:
  assumes "resp_text v = line_text c s" and "type_of_byte c = Some t" and "resp_ok v \<longrightarrow> CR \<notin> set s"
    and "t = REDIS_REPLY_STATUS \<or> t = REDIS_REPLY_ERROR \<or> t = REDIS_REPLY_INTEGER" and "\<And>a. objects a v = [obj]"
    and "\<And>r st0 x. resp_ok v \<Longrightarrow> fresh_item r \<Longrightarrow> fits r st0 \<Longrightarrow> (if t = REDIS_REPLY_INTEGER
      then createIntegerObject hp (rstack (typed r t)) (task (typed r t) (ridx r)) (readLongLong (s @ CRLF @ x)) (store r)
      else createStringObject hp (rstack (typed r t)) (task (typed r t) (ridx r)) s (store r)) =
      Inr (Some (length (store r)), st0 @ [Some obj])"
  shows "reads_item hp v"
  unfolding reads_item_def
proof (intro allI impI)
  fix r st0 x
  assume a: "resp_ok v" "fresh_item r" "fits r st0" "ready r (resp_text v @ x)"
  have "ready r (c # s @ CRLF @ x)" using a(4) by (simp add: assms(1) line_text_def)
  from line_item [OF a(2,3) this assms(2) _ assms(4) assms(6) [OF a(1-3)] assms(5)] assms(3) a(1)
  show "\<exists>q. built r st0 v x q \<and> process_items hp r = continue hp (moveToNextTask q)" by simp
qed

lemma string_created:
  assumes "plenty hp" and "fresh_item r" and "fits r st0" and "length s < 2 ^ 31"
    and "t = REDIS_REPLY_STATUS \<or> t = REDIS_REPLY_ERROR \<or> t = REDIS_REPLY_STRING"
  shows "createStringObject hp (rstack (typed r t)) (task (typed r t) (ridx r)) s (store r) =
    Inr (Some (length (store r)), st0 @ [Some (string_object t s)])"
  using typed_put [OF assms(2,3)] typed_stack(2) [OF assms(2)] assms(1,4,5)
  by (auto simp: createStringObject_def createReplyObject_def plenty_def string_object_def)

lemma reads_every_item: "plenty hp \<Longrightarrow> reads_item hp v"
proof (induction v)
  case (Status s)
  then show ?case
    by (intro line_reads [where c = "CHR ''+''" and t = REDIS_REPLY_STATUS and obj = "string_object REDIS_REPLY_STATUS s" and s = s])
      (simp_all add: type_of_byte_def string_created)
next
  case (Error s)
  then show ?case
    by (intro line_reads [where c = "CHR ''-''" and t = REDIS_REPLY_ERROR and obj = "string_object REDIS_REPLY_ERROR s" and s = s])
      (simp_all add: type_of_byte_def string_created)
next
  case (Integer i)
  have c: "createIntegerObject hp (rstack (typed r t)) (task (typed r t) (ridx r)) i (store r) =
      Inr (Some (length (store r)), st0 @ [Some ((no_reply REDIS_REPLY_INTEGER)\<lparr>rep_integer := i\<rparr>)])"
    if "fresh_item r" "fits r st0" for r st0 t
    using typed_put [OF that] Integer by (simp add: createIntegerObject_def createReplyObject_def plenty_def)
  show ?case
    by (rule line_reads [where c = "CHR '':''" and t = REDIS_REPLY_INTEGER and
          obj = "(no_reply REDIS_REPLY_INTEGER)\<lparr>rep_integer := i\<rparr>" and s = "int_text i"])
      (simp_all add: type_of_byte_def c int_text_CR readLongLong_text CRLF_def)
next
  case (Bulk s)
  show ?case
    unfolding reads_item_def
  proof (intro allI impI)
    fix r st0 x
    assume a: "resp_ok (Bulk s)" "fresh_item r" "fits r st0" "ready r (resp_text (Bulk s) @ x)"
    have rd: "ready r (line_text (CHR ''$'') (int_text (int (length s))) @ (s @ CRLF) @ x)" using a(4) by simp
    show "\<exists>q. built r st0 (Bulk s) x q \<and> process_items hp r = continue hp (moveToNextTask q)"
      by (rule bulk_item [OF a(2,3) rd _ _ Bulk]) (use a(1) in auto)
  qed
next
  case Nil
  show ?case
    unfolding reads_item_def
  proof (intro allI impI)
    fix r st0 x
    assume a: "fresh_item r" "fits r st0" "ready r (resp_text Nil @ x)"
    have rd: "ready r (line_text (CHR ''$'') (int_text (- 1)) @ [] @ x)" using a(3) by simp
    show "\<exists>q. built r st0 Nil x q \<and> process_items hp r = continue hp (moveToNextTask q)"
      by (rule bulk_item [OF a(1,2) rd _ _ Nil]) auto
  qed
next
  case (Array vs)
  then show ?case by (intro array_reads) auto
qed

section \<open>A reply as a whole\<close>

text \<open>The tree of objects at an address, as a user of the reply sees it; the fuel is the size of the store.\<close>

fun those_map :: "('a \<Rightarrow> 'b option) \<Rightarrow> 'a list \<Rightarrow> 'b list option" where
  "those_map f [] = Some []"
| "those_map f (x # xs) = (case f x of None \<Rightarrow> None | Some y \<Rightarrow> map_option ((#) y) (those_map f xs))"

fun reply_value :: "nat \<Rightarrow> redisReply option list \<Rightarrow> addr \<Rightarrow> resp option" where
  "reply_value 0 st a = None"
| "reply_value (Suc n) st a =
     (case st ! a of
        None \<Rightarrow> None
      | Some r \<Rightarrow>
          (case rep_type r of
             REDIS_REPLY_STATUS \<Rightarrow> map_option (\<lambda>s. Status (take (nat (rep_len r)) s)) (rep_str r)
           | REDIS_REPLY_ERROR \<Rightarrow> map_option (\<lambda>s. Error (take (nat (rep_len r)) s)) (rep_str r)
           | REDIS_REPLY_STRING \<Rightarrow> map_option (\<lambda>s. Bulk (take (nat (rep_len r)) s)) (rep_str r)
           | REDIS_REPLY_INTEGER \<Rightarrow> Some (Integer (rep_integer r))
           | REDIS_REPLY_NIL \<Rightarrow> Some Nil
           | REDIS_REPLY_ARRAY \<Rightarrow>
               (case rep_element r of
                  None \<Rightarrow> if rep_elements r = 0 then Some (Array []) else None
                | Some es \<Rightarrow> map_option Array
                    (those_map (\<lambda>e. case e of None \<Rightarrow> None | Some a \<Rightarrow> reply_value n st a) es))))"

lemma elements_value:
  assumes "\<And>v st t. v \<in> set vs \<Longrightarrow> reply_value n (st @ map Some (objects (length st) v) @ t) (length st) = Some v"
  shows "those_map (\<lambda>e. case e of None \<Rightarrow> None | Some a \<Rightarrow> reply_value n (st @ map Some (object_list (length st) vs) @ t) a)
    (map Some (addresses (length st) vs)) = Some vs"
  using assms
proof (induction vs arbitrary: st)
  case (Cons v vs)
  let ?st = "st @ map Some (objects (length st) v)"
  have l: "length ?st = length st + resp_size v" by simp
  have "reply_value n (st @ map Some (object_list (length st) (v # vs)) @ t) (length st) = Some v"
    using Cons.prems [of v st "map Some (object_list (length st + resp_size v) vs) @ t"] by simp
  moreover have "those_map (\<lambda>e. case e of None \<Rightarrow> None | Some a \<Rightarrow> reply_value n (?st @ map Some (object_list (length ?st) vs) @ t) a)
      (map Some (addresses (length ?st) vs)) = Some vs"
    by (rule Cons.IH) (use Cons.prems in simp)
  ultimately show ?case by (simp only: l append_assoc object_list.simps addresses.simps list.map map_append) simp
qed simp

lemma objects_value: "depth v < n \<Longrightarrow> reply_value n (st @ map Some (objects (length st) v) @ t) (length st) = Some v"
proof (induction v arbitrary: n st t)
  case (Array vs)
  then obtain m where n: "n = Suc m" by (cases n) auto
  show ?case
  proof (cases "vs = []")
    case True
    then show ?thesis by (simp add: n array_object_def no_reply_def nth_append)
  next
    case False
    let ?a = "array_object (map Some (addresses (length st + 1) vs))"
    have ne: "addresses (length st + 1) vs \<noteq> []" using False by (cases vs) simp_all
    have "those_map (\<lambda>e. case e of None \<Rightarrow> None | Some a \<Rightarrow>
          reply_value m ((st @ [Some ?a]) @ map Some (object_list (length (st @ [Some ?a])) vs) @ t) a)
        (map Some (addresses (length (st @ [Some ?a])) vs)) = Some vs"
    proof (rule elements_value)
      fix v and st' t' :: "redisReply option list"
      assume v: "v \<in> set vs"
      then have "depth v < m" using depth_mem [OF v] Array.prems n by simp
      then show "reply_value m (st' @ map Some (objects (length st') v) @ t') (length st') = Some v"
        by (rule Array.IH [OF v])
    qed
    then show ?thesis using ne by (simp add: n nth_append cong: option.case_cong)
  qed
next
  case (Status s)
  then show ?case by (cases n) (simp_all add: string_object_def no_reply_def nth_append)
next
  case (Error s)
  then show ?case by (cases n) (simp_all add: string_object_def no_reply_def nth_append)
next
  case (Integer i)
  then show ?case by (cases n) (simp_all add: no_reply_def nth_append)
next
  case (Bulk s)
  then show ?case by (cases n) (simp_all add: string_object_def no_reply_def nth_append)
next
  case Nil
  then show ?case by (cases n) (simp_all add: no_reply_def nth_append)
qed

end
