(* ===== verification/RedisCommand.thy ===== *)
theory RedisCommand
  imports RedisTree
begin

text \<open>
  Commands: the lengths that are computed before are those of the text, so a vector of arguments is
  formatted as the array of bulk strings the protocol wants, and so is the request of a connection.
\<close>

lemma digit_count_text: "int (digit_count (int n)) = int (length (nat_text n))"
proof (induction n rule: nat_text.induct)
  case (1 n)
  show ?case
  proof (cases "n < 10")
    case True
    then show ?thesis by (subst digit_count.simps, subst nat_text.simps) simp
  next
    case False
    have "digit_count (int n) = Suc (digit_count (int (n div 10)))"
      using False by (subst digit_count.simps) (simp add: zdiv_int)
    then show ?thesis using 1 False by (subst nat_text.simps) simp
  qed
qed

lemma intlen_text: "intlen (int n) = int (length (nat_text n))"
  by (simp add: intlen_def digit_count_text)

lemma int_text_nat: "int_text (int n) = nat_text n"
  by (simp add: int_text_def)

lemma length_bulk_text: "length (bulk_text s) = length (nat_text (length s)) + length s + 5"
  by (simp add: bulk_text_def CRLF_def)

lemma bulklen_text:
  assumes "length (bulk_text s) < 2 ^ 31"
  shows "bulklen (length s) = length (bulk_text s)"
proof -
  define d where "d = length (nat_text (length s))"
  have d: "d + length s + 5 < 2 ^ 31" using assms by (simp add: length_bulk_text d_def)
  then have "int32 (int (length s)) = int (length s)" by simp
  moreover have "size_of_int (1 + int d + 2) = d + 3"
    using size_of_int_id [of "d + 3"] d by (simp add: algebra_simps)
  ultimately show ?thesis using d by (simp add: bulklen_def intlen_text length_bulk_text d_def [symmetric])
qed

text \<open>The command as a reply: an array of bulk strings.\<close>

definition command_text :: "string list \<Rightarrow> string" where
  "command_text args = resp_text (Array (map Bulk args))"

lemma resp_text_Bulk: "resp_text (Bulk s) = bulk_text s"
  by (simp add: bulk_text_def line_text_def int_text_nat)

lemma command_text_bulks: "command_text args = CHR ''*'' # nat_text (length args) @ CRLF @ concat (map bulk_text args)"
  by (simp add: command_text_def line_text_def int_text_nat comp_def resp_text_Bulk del: resp_text.simps(4))

lemma total_length:
  assumes "k + length (concat (map bulk_text args)) < 2 ^ 31"
  shows "fold (\<lambda>n t. int32 (t + int32 (int (bulklen n)))) (map length args) (int k) =
    int (k + length (concat (map bulk_text args)))"
  using assms
proof (induction args arbitrary: k)
  case (Cons a args)
  have "length (bulk_text a) < 2 ^ 31" using Cons.prems by simp
  then have "int32 (int k + int32 (int (bulklen (length a)))) = int (k + length (bulk_text a))"
    using Cons.prems int32_nat [of "k + length (bulk_text a)"] by (simp add: bulklen_text)
  then show ?case using Cons.IH [of "k + length (bulk_text a)"] Cons.prems by simp
qed simp

lemma build_command_text:
  assumes "length (command_text args) < 2 ^ 31 - 1"
  shows "build_command hp args (int (length (command_text args))) =
    Inr (if get hp (length (command_text args) + 1) then Some (command_text args) else None)"
proof -
  have "int32 (int (length (command_text args)) + 1) = int (length (command_text args) + 1)"
    using int32_nat [of "length (command_text args) + 1"] assms by (simp add: add.commute)
  then have "size_of_int (int32 (int (length (command_text args)) + 1)) = length (command_text args) + 1"
    using size_of_int_id [of "length (command_text args) + 1"] assms by simp
  then show ?thesis by (simp add: build_command_def int_text_nat command_text_bulks)
qed

lemma buildRequest_text:
  assumes "length (command_text args) < 2 ^ 31 - 1"
  shows "buildRequest args = command_text args"
proof -
  have bulk: "length (bulk_text a) \<le> length (concat (map bulk_text args))" if "a \<in> set args" for a
    using member_le_sum_list [of "length (bulk_text a)" "map length (map bulk_text args)"] that
    by (simp add: length_concat comp_def)
  have one: "1 \<le> length (bulk_text a)" for a by (simp add: length_bulk_text)
  have "length args \<le> length (concat (map bulk_text args))"
    using sum_list_mono [of args "\<lambda>_. 1" "\<lambda>a. length (bulk_text a)"] one
    by (simp add: length_concat comp_def sum_list_triv)
  then have "length args < 2 ^ 31" using assms by (simp add: command_text_bulks)
  moreover have "length a < 2 ^ 31" if "a \<in> set args" for a
    using bulk [OF that] assms by (simp add: command_text_bulks length_bulk_text)
  ultimately have "map (\<lambda>a. CHR ''$'' # int_text (int32 (int (length a))) @ CRLF @ a @ CRLF) args = map bulk_text args"
      "int_text (int32 (int (length args))) = nat_text (length args)"
    by (simp_all add: bulk_text_def int_text_nat)
  then show ?thesis by (simp only: buildRequest_def command_text_bulks)
qed

lemma formatArgv_text:
  assumes "length (command_text args) < 2 ^ 31 - 1" and "lens = Some (map length args) \<or> lens = None \<and> NUL \<notin> \<Union> (set ` set args)"
  shows "redisFormatCommandArgv hp args lens =
    Inr (if get hp (length (command_text args) + 1) then Some (command_text args) else None)"
proof -
  have "strlen a = length a" if "a \<in> set args" "NUL \<notin> \<Union> (set ` set args)" for a
  proof -
    have "NUL \<notin> set a" using that by blast
    then have "takeWhile (\<lambda>c. c \<noteq> NUL) a = a" by (induction a) auto
    then show ?thesis by (simp only: strlen_def)
  qed
  then have lens: "map (arg_len lens args) [0..<length args] = map length args"
    using assms(2) by (intro nth_equalityI) (auto simp: arg_len_def)
  have k: "1 + intlen (int (length args)) + 2 = int (length (nat_text (length args)) + 3)" by (simp add: intlen_text)
  have "length (nat_text (length args)) + 3 + length (concat (map bulk_text args)) = length (command_text args)"
    by (simp add: command_text_bulks CRLF_def)
  then have tot: "fold (\<lambda>n t. int32 (t + int32 (int (bulklen n)))) (map length args) (1 + intlen (int (length args)) + 2) =
      int (length (command_text args))"
    using total_length [of "length (nat_text (length args)) + 3" args] assms(1) unfolding k by simp
  have "map (\<lambda>(a, n). take n a) (zip args (map length args)) = args"
    by (simp add: zip_map2 comp_def zip_same_conv_map)
  moreover have "\<not> (\<exists>(a, n) \<in> set (zip args (map length args)). n > length a)"
    by (auto simp: zip_map2 zip_same_conv_map)
  ultimately show ?thesis using build_command_text [OF assms(1), of hp]
    unfolding redisFormatCommandArgv_def lens tot Let_def by simp
qed

end
