(* ===== verification/RedisProps.thy ===== *)
theory RedisProps
  imports RedisSafety RedisTree RedisCommand
begin

text \<open>
  What the Redis client does, seen from its user: replies arrive as they were sent, however the bytes are
  cut; commands are what the protocol asks for; transactions count their replies.
\<close>

section \<open>Replies\<close>

lemma ready_len: "ready r p \<Longrightarrow> p \<noteq> [] \<Longrightarrow> len r \<noteq> 0 \<and> err r = None"
  using ready_ahead(2,3) [of r p] by auto

lemma getReply_reads:
  assumes "plenty hp" and "resp_ok v" and "depth v \<le> 8" and "ready r (resp_text v @ x)" and "in_stack r" and "ridx r = - 1"
  shows "\<exists>s. redisReaderGetReply hp r = Some (Inr (True, Some (length (store r)), s)) \<and> ready s x \<and> in_stack s \<and>
    ridx s = - 1 \<and> store s = store r @ map Some (objects (length (store r)) v)"
proof -
  have start: "start_reply r = (set_task r 0 \<lparr>task_type = None, task_elements = - 1, task_idx = - 1, task_obj = None,
      task_parent = None\<rparr>)\<lparr>ridx := 0\<rparr>" using assms(6) by (simp add: start_reply_def)
  have fresh: "fresh_item (start_reply r)" using assms(5) by (simp add: start fresh_item_def in_stack_def set_task_def)
  have fit: "fits (start_reply r) (store r)"
    using assms(5) by (simp add: fits_def attach_def start set_task_def in_stack_def)
  have rd: "ready (start_reply r) (resp_text v @ x)" using assms(4) by (simp add: start)
  have st: "nat (ridx (start_reply r)) + depth v \<le> 8" "ridx (start_reply r) = 0" "store (start_reply r) = store r"
    using assms(3) by (simp_all add: start set_task_def)
  obtain q where q: "built (start_reply r) (store r) v x q" "process_items hp (start_reply r) = continue hp (moveToNextTask q)"
    using reads_every_item [OF assms(1), of v] assms(2) st(1) fresh fit rd unfolding reads_item_def by blast
  have qs: "ready q x" "ridx q = 0" "length (rstack q) = 9" "reply q = Some (length (store r))"
      "store q = store r @ map Some (objects (length (store r)) v)"
    using q(1) st(2,3) by (simp_all add: built_def)
  define e where "e = q\<lparr>ridx := - 1\<rparr>"
  have e: "ready e x" "ridx e = - 1" "reply e = Some (length (store r))" "in_stack e" "store e = store q"
    using qs by (simp_all add: e_def in_stack_def)
  have "moveToNextTask q = Inr e" using qs(2) by (simp add: moveToNextTask.simps e_def)
  moreover have "process_items hp e = Some (Inr e)" using e(2) by (subst process_items.simps) simp
  ultimately have p: "process_items hp (start_reply r) = Some (Inr e)" by (simp add: q(2) continue_def)
  have ne: "resp_text v @ x \<noteq> []" by (cases v) (simp_all add: line_text_def)
  have err: "err e = None" using ready_ahead(3) [OF e(1)] .
  have g: "redisReaderGetReply hp r = Some (Inr (True, Some (length (store r)), (compact e)\<lparr>reply := None\<rparr>))"
    using ready_len [OF assms(4) ne] by (simp add: getReply_def' p err e)
  have "length (rstack (compact e)) = 9" using e(4) by (simp add: compact_def in_stack_def Let_def split: option.split)
  then show ?thesis
    using g compact_ready(1) [OF e(1)] e qs(5)
    by (intro exI [of _ "(compact e)\<lparr>reply := None\<rparr>"]) (simp add: in_stack_def)
qed

text \<open>The reply a callback is told.\<close>

definition told_reply :: "('f, 'c) redis_action \<Rightarrow> resp option" where
  "told_reply a = (case a of On_reply f (Got_reply a st) \<Rightarrow> reply_value 9 st a | _ \<Rightarrow> None)"

lemma reply_loop_reads:
  assumes "plenty hp" and "\<forall>v \<in> set vs. resp_ok v \<and> depth v \<le> 8" and "ready r (concat (map resp_text vs))" and "in_stack r"
    and "ridx r = - 1"
  shows "\<exists>acts d. reply_loop hp (User_handler (Some f)) (with_reader c r) = Some (Inr (acts, d)) \<and> no_error d \<and>
    map told_reply acts = map Some vs \<and> (\<forall>a \<in> set acts. \<exists>e. a = On_reply f e)"
  using assms(2-5)
proof (induction vs arbitrary: r)
  case Nil
  have ty: "task_type (task (start_reply r) (ridx (start_reply r))) = None"
    using Nil.prems(3,4) by (simp add: start_reply_def set_task_def in_stack_def)
  obtain s where s: "redisReaderGetReply hp r = Some (Inr (True, None, s))"
    using getReply_idle [OF _ Nil.prems(3) ty] Nil.prems(2) by auto
  then show ?case using getReply_true_err [OF s] by (simp add: reply_loop_reader [of hp _ c r])
next
  case (Cons v vs)
  let ?a = "length (store r)"
  obtain s where s: "redisReaderGetReply hp r = Some (Inr (True, Some ?a, s))" "ready s (concat (map resp_text vs))"
      "in_stack s" "ridx s = - 1" "store s = store r @ map Some (objects ?a v)"
    using getReply_reads [OF assms(1), of v r "concat (map resp_text vs)"] Cons.prems by auto
  have "in_stack (freed ?a s)" "ridx (freed ?a s) = - 1" using s(3,4) by (simp_all add: freed_def)
  then obtain acts d where d: "reply_loop hp (User_handler (Some f)) (with_reader c (freed ?a s)) = Some (Inr (acts, d))"
      "no_error d" "map told_reply acts = map Some vs" "\<forall>a \<in> set acts. \<exists>e. a = On_reply f e"
    using Cons.IH [of "freed ?a s"] Cons.prems(1) s(2) by auto
  have "reply_value 9 (store s) ?a = Some v"
    using objects_value [of v 9 "store r" "[]"] Cons.prems(1) s(5) by simp
  then have "told_reply (On_reply f (Got_reply ?a (store s))) = Some v" by (simp add: told_reply_def)
  then show ?case using d by (simp add: reply_loop_reader [of hp _ c r] s(1) told_def)
qed

lemma new_conn_reading:
  assumes "plenty hp" and "roomy hp"
  obtains c r where "new_redis_conn hp = Some (c :: ('f, 'c) redis_conn)" and "reader (m_context c) = Some r" and "ready r []"
    and "in_stack r" and "ridx r = - 1" and "reading 0 c" and "store r = []"
proof -
  define r where "r = \<lparr>err = None, errstr = [], buf = Some (layout [] []), pos = 0, len = 0, maxbuf = REDIS_READER_MAX_BUF,
    rstack = replicate 9 zero_task, ridx = - 1, reply = None, store = []\<rparr>"
  have r: "redisReaderCreate hp [] = Some r"
    using assms by (simp add: redisReaderCreate_def plenty_def sdsempty_roomy r_def)
  have "\<exists>c. new_redis_conn hp = Some (c :: ('f, 'c) redis_conn) \<and> reader (m_context c) = Some r \<and> m_authCallback c = None"
    using assms r by (simp add: new_redis_conn_def redisContextInit_def plenty_def)
  then obtain c :: "('f, 'c) redis_conn" where c: "new_redis_conn hp = Some c" "reader (m_context c) = Some r" "m_authCallback c = None"
    by blast
  have rd: "ready r []" unfolding ready_def r_def by (intro conjI exI [of _ "[]"]) simp_all
  have st: "in_stack r" by (simp add: in_stack_def r_def)
  show thesis
    by (rule that [OF c(1,2) rd st]) (use c rd st in \<open>auto simp: reading_def r_def\<close>)
qed

text \<open>C12: The replies a callback gets do not depend on how the bytes of the server are cut into reads.
  A connection that waits for replies, with memory for its buffer, is given the bytes in pieces, one read each, or
  all at once: when no protocol error is found either way, the callback is told the same objects in the same store,
  in the same order; a reply is held back until its last byte and told then.\<close>

theorem replies_in_pieces:
  assumes "roomy hp" and "reading n c" and "n + length (concat pieces) + 1 < 2 ^ 30" and "[] \<notin> set pieces" and "pieces \<noteq> []"
  shows "(\<exists>d. read_pieces hp pieces c = Some (Inr (acts, d)) \<and> no_error d) \<longleftrightarrow>
    (\<exists>d. redis_handleRead hp (concat pieces) c = Some (Inr (acts, d)) \<and> no_error d)"
  using assms by (rule read_pieces_at_once)

text \<open>C6: What a Redis server sends is what the user gets. Replies (states, errors, integers,
  strings of any bytes, nils and arrays of them, nested up to eight deep) are written in the protocol one after the
  other and arrive in any pieces at a new connection: its callback is told exactly these replies, in order, as trees
  of objects that read back as what was sent.\<close>

theorem replies_roundtrip:
  assumes "plenty hp" and "roomy hp" and "new_redis_conn hp = Some c" and "\<forall>v \<in> set vs. resp_ok v \<and> depth v \<le> 8"
    and "concat pieces = concat (map resp_text vs)" and "[] \<notin> set pieces" and "length (concat pieces) + 1 < 2 ^ 30"
  shows "\<exists>acts d. read_pieces hp pieces (setCallback f c) = Some (Inr (acts, d)) \<and>
    map told_reply acts = map Some vs \<and> (\<forall>a \<in> set acts. \<exists>e. a = On_reply f e)"
proof (cases "pieces = []")
  case True
  have "resp_text v \<noteq> []" for v by (cases v) (simp_all add: line_text_def)
  then have "vs = []" using True assms(5) by (cases vs) auto
  then show ?thesis using True by simp
next
  case False
  obtain c' :: "('a, 'b) redis_conn" and r where c': "new_redis_conn hp = Some c'" "reader (m_context c') = Some r" "ready r []"
      "in_stack r" "ridx r = - 1" "reading 0 c'"
    using new_conn_reading [OF assms(1,2)] by metis
  define e where "e = setCallback f c"
  have e: "reader (m_context e) = Some r" "m_authCallback e = None" "rc_callback e = Some f" "reading 0 e"
    using c' assms(3) by (simp_all add: e_def setCallback_def reading_def)
  define x where "x = concat (map resp_text vs)"
  have "len r = 0" using e(4) c'(3) e(1) by (simp add: reading_def)
  then obtain r1 where r1: "redisReaderFeed hp r (Some x) = Inr (True, r1)" "ready r1 x" "r1 = rebuf r1 r"
    using feed_ready [OF c'(3) assms(2), of x] assms(5,7) by (auto simp: x_def)
  have "ridx r1 = ridx (rebuf r1 r)" by (rule arg_cong [OF r1(3)])
  then have q: "in_stack r1" "ridx r1 = - 1" using fed_in_stack [OF r1(3) c'(4)] c'(5) by simp_all
  obtain acts d where d: "reply_loop hp (User_handler (Some f)) (with_reader e r1) = Some (Inr (acts, d))" "no_error d"
      "map told_reply acts = map Some vs" "\<forall>a \<in> set acts. \<exists>e. a = On_reply f e"
    using reply_loop_reads [OF assms(1,4) r1(2) [unfolded x_def] q, of f e] by (elim exE conjE)
  have "redis_handleRead hp (concat pieces) e = Some (Inr (acts, d))"
    using redis_handleRead_reader [OF e(1,2) r1(1)] d(1) e(3) by (simp add: assms(5) x_def)
  then have "\<exists>d. read_pieces hp pieces e = Some (Inr (acts, d)) \<and> no_error d"
    using read_pieces_at_once [OF assms(2) e(4) _ assms(6) False] assms(7) d(2) by auto
  then show ?thesis using d(3,4) by (auto simp: e_def)
qed

text \<open>A heap that always has memory.\<close>

definition full_heap :: heap where
  "full_heap = \<lparr>get = \<lambda>_. True, realloc = \<lambda>_. Some []\<rparr>"

lemma full_heap_plenty: "plenty full_heap" "roomy full_heap"
  by (simp_all add: full_heap_def plenty_def roomy_def)

lemma numbers: "int_text 2 = ''2''" "int_text (- 7) = ''-7''"
  by code_simp+

theorem replies_roundtrip_witness:
  "\<exists>c :: (nat, nat) redis_conn. \<exists>acts d. new_redis_conn full_heap = Some c \<and>
     read_pieces full_heap [''*2'' @ CRLF @ ''+O'', ''K'' @ CRLF @ '':-'', ''7'' @ CRLF] (setCallback 5 c) = Some (Inr (acts, d)) \<and>
     map told_reply acts = [Some (Array [Status ''OK'', Integer (- 7)])]"
proof -
  obtain c :: "(nat, nat) redis_conn" where c: "new_redis_conn full_heap = Some c"
    using new_conn_reading [OF full_heap_plenty] by metis
  have "\<exists>acts d. read_pieces full_heap [''*2'' @ CRLF @ ''+O'', ''K'' @ CRLF @ '':-'', ''7'' @ CRLF] (setCallback 5 c) = Some (Inr (acts, d)) \<and>
      map told_reply acts = map Some [Array [Status ''OK'', Integer (- 7)]] \<and> (\<forall>a \<in> set acts. \<exists>e. a = On_reply 5 e)"
    by (rule replies_roundtrip [OF full_heap_plenty c]) (simp_all add: CRLF_def line_text_def numbers)
  then show ?thesis using c by auto
qed

theorem replies_in_pieces_witness:
  "\<exists>c :: (nat, nat) redis_conn. reading 0 c \<and> (\<forall>acts.
     (\<exists>d. read_pieces full_heap [''$1'' @ CRLF @ ''x'', CRLF] c = Some (Inr (acts, d)) \<and> no_error d) \<longleftrightarrow>
     (\<exists>d. redis_handleRead full_heap (''$1'' @ CRLF @ ''x'' @ CRLF) c = Some (Inr (acts, d)) \<and> no_error d))"
proof -
  obtain c :: "(nat, nat) redis_conn" where c: "reading 0 c"
    using new_conn_reading [OF full_heap_plenty] by metis
  have "(\<exists>d. read_pieces full_heap [''$1'' @ CRLF @ ''x'', CRLF] c = Some (Inr (acts, d)) \<and> no_error d) \<longleftrightarrow>
      (\<exists>d. redis_handleRead full_heap (concat [''$1'' @ CRLF @ ''x'', CRLF]) c = Some (Inr (acts, d)) \<and> no_error d)" for acts
    by (rule replies_in_pieces [OF full_heap_plenty(2) c]) (simp_all add: CRLF_def)
  then show ?thesis using c by auto
qed

section \<open>Faults\<close>


definition waiting_reader :: redisReader where
  "waiting_reader = \<lparr>err = None, errstr = [], buf = Some (layout (''*1'' @ CRLF @ ''+'') []), pos = 0, len = 5,
     maxbuf = REDIS_READER_MAX_BUF, rstack = replicate 9 zero_task, ridx = - 1, reply = None, store = []\<rparr>"


text \<open>C5: No server can crash the client with small counts. Whatever bytes arrive at a new connection, in any
  pieces, well formed or not, and whichever allocations of objects fail: as long as every number behind an asterisk
  is below $2^{31}$, every read is handled to its end; errors are told to the callback.\<close>

theorem redis_never_faults:
  assumes "roomy hp" and "new_redis_conn hp = Some c" and "reader (m_context c) \<noteq> None" and "counts_ok (concat pieces)"
    and "length (concat pieces) < 2 ^ 30"
  shows "\<exists>acts d. read_pieces hp pieces (setCallback f c) = Some (Inr (acts, d))"
  using read_pieces_safe [OF assms(1) new_conn_steady [OF assms(2,1,3,4), of f]] assms(5) by auto

theorem redis_never_faults_witness:
  "\<exists>c :: (nat, nat) redis_conn. new_redis_conn full_heap = Some c \<and>
     (\<exists>acts d. read_pieces full_heap [''*-5'' @ CRLF, ''*99'' @ CRLF @ ''!''] (setCallback 0 c) = Some (Inr (acts, d)))"
proof -
  obtain c :: "(nat, nat) redis_conn" and r where c: "new_redis_conn full_heap = Some c" "reader (m_context c) = Some r"
    using new_conn_reading [OF full_heap_plenty] by metis
  have "\<exists>acts d. read_pieces full_heap [''*-5'' @ CRLF, ''*99'' @ CRLF @ ''!''] (setCallback 0 c) = Some (Inr (acts, d))"
    by (rule redis_never_faults [OF full_heap_plenty(2) c(1)])
      (simp_all add: c(2) CRLF_def small_count_def readLongLong_def int64_def)
  then show ?thesis using c(1) by blast
qed

text \<open>C34: A count of elements from $2^{31}$ to $2^{32} - 1$ crashes the client: it is negative as an \<open>int\<close>, so the
  array gets no vector, but as a \<open>long\<close> it is positive, so elements are read; the first one is written through a null
  pointer. This holds for every reader that waits for a reply, for every such count and every integer behind it.\<close>

theorem large_count_crashes:
  assumes "plenty hp" and "in_stack r" and "ridx r = - 1" and "2 ^ 31 \<le> n" and "n < 2 ^ 32" and "CR \<notin> set s"
    and "ready r (line_text (CHR ''*'') (int_text n) @ CHR '':'' # s @ CRLF @ x)"
  shows "redisReaderGetReply hp r = Some (Inl Null_pointer)"
proof -
  define t0 where "t0 = \<lparr>task_type = None, task_elements = - 1, task_idx = - 1, task_obj = None, task_parent = None\<rparr>"
  define b where "b = start_reply r"
  have b: "b = (set_task r 0 t0)\<lparr>ridx := 0\<rparr>" using assms(3) by (simp add: b_def start_reply_def t0_def)
  have fresh: "fresh_item b" using assms(2) by (simp add: b fresh_item_def in_stack_def set_task_def t0_def)
  define w where "w = typed b REDIS_REPLY_ARRAY"
  define y where "y = CHR '':'' # s @ CRLF @ x"
  have star: "type_of_byte (CHR ''*'') = Some REDIS_REPLY_ARRAY" by (simp add: type_of_byte_def)
  have rb: "ready b (CHR ''*'' # int_text n @ CRLF @ y)" using assms(7) by (simp add: b_def y_def line_text_def)
  note st = type_step(1) [OF fresh rb star, folded w_def] type_step(2) [OF fresh rb star, of hp, folded w_def]
  have w: "rstack w = (rstack r)[0 := t0\<lparr>task_type := Some REDIS_REPLY_ARRAY\<rparr>]" "ridx w = 0" "store w = store r"
      "length (rstack w) = 9" "task w 0 = t0\<lparr>task_type := Some REDIS_REPLY_ARRAY\<rparr>"
    using assms(2) by (simp_all add: w_def typed_def b set_task_def in_stack_def)
  note le = line_end_text [OF int_text_CR, of n y]
  define m where "m = length (int_text n) + 2"
  have l: "readLine w = Some (pos w, length (int_text n), w\<lparr>pos := pos w + m\<rparr>)"
    using ready_ahead(1,4) [OF st(1)] le by (simp add: readLine_def m_def add.assoc)
  have v: "readLongLong (drop (pos w) (buf_bytes w)) = n"
    using ready_ahead(5) [OF st(1)] line_end_mem [OF le] readLongLong_text [of n "LF # y"] assms(4,5) by (simp add: CRLF_def)
  define q0 where "q0 = w\<lparr>pos := pos w + m\<rparr>"
  have "drop m (int_text n @ CRLF @ y) = y" by (simp add: m_def CRLF_def)
  moreover have "m \<le> length (int_text n @ CRLF @ y)" by (simp add: m_def CRLF_def)
  ultimately have rq: "ready q0 y" using ready_step [OF st(1), of m] unfolding q0_def by simp
  have i32: "int32 n < 0"
  proof -
    have "(n + 2 ^ 31) mod 2 ^ 32 = (n + 2 ^ 31 - 2 ^ 32) mod 2 ^ 32" by (rule minus_mod_self2 [symmetric])
    also have "\<dots> = n - 2 ^ 31" using assms(4,5) by simp
    finally have "int32 n = n - 2 ^ 32" by (simp add: int32_def signed_take_bit_eq_take_bit_shift take_bit_eq_mod)
    then show ?thesis using assms(5) by simp
  qed
  define obj where "obj = (no_reply REDIS_REPLY_ARRAY)\<lparr>rep_elements := word_of_int (int32 n)\<rparr>"
  define a where "a = length (store r)"
  define u where "u = \<lparr>task_type = None, task_elements = - 1, task_idx = 0, task_obj = None, task_parent = Some 0\<rparr>"
  define q where "q = (set_task (set_task (q0\<lparr>store := store r @ [Some obj]\<rparr>) 0
      (t0\<lparr>task_type := Some REDIS_REPLY_ARRAY, task_elements := int32 n, task_obj := Some a\<rparr>)\<lparr>ridx := 1\<rparr>) 1 u)\<lparr>reply := Some a\<rparr>"
  have "createArrayObject hp (rstack q0) (task q0 (ridx q0)) (int32 n) (store q0) = Inr (Some a, store r @ [Some obj])"
    using assms(1) i32 w by (simp add: createArrayObject_def createReplyObject_def plenty_def put_object_def attach_def
        obj_def a_def q0_def t0_def)
  then have "after_count hp q0 n = Inr (True, q)"
    using assms(4) w by (simp add: after_count_def q0_def q_def u_def set_task_def)
  moreover have "task_type (task w (ridx w)) = Some REDIS_REPLY_ARRAY" using w(2,5) by simp
  ultimately have "process_typed hp w = Inr (True, q)"
    using processMultiBulkItem_line [OF l] w(2) v by (simp add: process_typed_def q0_def)
  then have p1: "process_items hp b = process_items hp q" using st(2) by simp
  have q: "fresh_item q" "ready q y" "store q = store r @ [Some obj]"
    using w(4) rq by (simp_all add: q_def fresh_item_def set_task_def q0_def u_def ready_def)
  have t: "rstack (typed q REDIS_REPLY_INTEGER) ! 0 = t0\<lparr>task_type := Some REDIS_REPLY_ARRAY, task_elements := int32 n, task_obj := Some a\<rparr>"
      "task (typed q REDIS_REPLY_INTEGER) (ridx (typed q REDIS_REPLY_INTEGER)) = u\<lparr>task_type := Some REDIS_REPLY_INTEGER\<rparr>"
    using w(4) by (simp_all add: typed_def q_def set_task_def q0_def)
  have tb: "type_of_byte (CHR '':'') = Some REDIS_REPLY_INTEGER" by (simp add: type_of_byte_def)
  note st2 = type_step(1) [OF q(1) q(2)[unfolded y_def] tb] type_step(2) [OF q(1) q(2)[unfolded y_def] tb, of hp]
  have r2: "readLine (typed q REDIS_REPLY_INTEGER) \<noteq> None"
    using ready_ahead(1,4) [OF st2(1)] line_end_text [OF assms(6), of x] by (simp add: readLine_def)
  have "put_object (rstack (typed q REDIS_REPLY_INTEGER)) (u\<lparr>task_type := Some REDIS_REPLY_INTEGER\<rparr>) z (store q) = Inl Null_pointer" for z
    using t(1) by (simp add: put_object_def attach_def u_def q(3) a_def nth_append obj_def no_reply_def)
  then have "createIntegerObject hp (rstack (typed q REDIS_REPLY_INTEGER)) (u\<lparr>task_type := Some REDIS_REPLY_INTEGER\<rparr>) i (store q) =
      Inl Null_pointer" for i
    using assms(1) by (simp add: createIntegerObject_def createReplyObject_def plenty_def)
  then have "process_typed hp (typed q REDIS_REPLY_INTEGER) = Inl Null_pointer"
    using r2 t(2) by (auto simp: process_typed_def processLineItem_def finish_item_def readLine_def u_def split: option.splits)
  then have "process_items hp b = Some (Inl Null_pointer)" using p1 st2(2) by simp
  moreover have "err r = None" "len r \<noteq> 0" using ready_len [OF assms(7)] by (simp_all add: line_text_def)
  ultimately show ?thesis by (simp add: getReply_def' b_def)
qed

lemma reader_of_text:
  "length s < 2 ^ 31 \<Longrightarrow> ready (waiting_reader\<lparr>buf := Some (layout s []), len := length s\<rparr>) s"
  unfolding ready_def waiting_reader_def by (intro conjI exI [of _ s] exI [of _ "[]"]) simp_all

theorem large_count_crashes_witness:
  "\<exists>r. ready r (line_text (CHR ''*'') (int_text 2147483648) @ '':1'' @ CRLF) \<and> redisReaderGetReply full_heap r = Some (Inl Null_pointer)"
proof -
  define n where "n = int_text 2147483648"
  define s where "s = line_text (CHR ''*'') n @ '':1'' @ CRLF"
  define r where "r = waiting_reader\<lparr>buf := Some (layout s []), len := length s\<rparr>"
  have n: "n = int_text 2147483648" "length n < 100"
    unfolding n_def int_text_def by (rule refl) (simp add: nat_text.simps)
  have r: "ready r s" unfolding r_def by (rule reader_of_text) (use n(2) in \<open>simp add: s_def CRLF_def line_text_def\<close>)
  have "redisReaderGetReply full_heap r = Some (Inl Null_pointer)"
    by (rule large_count_crashes [OF full_heap_plenty(1), of r 2147483648 "''1''" "[]"])
      (use r in \<open>simp_all add: n_def s_def r_def waiting_reader_def in_stack_def line_text_def\<close>)
  then show ?thesis using r unfolding s_def n_def by blast
qed

section \<open>Commands\<close>

text \<open>C32: A command is the array of bulk strings of its arguments, whichever way it is made: the request of a
  connection, and the command formatted from a vector of arguments, with their lengths or as C strings. The size
  computed before is the size written, so the buffer is neither too small nor too large; without memory there is no
  command.\<close>

theorem command_is_array_of_bulks:
  assumes "length (resp_text (Array (map Bulk args))) < 2 ^ 31 - 1"
    and "lens = Some (map length args) \<or> lens = None \<and> NUL \<notin> \<Union> (set ` set args)"
  shows "buildRequest args = resp_text (Array (map Bulk args)) \<and>
    redisFormatCommandArgv hp args lens =
      Inr (if get hp (length (buildRequest args) + 1) then Some (buildRequest args) else None)"
  using formatArgv_text [of args lens hp] buildRequest_text [of args] assms by (simp add: command_text_def)

theorem command_is_array_of_bulks_witness:
  "buildRequest [''SET'', ''k'', [NUL]] = resp_text (Array [Bulk ''SET'', Bulk ''k'', Bulk [NUL]]) \<and>
   redisFormatCommandArgv full_heap [''SET'', ''k'', [NUL]] (Some [3, 1, 1]) = Inr (Some (buildRequest [''SET'', ''k'', [NUL]]))"
proof -
  have n: "int_text 3 = ''3''" "int_text 1 = ''1''" by code_simp+
  have "length (resp_text (Array (map Bulk [''SET'', ''k'', [NUL]]))) < 2 ^ 31 - 1"
    by (simp add: line_text_def CRLF_def n)
  from command_is_array_of_bulks [OF this, of "Some [3, 1, 1]" full_heap] show ?thesis
    by (simp add: full_heap_def)
qed

section \<open>Transactions\<close>

lemma trans_run_append:
  "trans_run (es @ fs) t = Option.bind (trans_run es t) (\<lambda>(a, t). map_option (\<lambda>(b, t). (a @ b, t)) (trans_run fs t))"
proof (induction es arbitrary: t)
  case (Cons e es)
  show ?case
    by (cases "trans_step e t") (auto simp: Cons.IH option.map_comp comp_def case_prod_beta split: option.split bind_split)
qed (simp add: case_prod_beta option.map_id)

text \<open>A transaction whose requests wait for \<open>n\<close> replies.\<close>

definition waits :: "nat \<Rightarrow> 'f trans_callback \<Rightarrow> 'f trans" where
  "waits n cb = \<lparr>m_transNum = int n, m_callback' = cb, conn_alive = True\<rparr>"

lemma exec_waits: "0 < n \<Longrightarrow> trans_step (Do_exec c) (waits n cb) = Some ([Trans_exec c], waits (Suc n) cb)"
  by (simp add: trans_step_def trans_exec_def trans_request_def waits_def add.commute)

lemma run_execs: "0 < n \<Longrightarrow> trans_run (map Do_exec cmds) (waits n cb) = Some (map Trans_exec cmds, waits (n + length cmds) cb)"
  by (induction cmds arbitrary: n) (simp_all add: exec_waits)

lemma run_first: "cmds \<noteq> [] \<Longrightarrow>
  trans_run (map Do_exec cmds) (new_trans :: 'f trans) = Some (Trans_exec [''MULTI''] # map Trans_exec cmds, waits (Suc (length cmds)) No_callback)"
proof (cases cmds)
  case (Cons c cs)
  have "trans_step (Do_exec c) (new_trans :: 'f trans) = Some ([Trans_exec [''MULTI''], Trans_exec c], waits 2 No_callback)"
    by (simp add: trans_step_def trans_exec_def trans_begin_def trans_request_def new_trans_def waits_def)
  then show ?thesis using run_execs [of 2 cs "No_callback :: 'f trans_callback"] by (simp add: Cons)
qed simp


lemma run_silent: "trans_run (replicate n Reply_came) (waits (n + k) No_callback) = Some ([], waits k No_callback)"
  by (induction n) (simp_all add: trans_step_def trans_onReply_def waits_def Let_def)



text \<open>A commit is lost when the replies are there. The number that tells whether a transaction is open counts the
  replies that are missing: when all replies to MULTI and the commands have arrived, the commit is taken for one
  without a transaction; no EXEC is sent, the callback is never called, and the next command sends MULTI
  again, which the server refuses inside a transaction.\<close>

theorem late_commit_is_lost:
  fixes cb :: 'f
  assumes "cmds \<noteq> []"
  shows "trans_run (map Do_exec cmds @ replicate (Suc (length cmds)) Reply_came @ [Do_commit cb, Do_exec cmd]) new_trans =
    Some (Trans_exec [''MULTI''] # map Trans_exec cmds @ [Trans_exec [''MULTI''], Trans_exec cmd], waits 2 No_callback)"
proof -
  have "trans_run [Do_commit cb, Do_exec cmd] (waits 0 (No_callback :: 'f trans_callback)) =
      Some ([Trans_exec [''MULTI''], Trans_exec cmd], waits 2 No_callback)"
    by (simp add: trans_step_def trans_commit_def trans_exec_def trans_begin_def trans_request_def waits_def)
  then show ?thesis
    unfolding trans_run_append run_first [OF assms] using run_silent [of "Suc (length cmds)" 0, where ?'a = 'f]
    by (simp del: replicate_Suc trans_run.simps)
qed

theorem late_commit_is_lost_witness:
  "trans_run [Do_exec [''GET'', ''a''], Reply_came, Reply_came, Do_commit (7 :: nat), Do_exec [''GET'', ''b'']] new_trans =
    Some ([Trans_exec [''MULTI''], Trans_exec [''GET'', ''a''], Trans_exec [''MULTI''], Trans_exec [''GET'', ''b'']], waits 2 No_callback)"
  using late_commit_is_lost [of "[[''GET'', ''a'']]" 7 "[''GET'', ''b'']"] by simp

section \<open>The pool\<close>

text \<open>The pool of a client: giving back a connection and taking one are a stack of at most \<open>m_maxClients + 1\<close>
  connections. A connection that replied is kept, with its callback cleared, and is the next one that is used; when
  the pool is full it is closed; connections that died are dropped when they come up.\<close>

theorem pool_is_bounded_stack:
  assumes "client_onReply i cb cl = (acts, cl')"
  shows "(length (m_conns cl) \<le> m_maxClients cl + 1 \<longrightarrow> length (m_conns cl') \<le> m_maxClients cl' + 1) \<and>
    (length (m_conns cl) \<le> m_maxClients cl \<and> alive i \<longrightarrow>
      client_exec alive fresh cmd cb2 cl' = ([Set_callback i cb2, Exec i cmd], cl)) \<and>
    (\<not> alive i \<longrightarrow> client_exec alive fresh cmd cb2 cl' = client_exec alive fresh cmd cb2 cl) \<and>
    (m_maxClients cl < length (m_conns cl) \<longrightarrow> cl' = cl \<and> acts = [Clear_callback i, Close_conn i, Call_user cb])"
  using assms by (cases cl) (auto simp: client_onReply_def pushConn_def client_exec_def popConn_def case_prod_beta cong: option.case_cong split: if_splits)

theorem pool_is_bounded_stack_witness:
  "client_exec (\<lambda>i. i \<noteq> 4) 9 [''PING''] (0 :: nat) \<lparr>m_conns = [4, 3], m_maxClients = 2\<rparr> =
    ([Set_callback 3 0, Exec 3 [''PING'']], \<lparr>m_conns = [4], m_maxClients = 2\<rparr>)"
proof -
  have "client_onReply 3 0 \<lparr>m_conns = [4], m_maxClients = 2\<rparr> = ([Clear_callback 3, Call_user 0], \<lparr>m_conns = [4, 3], m_maxClients = 2\<rparr>)"
    by (simp add: client_onReply_def pushConn_def)
  from pool_is_bounded_stack [OF this, of "\<lambda>i. i \<noteq> 4" 9 "[''PING'']" 0] show ?thesis by simp
qed

end
