(* ===== verification/WsFacts.thy ===== *)
theory WsFacts
  imports WsConnection
begin

text \<open>
  How the reader of WebSocket frames takes its data: the invariant of its states, what one pass of the
  loop does while a part of a frame is incomplete, and that the data may come in pieces.
\<close>

section \<open>The invariant\<close>

text \<open>While a part of known length is read, \<open>missing\<close> is that length.\<close>

definition missing :: "ws \<Rightarrow> nat" where
  "missing w = (case m_status w of FramePayloadLen16 \<Rightarrow> 2 | FramePayloadLen64 \<Rightarrow> 8 | FrameMaskingKey \<Rightarrow> 4
     | FrameData \<Rightarrow> m_payloadLen w | _ \<Rightarrow> 0)"

definition mid_frame :: "ws \<Rightarrow> bool" where
  "mid_frame w \<longleftrightarrow> m_status w \<in> {FramePayloadLen16, FramePayloadLen64, FrameMaskingKey, FrameData}"

definition ws_ok :: "ws \<Rightarrow> bool" where
  "ws_ok w \<longleftrightarrow> (mid_frame w \<longrightarrow> length (m_cache w) < missing w) \<and> missing w < 2 ^ 31 \<and>
     (m_status w = FrameMaskingKey \<longrightarrow> 0 < m_payloadLen w \<and> m_payloadLen w < 2 ^ 31) \<and>
     m_status w \<noteq> FramePayloadLen"

lemma mid_frame_not_final: "mid_frame w \<Longrightarrow> m_status w \<noteq> FrameFinal \<and> m_status w \<noteq> FrameError \<and> m_status w \<noteq> FrameStart"
  by (auto simp: mid_frame_def)

lemma missing_cache [simp]: "missing (w\<lparr>m_cache := c\<rparr>) = missing w"
  by (cases "m_status w") (simp_all add: missing_def)

lemma mid_frame_cache [simp]: "mid_frame (w\<lparr>m_cache := c\<rparr>) = mid_frame w"
  by (simp add: mid_frame_def)

text \<open>What follows when the part is complete: whether it is accepted, and the state.\<close>

definition finish_part :: "(nat \<Rightarrow> bool) \<Rightarrow> nat \<Rightarrow> ws \<Rightarrow> ws_fault + (bool \<times> ws)" where
  "finish_part reserve limit w =
     (case m_status w of
        FrameMaskingKey \<Rightarrow> Inr (True, w\<lparr>m_maskingKey := m_cache w, m_cache := [], m_status := FrameData\<rparr>)
      | FrameData \<Rightarrow>
          Inr (True, w\<lparr>m_cache := (if isMaskFrame w then masked (m_maskingKey w) (m_cache w) else m_cache w),
                       m_status := FrameFinal\<rparr>)
      | _ \<Rightarrow> if le_value (m_cache w) > limit then Inr (False, w)
             else map_sum id (Pair True) (handleFramePayloadLen reserve w (be_value (m_cache w))))"

lemma sint_u32_diff:
  assumes "m < 2 ^ 31" and "n \<le> m"
  shows "sint (of_nat m - of_nat n :: u32) = int (m - n)"
proof -
  have "(of_nat m - of_nat n :: u32) = of_nat (m - n)" using assms(2) by (simp add: of_nat_diff)
  moreover have "sint (of_nat (m - n) :: u32) = signed_take_bit 31 (int (m - n))"
    by (simp add: signed_of_nat)
  moreover have "signed_take_bit 31 (int (m - n)) = int (m - n)"
    using assms(1) by (intro signed_take_bit_int_eq_self) simp_all
  ultimately show ?thesis by simp
qed

lemma tryRead_ok:
  assumes "length (m_cache w) < n" and "n < 2 ^ 31"
  shows "tryRead w data n =
    (let k = n - length (m_cache w)
     in if length data < k then Inr (0, w\<lparr>m_cache := m_cache w @ data\<rparr>)
        else Inr (int k, w\<lparr>m_cache := m_cache w @ take k data\<rparr>))"
  using assms sint_u32_diff [of n "length (m_cache w)"] by (auto simp: tryRead_def Let_def)

lemma mid_frame_step:
  assumes "mid_frame w" and "ws_ok w"
  shows "read_step key reserve limit w data =
    (let k = missing w - length (m_cache w)
     in if length data < k then Inr (Some (0, 0, w\<lparr>m_cache := m_cache w @ data\<rparr>, []))
        else case finish_part reserve limit (w\<lparr>m_cache := m_cache w @ take k data\<rparr>) of
               Inl e \<Rightarrow> Inl e
             | Inr (good, w') \<Rightarrow> Inr (Some (if good then int k else - 1, if good then k else 0, w', [])))"
proof -
  have n: "length (m_cache w) < missing w" "missing w < 2 ^ 31" using assms by (auto simp: ws_ok_def)
  then have k: "0 < missing w - length (m_cache w)" by simp
  note tr = tryRead_ok [OF n, of data]
  show ?thesis
  proof (cases "m_status w")
    case FramePayloadLen16
    then show ?thesis using tr k
      by (auto simp: read_step_def missing_def finish_part_def advance_def onFramePayloadLen16_def
          onFramePayloadLenN_def Let_def map_sum_def handleFramePayloadLen_def)
  next
    case FramePayloadLen64
    then show ?thesis using tr k
      by (auto simp: read_step_def missing_def finish_part_def advance_def onFramePayloadLen64_def
          onFramePayloadLenN_def Let_def map_sum_def handleFramePayloadLen_def)
  next
    case FrameMaskingKey
    then show ?thesis using tr k
      by (auto simp: read_step_def missing_def finish_part_def advance_def onFrameMaskingKey_def Let_def)
  next
    case FrameData
    then show ?thesis using tr k
      by (auto simp: read_step_def missing_def finish_part_def advance_def onFrameData_def Let_def isMaskFrame_def)
  qed (use assms(1) in \<open>simp_all add: mid_frame_def\<close>)
qed


section \<open>The invariant is kept\<close>

lemma handleFramePayloadLen_ok:
  assumes "handleFramePayloadLen reserve w n = Inr w'" and "\<forall>n. reserve n \<longrightarrow> n < 2 ^ 31"
  shows "ws_ok w'"
  using assms
  by (auto simp: handleFramePayloadLen_def ws_ok_def mid_frame_def missing_def Let_def split: if_splits)

lemma onFramePayloadLen_ok:
  assumes "onFramePayloadLen reserve w data = Inr (1, w')" and "\<forall>n. reserve n \<longrightarrow> n < 2 ^ 31"
    and "m_cache w = []"
  shows "ws_ok w'"
  using assms
  by (auto simp: onFramePayloadLen_def Let_def ws_ok_def mid_frame_def missing_def
      dest: handleFramePayloadLen_ok split: list.splits if_splits sum.splits)

lemma finish_part_ok:
  assumes "finish_part reserve limit w = Inr (True, w')" and "\<forall>n. reserve n \<longrightarrow> n < 2 ^ 31"
    and "m_status w = FrameMaskingKey \<longrightarrow> 0 < m_payloadLen w \<and> m_payloadLen w < 2 ^ 31"
  shows "ws_ok w'"
  using assms
  by (auto simp: finish_part_def map_sum_def ws_ok_def mid_frame_def missing_def
      split: frame_status.splits if_splits sum.splits dest: handleFramePayloadLen_ok)


lemma handleFrameData_ok: "handleFrameData key w = (0, w', acts) \<Longrightarrow> ws_ok w'"
  by (auto simp: handleFrameData_def ws_ok_def mid_frame_def missing_def Let_def
      split: option.splits prod.splits if_splits)

text \<open>The first two bytes of a frame; an error of the first is overwritten by the result of the second.\<close>

lemma read_step_start:
  assumes "m_status w = FrameStart"
  shows "read_step key reserve limit w data =
    (case data of
       [] \<Rightarrow> Inl Out_of_bounds
     | header # rest \<Rightarrow>
         (let good = header AND 0x70 = 0;
              w1 = (if good then w\<lparr>m_cache := [], m_final := header AND 0x80, m_opcode := header AND 0x0F,
                                  m_status := FramePayloadLen\<rparr> else w\<lparr>m_cache := []\<rparr>)
          in case onFramePayloadLen reserve w1 (if good then rest else data) of
               Inl e \<Rightarrow> Inl e
             | Inr (ret, w2) \<Rightarrow>
                 Inr (Some (ret, (if good then 1 else 0) + (if ret > 0 then 1 else 0), w2, []))))"
  using assms onFramePayloadLen_result [of reserve]
  by (auto simp: read_step_def onFrameStart_def advance_def Let_def split: list.split sum.split prod.split)
    (fastforce split: sum.splits)+

lemma read_step_ok:
  assumes "read_step key reserve limit w data = Inr (Some (ret, n, w', acts))" and "0 \<le> ret" and "ws_ok w"
    and "\<forall>n. reserve n \<longrightarrow> n < 2 ^ 31"
  shows "ws_ok w'"
proof (cases "mid_frame w")
  case True
  let ?k = "missing w - length (m_cache w)"
  have n: "length (m_cache w) < missing w" "missing w < 2 ^ 31" using assms(3) True by (auto simp: ws_ok_def)
  show ?thesis
  proof (cases "length data < ?k")
    case short: True
    then have "w' = w\<lparr>m_cache := m_cache w @ data\<rparr>"
      using assms(1) unfolding mid_frame_step [OF True assms(3)] by (simp add: Let_def)
    then show ?thesis using assms(3) short n by (auto simp: ws_ok_def)
  next
    case False
    let ?w = "w\<lparr>m_cache := m_cache w @ take ?k data\<rparr>"
    have "finish_part reserve limit ?w = Inr (True, w')"
      using assms(1,2) False unfolding mid_frame_step [OF True assms(3)]
      by (auto simp: Let_def split: sum.splits prod.splits if_splits)
    then show ?thesis by (rule finish_part_ok) (use assms(3,4) in \<open>auto simp: ws_ok_def\<close>)
  qed
next
  case False
  then consider "m_status w = FrameStart" | "m_status w = FrameFinal" | "m_status w = FrameError"
    using assms(3) by (cases "m_status w") (auto simp: mid_frame_def ws_ok_def)
  then show ?thesis
  proof cases
    case 1
    have "onFramePayloadLen reserve w1 d = Inr (ret, w') \<Longrightarrow> m_cache w1 = [] \<Longrightarrow> ws_ok w'" for w1 d
      using onFramePayloadLen_result [of reserve w1 d ret w'] onFramePayloadLen_ok [of reserve w1 d w'] assms(2,4)
      by auto
    then show ?thesis using assms(1) unfolding read_step_start [OF 1]
      by (auto simp: Let_def split: list.splits sum.splits prod.splits if_splits)
  next
    case 2
    then show ?thesis using assms(1,2) handleFrameData_result [of key w] handleFrameData_ok [of key w w']
      by (auto simp: read_step_def split: prod.splits)
  next
    case 3
    then show ?thesis using assms(1) by (simp add: read_step_def)
  qed
qed

lemma read_loop_ok:
  assumes "read_loop key reserve limit w data ret acts = Inr (Some (r, w', acts'))" and "0 \<le> r" and "ws_ok w"
    and "\<forall>n. reserve n \<longrightarrow> n < 2 ^ 31"
  shows "ws_ok w'"
  using assms
proof (induction key reserve limit w data ret acts rule: read_loop.induct)
  case (1 key reserve limit w data ret acts)
  show ?case
  proof (cases "data \<noteq> [] \<and> ret > 0")
    case True
    then obtain r1 n w1 acts1 where step: "read_step key reserve limit w data = Inr (Some (r1, n, w1, acts1))"
      and rec: "read_loop key reserve limit w1 (drop n data) r1 (acts @ acts1) = Inr (Some (r, w', acts'))"
      using 1(2) by (subst (asm) read_loop.simps) (auto split: sum.splits option.splits)
    have "r1 \<ge> 0" using rec 1(3) by (subst (asm) read_loop.simps) (auto split: if_splits)
    then have "ws_ok w1" using read_step_ok [OF step _ 1(4,5)] by simp
    then show ?thesis using 1(1) [OF True step refl refl refl refl] rec 1(3,5) by blast
  next
    case False
    then show ?thesis using 1(2,4) by (subst (asm) read_loop.simps) auto
  qed
qed


lemma onRead_ok:
  assumes "onRead key reserve limit w data = Inr (r, w', acts)" and "ws_ok w"
    and "\<forall>n. reserve n \<longrightarrow> n < 2 ^ 31"
  shows "ws_ok w'"
proof (cases "read_loop key reserve limit w data 1 []")
  case (Inl e)
  then show ?thesis using assms(1) by (simp add: onRead_def)
next
  case (Inr res)
  show ?thesis
  proof (cases res)
    case None
    then show ?thesis using assms(1,2) Inr by (simp add: onRead_def)
  next
    case (Some t)
    obtain r1 w1 acts1 where t: "t = (r1, w1, acts1)" by (cases t)
    have error: "ws_ok (v\<lparr>m_status := FrameError\<rparr>)" for v by (simp add: ws_ok_def mid_frame_def missing_def)
    have "0 \<le> r1 \<Longrightarrow> ws_ok w1"
      using read_loop_ok [OF Inr [unfolded Some t] _ assms(2,3)] .
    then show ?thesis
      using assms(1) Inr Some t error handleFrameData_result [of key w1] handleFrameData_ok [of key w1]
      by (fastforce simp: onRead_def Let_def split: if_splits prod.splits)
  qed
qed

section \<open>Data in pieces\<close>

lemma read_loop_result: "\<not> (data \<noteq> [] \<and> ret > 0) \<Longrightarrow>
    read_loop key reserve limit w data ret acts = Inr (Some (ret, w, acts))"
  by (subst read_loop.simps) auto

lemma read_loop_rec: "data \<noteq> [] \<and> ret > 0 \<Longrightarrow>
    read_loop key reserve limit w data ret acts =
      (case read_step key reserve limit w data of
         Inl e \<Rightarrow> Inl e
       | Inr None \<Rightarrow> Inr None
       | Inr (Some (ret, n, w, acts')) \<Rightarrow> read_loop key reserve limit w (drop n data) ret (acts @ acts'))"
  by (subst read_loop.simps) auto

lemma read_loop_ret: "data \<noteq> [] \<Longrightarrow> 0 < ret \<Longrightarrow>
    read_loop key reserve limit w data ret acts = read_loop key reserve limit w data 1 acts"
  by (simp add: read_loop_rec)

text \<open>A pass that ends within the data does not look beyond them.\<close>

lemma read_step_append:
  assumes "read_step key reserve limit w a = Inr (Some (r, n, w', acts))" and "0 < r" and "ws_ok w" and "a \<noteq> []"
  shows "read_step key reserve limit w (a @ b) = Inr (Some (r, n, w', acts)) \<and> n \<le> length a"
proof (cases "mid_frame w")
  case True
  let ?k = "missing w - length (m_cache w)"
  have "\<not> length a < ?k" using assms(1,2) unfolding mid_frame_step [OF True assms(3)] by (auto simp: Let_def)
  then show ?thesis using assms(1,2) unfolding mid_frame_step [OF True assms(3)]
    by (auto simp: Let_def split: sum.splits prod.splits if_splits)
next
  case False
  then consider "m_status w = FrameStart" | "m_status w = FrameFinal" | "m_status w = FrameError"
    using assms(3) by (cases "m_status w") (auto simp: mid_frame_def ws_ok_def)
  then show ?thesis
  proof cases
    case 1
    obtain header rest where a: "a = header # rest" using assms(4) by (cases a) simp_all
    have len: "onFramePayloadLen reserve w1 (d @ b) = onFramePayloadLen reserve w1 d" if "d \<noteq> []" for w1 d
      using that by (cases d) (simp_all add: onFramePayloadLen_def)
    show ?thesis
    proof (cases "header AND 0x70 = 0")
      case True
      then have "rest \<noteq> []"
        using assms(1) unfolding read_step_start [OF 1] a by (auto simp: Let_def onFramePayloadLen_def)
      then have "n \<le> length a"
        using assms(1) True unfolding read_step_start [OF 1] a
        by (cases rest) (auto simp: Let_def split: sum.splits prod.splits if_splits)
      then show ?thesis using assms(1) True unfolding read_step_start [OF 1] a
        by (simp add: Let_def len [OF \<open>rest \<noteq> []\<close>])
    next
      case False
      then have "n \<le> length a"
        using assms(1) unfolding read_step_start [OF 1] a
        by (auto simp: Let_def split: sum.splits prod.splits if_splits)
      moreover have "onFramePayloadLen reserve w1 (header # rest @ b) = onFramePayloadLen reserve w1 (header # rest)"
        for w1 using len [of "header # rest"] by simp
      ultimately show ?thesis using assms(1) False unfolding read_step_start [OF 1] a
        by (simp add: Let_def)
    qed
  next
    case 2
    then show ?thesis using assms(1,2) handleFrameData_result [of key w]
      by (fastforce simp: read_step_def split: prod.splits)
  next
    case 3
    then show ?thesis using assms(1) by (simp add: read_step_def)
  qed
qed


text \<open>Only the sign of the result is used, by the loop and after it.\<close>

definition up_to_sign ::
    "ws_fault + (int \<times> ws \<times> ws_action list) option \<Rightarrow> ws_fault + (int \<times> ws \<times> ws_action list) option" where
  "up_to_sign res = map_sum id (map_option (apfst sgn)) res"

text \<open>A part that ends within \<open>a\<close> is completed by what follows as if it had come at once.\<close>

lemma mid_frame_continue:
  assumes "mid_frame w" and "ws_ok w" and "length a < missing w - length (m_cache w)" and "b \<noteq> []"
  shows "up_to_sign (read_loop key reserve limit w (a @ b) 1 acts) =
    up_to_sign (read_loop key reserve limit (w\<lparr>m_cache := m_cache w @ a\<rparr>) b 1 acts)"
proof -
  let ?w = "w\<lparr>m_cache := m_cache w @ a\<rparr>" and ?k = "missing w - length (m_cache w)"
  have ok: "mid_frame ?w" "ws_ok ?w" using assms(1-3) by (auto simp: ws_ok_def)
  have k: "missing ?w - length (m_cache ?w) = ?k - length a" by simp
  show ?thesis
  proof (cases "length b < ?k - length a")
    case True
    then have "length (a @ b) < ?k" by simp
    then have "read_step key reserve limit w (a @ b) = Inr (Some (0, 0, w\<lparr>m_cache := m_cache w @ a @ b\<rparr>, []))"
      and "read_step key reserve limit ?w b = Inr (Some (0, 0, w\<lparr>m_cache := m_cache w @ a @ b\<rparr>, []))"
      using True unfolding mid_frame_step [OF assms(1,2)] mid_frame_step [OF ok] k by (simp_all add: Let_def)
    then show ?thesis using assms(4) by (simp add: read_loop_rec read_loop_result)
  next
    case False
    then have cache: "m_cache w @ take ?k (a @ b) = m_cache ?w @ take (?k - length a) b"
      using assms(3) by simp
    let ?full = "w\<lparr>m_cache := m_cache ?w @ take (?k - length a) b\<rparr>"
    have 1: "read_step key reserve limit w (a @ b) =
        (case finish_part reserve limit ?full of Inl e \<Rightarrow> Inl e
         | Inr (good, w') \<Rightarrow> Inr (Some (if good then int ?k else - 1, if good then ?k else 0, w', [])))"
    proof -
      have "\<not> length (a @ b) < ?k" using False by simp
      then show ?thesis unfolding mid_frame_step [OF assms(1,2)] by (simp only: Let_def if_False cache)
    qed
    have 2: "read_step key reserve limit ?w b =
        (case finish_part reserve limit ?full of Inl e \<Rightarrow> Inl e
         | Inr (good, w') \<Rightarrow> Inr (Some (if good then int (?k - length a) else - 1,
             if good then ?k - length a else 0, w', [])))"
      using False unfolding mid_frame_step [OF ok] k by (simp add: Let_def del: diff_diff_left diff_diff_eq)
    have drop: "drop ?k (a @ b) = drop (?k - length a) b" using assms(3) by simp
    have pos: "0 < int ?k" "0 < int (?k - length a)" using assms(3) by simp_all
    show ?thesis
    proof (cases "finish_part reserve limit ?full")
      case (Inl e)
      then show ?thesis using assms(4) 1 2 by (simp add: read_loop_rec)
    next
      case (Inr res)
      obtain good w' where res: "res = (good, w')" by (cases res)
      show ?thesis
      proof (cases good)
        case False
        then show ?thesis using assms(4) 1 2 Inr res by (simp add: read_loop_rec read_loop_result)
      next
        case True
        let ?r = "drop (?k - length a) b"
        have "up_to_sign (read_loop key reserve limit w' ?r (int ?k) acts) =
            up_to_sign (read_loop key reserve limit w' ?r (int (?k - length a)) acts)"
        proof (cases "?r = []")
          case True
          then show ?thesis using pos by (simp add: read_loop_result up_to_sign_def)
        next
          case False
          then show ?thesis using read_loop_ret [OF False pos(1)] read_loop_ret [OF False pos(2)] by simp
        qed
        then show ?thesis
          using assms(4) 1 2 Inr res True drop by (simp add: read_loop_rec del: drop_append)
      qed
    qed
  qed
qed


lemma read_loop_append:
  assumes "read_loop key reserve limit w a ret acts = Inr (Some (r, w', acts'))" and "0 < ret" and "0 \<le> r"
    and "mid_frame w'" and "ws_ok w" and "\<forall>n. reserve n \<longrightarrow> n < 2 ^ 31" and "b \<noteq> []"
  shows "up_to_sign (read_loop key reserve limit w (a @ b) ret acts) =
    up_to_sign (read_loop key reserve limit w' b 1 acts')"
  using assms
proof (induction key reserve limit w a ret acts rule: read_loop.induct)
  case (1 key reserve limit w a ret acts)
  show ?case
  proof (cases "a = []")
    case True
    then have "w' = w" "acts' = acts" using 1(2) by (simp_all add: read_loop_result)
    then show ?thesis using True 1(3,8) read_loop_ret [of b ret] by simp
  next
    case False
    then have go: "a \<noteq> [] \<and> ret > 0" using 1(3) by simp
    then obtain r1 n w1 acts1 where step: "read_step key reserve limit w a = Inr (Some (r1, n, w1, acts1))"
      and rec: "read_loop key reserve limit w1 (drop n a) r1 (acts @ acts1) = Inr (Some (r, w', acts'))"
      using 1(2) by (auto simp: read_loop_rec split: sum.splits option.splits)
    show ?thesis
    proof (cases "0 < r1")
      case True
      note longer = read_step_append [OF step True 1(6) False, of b]
      have "ws_ok w1" using read_step_ok [OF step _ 1(6,7)] True by simp
      then have "up_to_sign (read_loop key reserve limit w1 (drop n a @ b) r1 (acts @ acts1)) =
          up_to_sign (read_loop key reserve limit w' b 1 acts')"
        using 1(1) [OF go step refl refl refl refl] rec True 1(4,5,7,8) by blast
      then show ?thesis using False 1(3) longer by (simp add: read_loop_rec)
    next
      case r1: False
      then have stop: "w' = w1" "acts' = acts @ acts1" "r = r1"
        using rec by (simp_all add: read_loop_result)
      then have "r1 = 0" using 1(4) r1 by simp
      have mid: "mid_frame w"
      proof (rule ccontr)
        assume "\<not> mid_frame w"
        then consider "m_status w = FrameStart" | "m_status w = FrameFinal" | "m_status w = FrameError"
          using 1(6) by (cases "m_status w") (auto simp: mid_frame_def ws_ok_def)
        then show False
        proof cases
          case 1
          then show False using step \<open>r1 = 0\<close> onFramePayloadLen_result [of reserve]
            unfolding read_step_start [OF 1]
            by (fastforce simp: Let_def split: list.splits sum.splits prod.splits if_splits)
        next
          case 2
          then have "m_status w1 = FrameStart"
            using step \<open>r1 = 0\<close> by (auto simp: read_step_def handleFrameData_def Let_def
              split: prod.splits option.splits if_splits)
          then show False using 1(5) stop by (simp add: mid_frame_def)
        next
          case 3
          then show False using step by (simp add: read_step_def)
        qed
      qed
      have short: "length a < missing w - length (m_cache w)" and w1: "w1 = w\<lparr>m_cache := m_cache w @ a\<rparr>" "acts1 = []"
        using step \<open>r1 = 0\<close> 1(6) mid unfolding mid_frame_step [OF mid 1(6)]
        by (auto simp: Let_def ws_ok_def split: sum.splits prod.splits if_splits)
      then show ?thesis
        using mid_frame_continue [OF mid 1(6) short 1(8), of key reserve limit acts] False 1(3) stop
          read_loop_ret [of "a @ b" ret key reserve limit w acts] by simp
    qed
  qed
qed

end
