(* ===== verification/WsFrames.thy ===== *)
theory WsFrames
  imports WsFacts
begin

text \<open>
  Frames of RFC 6455 and what reading one does: the whole frame at once, in pieces, and what follows it.
\<close>

section \<open>Readers that take their data in pieces\<close>

fun read_pieces :: "('s \<Rightarrow> 'b list \<Rightarrow> 'e + 's \<times> 'a list) \<Rightarrow> 's \<Rightarrow> 'b list list \<Rightarrow> 'e + 's \<times> 'a list" where
  "read_pieces rd s [] = Inr (s, [])"
| "read_pieces rd s (p # ps) =
     (case rd s p of
        Inl e \<Rightarrow> Inl e
      | Inr (s, as) \<Rightarrow> (case read_pieces rd s ps of Inl e \<Rightarrow> Inl e | Inr (s, bs) \<Rightarrow> Inr (s, as @ bs)))"

lemma read_pieces_append:
  "read_pieces rd s (ps @ qs) =
     (case read_pieces rd s ps of
        Inl e \<Rightarrow> Inl e
      | Inr (s, as) \<Rightarrow> (case read_pieces rd s qs of Inl e \<Rightarrow> Inl e | Inr (s, bs) \<Rightarrow> Inr (s, as @ bs)))"
  by (induction ps arbitrary: s) (auto split: sum.split prod.split)

text \<open>
  A reader that waits for the rest of a unit: what comes later is read as if it had come at once. A
  client learns that the pieces do not matter.
\<close>

locale waiting_reader =
  fixes rd :: "'s \<Rightarrow> 'b list \<Rightarrow> 'e + 's \<times> 'a list" and good :: "'s \<Rightarrow> bool" and waits :: "'s \<Rightarrow> bool"
  assumes rd_append: "good s \<Longrightarrow> rd s xs = Inr (t, as) \<Longrightarrow> waits t \<Longrightarrow> ys \<noteq> [] \<Longrightarrow>
      rd s (xs @ ys) = (case rd t ys of Inl e \<Rightarrow> Inl e | Inr (u, bs) \<Rightarrow> Inr (u, as @ bs))"
begin

lemma pieces_at_once:
  assumes "good s" and "ps \<noteq> []" and "\<forall>p \<in> set ps. p \<noteq> []"
    and "\<forall>xs ys. concat ps = xs @ ys \<and> length (hd ps) \<le> length xs \<and> ys \<noteq> [] \<longrightarrow>
      (\<exists>t as. rd s xs = Inr (t, as) \<and> waits t)"
  shows "read_pieces rd s ps = rd s (concat ps)"
  using assms
proof (induction ps rule: rev_induct)
  case (snoc p ps)
  show ?case
  proof (cases "ps = []")
    case True
    then show ?thesis by (simp split: sum.split prod.split)
  next
    case False
    have p: "p \<noteq> []" using snoc.prems(3) by simp
    have waits: "\<exists>t as. rd s xs = Inr (t, as) \<and> waits t"
      if "concat ps = xs @ ys" "length (hd ps) \<le> length xs" for xs ys
      using snoc.prems(4) [rule_format, of xs "ys @ p"] that False p by simp
    have "read_pieces rd s ps = rd s (concat ps)"
      by (rule snoc.IH) (use snoc.prems waits False in auto)
    moreover have "length (hd ps) \<le> length (concat ps)" using False by (cases ps) simp_all
    then obtain t as where t: "rd s (concat ps) = Inr (t, as)" "waits t" using waits [of "concat ps" "[]"] by auto
    ultimately show ?thesis
      using rd_append [OF snoc.prems(1) t p] by (simp add: read_pieces_append split: sum.split prod.split)
  qed
qed simp

end

section \<open>The frame reader is one\<close>

definition reads ::
    "byte list \<Rightarrow> (nat \<Rightarrow> bool) \<Rightarrow> nat \<Rightarrow> ws \<Rightarrow> byte list \<Rightarrow> ws_fault + ws \<times> ws_action list" where
  "reads key reserve limit w data = map_sum id snd (onRead key reserve limit w data)"

lemma read_step_acts:
  assumes "read_step key reserve limit w data = Inr (Some (r, n, w', acts))" and "0 < r \<or> mid_frame w'"
    and "ws_ok w"
  shows "acts = []"
proof (cases "mid_frame w")
  case True
  then show ?thesis using assms(1) unfolding mid_frame_step [OF True assms(3)]
    by (auto simp: Let_def split: sum.splits prod.splits if_splits)
next
  case False
  then consider "m_status w = FrameStart" | "m_status w = FrameFinal" | "m_status w = FrameError"
    using assms(3) by (cases "m_status w") (auto simp: mid_frame_def ws_ok_def)
  then show ?thesis
  proof cases
    case 1
    then show ?thesis using assms(1) unfolding read_step_start [OF 1]
      by (auto simp: Let_def split: list.splits sum.splits prod.splits if_splits)
  next
    case 2
    then show ?thesis using assms(1,2)
      by (auto simp: read_step_def handleFrameData_def mid_frame_def assemble_def Let_def
          split: prod.splits option.splits if_splits)
  next
    case 3
    then show ?thesis using assms(1) by (simp add: read_step_def)
  qed
qed


lemma read_loop_acts:
  assumes "read_loop key reserve limit w data ret acts = Inr (Some (r, w', acts'))" and "0 \<le> r"
    and "mid_frame w'" and "ws_ok w" and "\<forall>n. reserve n \<longrightarrow> n < 2 ^ 31"
  shows "acts' = acts"
  using assms
proof (induction key reserve limit w data ret acts rule: read_loop.induct)
  case (1 key reserve limit w data ret acts)
  show ?case
  proof (cases "data \<noteq> [] \<and> ret > 0")
    case True
    then obtain r1 n w1 acts1 where step: "read_step key reserve limit w data = Inr (Some (r1, n, w1, acts1))"
      and rec: "read_loop key reserve limit w1 (drop n data) r1 (acts @ acts1) = Inr (Some (r, w', acts'))"
      using 1(2) by (auto simp: read_loop_rec split: sum.splits option.splits)
    have r1: "0 \<le> r1" "0 < r1 \<or> mid_frame w1"
      using rec 1(3,4) by (cases "0 < r1"; auto simp: read_loop_result)+
    then have "acts1 = []" "ws_ok w1"
      using read_step_acts [OF step] read_step_ok [OF step _ 1(5,6)] 1(5) by blast+
    then show ?thesis using 1(1) [OF True step refl refl refl refl] rec 1(3,4,6) by simp
  next
    case False
    then show ?thesis using 1(2) by (simp add: read_loop_result)
  qed
qed

text \<open>What \<open>onRead\<close> does after its loop.\<close>

definition conclude ::
    "byte list \<Rightarrow> ws \<Rightarrow> ws_fault + (int \<times> ws \<times> ws_action list) option \<Rightarrow> ws_fault + ws \<times> ws_action list" where
  "conclude key w0 res =
     (case res of
        Inl e \<Rightarrow> Inl e
      | Inr None \<Rightarrow> Inr (w0, [])
      | Inr (Some (ret, w, acts)) \<Rightarrow>
          (let (ret, w, acts) =
                 (if ret > 0 \<and> m_status w = FrameFinal
                  then (case handleFrameData key w of (ret, w, acts') \<Rightarrow> (ret, w, acts @ acts'))
                  else (ret, w, acts))
           in if ret < 0
              then Inr (w\<lparr>m_status := FrameError\<rparr>, acts @ [Event Ws_ErrorEvent [], Conn_shutDown 0])
              else Inr (w, acts)))"

lemma reads_conclude: "reads key reserve limit w data = conclude key w (read_loop key reserve limit w data 1 [])"
  by (auto simp: reads_def onRead_def conclude_def Let_def split: sum.split option.split prod.split)

lemma conclude_up_to_sign: "conclude key w0 (up_to_sign res) = conclude key w0 res"
  by (auto simp: conclude_def up_to_sign_def Let_def split: sum.split option.split prod.split)

lemma conclude_mid:
  assumes "conclude key w0 res = Inr (w', acts)" and "mid_frame w'" and "res \<noteq> Inr None"
  shows "\<exists>r \<ge> 0. res = Inr (Some (r, w', acts))"
proof -
  have w': "m_status w' \<noteq> FrameError" "m_status w' \<noteq> FrameStart" using mid_frame_not_final [OF assms(2)] by simp_all
  obtain r w a where res: "res = Inr (Some (r, w, a))"
    using assms(1,3) by (cases res) (auto simp: conclude_def split: option.splits)
  have "m_status u \<noteq> FrameStart \<Longrightarrow> fst (handleFrameData key w) = - 1" if "fst (snd (handleFrameData key w)) = u" for u
    using that by (auto simp: handleFrameData_def Let_def split: option.splits prod.splits if_splits)
  then show ?thesis using assms(1) w' unfolding res
    by (fastforce simp: conclude_def Let_def split: if_splits prod.splits)
qed

lemma conclude_irrelevant: "res \<noteq> Inr None \<Longrightarrow> conclude key w0 res = conclude key w1 res"
  by (auto simp: conclude_def split: sum.split option.split)

lemma read_step_not_error:
  assumes "read_step key reserve limit w data = Inr (Some (r, n, w', acts))" and "0 < r" and "ws_ok w"
  shows "m_status w' \<noteq> FrameError"
proof (cases "mid_frame w")
  case True
  then show ?thesis using assms(1,2) unfolding mid_frame_step [OF True assms(3)]
    by (auto simp: Let_def finish_part_def handleFramePayloadLen_def map_sum_def
        split: sum.splits prod.splits if_splits frame_status.splits)
next
  case False
  then consider "m_status w = FrameStart" | "m_status w = FrameFinal" | "m_status w = FrameError"
    using assms(3) by (cases "m_status w") (auto simp: mid_frame_def ws_ok_def)
  then show ?thesis
  proof cases
    case 1
    have "onFramePayloadLen reserve w1 d = Inr (r, w') \<Longrightarrow> m_status w' \<noteq> FrameError" for w1 d
      using assms(2) by (auto simp: onFramePayloadLen_def handleFramePayloadLen_def Let_def
          split: list.splits if_splits sum.splits)
    then show ?thesis using assms(1) unfolding read_step_start [OF 1]
      by (auto simp: Let_def split: list.splits sum.splits prod.splits if_splits)
  next
    case 2
    then show ?thesis using assms(1,2) handleFrameData_result [of key w]
      by (fastforce simp: read_step_def split: prod.splits)
  next
    case 3
    then show ?thesis using assms(1) by (simp add: read_step_def)
  qed
qed

lemma read_loop_not_error:
  assumes "read_loop key reserve limit w data ret acts = Inr None" and "ws_ok w" and "\<forall>n. reserve n \<longrightarrow> n < 2 ^ 31"
    and "m_status w \<noteq> FrameError"
  shows False
  using assms
proof (induction key reserve limit w data ret acts rule: read_loop.induct)
  case (1 key reserve limit w data ret acts)
  show ?case
  proof (cases "data \<noteq> [] \<and> ret > 0")
    case False
    then show ?thesis using 1(2) by (simp add: read_loop_result)
  next
    case True
    have "read_step key reserve limit w data \<noteq> Inr None"
      using 1(5) by (auto simp: read_step_def map_sum_def split: frame_status.splits sum.splits prod.splits)
    then obtain r1 n w1 acts1 where step: "read_step key reserve limit w data = Inr (Some (r1, n, w1, acts1))"
      and rec: "read_loop key reserve limit w1 (drop n data) r1 (acts @ acts1) = Inr None"
      using 1(2) True by (auto simp: read_loop_rec split: sum.splits option.splits)
    have "0 < r1" using rec by (cases "0 < r1") (auto simp: read_loop_result)
    then have "ws_ok w1" using read_step_ok [OF step _ 1(3,4)] by simp
    moreover have "m_status w1 \<noteq> FrameError" using read_step_not_error [OF step \<open>0 < r1\<close> 1(3)] .
    ultimately show False using 1(1) [OF True step refl refl refl refl rec] 1(4) by simp
  qed
qed


interpretation ws: waiting_reader "reads key reserve limit"
  "\<lambda>w. ws_ok w \<and> m_status w \<noteq> FrameError \<and> (\<forall>n. reserve n \<longrightarrow> n < 2 ^ 31)" mid_frame
  for key reserve limit
proof
  fix w xs t as ys
  assume good: "ws_ok w \<and> m_status w \<noteq> FrameError \<and> (\<forall>n. reserve n \<longrightarrow> n < 2 ^ 31)"
    and read: "reads key reserve limit w xs = Inr (t, as)" and mid: "mid_frame t" and ys: "(ys :: byte list) \<noteq> []"
  have ok: "ws_ok w" "\<forall>n. reserve n \<longrightarrow> n < 2 ^ 31" using good by blast+
  let ?loop = "\<lambda>w data. read_loop key reserve limit w data 1 []"
  have no_error: "?loop w xs \<noteq> Inr None" using read_loop_not_error [OF _ ok] good by blast
  obtain r where r: "0 \<le> r" "?loop w xs = Inr (Some (r, t, as))"
    using conclude_mid [OF read [unfolded reads_conclude] mid no_error] by blast
  have as: "as = []" using read_loop_acts [OF r(2,1) mid ok] .
  have longer: "up_to_sign (?loop w (xs @ ys)) = up_to_sign (?loop t ys)"
    using read_loop_append [OF r(2) _ r(1) mid ok ys] as by simp
  have "ws_ok t" using read_loop_ok [OF r(2,1) ok] .
  then have "?loop t ys \<noteq> Inr None"
    using read_loop_not_error [OF _ _ ok(2)] mid_frame_not_final [OF mid] by blast
  then have "reads key reserve limit w (xs @ ys) = reads key reserve limit t ys"
    unfolding reads_conclude using longer conclude_up_to_sign conclude_irrelevant by metis
  then show "reads key reserve limit w (xs @ ys) =
      (case reads key reserve limit t ys of Inl e \<Rightarrow> Inl e | Inr (u, bs) \<Rightarrow> Inr (u, as @ bs))"
    by (simp add: as split: sum.split prod.split)
qed

section \<open>Frames\<close>

definition frame :: "byte \<Rightarrow> byte list option \<Rightarrow> byte list \<Rightarrow> byte list" where
  "frame header key msg =
     (let m = (if key = None then 0 else 0x80)
      in header #
         (if length msg < 126 then [m OR of_nat (length msg)]
          else if length msg \<le> 0xFFFF then (m OR 126) # be_bytes 2 (length msg)
          else (m OR 127) # be_bytes 8 (length msg)) @
         (case key of None \<Rightarrow> msg | Some k \<Rightarrow> k @ masked k msg))"

lemma sendFrame_frame:
  "m_conn w \<Longrightarrow> sendFrame key w fin opcode msg =
     [Conn_send (frame (opcode OR (if fin then 0x80 else 0)) None msg)]"
  by (simp add: sendFrame_def frame_def Let_def)

lemma length_byte_cases:
  "\<forall>n < 128. ((0x80 OR of_nat n) AND 0x7F :: byte) = of_nat n \<and> ((0x80 OR of_nat n) AND 0x80 :: byte) = 0x80 \<and>
     (of_nat n AND 0x7F :: byte) = of_nat n \<and> (of_nat n AND 0x80 :: byte) = 0"
proof -
  have "list_all (\<lambda>n. ((0x80 OR of_nat n) AND 0x7F :: byte) = of_nat n \<and> ((0x80 OR of_nat n) AND 0x80 :: byte) = 0x80 \<and>
     (of_nat n AND 0x7F :: byte) = of_nat n \<and> (of_nat n AND 0x80 :: byte) = 0) [0..<128]"
    by code_simp
  then show ?thesis by (simp add: list_all_iff)
qed

lemma masked_masked: "length key = 4 \<Longrightarrow> masked key (masked key msg) = msg"
  by (rule nth_equalityI) (simp_all add: masked_def xor.assoc)

lemma length_masked [simp]: "length (masked key msg) = length msg"
  by (simp add: masked_def)

lemma be_value_snoc: "be_value (bs @ [b]) = 256 * be_value bs + unat b"
  by (simp add: be_value_def)

lemma length_be_bytes [simp]: "length (be_bytes k n) = k"
  by (induction k arbitrary: n) simp_all

lemma be_value_bytes: "be_value (be_bytes k n) = n mod 256 ^ k"
proof (induction k arbitrary: n)
  case (Suc k)
  have "unat (of_nat n :: byte) = n mod 256" by (simp add: unat_of_nat)
  moreover have "n mod (256 * 256 ^ k) = 256 * (n div 256 mod 256 ^ k) + n mod 256"
    by (simp add: mod_mult2_eq)
  ultimately show ?case using Suc by (simp add: be_value_snoc)
qed (simp add: be_value_def)


section \<open>Reading a frame\<close>

lemma up_to_sign_ret:
  "0 < ret \<Longrightarrow> up_to_sign (read_loop key reserve limit w data ret acts) =
     up_to_sign (read_loop key reserve limit w data 1 acts)"
proof (cases "data = []")
  case True
  assume "0 < ret"
  then show ?thesis using True by (simp add: read_loop_result up_to_sign_def)
next
  case False
  assume "0 < ret"
  then show ?thesis using read_loop_ret [OF False, of ret key reserve limit w acts] by simp
qed

text \<open>\<open>data\<close> bring the reader from \<open>w\<close> to \<open>w2\<close>, and each proper prefix of them makes it wait.\<close>

definition leads :: "byte list \<Rightarrow> (nat \<Rightarrow> bool) \<Rightarrow> nat \<Rightarrow> ws \<Rightarrow> byte list \<Rightarrow> ws \<Rightarrow> bool" where
  "leads key reserve limit w data w2 \<longleftrightarrow>
     (\<forall>junk acts. up_to_sign (read_loop key reserve limit w (data @ junk) 1 acts) =
        up_to_sign (read_loop key reserve limit w2 junk 1 acts)) \<and>
     (\<forall>j < length data. \<forall>acts. \<exists>r w'. read_loop key reserve limit w (take j data) 1 acts = Inr (Some (r, w', acts)) \<and>
        0 \<le> r \<and> mid_frame w')"

lemma leads_nil: "leads key reserve limit w [] w"
  by (simp add: leads_def)

lemma leads_stage:
  assumes "mid_frame w" and "ws_ok w" and "m_cache w = []" and "length part = missing w"
    and "finish_part reserve limit (w\<lparr>m_cache := part\<rparr>) = Inr (True, w1)"
    and "leads key reserve limit w1 later w2" and "later \<noteq> [] \<Longrightarrow> mid_frame w1"
  shows "leads key reserve limit w (part @ later) w2"
proof -
  have pos: "0 < length part" "part \<noteq> []" using assms(1-4) by (auto simp: ws_ok_def)
  have step: "read_step key reserve limit w (part @ d) = Inr (Some (int (length part), length part, w1, []))" for d
    using assms(3-5) unfolding mid_frame_step [OF assms(1,2)] by (simp add: Let_def)
  have run: "read_loop key reserve limit w (part @ d) 1 acts = read_loop key reserve limit w1 d (int (length part)) acts"
    for d acts using pos(2) step [of d] by (simp add: read_loop_rec)
  show ?thesis
    unfolding leads_def
  proof (intro conjI allI impI)
    fix junk acts
    have "up_to_sign (read_loop key reserve limit w1 (later @ junk) (int (length part)) acts) =
        up_to_sign (read_loop key reserve limit w1 (later @ junk) 1 acts)"
      using pos(1) by (intro up_to_sign_ret) simp
    then show "up_to_sign (read_loop key reserve limit w ((part @ later) @ junk) 1 acts) =
        up_to_sign (read_loop key reserve limit w2 junk 1 acts)"
      using assms(6) run [of "later @ junk"] by (simp add: leads_def)
  next
    fix j acts assume j: "j < length (part @ later)"
    show "\<exists>r w'. read_loop key reserve limit w (take j (part @ later)) 1 acts = Inr (Some (r, w', acts)) \<and>
        0 \<le> r \<and> mid_frame w'"
    proof (cases "j < length part")
      case True
      show ?thesis
      proof (cases "j = 0")
        case True
        then show ?thesis using assms(1) by (simp add: read_loop_result)
      next
        case False
        have "read_step key reserve limit w (take j part) = Inr (Some (0, 0, w\<lparr>m_cache := take j part\<rparr>, []))"
          using True assms(3,4) unfolding mid_frame_step [OF assms(1,2)] by (simp add: Let_def)
        then show ?thesis using True False assms(1) pos(2) by (simp add: read_loop_rec read_loop_result)
      qed
    next
      case False
      then have t: "take j (part @ later) = part @ take (j - length part) later" and m: "j - length part < length later"
        using j by auto
      then have "later \<noteq> []" by auto
      then have mid: "mid_frame w1" by (rule assms(7))
      show ?thesis
      proof (cases "take (j - length part) later = []")
        case True
        then show ?thesis unfolding t run using mid pos(1) by (simp add: read_loop_result)
      next
        case False
        have "0 < int (length part)" using pos(1) by simp
        then show ?thesis unfolding t run read_loop_ret [OF False \<open>0 < int (length part)\<close>]
          using assms(6) m by (simp add: leads_def)
      qed
    qed
  qed
qed

definition frame_read :: "ws \<Rightarrow> byte \<Rightarrow> byte list option \<Rightarrow> byte list \<Rightarrow> ws" where
  "frame_read w header key msg = w\<lparr>m_payloadLen := length msg, m_status := FrameFinal,
     m_maskingKey := (case key of None \<Rightarrow> m_maskingKey w | Some k \<Rightarrow> k), m_final := header AND 0x80,
     m_opcode := header AND 0x0F, m_mask := (if key = None then 0 else 0x80), m_cache := msg\<rparr>"

text \<open>The state before the key, or the payload of a frame without one.\<close>

definition payload_next :: "ws \<Rightarrow> byte \<Rightarrow> byte list option \<Rightarrow> byte list \<Rightarrow> ws" where
  "payload_next w header key msg = w\<lparr>m_payloadLen := length msg,
     m_status := (if msg = [] then FrameFinal else if key = None then FrameData else FrameMaskingKey),
     m_final := header AND 0x80, m_opcode := header AND 0x0F, m_mask := (if key = None then 0 else 0x80),
     m_cache := []\<rparr>"

lemma leads_payload:
  assumes "length msg < 2 ^ 31" and "\<forall>k. key = Some k \<longrightarrow> length k = 4 \<and> msg \<noteq> []"
  shows "leads rk reserve limit (payload_next w header key msg)
    (case key of None \<Rightarrow> msg | Some k \<Rightarrow> k @ masked k msg) (frame_read w header key msg)"
proof (cases "msg = []")
  case True
  then have "key = None" using assms(2) by (cases key) auto
  then have "payload_next w header key msg = frame_read w header key msg"
    using True by (simp add: payload_next_def frame_read_def)
  then show ?thesis using True \<open>key = None\<close> leads_nil by simp
next
  case False
  define v where "v = (payload_next w header key msg)\<lparr>m_status := FrameData,
    m_maskingKey := (case key of None \<Rightarrow> m_maskingKey w | Some k \<Rightarrow> k)\<rparr>"
  define sent where "sent = (case key of None \<Rightarrow> msg | Some k \<Rightarrow> masked k msg)"
  have v: "mid_frame v" "ws_ok v" "m_cache v = []" "missing v = length msg"
    using False assms(1) by (auto simp: v_def payload_next_def mid_frame_def ws_ok_def missing_def)
  have "masked (m_maskingKey v) sent = msg" if "key \<noteq> None"
    using that assms(2) by (auto simp: sent_def v_def masked_masked)
  then have "finish_part reserve limit (v\<lparr>m_cache := sent\<rparr>) = Inr (True, frame_read w header key msg)"
    by (auto simp: finish_part_def v_def payload_next_def frame_read_def isMaskFrame_def sent_def)
  then have data: "leads rk reserve limit v (sent @ []) (frame_read w header key msg)"
    by (intro leads_stage [OF v(1-3)]) (auto simp: v(4) sent_def leads_nil split: option.split)
  show ?thesis
  proof (cases key)
    case None
    then have "payload_next w header key msg = v" using False by (simp add: v_def payload_next_def)
    then show ?thesis using data None by (simp add: sent_def)
  next
    case (Some k)
    let ?w = "payload_next w header key msg"
    have w: "mid_frame ?w" "ws_ok ?w" "m_cache ?w = []" "missing ?w = 4"
      using False assms(1) Some by (auto simp: payload_next_def mid_frame_def ws_ok_def missing_def)
    have "finish_part reserve limit (?w\<lparr>m_cache := k\<rparr>) = Inr (True, v)"
      using False Some by (simp add: finish_part_def payload_next_def v_def)
    then have "leads rk reserve limit ?w (k @ sent) (frame_read w header key msg)"
      using data by (intro leads_stage [OF w(1-3) _ _ _ v(1)]) (use assms(2) Some w(4) in auto)
    then show ?thesis using Some by (simp add: sent_def)
  qed
qed


text \<open>The two bytes every frame begins with, and the length of 16 bits.\<close>

definition header_read :: "ws \<Rightarrow> byte \<Rightarrow> ws" where
  "header_read w header = w\<lparr>m_cache := [], m_final := header AND 0x80, m_opcode := header AND 0x0F,
     m_status := FramePayloadLen\<rparr>"

definition mask_bit :: "byte list option \<Rightarrow> byte" where
  "mask_bit key = (if key = None then 0 else 0x80)"

lemma mask_bit_length:
  assumes "n < 128"
  shows "(mask_bit key OR of_nat n) AND 0x80 = mask_bit key" and "(mask_bit key OR of_nat n) AND 0x7F = of_nat n"
  using length_byte_cases assms by (auto simp: mask_bit_def)

lemma isControl_header: "isControlFrame (header_read w header) \<longleftrightarrow> header AND 0x08 \<noteq> 0"
proof -
  have "(header AND 0x0F) AND 0x08 = header AND 0x08" by (simp add: and.assoc)
  then show ?thesis by (simp add: isControlFrame_def header_read_def word_neq_0_conv)
qed

lemma payload_length_short:
  assumes "length msg < 126" and "reserve (length msg)"
  shows "onFramePayloadLen reserve (header_read w header) ((mask_bit key OR of_nat (length msg)) # d) =
    Inr (1, payload_next w header key msg)"
proof -
  have n: "unat (of_nat (length msg) :: byte) = length msg" using assms(1) by (simp add: unat_of_nat)
  then have small: "(of_nat (length msg) :: byte) < 126" using assms(1) by (simp add: word_less_nat_alt)
  have "length msg < 128" using assms(1) by simp
  note bits = mask_bit_length [OF this, of key]
  show ?thesis
    using small n assms(2) bits
    by (auto simp: onFramePayloadLen_def Let_def handleFramePayloadLen_def payload_next_def header_read_def
        isMaskFrame_def mask_bit_def not_le)
qed

lemma payload_length_16:
  assumes "header AND 0x08 = 0"
  shows "onFramePayloadLen reserve (header_read w header) ((mask_bit key OR 126) # d) =
    Inr (1, (header_read w header)\<lparr>m_mask := mask_bit key, m_status := FramePayloadLen16\<rparr>)"
  using mask_bit_length [of 126 key] assms isControl_header [of w header]
  by (simp add: onFramePayloadLen_def Let_def isControlFrame_def)

lemma be_value_bound: "be_value bs < 256 ^ length bs"
proof (induction bs rule: rev_induct)
  case (snoc b bs)
  have "unat b < 2 ^ LENGTH(8)" by (rule unsigned_less)
  then have "unat b < 256" by simp
  then have "256 * be_value bs + unat b < 256 * (be_value bs + 1)" by simp
  also have "\<dots> \<le> 256 * 256 ^ length bs" using snoc by (intro mult_le_mono2) simp
  finally show ?case by (simp add: be_value_snoc)
qed (simp add: be_value_def)

lemma leads_length_16:
  assumes "length msg \<le> 0xFFFF" and "reserve (length msg)" and "0xFFFF \<le> limit"
    and "leads rk reserve limit (payload_next w header key msg) payload w2"
    and "payload \<noteq> [] \<Longrightarrow> mid_frame (payload_next w header key msg)"
  shows "leads rk reserve limit ((header_read w header)\<lparr>m_mask := mask_bit key, m_status := FramePayloadLen16\<rparr>)
    (be_bytes 2 (length msg) @ payload) w2"
proof (rule leads_stage [OF _ _ _ _ _ assms(4,5)])
  let ?w = "(header_read w header)\<lparr>m_mask := mask_bit key, m_status := FramePayloadLen16\<rparr>"
  show "mid_frame ?w" "ws_ok ?w" "m_cache ?w = []" "length (be_bytes 2 (length msg)) = missing ?w"
    by (simp_all add: mid_frame_def ws_ok_def missing_def header_read_def)
  have "le_value (be_bytes 2 (length msg)) < 256 ^ 2"
    using be_value_bound [of "rev (be_bytes 2 (length msg))"] by (simp add: le_value_def)
  then have "\<not> le_value (be_bytes 2 (length msg)) > limit" using assms(3) by simp
  moreover have "be_value (be_bytes 2 (length msg)) = length msg"
    using assms(1) unfolding be_value_bytes by simp
  ultimately show "finish_part reserve limit (?w\<lparr>m_cache := be_bytes 2 (length msg)\<rparr>) =
      Inr (True, payload_next w header key msg)"
    using assms(2)
    by (auto simp: finish_part_def handleFramePayloadLen_def Let_def payload_next_def header_read_def
        isMaskFrame_def mask_bit_def)
qed

lemma frame_leads:
  assumes "m_status w = FrameStart" and "header AND 0x70 = 0" and "length msg \<le> 0xFFFF"
    and "header AND 0x08 \<noteq> 0 \<Longrightarrow> length msg < 126" and "reserve (length msg)" and "0xFFFF \<le> limit"
    and "\<forall>k. key = Some k \<longrightarrow> length k = 4 \<and> msg \<noteq> []"
  obtains l w1 tail where "frame header key msg = header # l # tail"
    and "\<And>d. read_step rk reserve limit w (header # l # d) = Inr (Some (1, 2, w1, []))"
    and "leads rk reserve limit w1 tail (frame_read w header key msg)" and "tail \<noteq> [] \<Longrightarrow> mid_frame w1"
proof -
  let ?payload = "case key of None \<Rightarrow> msg | Some k \<Rightarrow> k @ masked k msg"
  have payload: "leads rk reserve limit (payload_next w header key msg) ?payload (frame_read w header key msg)"
    using assms(3,7) by (intro leads_payload) simp_all
  have mid: "?payload \<noteq> [] \<Longrightarrow> mid_frame (payload_next w header key msg)"
    using assms(7) by (auto simp: payload_next_def mid_frame_def split: option.splits)
  have step: "read_step rk reserve limit w (header # l # d) = Inr (Some (1, 2, w1, []))"
    if "onFramePayloadLen reserve (header_read w header) (l # d) = Inr (1, w1)" for l d w1
    using that assms(2) unfolding read_step_start [OF assms(1)] by (simp add: header_read_def)
  show thesis
  proof (cases "length msg < 126")
    case True
    show thesis
    proof (rule that)
      show "frame header key msg = header # (mask_bit key OR of_nat (length msg)) # ?payload"
        using True by (simp add: frame_def mask_bit_def)
    qed (use step [OF payload_length_short [where reserve = reserve and msg = msg, OF True assms(5)]] payload mid in auto)
  next
    case False
    then have data: "header AND 0x08 = 0" using assms(4) by blast
    show thesis
    proof (rule that)
      show "frame header key msg = header # (mask_bit key OR 126) # (be_bytes 2 (length msg) @ ?payload)"
        using False assms(3) by (simp add: frame_def mask_bit_def)
      show "leads rk reserve limit ((header_read w header)\<lparr>m_mask := mask_bit key, m_status := FramePayloadLen16\<rparr>)
        (be_bytes 2 (length msg) @ ?payload) (frame_read w header key msg)"
        using leads_length_16 [OF assms(3,5,6) payload mid] .
    qed (use step [OF payload_length_16 [OF data]] in \<open>simp_all add: mid_frame_def\<close>)
  qed
qed


section \<open>What a frame does\<close>

text \<open>The result of reading a whole frame: the message is handled, or the connection ends.\<close>

definition deliver :: "byte list \<Rightarrow> ws \<Rightarrow> ws \<times> ws_action list" where
  "deliver key w =
     (case handleFrameData key w of
        (ret, w, acts) \<Rightarrow>
          if ret < 0 then (w\<lparr>m_status := FrameError\<rparr>, acts @ [Event Ws_ErrorEvent [], Conn_shutDown 0])
          else (w, acts))"

lemma conclude_final:
  assumes "m_status w = FrameFinal"
  shows "conclude rk w0 (read_loop rk reserve limit w junk 1 []) = Inr (deliver rk w)"
proof (cases "junk = []")
  case True
  then show ?thesis using assms
    by (simp add: read_loop_result conclude_def deliver_def Let_def split: prod.split)
next
  case False
  obtain ret w' acts where h: "handleFrameData rk w = (ret, w', acts)" by (cases "handleFrameData rk w")
  then have "ret = 0 \<or> ret = - 1" by (rule handleFrameData_result)
  then show ?thesis using assms False h
    by (auto simp: read_loop_rec read_loop_result read_step_def conclude_def deliver_def)
qed

text \<open>A frame header that is not refused, with a payload the reader takes.\<close>

definition frame_ok :: "byte \<Rightarrow> byte list option \<Rightarrow> byte list \<Rightarrow> bool" where
  "frame_ok header key msg \<longleftrightarrow> header AND 0x70 = 0 \<and> length msg \<le> 0xFFFF \<and>
     (header AND 0x08 \<noteq> 0 \<longrightarrow> length msg < 126) \<and> (\<forall>k. key = Some k \<longrightarrow> length k = 4 \<and> msg \<noteq> [])"

lemma frame_reads:
  assumes "m_status w = FrameStart" and "ws_ok w" and "frame_ok header key msg" and "reserve (length msg)"
    and "\<forall>n. reserve n \<longrightarrow> n < 2 ^ 31" and "0xFFFF \<le> limit"
  shows "reads rk reserve limit w (frame header key msg @ junk) = Inr (deliver rk (frame_read w header key msg))"
    and "frame header key msg = xs @ ys \<Longrightarrow> 2 \<le> length xs \<Longrightarrow> ys \<noteq> [] \<Longrightarrow>
      \<exists>t as. reads rk reserve limit w xs = Inr (t, as) \<and> mid_frame t"
proof -
  note ok = assms(3) [unfolded frame_ok_def]
  obtain l w1 tail where f: "frame header key msg = header # l # tail"
    and step: "\<And>d. read_step rk reserve limit w (header # l # d) = Inr (Some (1, 2, w1, []))"
    and leads: "leads rk reserve limit w1 tail (frame_read w header key msg)"
    and mid: "tail \<noteq> [] \<Longrightarrow> mid_frame w1"
    by (rule frame_leads [where w = w and header = header and msg = msg and key = key and rk = rk and
          reserve = reserve and limit = limit])
      (use ok assms(1,4,6) in auto)
  have run: "read_loop rk reserve limit w (header # l # d) 1 [] = read_loop rk reserve limit w1 d 1 []" for d
    using step [of d] by (simp add: read_loop_rec)
  have no_error: "read_loop rk reserve limit w d 1 [] \<noteq> Inr None" for d
    using read_loop_not_error [OF _ assms(2,5)] assms(1) by (metis frame_status.distinct(13))
  have "up_to_sign (read_loop rk reserve limit w (frame header key msg @ junk) 1 []) =
      up_to_sign (read_loop rk reserve limit (frame_read w header key msg) junk 1 [])"
    using leads unfolding f leads_def by (simp add: run)
  then have "conclude rk w (read_loop rk reserve limit w (frame header key msg @ junk) 1 []) =
      conclude rk w (read_loop rk reserve limit (frame_read w header key msg) junk 1 [])"
    by (metis conclude_up_to_sign)
  also have "\<dots> = Inr (deliver rk (frame_read w header key msg))"
    by (rule conclude_final) (simp add: frame_read_def)
  finally show "reads rk reserve limit w (frame header key msg @ junk) = Inr (deliver rk (frame_read w header key msg))"
    by (simp add: reads_conclude)
  assume xs: "frame header key msg = xs @ ys" "2 \<le> length xs" "ys \<noteq> []"
  define j where "j = length xs - 2"
  obtain a b c where abc: "xs = a # b # c" using xs(2) by (cases xs; cases "tl xs") auto
  then have "tail = c @ ys" "a = header" "b = l" using xs(1) by (simp_all add: f)
  then have j: "j < length tail" "xs = header # l # take j tail" using xs(3) abc by (simp_all add: j_def)
  then obtain r w' where r: "read_loop rk reserve limit w1 (take j tail) 1 [] = Inr (Some (r, w', []))" "0 \<le> r" "mid_frame w'"
    using leads unfolding leads_def by blast
  then have "reads rk reserve limit w xs = Inr (w', [])"
    using mid_frame_not_final [OF r(3)] by (simp add: reads_conclude j(2) run conclude_def)
  then show "\<exists>t as. reads rk reserve limit w xs = Inr (t, as) \<and> mid_frame t" using r(3) by blast
qed

text \<open>The frame in pieces, the first of which holds the two bytes of the header.\<close>

lemma frame_pieces:
  assumes "m_status w = FrameStart" and "ws_ok w" and "frame_ok header key msg" and "reserve (length msg)"
    and "\<forall>n. reserve n \<longrightarrow> n < 2 ^ 31" and "0xFFFF \<le> limit"
    and "concat ps = frame header key msg" and "\<forall>p \<in> set ps. p \<noteq> []" and "2 \<le> length (hd ps)"
  shows "read_pieces (reads rk reserve limit) w ps = Inr (deliver rk (frame_read w header key msg))"
proof -
  note whole = frame_reads [OF assms(1-6)]
  have "ps \<noteq> []" using assms(7) by (auto simp: frame_def Let_def)
  then have "read_pieces (reads rk reserve limit) w ps = reads rk reserve limit w (concat ps)"
  proof (rule ws.pieces_at_once [rotated])
    show "ws_ok w \<and> m_status w \<noteq> FrameError \<and> (\<forall>n. reserve n \<longrightarrow> n < 2 ^ 31)"
      using assms(1,2,5) by simp
    show "\<forall>xs ys. concat ps = xs @ ys \<and> length (hd ps) \<le> length xs \<and> ys \<noteq> [] \<longrightarrow>
        (\<exists>t as. reads rk reserve limit w xs = Inr (t, as) \<and> mid_frame t)"
    proof (intro allI impI, elim conjE)
      fix xs ys assume "concat ps = xs @ ys" "length (hd ps) \<le> length xs" "ys \<noteq> []"
      moreover have "2 \<le> length xs" using calculation(2) assms(9) by simp
      ultimately show "\<exists>t as. reads rk reserve limit w xs = Inr (t, as) \<and> mid_frame t"
        using whole(2) [of xs ys rk] assms(7) by simp
    qed
  qed (rule assms(8))
  then show ?thesis using whole(1) [of rk "[]"] assms(7) by simp
qed

end
