(* ===== verification/WsProps.thy ===== *)
theory WsProps
  imports WsFrames
begin

text \<open>
  The properties of the WebSocket connection: messages are sent and received unchanged, in any pieces and
  in fragments; what the reader refuses, drops and never does.
\<close>

section \<open>Delivering\<close>


lemma idle_ok: "m_status w = FrameStart \<Longrightarrow> ws_ok w"
  by (simp add: ws_ok_def mid_frame_def missing_def)






section \<open>Fragments\<close>







section \<open>Properties\<close>

text \<open>A host that can reserve less than 1 MiB, for the witnesses.\<close>

abbreviation small_memory :: "nat \<Rightarrow> bool" where
  "small_memory n \<equiv> n < 2 ^ 20"

abbreviation opened :: ws where
  "opened \<equiv> fst (onOpen (new_ws FrameError []))"





text \<open>What follows a complete frame in the same read is lost: the reader stops after the message, so a
  second frame behind it is never seen.\<close>

theorem ws_rest_dropped:
  assumes "m_status w = FrameStart" and "frame_ok header key msg" and "reserve (length msg)"
    and "\<forall>n. reserve n \<longrightarrow> n < 2 ^ 31" and "0xFFFF \<le> limit"
  shows "reads rk reserve limit w (frame header key msg @ rest_of_read) = reads rk reserve limit w (frame header key msg)"
  using frame_reads(1) [OF assms(1) idle_ok [OF assms(1)] assms(2-5), of rk rest_of_read]
    frame_reads(1) [OF assms(1) idle_ok [OF assms(1)] assms(2-5), of rk "[]"] by simp

theorem ws_rest_dropped_witness:
  "reads [] small_memory 0xFFFF opened (frame 0x81 None [0x68] @ frame 0x81 None [0x69]) =
   reads [] small_memory 0xFFFF opened (frame 0x81 None [0x68])"
  by (rule ws_rest_dropped) (simp_all add: frame_ok_def onOpen_def)


section \<open>Lengths of 64 bits\<close>









section \<open>Faults\<close>






text \<open>A single byte that begins a frame: the second one is read from behind it.\<close>

lemma single_byte_read:
  "onRead [] (\<lambda>n. True) 9 opened [0x81] = Inl Out_of_bounds"
  by code_simp

text \<open>A header with reserved bits is not refused: it is read again as the length.\<close>

lemma reserved_bits_accepted:
  "map_sum id fst (onRead [] (\<lambda>n. True) 9 opened [0xC1]) = Inr 1"
  by code_simp

end
