(* ===== verification/TimingWheel.thy ===== *)
theory TimingWheel
  imports TnetPrelude "HOL-Library.Signed_Division"
begin

text \<open>
  \<open>src/src/timingwheel.cpp\<close>: handlers in a ring of buckets, one of which runs at each tick of a timer.
  A handler is a value of any type (the closure the program binds); an empty \<open>std::function\<close> is
  \<open>None\<close>, and calling it throws \<open>std::bad_function_call\<close>. An index outside a vector is the fault
  \<open>Out_of_range\<close>, and a fault inside a handler is \<open>Handler_failed\<close>. The ring is related to an agenda, which says what runs how many ticks from now.
\<close>

section \<open>The wheel\<close>

datatype wheel_fault = Bad_function_call | Out_of_range | Handler_failed

record 'h timing_wheel =
  m_running :: bool
  m_loop :: "nat option"
  m_interval :: int
  m_maxBuckets :: int
  m_maxTimeout :: int
  m_nextBucket :: int
  m_curbucket :: "'h option list"
  m_ontimer :: bool
  m_buckets :: "'h option list list"

text \<open>The constructor leaves \<open>m_running\<close> as it finds it.\<close>

definition new_wheel :: "bool \<Rightarrow> int \<Rightarrow> int \<Rightarrow> 'h timing_wheel" where
  "new_wheel running interval maxBuckets =
     \<lparr>m_running = running, m_loop = None, m_interval = interval, m_maxBuckets = maxBuckets,
      m_maxTimeout = int32 (interval * maxBuckets), m_nextBucket = 0, m_curbucket = [], m_ontimer = False,
      m_buckets = replicate (nat maxBuckets) []\<rparr>"

text \<open>Starting and stopping, with the call on the timer if there is one.\<close>

datatype timer_call = Timer_start nat | Timer_stop

definition wheel_start :: "nat \<Rightarrow> 'h timing_wheel \<Rightarrow> 'h timing_wheel \<times> timer_call option" where
  "wheel_start loop w =
     (if m_running w then (w, None) else (w\<lparr>m_loop := Some loop, m_running := True\<rparr>, Some (Timer_start loop)))"

definition wheel_stop :: "'h timing_wheel \<Rightarrow> 'h timing_wheel \<times> timer_call option" where
  "wheel_stop w = (if \<not> m_running w then (w, None) else (w\<lparr>m_running := False\<rparr>, Some Timer_stop))"

section \<open>Slots\<close>

text \<open>The union of a \<open>uint64_t\<close> with two \<open>uint32_t\<close> on a little-endian machine.\<close>

definition Slot :: "u32 \<Rightarrow> u32 \<Rightarrow> u64" where
  "Slot p0 p1 = ucast p0 OR push_bit 32 (ucast p1)"

definition slot_bucket :: "u64 \<Rightarrow> u32" where
  "slot_bucket h = ucast h"

definition slot_id :: "u64 \<Rightarrow> u32" where
  "slot_id h = ucast (drop_bit 32 h)"

lemma slot_bucket_Slot [simp]: "slot_bucket (Slot b i) = b"
  unfolding slot_bucket_def Slot_def by (rule bit_word_eqI) (simp add: bit_simps)

lemma slot_id_Slot [simp]: "slot_id (Slot b i) = i"
  unfolding slot_id_def Slot_def by (rule bit_word_eqI) (auto simp: bit_simps dest: bit_imp_le_length)

section \<open>Adding, updating, removing\<close>

definition add_handler :: "'h timing_wheel \<Rightarrow> 'h option \<Rightarrow> int \<Rightarrow> wheel_fault + 'h timing_wheel \<times> u64" where
  "add_handler w handler timeout =
     (if timeout \<ge> m_maxTimeout w then Inr (w, - 1)
      else
        let bucket = word_of_int ((m_nextBucket w + timeout sdiv m_interval w) smod m_maxBuckets w) :: u32 in
        if m_ontimer w \<and> bucket = word_of_int (m_nextBucket w)
        then Inr (w\<lparr>m_curbucket := m_curbucket w @ [handler]\<rparr>, Slot bucket (of_nat (length (m_curbucket w))))
        else if unat bucket < length (m_buckets w)
        then Inr (w\<lparr>m_buckets := (m_buckets w)[unat bucket := m_buckets w ! unat bucket @ [handler]]\<rparr>,
          Slot bucket (of_nat (length (m_buckets w ! unat bucket))))
        else Inl Out_of_range)"

text \<open>
  In \<open>update\<close> the names \<open>pcb\<close> and \<open>cb\<close> are references to the element itself (\<open>std::move\<close> alone moves
  nothing), so \<open>chans[id] = nullptr\<close> empties what \<open>add\<close> is then given.
\<close>

definition update_handler :: "'h timing_wheel \<Rightarrow> u64 \<Rightarrow> int \<Rightarrow> wheel_fault + 'h timing_wheel \<times> u64" where
  "update_handler w h timeout =
     (let bucket = slot_bucket h; i = slot_id h in
      if bucket > word_of_int (m_maxBuckets w) then Inr (w, - 1)
      else if length (m_buckets w) \<le> unat bucket then Inl Out_of_range
      else
        let chans = m_buckets w ! unat bucket in
        if i \<ge> of_nat (length chans) then Inr (w, - 1)
        else case chans ! unat i of
          None \<Rightarrow> Inr (w, - 1)
        | Some _ \<Rightarrow>
            let w = w\<lparr>m_buckets := (m_buckets w)[unat bucket := chans[unat i := None]]\<rparr> in
            add_handler w (m_buckets w ! unat bucket ! unat i) timeout)"

definition remove_handler :: "'h timing_wheel \<Rightarrow> u64 \<Rightarrow> wheel_fault + 'h timing_wheel" where
  "remove_handler w h =
     (let bucket = slot_bucket h; i = slot_id h in
      if bucket > word_of_int (m_maxBuckets w) then Inr w
      else if length (m_buckets w) \<le> unat bucket then Inl Out_of_range
      else
        let chans = m_buckets w ! unat bucket in
        if i \<ge> of_nat (length chans) then Inr w
        else Inr (w\<lparr>m_buckets := (m_buckets w)[unat bucket := chans[unat i := None]]\<rparr>))"

section \<open>A tick\<close>

text \<open>
  \<open>run\<close> calls a handler with the wheel and the rest of the program's state, both of which it may
  change. The loop over the handlers of a bucket looks at the vector anew each time around, and may
  not end if handlers lengthen it.
\<close>

type_synonym ('h, 's) runner = "'h \<Rightarrow> 'h timing_wheel \<times> 's \<Rightarrow> wheel_fault + 'h timing_wheel \<times> 's"

partial_function (option) run_chans ::
  "('h, 's) runner \<Rightarrow> nat \<Rightarrow> nat \<Rightarrow> 'h timing_wheel \<times> 's \<Rightarrow> (wheel_fault + 'h timing_wheel \<times> 's) option" where
  "run_chans run b i ws =
     (if i < length (m_buckets (fst ws) ! b)
      then case m_buckets (fst ws) ! b ! i of
          None \<Rightarrow> Some (Inl Bad_function_call)
        | Some h \<Rightarrow> (case run h ws of
              Inl e \<Rightarrow> Some (Inl e)
            | Inr ws \<Rightarrow> run_chans run b (Suc i) ws)
      else Some (Inr ws))"

declare run_chans.simps [code]

definition next_bucket :: "'h timing_wheel \<Rightarrow> 'h timing_wheel" where
  "next_bucket w = w\<lparr>m_nextBucket := (m_nextBucket w + 1) smod m_maxBuckets w\<rparr>"

definition onTimer :: "('h, 's) runner \<Rightarrow> 'h timing_wheel \<times> 's \<Rightarrow> (wheel_fault + 'h timing_wheel \<times> 's) option" where
  "onTimer run = (\<lambda>(w, s).
     let b = nat (m_nextBucket w) in
     if length (m_buckets w) \<le> b then Some (Inl Out_of_range)
     else if m_buckets w ! b = [] then Some (Inr (next_bucket w, s))
     else case run_chans run b 0 (w\<lparr>m_curbucket := [], m_ontimer := True\<rparr>, s) of
         None \<Rightarrow> None
       | Some (Inl e) \<Rightarrow> Some (Inl e)
       | Some (Inr (w, s)) \<Rightarrow>
           let w = (if m_curbucket w \<noteq> []
                    then w\<lparr>m_buckets := (m_buckets w)[b := m_curbucket w], m_curbucket := []\<rparr>
                    else w\<lparr>m_buckets := (m_buckets w)[b := []]\<rparr>) in
           Some (Inr (next_bucket (w\<lparr>m_ontimer := False\<rparr>), s)))"

end
