(* ===== verification/WheelFacts.thy ===== *)
theory WheelFacts
  imports TimingWheel
begin

text \<open>
  What the timing wheel does: the agenda of a wheel (what runs how many ticks from now), how adding a
  handler and a tick change it, and handlers that use the wheel while they run.
\<close>

section \<open>The invariant\<close>

definition wheel_ok :: "'h timing_wheel \<Rightarrow> bool" where
  "wheel_ok w \<longleftrightarrow> 0 < m_interval w \<and> 0 < m_maxBuckets w \<and> m_maxBuckets w < 2 ^ 31 \<and>
     m_maxTimeout w = m_interval w * m_maxBuckets w \<and>
     0 \<le> m_nextBucket w \<and> m_nextBucket w < m_maxBuckets w \<and> length (m_buckets w) = nat (m_maxBuckets w)"

lemma new_wheel_ok:
  assumes "0 < interval" and "0 < maxBuckets" and "interval * maxBuckets < 2 ^ 31" and "maxBuckets < 2 ^ 31"
  shows "wheel_ok (new_wheel running interval maxBuckets)"
proof -
  have "0 < interval * maxBuckets" using assms(1,2) by simp
  then have "int32 (interval * maxBuckets) = interval * maxBuckets" using assms(3) by (intro int32_id) linarith+
  then show ?thesis using assms by (simp add: wheel_ok_def new_wheel_def)
qed

lemma smod_mod: "0 \<le> a \<Longrightarrow> 0 < b \<Longrightarrow> a smod b = a mod (b :: int)"
  by (simp add: smod_int_alt_def sgn_if)

lemma sdiv_div: "0 \<le> a \<Longrightarrow> 0 < b \<Longrightarrow> a sdiv b = a div (b :: int)"
  by (simp add: signed_divide_int_def sgn_if)

section \<open>The agenda\<close>

text \<open>
  The bucket that runs \<open>k\<close> ticks from now, and what will run then: during a tick the handlers for a
  whole round later are in \<open>m_curbucket\<close>.
\<close>

definition bucket_at :: "'h timing_wheel \<Rightarrow> nat \<Rightarrow> nat" where
  "bucket_at w k = nat ((m_nextBucket w + int k) mod m_maxBuckets w)"

definition due :: "'h timing_wheel \<Rightarrow> nat \<Rightarrow> 'h option list" where
  "due w k = (if m_ontimer w \<and> k = 0 then m_curbucket w else m_buckets w ! bucket_at w k)"

definition size_of :: "'h timing_wheel \<Rightarrow> nat" where
  "size_of w = nat (m_maxBuckets w)"

definition steps :: "'h timing_wheel \<Rightarrow> int \<Rightarrow> nat" where
  "steps w timeout = nat (timeout div m_interval w)"

lemma bucket_at_0: "wheel_ok w \<Longrightarrow> bucket_at w 0 = nat (m_nextBucket w)"
  by (simp add: bucket_at_def wheel_ok_def)

lemma bucket_at_bound [simp]: "wheel_ok w \<Longrightarrow> bucket_at w k < length (m_buckets w)"
  by (simp add: bucket_at_def wheel_ok_def)

lemma bucket_at_inj:
  assumes "wheel_ok w" and "j < size_of w" and "k < size_of w"
  shows "bucket_at w j = bucket_at w k \<longleftrightarrow> j = k"
proof
  let ?n = "m_maxBuckets w" and ?b = "m_nextBucket w"
  have n: "0 < ?n" "int j < ?n" "int k < ?n" using assms by (auto simp: size_of_def wheel_ok_def)
  assume "bucket_at w j = bucket_at w k"
  then have "(?b + int j) mod ?n = (?b + int k) mod ?n"
    using n(1) unfolding bucket_at_def by (metis nat_eq_iff2 pos_mod_sign)
  then have "int j mod ?n = int k mod ?n" by (metis add_diff_cancel_left' mod_diff_cong)
  then show "j = k" using n by simp
qed simp

lemma bucket_at_update [simp]:
  "bucket_at (w\<lparr>m_curbucket := c\<rparr>) = bucket_at w" "bucket_at (w\<lparr>m_buckets := bs\<rparr>) = bucket_at w"
  "bucket_at (w\<lparr>m_ontimer := x\<rparr>) = bucket_at w"
  by (simp_all add: bucket_at_def fun_eq_iff)

lemma steps_bound:
  assumes "wheel_ok w" and "0 \<le> t" and "t < m_maxTimeout w"
  shows "steps w t < size_of w"
proof -
  have i: "0 < m_interval w" "t < m_interval w * m_maxBuckets w" "0 < m_maxBuckets w"
    using assms by (auto simp: wheel_ok_def)
  have "t div m_interval w < m_maxBuckets w"
  proof (rule ccontr)
    assume "\<not> ?thesis"
    then have "m_interval w * m_maxBuckets w \<le> m_interval w * (t div m_interval w)" using i(1) by simp
    also have "\<dots> \<le> t" using i(1) by (simp flip: minus_mod_eq_mult_div)
    finally show False using i(2) by simp
  qed
  then show ?thesis using i(3) by (simp add: steps_def size_of_def)
qed

section \<open>Adding a handler\<close>

text \<open>\<open>put w k h\<close> is the wheel with \<open>h\<close> added to what is due after \<open>k\<close> ticks.\<close>

definition put :: "'h timing_wheel \<Rightarrow> nat \<Rightarrow> 'h option \<Rightarrow> 'h timing_wheel" where
  "put w k h =
     (if m_ontimer w \<and> k = 0 then w\<lparr>m_curbucket := m_curbucket w @ [h]\<rparr>
      else w\<lparr>m_buckets := (m_buckets w)[bucket_at w k := m_buckets w ! bucket_at w k @ [h]]\<rparr>)"

lemma put_simps [simp]:
  "m_ontimer (put w k h) = m_ontimer w" "m_nextBucket (put w k h) = m_nextBucket w"
  "m_interval (put w k h) = m_interval w" "m_maxBuckets (put w k h) = m_maxBuckets w"
  "m_maxTimeout (put w k h) = m_maxTimeout w" "length (m_buckets (put w k h)) = length (m_buckets w)"
  by (simp_all add: put_def)

lemma put_same [simp]:
  "bucket_at (put w k h) = bucket_at w" "size_of (put w k h) = size_of w" "steps (put w k h) = steps w"
  "wheel_ok (put w k h) = wheel_ok w"
  by (simp_all add: bucket_at_def size_of_def steps_def wheel_ok_def fun_eq_iff)

lemma due_put:
  "wheel_ok w \<Longrightarrow> j < size_of w \<Longrightarrow> k < size_of w \<Longrightarrow>
   due (put w k h) j = due w j @ (if j = k then [h] else [])"
  by (auto simp: due_def put_def bucket_at_inj nth_list_update)

lemma put_current [simp]:
  assumes "wheel_ok w" and "m_ontimer w" and "k < size_of w"
  shows "m_buckets (put w k h) ! bucket_at w 0 = m_buckets w ! bucket_at w 0"
  using assms bucket_at_inj [OF assms(1,3), of 0] by (auto simp: put_def)

lemma add_handler_put:
  assumes ok: "wheel_ok w" and t: "0 \<le> t" "t < m_maxTimeout w"
  shows "add_handler w h t = Inr (put w (steps w t) h,
    Slot (of_nat (bucket_at w (steps w t))) (of_nat (length (due w (steps w t)))))"
proof -
  let ?b = "bucket_at w (steps w t)"
  have n: "0 < m_maxBuckets w" "0 \<le> m_nextBucket w" "0 < m_interval w" "m_maxBuckets w < 2 ^ 31"
    "m_nextBucket w < m_maxBuckets w" "length (m_buckets w) = nat (m_maxBuckets w)"
    using ok by (auto simp: wheel_ok_def)
  have q: "0 \<le> t div m_interval w" using t n by (simp add: pos_imp_zdiv_nonneg_iff)
  then have steps: "int (steps w t) = t div m_interval w" by (simp add: steps_def)
  have s: "steps w t < size_of w" using steps_bound [OF ok t] .
  have b: "(m_nextBucket w + t sdiv m_interval w) smod m_maxBuckets w = int ?b"
    using n q t by (simp add: smod_mod sdiv_div bucket_at_def steps)
  have lt: "?b < 2 ^ 31" using bucket_at_bound [OF ok, of "steps w t"] n by simp
  have un: "unat (of_nat ?b :: u32) = ?b" using lt by (simp add: unsigned_of_nat take_bit_nat_eq_self)
  have un0: "unat (word_of_int (m_nextBucket w) :: u32) = bucket_at w 0"
    using n by (simp add: ok bucket_at_0 unsigned_of_int take_bit_int_eq_self)
  have "(of_nat ?b :: u32) = word_of_int (m_nextBucket w) \<longleftrightarrow> ?b = bucket_at w 0"
    by (metis un un0 unsigned_word_eqI)
  then have "(of_nat ?b :: u32) = word_of_int (m_nextBucket w) \<longleftrightarrow> steps w t = 0"
    using bucket_at_inj [OF ok s, of 0] s by simp
  then show ?thesis
    using t un bucket_at_bound [OF ok, of "steps w t"] by (auto simp: add_handler_def Let_def put_def due_def b)
qed

section \<open>Handlers that add handlers\<close>

text \<open>
  What a handler asks for is a list of handlers with their timeouts, which it adds in turn;
  \<open>run_all\<close> is what a list of handlers does to the state and asks for together.
\<close>

type_synonym 'h request = "'h \<times> int"

fun add_all :: "'h timing_wheel \<Rightarrow> 'h request list \<Rightarrow> wheel_fault + 'h timing_wheel" where
  "add_all w [] = Inr w"
| "add_all w ((h, t) # rs) = (case add_handler w (Some h) t of Inl e \<Rightarrow> Inl e | Inr (w, _) \<Rightarrow> add_all w rs)"

definition put_request :: "'h request \<Rightarrow> 'h timing_wheel \<Rightarrow> 'h timing_wheel" where
  "put_request = (\<lambda>(h, t) w. if t < m_maxTimeout w then put w (steps w t) (Some h) else w)"

definition due_requests :: "'h timing_wheel \<Rightarrow> 'h request list \<Rightarrow> nat \<Rightarrow> 'h option list" where
  "due_requests w rs k = map (Some \<circ> fst) (filter (\<lambda>(h, t). t < m_maxTimeout w \<and> steps w t = k) rs)"

fun run_all :: "('h \<Rightarrow> 's \<Rightarrow> 's) \<Rightarrow> ('h \<Rightarrow> 's \<Rightarrow> 'h request list) \<Rightarrow> 'h list \<Rightarrow> 's \<Rightarrow> 's \<times> 'h request list" where
  "run_all effect asks [] s = (s, [])"
| "run_all effect asks (h # hs) s = (let (s', rs) = run_all effect asks hs (effect h s) in (s', asks h s @ rs))"

lemma put_request_simps [simp]:
  "m_ontimer (put_request r w) = m_ontimer w" "m_nextBucket (put_request r w) = m_nextBucket w"
  "m_interval (put_request r w) = m_interval w" "m_maxBuckets (put_request r w) = m_maxBuckets w"
  "m_maxTimeout (put_request r w) = m_maxTimeout w" "bucket_at (put_request r w) = bucket_at w"
  "size_of (put_request r w) = size_of w" "steps (put_request r w) = steps w" "wheel_ok (put_request r w) = wheel_ok w"
  by (simp_all add: put_request_def split: prod.split)

lemma put_requests_simps [simp]:
  "m_ontimer (fold put_request rs w) = m_ontimer w" "m_nextBucket (fold put_request rs w) = m_nextBucket w"
  "m_interval (fold put_request rs w) = m_interval w" "m_maxBuckets (fold put_request rs w) = m_maxBuckets w"
  "m_maxTimeout (fold put_request rs w) = m_maxTimeout w" "bucket_at (fold put_request rs w) = bucket_at w"
  "size_of (fold put_request rs w) = size_of w" "steps (fold put_request rs w) = steps w"
  "wheel_ok (fold put_request rs w) = wheel_ok w"
  by (induction rs arbitrary: w) simp_all

lemma add_all_put:
  "wheel_ok w \<Longrightarrow> \<forall>(h, t) \<in> set rs. 0 \<le> t \<Longrightarrow> add_all w rs = Inr (fold put_request rs w)"
proof (induction rs arbitrary: w)
  case (Cons r rs)
  obtain h t where r: "r = (h, t)" by (cases r)
  show ?case
  proof (cases "t < m_maxTimeout w")
    case True
    then show ?thesis using Cons by (simp add: r put_request_def add_handler_put)
  next
    case False
    then show ?thesis using Cons by (simp add: r put_request_def add_handler_def)
  qed
qed simp

lemma due_requests_Nil [simp]: "due_requests w [] k = []"
  by (simp add: due_requests_def)

lemma due_requests_Cons:
  "due_requests w ((h, t) # rs) k =
     (if t < m_maxTimeout w \<and> steps w t = k then [Some h] else []) @ due_requests w rs k"
  by (simp add: due_requests_def)

lemma due_requests_put [simp]: "due_requests (put_request r w) = due_requests w"
  by (simp add: due_requests_def fun_eq_iff)

lemma due_put_requests:
  assumes "wheel_ok w" and "\<forall>(h, t) \<in> set rs. 0 \<le> t" and "k < size_of w"
  shows "due (fold put_request rs w) k = due w k @ due_requests w rs k"
  using assms
proof (induction rs arbitrary: w)
  case (Cons r rs)
  obtain h t where r: "r = (h, t)" by (cases r)
  have "due (put_request r w) k = due w k @ due_requests w [r] k"
    using Cons.prems by (auto simp: r put_request_def due_requests_Cons due_put steps_bound)
  then show ?case using Cons.IH [of "put_request r w"] Cons.prems by (simp add: r due_requests_Cons)
qed simp

lemma put_requests_current:
  assumes "wheel_ok w" and "m_ontimer w" and "\<forall>(h, t) \<in> set rs. 0 \<le> t"
  shows "m_buckets (fold put_request rs w) ! bucket_at w 0 = m_buckets w ! bucket_at w 0"
  using assms
proof (induction rs arbitrary: w)
  case (Cons r rs)
  then have "m_buckets (put_request r w) ! bucket_at w 0 = m_buckets w ! bucket_at w 0"
    by (auto simp: put_request_def steps_bound)
  then show ?case using Cons.IH [of "put_request r w"] Cons.prems by simp
qed simp

section \<open>A tick\<close>

text \<open>The end of a tick, and the agenda it leaves.\<close>

definition end_tick :: "'h timing_wheel \<Rightarrow> 'h timing_wheel" where
  "end_tick w = next_bucket
     (w\<lparr>m_buckets := (m_buckets w)[bucket_at w 0 := m_curbucket w], m_curbucket := [], m_ontimer := False\<rparr>)"

lemma next_bucket_simps [simp]:
  "wheel_ok w \<Longrightarrow> wheel_ok (next_bucket w)" "m_ontimer (next_bucket w) = m_ontimer w"
  "m_interval (next_bucket w) = m_interval w" "m_maxBuckets (next_bucket w) = m_maxBuckets w"
  "m_maxTimeout (next_bucket w) = m_maxTimeout w" "size_of (next_bucket w) = size_of w"
  "m_buckets (next_bucket w) = m_buckets w"
  by (auto simp: next_bucket_def wheel_ok_def size_of_def smod_mod)

lemma bucket_at_next: "wheel_ok w \<Longrightarrow> bucket_at (next_bucket w) k = bucket_at w (Suc k)"
  using mod_add_left_eq [of "m_nextBucket w + 1" "m_maxBuckets w" "int k"]
  by (simp add: bucket_at_def next_bucket_def wheel_ok_def smod_mod ac_simps)

lemma bucket_at_size: "wheel_ok w \<Longrightarrow> bucket_at w (size_of w) = bucket_at w 0"
  by (simp add: bucket_at_def size_of_def wheel_ok_def)

lemma end_tick_ok [simp]: "wheel_ok w \<Longrightarrow> wheel_ok (end_tick w)"
  unfolding end_tick_def by (rule next_bucket_simps(1)) (simp add: wheel_ok_def)

lemma end_tick_simps [simp]:
  "\<not> m_ontimer (end_tick w)" "m_interval (end_tick w) = m_interval w"
  "m_maxBuckets (end_tick w) = m_maxBuckets w" "m_maxTimeout (end_tick w) = m_maxTimeout w"
  "size_of (end_tick w) = size_of w"
  by (simp_all add: end_tick_def size_of_def)

lemma end_tick_cases:
  "b = bucket_at w 0 \<Longrightarrow>
   next_bucket (w\<lparr>m_buckets := (m_buckets w)[b := m_curbucket w], m_curbucket := [], m_ontimer := False\<rparr>) = end_tick w"
  "b = bucket_at w 0 \<Longrightarrow> m_curbucket w = [] \<Longrightarrow>
   next_bucket (w\<lparr>m_buckets := (m_buckets w)[b := []], m_ontimer := False\<rparr>) = end_tick w"
  unfolding end_tick_def by (cases w; simp)+

lemma due_end_tick:
  assumes "wheel_ok w" and "m_ontimer w" and "k < size_of w"
  shows "due (end_tick w) k = due w (if Suc k < size_of w then Suc k else 0)"
proof -
  let ?w = "w\<lparr>m_buckets := (m_buckets w)[bucket_at w 0 := m_curbucket w], m_curbucket := [], m_ontimer := False\<rparr>"
  have ok: "wheel_ok ?w" using assms(1) by (simp add: wheel_ok_def)
  have at: "bucket_at (end_tick w) k = bucket_at w (Suc k)"
    using bucket_at_next [OF ok, of k] by (simp add: end_tick_def)
  have "due (end_tick w) k = (m_buckets w)[bucket_at w 0 := m_curbucket w] ! bucket_at w (Suc k)"
    by (simp add: due_def at) (simp add: end_tick_def)
  also have "\<dots> = due w (if Suc k < size_of w then Suc k else 0)"
  proof (cases "Suc k < size_of w")
    case True
    then have "bucket_at w (Suc k) \<noteq> bucket_at w 0" using bucket_at_inj [OF assms(1) True, of 0] by simp
    then show ?thesis using True by (simp add: due_def nth_list_update)
  next
    case False
    then have "Suc k = size_of w" using assms(3) by simp
    then show ?thesis using assms(1,2) by (simp add: due_def bucket_at_size nth_list_update)
  qed
  finally show ?thesis .
qed

text \<open>A contract for handlers: all they do with the wheel is to add handlers.\<close>

locale wheel_client =
  fixes run :: "('h, 's) runner" and effect :: "'h \<Rightarrow> 's \<Rightarrow> 's" and asks :: "'h \<Rightarrow> 's \<Rightarrow> 'h request list"
    and good :: "'s \<Rightarrow> bool"
  assumes run_asks: "good s \<Longrightarrow> run h (w, s) = map_sum id (\<lambda>w. (w, effect h s)) (add_all w (asks h s))"
    and asks_later: "good s \<Longrightarrow> (g, t) \<in> set (asks h s) \<Longrightarrow> 0 \<le> t"
    and effect_good: "good s \<Longrightarrow> good (effect h s)"
begin

lemma run_all_later: "good s \<Longrightarrow> (g, t) \<in> set (snd (run_all effect asks hs s)) \<Longrightarrow> 0 \<le> t"
  by (induction hs arbitrary: s) (auto simp: Let_def case_prod_beta dest: asks_later, blast intro: effect_good)

lemma run_all_good: "good s \<Longrightarrow> good (fst (run_all effect asks hs s))"
  by (induction hs arbitrary: s) (simp_all add: Let_def case_prod_beta effect_good)

lemma run_chans_all:
  assumes "wheel_ok w" and "m_ontimer w" and "b = bucket_at w 0" and "drop i (m_buckets w ! b) = map Some hs"
    and "good s"
  shows "run_chans run b i (w, s) =
    (let (s', rs) = run_all effect asks hs s in Some (Inr (fold put_request rs w, s')))"
  using assms
proof (induction hs arbitrary: i w s)
  case Nil
  then show ?case by (simp add: run_chans.simps)
next
  case (Cons h hs)
  let ?w = "fold put_request (asks h s) w"
  have later: "\<forall>(g, t) \<in> set (asks h s). 0 \<le> t" using asks_later [OF Cons.prems(5)] by blast
  have i: "i < length (m_buckets w ! b)" "m_buckets w ! b ! i = Some h" "drop (Suc i) (m_buckets w ! b) = map Some hs"
    using Cons.prems(4) by (auto simp: nth_via_drop drop_Suc simp flip: tl_drop intro: ccontr)
  have "run h (w, s) = Inr (?w, effect h s)" using Cons.prems(1,5) later by (simp add: run_asks add_all_put)
  then have "run_chans run b i (w, s) = run_chans run b (Suc i) (?w, effect h s)"
    using i by (simp add: run_chans.simps)
  also have "\<dots> = (let (s', rs) = run_all effect asks hs (effect h s) in Some (Inr (fold put_request rs ?w, s')))"
    using Cons.prems i(3) later by (intro Cons.IH) (simp_all add: put_requests_current effect_good)
  finally show ?case by (simp add: Let_def split: prod.split)
qed

lemma onTimer_tick:
  assumes ok: "wheel_ok w" and off: "\<not> m_ontimer w" and hs: "due w 0 = map Some hs"
    and good: "good s" and all: "run_all effect asks hs s = (s', rs)"
  obtains w' where "onTimer run (w, s) = Some (Inr (w', s'))" and "wheel_ok w'" and "\<not> m_ontimer w'"
    and "m_interval w' = m_interval w" and "m_maxBuckets w' = m_maxBuckets w" and "m_maxTimeout w' = m_maxTimeout w"
    and "\<And>k. k < size_of w \<Longrightarrow> due w' k =
      (if Suc k < size_of w then due w (Suc k) @ due_requests w rs (Suc k) else due_requests w rs 0)"
proof -
  let ?b = "bucket_at w 0" and ?w = "w\<lparr>m_curbucket := [], m_ontimer := True\<rparr>"
  have b: "nat (m_nextBucket w) = ?b" "?b < length (m_buckets w)" using ok by (simp_all add: bucket_at_0 [symmetric])
  have chans: "m_buckets w ! ?b = map Some hs" using hs off by (simp add: due_def)
  have ok': "wheel_ok ?w" using ok by (simp add: wheel_ok_def)
  have later: "\<forall>(g, t) \<in> set rs. 0 \<le> t" using run_all_later [OF good, of _ _ hs] all by auto
  let ?v = "fold put_request rs ?w"
  have agenda: "due (end_tick ?v) k =
      (if Suc k < size_of w then due w (Suc k) @ due_requests w rs (Suc k) else due_requests w rs 0)"
    if "k < size_of w" for k
  proof -
    have "due (end_tick ?v) k = due ?v (if Suc k < size_of w then Suc k else 0)"
      using due_end_tick [of ?v k] ok' that by (simp add: size_of_def)
    also have "\<dots> = due ?w (if Suc k < size_of w then Suc k else 0) @
        due_requests ?w rs (if Suc k < size_of w then Suc k else 0)"
      by (rule due_put_requests) (use ok' later that in \<open>auto simp: size_of_def\<close>)
    finally show ?thesis using off by (simp add: due_def due_requests_def steps_def)
  qed
  show ?thesis
  proof (cases "hs = []")
    case True
    then have "onTimer run (w, s) = Some (Inr (next_bucket w, s'))" "rs = []"
      using chans all b by (simp_all add: onTimer_def)
    moreover have "due (next_bucket w) k = (if Suc k < size_of w then due w (Suc k) else [])" if "k < size_of w" for k
    proof (cases "Suc k < size_of w")
      case False
      then have "Suc k = size_of w" using that by simp
      then show ?thesis using ok off chans True by (simp add: due_def bucket_at_next bucket_at_size)
    qed (use ok off in \<open>simp add: due_def bucket_at_next\<close>)
    ultimately show ?thesis using ok off by (intro that [of "next_bucket w"]) simp_all
  next
    case False
    have "run_chans run ?b 0 (?w, s) = Some (Inr (?v, s'))"
      using run_chans_all [of ?w ?b 0 hs s] ok' chans all good by simp
    then have "onTimer run (w, s) = Some (Inr (end_tick ?v, s'))"
      using chans False b by (simp add: onTimer_def Let_def end_tick_cases)
    then show ?thesis using agenda ok' by (intro that [of "end_tick ?v"]) simp_all
  qed
qed

end

end
