(* ===== verification/EventLoop.thy ===== *)
theory EventLoop
  imports WheelFacts
begin

text \<open>
  \<open>src/src/ioloop.cpp\<close>, \<open>src/src/poller.cpp\<close> and \<open>src/src/ioevent.h\<close>: the table of handlers by file
  descriptor, the interest it registers with epoll, deferred removal, callbacks and one round of the loop.
  The system calls are functions of a record \<open>os\<close> over a state of type \<open>'k\<close>, of which nothing is assumed
  here. Faults: an allocation that no memory satisfies, an index outside a vector, a division by zero in the server, and
  the faults of the wheel.
\<close>

section \<open>System calls\<close>

datatype epoll_op = EPOLL_CTL_ADD | EPOLL_CTL_MOD | EPOLL_CTL_DEL

datatype epoll_flag = EPOLLIN | EPOLLOUT | EPOLLERR | EPOLLHUP | EPOLLRDHUP

text \<open>
  \<open>epoll_ctl\<close> says whether it succeeded. \<open>epoll_wait\<close> gives the ready descriptors, or nothing on error.
  \<open>writev\<close> and \<open>recv\<close> give the count or -1, and the value of \<open>errno\<close>; \<open>recv\<close> also the bytes.
\<close>

record 'k os =
  epoll_ctl :: "epoll_op \<Rightarrow> int \<Rightarrow> epoll_flag set \<Rightarrow> 'k \<Rightarrow> bool \<times> 'k"
  epoll_wait :: "nat \<Rightarrow> 'k \<Rightarrow> (int \<times> epoll_flag set) list option \<times> 'k"
  writev :: "int \<Rightarrow> string \<Rightarrow> 'k \<Rightarrow> (int \<times> int) \<times> 'k"
  recv :: "int \<Rightarrow> nat \<Rightarrow> 'k \<Rightarrow> (int \<times> int \<times> string) \<times> 'k"
  sys_connect :: "int \<Rightarrow> 'k \<Rightarrow> (int \<times> int) \<times> 'k"
  so_error :: "int \<Rightarrow> 'k \<Rightarrow> int \<times> 'k"
  sys_close :: "int \<Rightarrow> 'k \<Rightarrow> 'k"
  monotonic :: "'k \<Rightarrow> u64 \<times> 'k"

section \<open>The loop\<close>

abbreviation TNET_NONE :: u32 where "TNET_NONE \<equiv> 0x00000000"
abbreviation TNET_READ :: u32 where "TNET_READ \<equiv> 0x00000001"
abbreviation TNET_WRITE :: u32 where "TNET_WRITE \<equiv> 0x00000002"
abbreviation TNET_ERROR :: u32 where "TNET_ERROR \<equiv> 0x80000000"

datatype loop_fault = Bad_alloc | Out_of_bounds | Wheel_fault wheel_fault | Division_by_zero | Out_of_fuel

record 'h io_event =
  ev_events :: u32
  ev_handler :: 'h

record ('h, 'c, 'k) ioloop =
  loop_running :: bool
  m_events :: "'h io_event option list"
  m_delevents :: "int list"
  m_callbacks :: "'c list"
  m_wheel :: "'h timing_wheel"
  m_eventSize :: nat
  kernel :: 'k

definition DefaultEventsCapacity :: nat where "DefaultEventsCapacity = 1024"
definition DefaultEventSize :: nat where "DefaultEventSize = 1024"
definition MaxEventSize :: nat where "MaxEventSize = 10240"

definition new_ioloop :: "bool \<Rightarrow> 'k \<Rightarrow> ('h, 'c, 'k) ioloop" where
  "new_ioloop garbage k =
     \<lparr>loop_running = False, m_events = replicate DefaultEventsCapacity None, m_delevents = [], m_callbacks = [],
      m_wheel = new_wheel garbage 1000 3600, m_eventSize = DefaultEventSize, kernel = k\<rparr>"

section \<open>The poller\<close>

definition epoll_flags :: "u32 \<Rightarrow> epoll_flag set" where
  "epoll_flags events = (if events AND TNET_READ \<noteq> 0 then {EPOLLIN} else {}) \<union>
     (if events AND TNET_WRITE \<noteq> 0 then {EPOLLOUT} else {})"

definition poller_add :: "'k os \<Rightarrow> int \<Rightarrow> u32 \<Rightarrow> 'k \<Rightarrow> int \<times> 'k" where
  "poller_add os fd events k =
     (case epoll_ctl os EPOLL_CTL_ADD fd (epoll_flags events) k of
        (True, k) \<Rightarrow> (0, k)
      | (False, k) \<Rightarrow>
          (case epoll_ctl os EPOLL_CTL_MOD fd (epoll_flags events) k of
             (True, k) \<Rightarrow> (0, k)
           | (False, k) \<Rightarrow> (- 1, k)))"

definition poller_update :: "'k os \<Rightarrow> int \<Rightarrow> u32 \<Rightarrow> 'k \<Rightarrow> int \<times> 'k" where
  "poller_update os fd events k =
     (case epoll_ctl os EPOLL_CTL_MOD fd (epoll_flags events) k of (ok, k) \<Rightarrow> (if ok then 0 else - 1, k))"

definition poller_remove :: "'k os \<Rightarrow> int \<Rightarrow> 'k \<Rightarrow> int \<times> 'k" where
  "poller_remove os fd k = (0, snd (epoll_ctl os EPOLL_CTL_DEL fd {} k))"

section \<open>The table of handlers\<close>

text \<open>
  A descriptor is compared with the size of the table after a conversion to \<open>size_t\<close>; the table is
  resized to \<open>fd + 1\<close>, which is computed in \<open>int\<close>.
\<close>

definition in_table :: "'h io_event option list \<Rightarrow> int \<Rightarrow> bool" where
  "in_table evs fd \<longleftrightarrow> \<not> of_nat (length evs) \<le> (word_of_int fd :: u64)"

definition resize_table :: "'h io_event option list \<Rightarrow> int \<Rightarrow> loop_fault + 'h io_event option list" where
  "resize_table evs fd =
     (if in_table evs fd then Inr evs
      else if int32 (fd + 1) < 0 then Inl Bad_alloc
      else let n = nat (int32 (fd + 1)) in Inr (take n evs @ replicate (n - length evs) None))"

definition addHandler ::
  "'k os \<Rightarrow> int \<Rightarrow> u32 \<Rightarrow> 'h \<Rightarrow> ('h, 'c, 'k, 'z) ioloop_scheme \<Rightarrow> loop_fault + int \<times> ('h, 'c, 'k, 'z) ioloop_scheme"
where
  "addHandler os fd events handler l =
     (case resize_table (m_events l) fd of
        Inl e \<Rightarrow> Inl e
      | Inr evs \<Rightarrow>
          let l = l\<lparr>m_events := evs\<rparr> in
          if \<not> (0 \<le> fd \<and> fd < int (length evs)) then Inl Out_of_bounds
          else if evs ! nat fd \<noteq> None then Inr (- 1, l)
          else case poller_add os fd events (kernel l) of (res, k) \<Rightarrow>
            let l = l\<lparr>kernel := k\<rparr> in
            if res \<noteq> 0 then Inr (- 1, l)
            else Inr (0, l\<lparr>m_events := evs[nat fd := Some \<lparr>ev_events = events, ev_handler = handler\<rparr>]\<rparr>))"

definition updateHandler ::
  "'k os \<Rightarrow> int \<Rightarrow> u32 \<Rightarrow> ('h, 'c, 'k, 'z) ioloop_scheme \<Rightarrow> int \<times> ('h, 'c, 'k, 'z) ioloop_scheme" where
  "updateHandler os fd events l =
     (if \<not> in_table (m_events l) fd then (- 1, l)
      else case m_events l ! nat fd of
          None \<Rightarrow> (- 1, l)
        | Some ev \<Rightarrow>
            if ev_events ev = events then (0, l)
            else case poller_update os fd events (kernel l) of (res, k) \<Rightarrow>
              let l = l\<lparr>kernel := k\<rparr> in
              if res \<noteq> 0 then (- 1, l)
              else (0, l\<lparr>m_events := (m_events l)[nat fd := Some (ev\<lparr>ev_events := events\<rparr>)]\<rparr>))"

definition removeHandler :: "int \<Rightarrow> ('h, 'c, 'k, 'z) ioloop_scheme \<Rightarrow> int \<times> ('h, 'c, 'k, 'z) ioloop_scheme" where
  "removeHandler fd l =
     (if \<not> in_table (m_events l) fd \<or> m_events l ! nat fd = None then (- 1, l)
      else (0, l\<lparr>m_delevents := m_delevents l @ [fd]\<rparr>))"

definition trueRemoveHandler ::
  "'k os \<Rightarrow> int \<Rightarrow> ('h, 'c, 'k, 'z) ioloop_scheme \<Rightarrow> int \<times> ('h, 'c, 'k, 'z) ioloop_scheme" where
  "trueRemoveHandler os fd l =
     (if \<not> in_table (m_events l) fd \<or> m_events l ! nat fd = None then (- 1, l)
      else (0, l\<lparr>kernel := snd (poller_remove os fd (kernel l)), m_events := (m_events l)[nat fd := None]\<rparr>))"

definition checkDelEvents :: "'k os \<Rightarrow> ('h, 'c, 'k, 'z) ioloop_scheme \<Rightarrow> ('h, 'c, 'k, 'z) ioloop_scheme" where
  "checkDelEvents os l = (fold (\<lambda>fd l. snd (trueRemoveHandler os fd l)) (m_delevents l) l)\<lparr>m_delevents := []\<rparr>"

section \<open>Callbacks and the wheel\<close>

text \<open>\<open>notify\<close> wakes the poller: a write to its descriptor, which only the kernel sees.\<close>

definition addCallback :: "('k \<Rightarrow> 'k) \<Rightarrow> 'c \<Rightarrow> ('h, 'c, 'k, 'z) ioloop_scheme \<Rightarrow> ('h, 'c, 'k, 'z) ioloop_scheme" where
  "addCallback notify callback l = l\<lparr>m_callbacks := m_callbacks l @ [callback], kernel := notify (kernel l)\<rparr>"

definition runInWheel ::
  "int \<Rightarrow> 'h \<Rightarrow> ('h, 'c, 'k, 'z) ioloop_scheme \<Rightarrow> loop_fault + ('h, 'c, 'k, 'z) ioloop_scheme" where
  "runInWheel timeout handler l =
     (case add_handler (m_wheel l) (Some handler) timeout of
        Inl e \<Rightarrow> Inl (Wheel_fault e)
      | Inr (w, _) \<Rightarrow> Inr (l\<lparr>m_wheel := w\<rparr>))"

definition loop_stop :: "('k \<Rightarrow> 'k) \<Rightarrow> ('h, 'c, 'k, 'z) ioloop_scheme \<Rightarrow> ('h, 'c, 'k, 'z) ioloop_scheme" where
  "loop_stop notify l = (if \<not> loop_running l then l else l\<lparr>loop_running := False, kernel := notify (kernel l)\<rparr>)"

section \<open>A round of the loop\<close>

text \<open>What a handler or callback does is a function of the state, given by the rest of the program.\<close>

type_synonym 's action = "'s \<Rightarrow> loop_fault + 's"

fun run_actions :: "('x \<Rightarrow> 's action) \<Rightarrow> 'x list \<Rightarrow> 's action" where
  "run_actions act [] s = Inr s"
| "run_actions act (x # xs) s = (case act x s of Inl e \<Rightarrow> Inl e | Inr s \<Rightarrow> run_actions act xs s)"

definition handleCallbacks ::
  "('c \<Rightarrow> ('h, 'c, 'k, 'z) ioloop_scheme action) \<Rightarrow> ('h, 'c, 'k, 'z) ioloop_scheme action" where
  "handleCallbacks call l = run_actions call (m_callbacks l) (l\<lparr>m_callbacks := []\<rparr>)"

definition got_events :: "epoll_flag set \<Rightarrow> u32" where
  "got_events flags =
     (if EPOLLOUT \<in> flags \<or> EPOLLERR \<in> flags \<or> EPOLLHUP \<in> flags then TNET_WRITE else 0) OR
     (if EPOLLIN \<in> flags \<or> EPOLLERR \<in> flags \<or> EPOLLHUP \<in> flags \<or> EPOLLRDHUP \<in> flags then TNET_READ else 0)"

definition dispatch ::
  "'k os \<Rightarrow> ('h \<Rightarrow> u32 \<Rightarrow> ('h, 'c, 'k, 'z) ioloop_scheme action) \<Rightarrow> int \<times> epoll_flag set \<Rightarrow>
   ('h, 'c, 'k, 'z) ioloop_scheme action" where
  "dispatch os handle = (\<lambda>(fd, flags) l.
     if \<not> (0 \<le> fd \<and> fd < int (length (m_events l))) then Inr l
     else case m_events l ! nat fd of
         None \<Rightarrow> Inr l
       | Some io \<Rightarrow>
           let got = got_events flags; want = ev_events io in
           if got AND NOT want \<noteq> 0
           then case epoll_ctl os (if want \<noteq> 0 then EPOLL_CTL_MOD else EPOLL_CTL_DEL) fd (epoll_flags want) (kernel l) of
               (ok, k) \<Rightarrow> if ok then handle (ev_handler io) got (l\<lparr>kernel := k\<rparr>) else Inr (l\<lparr>kernel := k\<rparr>)
           else handle (ev_handler io) got l)"

definition poll ::
  "'k os \<Rightarrow> ('h \<Rightarrow> u32 \<Rightarrow> ('h, 'c, 'k, 'z) ioloop_scheme action) \<Rightarrow> ('h, 'c, 'k, 'z) ioloop_scheme action" where
  "poll os handle l =
     (case epoll_wait os (m_eventSize l) (kernel l) of
        (None, k) \<Rightarrow> Inr (l\<lparr>kernel := k\<rparr>)
      | (Some ready, k) \<Rightarrow>
          (case run_actions (dispatch os handle) ready (l\<lparr>kernel := k\<rparr>) of
             Inl e \<Rightarrow> Inl e
           | Inr l \<Rightarrow>
               if length ready = m_eventSize l \<and> m_eventSize l \<noteq> MaxEventSize
               then Inr (l\<lparr>m_eventSize := min (m_eventSize l * 2) MaxEventSize\<rparr>)
               else Inr l))"

text \<open>The body of the loop in \<open>run\<close>, and the loop for a number of rounds.\<close>

definition loop_round ::
  "'k os \<Rightarrow> ('h \<Rightarrow> u32 \<Rightarrow> ('h, 'c, 'k, 'z) ioloop_scheme action) \<Rightarrow> ('c \<Rightarrow> ('h, 'c, 'k, 'z) ioloop_scheme action) \<Rightarrow>
   ('h, 'c, 'k, 'z) ioloop_scheme action" where
  "loop_round os handle call l =
     (case poll os handle l of
        Inl e \<Rightarrow> Inl e
      | Inr l \<Rightarrow> (case handleCallbacks call l of Inl e \<Rightarrow> Inl e | Inr l \<Rightarrow> Inr (checkDelEvents os l)))"

fun loop_run ::
  "'k os \<Rightarrow> ('h \<Rightarrow> u32 \<Rightarrow> ('h, 'c, 'k, 'z) ioloop_scheme action) \<Rightarrow> ('c \<Rightarrow> ('h, 'c, 'k, 'z) ioloop_scheme action) \<Rightarrow>
   nat \<Rightarrow> ('h, 'c, 'k, 'z) ioloop_scheme action" where
  "loop_run os handle call 0 l = Inl Out_of_fuel"
| "loop_run os handle call (Suc n) l =
     (if \<not> loop_running l then Inr l
      else case loop_round os handle call l of Inl e \<Rightarrow> Inl e | Inr l \<Rightarrow> loop_run os handle call n l)"

end
