(* ===== verification/Connection.thy ===== *)
theory Connection
  imports EventLoop
begin

text \<open>
  \<open>src/src/connection.cpp\<close>: a connection over a non-blocking socket, its status, its buffer of bytes to
  send, and its calls to the loop and to the callback of the program.

  The program's callback is an application: for an event on a connection it changes its state and makes
  calls on connections, in order, each with its own effects (which may lead to further events before the
  next call). The nesting of callbacks in callbacks is bounded by a fuel, and its end is a fault. Two
  fields record what no code reads: the bytes a connection has accepted and the bytes the kernel took.
\<close>

section \<open>Connections\<close>

datatype conn_status = None_status | Connecting | Connected | Disconnecting | Disconnected

datatype conn_event =
    Conn_ListenEvent
  | Conn_ConnFailEvent
  | Conn_ConnectEvent
  | Conn_ReadEvent string
  | Conn_WriteCompleteEvent
  | Conn_ErrorEvent
  | Conn_CloseEvent

record conn =
  m_callback :: bool
  m_fd :: int
  m_status :: conn_status
  m_lastActiveTime :: u64
  m_IdleTimeout :: u64
  m_sendBuffer :: string

definition new_conn :: "int \<Rightarrow> conn" where
  "new_conn fd = \<lparr>m_callback = False, m_fd = fd, m_status = None_status, m_lastActiveTime = 0, m_IdleTimeout = 0,
     m_sendBuffer = []\<rparr>"

text \<open>The closures of the program that the loop and its wheel hold, by the number of the connection.\<close>

datatype handler =
    Conn_onHandler nat
  | Conn_handleClose nat

datatype conn_call =
    Send string
  | ShutDown int
  | ClearEventCallback
  | SetEventCallback
  | SetIdleTimeout u64

record ('a, 'c, 'k) world = "(handler, 'c, 'k) ioloop" +
  conns :: "nat \<Rightarrow> conn"
  app :: 'a
  accepted :: "nat \<Rightarrow> string"
  taken :: "nat \<Rightarrow> string"

text \<open>The application: what it does on an event.\<close>

type_synonym 'a application = "nat \<Rightarrow> conn_event \<Rightarrow> 'a \<Rightarrow> 'a \<times> (nat \<times> conn_call) list"

text \<open>How an event is delivered: with the fuel for the callbacks below.\<close>

type_synonym 's notifier = "nat \<Rightarrow> conn_event \<Rightarrow> 's action"

abbreviation EAGAIN :: int where "EAGAIN \<equiv> 11"

definition MaxReadBuffer :: nat where "MaxReadBuffer = 4096"

definition set_conn :: "nat \<Rightarrow> (conn \<Rightarrow> conn) \<Rightarrow> ('a, 'c, 'k, 'z) world_scheme \<Rightarrow> ('a, 'c, 'k, 'z) world_scheme" where
  "set_conn c f w = w\<lparr>conns := (conns w)(c := f (conns w c))\<rparr>"

definition notify_callback :: "('a, 'c, 'k, 'z) world_scheme notifier \<Rightarrow> nat \<Rightarrow> conn_event \<Rightarrow> ('a, 'c, 'k, 'z) world_scheme action" where
  "notify_callback nt c ev w = (if m_callback (conns w c) then nt c ev w else Inr w)"

definition updateActiveTime :: "'k os \<Rightarrow> nat \<Rightarrow> ('a, 'c, 'k, 'z) world_scheme \<Rightarrow> ('a, 'c, 'k, 'z) world_scheme" where
  "updateActiveTime os c w =
     (case monotonic os (kernel w) of (t, k) \<Rightarrow> set_conn c (m_lastActiveTime_update (\<lambda>_. t)) (w\<lparr>kernel := k\<rparr>))"

definition update_interest :: "'k os \<Rightarrow> nat \<Rightarrow> u32 \<Rightarrow> ('a, 'c, 'k, 'z) world_scheme \<Rightarrow> ('a, 'c, 'k, 'z) world_scheme" where
  "update_interest os c events w = snd (updateHandler os (m_fd (conns w c)) events w)"

text \<open>Registers the handler of the connection; the result of \<open>addHandler\<close> is dropped.\<close>

definition watch :: "'k os \<Rightarrow> nat \<Rightarrow> u32 \<Rightarrow> ('a, 'c, 'k, 'z) world_scheme action" where
  "watch os c events w =
     (if m_fd (conns w c) > 0 then map_sum id snd (addHandler os (m_fd (conns w c)) events (Conn_onHandler c) w)
      else Inr w)"

definition onEstablished :: "('a, 'c, 'k, 'z) world_scheme notifier \<Rightarrow> 'k os \<Rightarrow> nat \<Rightarrow> ('a, 'c, 'k, 'z) world_scheme action" where
  "onEstablished nt os c w =
     (if m_status (conns w c) \<noteq> None_status then Inr w
      else
        let w = updateActiveTime os c (set_conn c (m_status_update (\<lambda>_. Connected)) w) in
        case watch os c TNET_READ w of
          Inl e \<Rightarrow> Inl e
        | Inr w \<Rightarrow> notify_callback nt c Conn_ListenEvent w)"

text \<open>
  \<open>SockUtil::connect\<close> tries again five times while the connection is being made (\<open>EINPROGRESS\<close>,
  \<open>EWOULDBLOCK\<close>, \<open>EALREADY\<close>), and takes \<open>EISCONN\<close> for success.
\<close>

fun connect_loop :: "'k os \<Rightarrow> int \<Rightarrow> nat \<Rightarrow> 'k \<Rightarrow> int \<times> 'k" where
  "connect_loop os fd tries k =
     (case sys_connect os fd k of ((ret, err), k) \<Rightarrow>
        if ret \<ge> 0 then (0, k)
        else if err = 106 then (0, k)
        else if (err = 115 \<or> err = 11 \<or> err = 114) \<and> tries > 0 then connect_loop os fd (tries - 1) k
        else (- 1, k))"

declare connect_loop.simps [simp del]

definition sock_connect :: "'k os \<Rightarrow> int \<Rightarrow> 'k \<Rightarrow> int \<times> 'k" where
  "sock_connect os fd k = connect_loop os fd 5 k"

definition conn_connect :: "('a, 'c, 'k, 'z) world_scheme notifier \<Rightarrow> 'k os \<Rightarrow> nat \<Rightarrow> ('a, 'c, 'k, 'z) world_scheme action" where
  "conn_connect nt os c w =
     (if m_status (conns w c) \<noteq> None_status then Inr w
      else case sock_connect os (m_fd (conns w c)) (kernel w) of (err, k) \<Rightarrow>
        let w = w\<lparr>kernel := k\<rparr> in
        if err < 0 then notify_callback nt c Conn_ConnFailEvent w
        else
          let w = updateActiveTime os c (set_conn c (m_status_update (\<lambda>_. Connected)) w) in
          case watch os c (if m_status (conns w c) = Connected then TNET_READ else TNET_WRITE) w of
            Inl e \<Rightarrow> Inl e
          | Inr w \<Rightarrow> notify_callback nt c Conn_ConnectEvent w)"

section \<open>Closing\<close>

definition disconnect :: "'k os \<Rightarrow> nat \<Rightarrow> ('a, 'c, 'k, 'z) world_scheme \<Rightarrow> bool \<times> ('a, 'c, 'k, 'z) world_scheme" where
  "disconnect os c w =
     (if m_status (conns w c) = Disconnected then (False, w)
      else
        let w = snd (removeHandler (m_fd (conns w c)) (set_conn c (m_status_update (\<lambda>_. Disconnected)) w)) in
        (True, w\<lparr>kernel := sys_close os (m_fd (conns w c)) (kernel w)\<rparr>))"

definition handleError :: "('a, 'c, 'k, 'z) world_scheme notifier \<Rightarrow> 'k os \<Rightarrow> nat \<Rightarrow> ('a, 'c, 'k, 'z) world_scheme action" where
  "handleError nt os c w = notify_callback nt c Conn_ErrorEvent (snd (disconnect os c w))"

definition handleClose :: "('a, 'c, 'k, 'z) world_scheme notifier \<Rightarrow> 'k os \<Rightarrow> nat \<Rightarrow> ('a, 'c, 'k, 'z) world_scheme action" where
  "handleClose nt os c w =
     (case disconnect os c w of (closed, w) \<Rightarrow> if closed then notify_callback nt c Conn_CloseEvent w else Inr w)"

definition conn_shutDown :: "('a, 'c, 'k, 'z) world_scheme notifier \<Rightarrow> 'k os \<Rightarrow> nat \<Rightarrow> int \<Rightarrow> ('a, 'c, 'k, 'z) world_scheme action" where
  "conn_shutDown nt os c after w =
     (if m_status (conns w c) = Disconnecting \<or> m_status (conns w c) = Disconnected then Inr w
      else
        let w = set_conn c (m_status_update (\<lambda>_. Disconnecting)) w in
        if after = 0 then handleClose nt os c w else runInWheel after (Conn_handleClose c) w)"

section \<open>Reading and writing\<close>

definition conn_handleRead :: "('a, 'c, 'k, 'z) world_scheme notifier \<Rightarrow> 'k os \<Rightarrow> nat \<Rightarrow> ('a, 'c, 'k, 'z) world_scheme action" where
  "conn_handleRead nt os c w =
     (if m_status (conns w c) \<noteq> Connected then Inr w
      else case recv os (m_fd (conns w c)) MaxReadBuffer (kernel w) of ((n, err, bytes), k) \<Rightarrow>
        let w = w\<lparr>kernel := k\<rparr> in
        if n > 0 then notify_callback nt c (Conn_ReadEvent (take (nat n) bytes)) (updateActiveTime os c w)
        else if n = 0 then handleClose nt os c w
        else if err = EAGAIN then Inr w
        else handleError nt os c w)"

text \<open>\<open>take_bytes\<close> records what the kernel took; a count beyond the data records the data.\<close>

definition take_bytes :: "nat \<Rightarrow> int \<Rightarrow> string \<Rightarrow> ('a, 'c, 'k, 'z) world_scheme \<Rightarrow> ('a, 'c, 'k, 'z) world_scheme" where
  "take_bytes c n bytes w = w\<lparr>taken := (taken w)(c := taken w c @ take (nat n) bytes)\<rparr>"

definition handleWrite :: "('a, 'c, 'k, 'z) world_scheme notifier \<Rightarrow> 'k os \<Rightarrow> nat \<Rightarrow> string \<Rightarrow> ('a, 'c, 'k, 'z) world_scheme action" where
  "handleWrite nt os c data w =
     (if m_status (conns w c) \<noteq> Connected then Inr w
      else
        let buf = m_sendBuffer (conns w c) in
        if buf = [] \<and> data = [] then Inr (update_interest os c TNET_READ w)
        else case writev os (m_fd (conns w c)) (buf @ data) (kernel w) of ((n, err), k) \<Rightarrow>
          let totalSize = int32 (int (length buf + length data)); w = take_bytes c n (buf @ data) (w\<lparr>kernel := k\<rparr>) in
          if n = totalSize then
            (case notify_callback nt c Conn_WriteCompleteEvent (set_conn c (m_sendBuffer_update (\<lambda>_. [])) w) of
               Inl e \<Rightarrow> Inl e
             | Inr w \<Rightarrow> Inr (updateActiveTime os c (update_interest os c TNET_READ w)))
          else if n < 0 then
            if err = EAGAIN
            then Inr (update_interest os c (TNET_READ OR TNET_WRITE) (set_conn c (m_sendBuffer_update (\<lambda>b. b @ data)) w))
            else handleError nt os c (set_conn c (m_sendBuffer_update (\<lambda>_. [])) w)
          else
            let rest_data = (if int (length buf) < n then drop (nat (n - int (length buf))) data
                             else drop (nat n) buf @ data) in
            Inr (update_interest os c (TNET_READ OR TNET_WRITE)
              (updateActiveTime os c (set_conn c (m_sendBuffer_update (\<lambda>_. rest_data)) w))))"

text \<open>The result -1 of \<open>send\<close> when the connection is not connected has no effect; the bytes are recorded.\<close>

definition conn_send :: "('a, 'c, 'k, 'z) world_scheme notifier \<Rightarrow> 'k os \<Rightarrow> nat \<Rightarrow> string \<Rightarrow> ('a, 'c, 'k, 'z) world_scheme action" where
  "conn_send nt os c data w =
     (if m_status (conns w c) \<noteq> Connected then Inr w
      else handleWrite nt os c data (w\<lparr>accepted := (accepted w)(c := accepted w c @ data)\<rparr>))"

definition handleConnect :: "('a, 'c, 'k, 'z) world_scheme notifier \<Rightarrow> 'k os \<Rightarrow> nat \<Rightarrow> ('a, 'c, 'k, 'z) world_scheme action" where
  "handleConnect nt os c w =
     (if m_status (conns w c) \<noteq> Connected then Inr w
      else case so_error os (m_fd (conns w c)) (kernel w) of (err, k) \<Rightarrow>
        let w = w\<lparr>kernel := k\<rparr> in
        if err \<noteq> 0 then handleError nt os c w
        else notify_callback nt c Conn_ConnectEvent
          (set_conn c (m_status_update (\<lambda>_. Connected)) (updateActiveTime os c (update_interest os c TNET_READ w))))"

section \<open>Events of the loop\<close>

definition and_then :: "'e + 's \<Rightarrow> ('s \<Rightarrow> 'e + 's) \<Rightarrow> 'e + 's" where
  "and_then r f = (case r of Inl e \<Rightarrow> Inl e | Inr s \<Rightarrow> f s)"

definition conn_onHandler :: "('a, 'c, 'k, 'z) world_scheme notifier \<Rightarrow> 'k os \<Rightarrow> nat \<Rightarrow> u32 \<Rightarrow> ('a, 'c, 'k, 'z) world_scheme action" where
  "conn_onHandler nt os c events w =
     and_then (and_then
       (if events AND TNET_READ \<noteq> 0 then conn_handleRead nt os c w else Inr w)
       (\<lambda>w. if events AND TNET_WRITE \<noteq> 0
         then if m_status (conns w c) = Connecting then handleConnect nt os c w else handleWrite nt os c [] w
         else Inr w))
       (\<lambda>w. if events AND TNET_ERROR \<noteq> 0 then handleError nt os c w else Inr w)"

section \<open>The application's calls\<close>

definition conn_call :: "('a, 'c, 'k, 'z) world_scheme notifier \<Rightarrow> 'k os \<Rightarrow> nat \<times> conn_call \<Rightarrow> ('a, 'c, 'k, 'z) world_scheme action" where
  "conn_call nt os = (\<lambda>(c, call) w.
     case call of
       Send data \<Rightarrow> conn_send nt os c data w
     | ShutDown after \<Rightarrow> conn_shutDown nt os c after w
     | ClearEventCallback \<Rightarrow> Inr (set_conn c (m_callback_update (\<lambda>_. False)) w)
     | SetEventCallback \<Rightarrow> Inr (set_conn c (m_callback_update (\<lambda>_. True)) w)
     | SetIdleTimeout t \<Rightarrow> Inr (set_conn c (m_IdleTimeout_update (\<lambda>_. t)) w))"

text \<open>An event is delivered: the application chooses its calls, which are made one after the other.\<close>

fun deliver_event :: "'a application \<Rightarrow> 'k os \<Rightarrow> nat \<Rightarrow> ('a, 'c, 'k, 'z) world_scheme notifier" where
  "deliver_event ap os 0 c ev w = Inl Out_of_fuel"
| "deliver_event ap os (Suc n) c ev w =
     (case ap c ev (app w) of (a, calls) \<Rightarrow>
        run_actions (conn_call (deliver_event ap os n) os) calls (w\<lparr>app := a\<rparr>))"

end
