(* ===== verification/ConnFacts.thy ===== *)
theory ConnFacts
  imports Connection "HOL-Library.Sublist"
begin

text \<open>
  Connections keep the order of their bytes: what the kernel took and what waits in the buffer is what
  \<open>send\<close> accepted. Each operation keeps the invariant if the callbacks do, and so do the callbacks, by
  induction on their depth.
\<close>

section \<open>What the loop leaves alone\<close>

lemma updateHandler_world [simp]:
  "conns (snd (updateHandler os fd ev w)) = conns w" "app (snd (updateHandler os fd ev w)) = app w"
  "accepted (snd (updateHandler os fd ev w)) = accepted w" "taken (snd (updateHandler os fd ev w)) = taken w"
  by (simp_all add: updateHandler_def Let_def split: option.split prod.split)

lemma removeHandler_world [simp]:
  "conns (snd (removeHandler fd w)) = conns w" "app (snd (removeHandler fd w)) = app w"
  "accepted (snd (removeHandler fd w)) = accepted w" "taken (snd (removeHandler fd w)) = taken w"
  by (simp_all add: removeHandler_def)

lemma update_interest_world [simp]:
  "conns (update_interest os c ev w) = conns w" "app (update_interest os c ev w) = app w"
  "accepted (update_interest os c ev w) = accepted w" "taken (update_interest os c ev w) = taken w"
  by (simp_all add: update_interest_def)

lemma set_conn_world [simp]:
  "conns (set_conn c f w) = (conns w)(c := f (conns w c))" "app (set_conn c f w) = app w"
  "accepted (set_conn c f w) = accepted w" "taken (set_conn c f w) = taken w"
  by (simp_all add: set_conn_def)

lemma updateActiveTime_world [simp]:
  "app (updateActiveTime os c w) = app w"
  "accepted (updateActiveTime os c w) = accepted w" "taken (updateActiveTime os c w) = taken w"
  "m_status (conns (updateActiveTime os c w) d) = m_status (conns w d)"
  "m_sendBuffer (conns (updateActiveTime os c w) d) = m_sendBuffer (conns w d)"
  "m_callback (conns (updateActiveTime os c w) d) = m_callback (conns w d)"
  "m_fd (conns (updateActiveTime os c w) d) = m_fd (conns w d)"
  by (simp_all add: updateActiveTime_def split: prod.split)

lemma take_bytes_world [simp]:
  "conns (take_bytes c n bytes w) = conns w" "app (take_bytes c n bytes w) = app w"
  "accepted (take_bytes c n bytes w) = accepted w"
  "taken (take_bytes c n bytes w) = (taken w)(c := taken w c @ take (nat n) bytes)"
  by (simp_all add: take_bytes_def)

lemma watch_world:
  "watch os c ev w = Inr w' \<Longrightarrow> conns w' = conns w \<and> app w' = app w \<and> accepted w' = accepted w \<and> taken w' = taken w"
  by (auto simp: watch_def addHandler_def Let_def split: if_splits sum.splits prod.splits option.splits)

lemma runInWheel_world:
  "runInWheel t h w = Inr w' \<Longrightarrow> conns w' = conns w \<and> app w' = app w \<and> accepted w' = accepted w \<and> taken w' = taken w"
  by (auto simp: runInWheel_def split: sum.splits)

section \<open>Keeping an invariant\<close>

definition keeps :: "('s \<Rightarrow> bool) \<Rightarrow> 's action \<Rightarrow> bool" where
  "keeps P f \<longleftrightarrow> (\<forall>w w'. P w \<longrightarrow> f w = Inr w' \<longrightarrow> P w')"

lemma keepsI: "(\<And>w w'. P w \<Longrightarrow> f w = Inr w' \<Longrightarrow> P w') \<Longrightarrow> keeps P f"
  by (simp add: keeps_def)

lemma keepsD: "keeps P f \<Longrightarrow> f w = Inr w' \<Longrightarrow> P w \<Longrightarrow> P w'"
  by (simp add: keeps_def)

lemma keeps_run_actions: "(\<And>x. keeps P (act x)) \<Longrightarrow> keeps P (run_actions act xs)"
proof (induction xs)
  case (Cons x xs)
  show ?case
  proof (rule keepsI)
    fix w w'
    assume "P w" "run_actions act (x # xs) w = Inr w'"
    then obtain v where "act x w = Inr v" "run_actions act xs v = Inr w'" by (auto split: sum.splits)
    then show "P w'" using Cons \<open>P w\<close> by (meson keepsD)
  qed
qed (simp add: keeps_def)

lemma keeps_and_then: "keeps P f \<Longrightarrow> keeps P g \<Longrightarrow> keeps P (\<lambda>w. and_then (f w) g)"
  unfolding keeps_def and_then_def by (metis (no_types, lifting) old.sum.simps(5,6) sumE Inl_Inr_False)

section \<open>The stream of a connection\<close>

definition sends :: "conn_status \<Rightarrow> bool" where
  "sends s \<longleftrightarrow> s \<noteq> Disconnecting \<and> s \<noteq> Disconnected"

text \<open>The bytes of \<open>data\<close> have been accepted but are not in the buffer yet.\<close>

definition stream_with :: "string \<Rightarrow> nat \<Rightarrow> ('a, 'c, 'k, 'z) world_scheme \<Rightarrow> bool" where
  "stream_with data c w \<longleftrightarrow> (length (accepted w c) < 2 ^ 31 \<longrightarrow>
     prefix (taken w c @ m_sendBuffer (conns w c)) (accepted w c) \<and>
     (sends (m_status (conns w c)) \<longrightarrow> taken w c @ m_sendBuffer (conns w c) @ data = accepted w c))"

definition streams_ok :: "('a, 'c, 'k, 'z) world_scheme \<Rightarrow> bool" where
  "streams_ok w \<longleftrightarrow> (\<forall>c. stream_with [] c w)"

text \<open>What \<open>writev\<close> promises: the count is -1 or at most the number of bytes given.\<close>

definition writev_ok :: "'k os \<Rightarrow> bool" where
  "writev_ok os \<longleftrightarrow> (\<forall>fd bytes k. let n = fst (fst (writev os fd bytes k)) in - 1 \<le> n \<and> n \<le> int (length bytes))"

lemma stream_same:
  assumes "accepted w' = accepted w" and "taken w' = taken w" and "\<And>c. m_sendBuffer (conns w' c) = m_sendBuffer (conns w c)"
    and "\<And>c. sends (m_status (conns w' c)) \<Longrightarrow> sends (m_status (conns w c))"
  shows "streams_ok w \<Longrightarrow> streams_ok w'"
  using assms by (simp add: streams_ok_def stream_with_def)

lemma stream_upd:
  assumes "\<And>d. d \<noteq> c \<Longrightarrow> stream_with [] d w" and "accepted w' = accepted w"
    and "\<And>d. d \<noteq> c \<Longrightarrow> taken w' d = taken w d" and "\<And>d. d \<noteq> c \<Longrightarrow> conns w' d = conns w d"
    and "stream_with [] c w'"
  shows "streams_ok w'"
  unfolding streams_ok_def
proof
  fix d
  show "stream_with [] d w'" using assms by (cases "d = c") (simp_all add: stream_with_def)
qed

text \<open>A connection that may send no more needs a prefix only.\<close>

lemma disconnect_stream:
  assumes "\<And>d. d \<noteq> c \<Longrightarrow> stream_with [] d w"
    and "length (accepted w c) < 2 ^ 31 \<Longrightarrow> prefix (taken w c @ m_sendBuffer (conns w c)) (accepted w c)"
  shows "streams_ok (snd (disconnect os c w))"
proof (rule stream_upd [OF assms(1)])
  show "stream_with [] c (snd (disconnect os c w))"
    using assms(2) by (auto simp: disconnect_def Let_def stream_with_def sends_def)
qed (auto simp: disconnect_def Let_def)

lemma streams_prefix:
  "streams_ok w \<Longrightarrow> length (accepted w c) < 2 ^ 31 \<Longrightarrow> prefix (taken w c @ m_sendBuffer (conns w c)) (accepted w c)"
  by (simp add: streams_ok_def stream_with_def)

text \<open>The contract of a notifier: the callbacks it makes keep the streams.\<close>

locale callbacks =
  fixes nt :: "('a, 'c, 'k, 'z) world_scheme notifier" and os :: "'k os"
  assumes nt_keeps: "writev_ok os \<Longrightarrow> keeps streams_ok (nt c ev)"
begin

lemma notify_keeps: "writev_ok os \<Longrightarrow> keeps streams_ok (notify_callback nt c ev)"
  using nt_keeps by (auto simp: keeps_def notify_callback_def)

lemma handleClose_keeps: "writev_ok os \<Longrightarrow> keeps streams_ok (handleClose nt os c)"
proof (rule keepsI)
  fix w w'
  assume os: "writev_ok os" and w: "streams_ok w" "handleClose nt os c w = Inr w'"
  have "streams_ok (snd (disconnect os c w))"
    by (rule disconnect_stream) (use w streams_prefix in \<open>auto simp: streams_ok_def\<close>)
  then show "streams_ok w'"
    using w(2) keepsD [OF notify_keeps [OF os]] by (auto simp: handleClose_def split: prod.splits if_splits)
qed

lemma handleError_stream:
  assumes "writev_ok os" and "\<And>d. d \<noteq> c \<Longrightarrow> stream_with [] d w"
    and "length (accepted w c) < 2 ^ 31 \<Longrightarrow> prefix (taken w c @ m_sendBuffer (conns w c)) (accepted w c)"
    and "handleError nt os c w = Inr w'"
  shows "streams_ok w'"
  using keepsD [OF notify_keeps [OF assms(1)]] disconnect_stream [OF assms(2,3)] assms(4)
  by (auto simp: handleError_def)

lemma handleError_keeps: "writev_ok os \<Longrightarrow> keeps streams_ok (handleError nt os c)"
  by (rule keepsI, rule handleError_stream) (auto simp: streams_ok_def streams_prefix)

lemma conn_shutDown_keeps: "writev_ok os \<Longrightarrow> keeps streams_ok (conn_shutDown nt os c after)"
proof (rule keepsI)
  fix w w' :: "('a, 'c, 'k, 'z) world_scheme"
  assume os: "writev_ok os" and w: "streams_ok w" "conn_shutDown nt os c after w = Inr w'"
  let ?w = "set_conn c (m_status_update (\<lambda>_. Disconnecting)) w"
  have v: "streams_ok ?w" by (rule stream_same [OF _ _ _ _ w(1)]) (auto simp: sends_def split: if_splits)
  show "streams_ok w'"
  proof (cases "w' = w")
    case False
    then consider "handleClose nt os c ?w = Inr w'" | "runInWheel after (Conn_handleClose c) ?w = Inr w'"
      using w(2) by (auto simp: conn_shutDown_def Let_def split: if_splits)
    then show ?thesis
    proof cases
      case 2
      show ?thesis by (rule stream_same [OF _ _ _ _ v]) (use runInWheel_world [OF 2] in simp_all)
    qed (use keepsD [OF handleClose_keeps [OF os]] v in blast)
  qed (use w(1) in simp)
qed

lemma onEstablished_keeps: "writev_ok os \<Longrightarrow> keeps streams_ok (onEstablished nt os c)"
proof (rule keepsI)
  fix w w' :: "('a, 'c, 'k, 'z) world_scheme"
  assume os: "writev_ok os" and w: "streams_ok w" "onEstablished nt os c w = Inr w'"
  let ?w = "updateActiveTime os c (set_conn c (m_status_update (\<lambda>_. Connected)) w)"
  show "streams_ok w'"
  proof (cases "m_status (conns w c) = None_status")
    case True
    then obtain v where v: "watch os c TNET_READ ?w = Inr v" "notify_callback nt c Conn_ListenEvent v = Inr w'"
      using w(2) by (auto simp: onEstablished_def Let_def split: sum.splits)
    have "streams_ok v"
      by (rule stream_same [OF _ _ _ _ w(1)]) (use watch_world [OF v(1)] True in \<open>auto simp: sends_def split: if_splits\<close>)
    then show ?thesis using v(2) keepsD [OF notify_keeps [OF os]] by blast
  qed (use w in \<open>simp add: onEstablished_def\<close>)
qed

lemma conn_connect_keeps: "writev_ok os \<Longrightarrow> keeps streams_ok (conn_connect nt os c)"
proof (rule keepsI)
  fix w w' :: "('a, 'c, 'k, 'z) world_scheme"
  assume os: "writev_ok os" and w: "streams_ok w" "conn_connect nt os c w = Inr w'"
  obtain err k where k: "sock_connect os (m_fd (conns w c)) (kernel w) = (err, k)" by (cases "sock_connect os (m_fd (conns w c)) (kernel w)")
  let ?v = "w\<lparr>kernel := k\<rparr>"
  let ?w = "updateActiveTime os c (set_conn c (m_status_update (\<lambda>_. Connected)) ?v)"
  show "streams_ok w'"
  proof (cases "m_status (conns w c) = None_status")
    case True
    then consider "notify_callback nt c Conn_ConnFailEvent ?v = Inr w'"
      | u where "watch os c TNET_READ ?w = Inr u" "notify_callback nt c Conn_ConnectEvent u = Inr w'"
      using w(2) k by (auto simp: conn_connect_def Let_def split: sum.splits if_splits)
    then show ?thesis
    proof cases
      case 1
      have "streams_ok ?v" by (rule stream_same [OF _ _ _ _ w(1)]) simp_all
      then show ?thesis using 1 keepsD [OF notify_keeps [OF os]] by blast
    next
      case 2
      have "streams_ok u"
        by (rule stream_same [OF _ _ _ _ w(1)]) (use watch_world [OF 2(1)] True in \<open>auto simp: sends_def split: if_splits\<close>)
      then show ?thesis using 2(2) keepsD [OF notify_keeps [OF os]] by blast
    qed
  qed (use w in \<open>simp add: conn_connect_def\<close>)
qed

lemma conn_handleRead_keeps: "writev_ok os \<Longrightarrow> keeps streams_ok (conn_handleRead nt os c)"
proof (rule keepsI)
  fix w w' :: "('a, 'c, 'k, 'z) world_scheme"
  assume os: "writev_ok os" and w: "streams_ok w" "conn_handleRead nt os c w = Inr w'"
  obtain n err bytes k where k: "recv os (m_fd (conns w c)) MaxReadBuffer (kernel w) = ((n, err, bytes), k)"
    by (metis prod.collapse)
  let ?v = "w\<lparr>kernel := k\<rparr>"
  have v: "streams_ok ?v" "streams_ok (updateActiveTime os c ?v)"
    by (rule stream_same [OF _ _ _ _ w(1)]; simp)+
  show "streams_ok w'"
    using w v k keepsD [OF notify_keeps [OF os]] keepsD [OF handleClose_keeps [OF os]] keepsD [OF handleError_keeps [OF os]]
    unfolding conn_handleRead_def Let_def by (auto split: if_splits)
qed

text \<open>A write: the bytes of \<open>data\<close> have been accepted.\<close>

lemma handleWrite_stream:
  assumes os: "writev_ok os" and others: "\<And>d. d \<noteq> c \<Longrightarrow> stream_with [] d w" and pending: "stream_with data c w"
    and res: "handleWrite nt os c data w = Inr w'" and closed: "m_status (conns w c) \<noteq> Connected \<Longrightarrow> data = []"
  shows "streams_ok w'"
proof (cases "m_status (conns w c) = Connected \<and> \<not> (m_sendBuffer (conns w c) = [] \<and> data = [])")
  case False
  then have "w' = w \<or> w' = update_interest os c TNET_READ w" "data = []"
    using res closed by (auto simp: handleWrite_def Let_def split: if_splits)
  moreover have "streams_ok w" using others pending \<open>data = []\<close> unfolding streams_ok_def by metis
  ultimately show ?thesis using stream_same [of w' w] by auto
next
  case True
  let ?buf = "m_sendBuffer (conns w c)" and ?acc = "accepted w c"
  obtain n err k where k: "writev os (m_fd (conns w c)) (?buf @ data) (kernel w) = ((n, err), k)"
    by (metis prod.collapse)
  have n: "- 1 \<le> n" "n \<le> int (length (?buf @ data))"
    using os k unfolding writev_ok_def Let_def by (metis fst_conv)+
  have acc: "taken w c @ ?buf @ data = ?acc" if "length ?acc < 2 ^ 31"
    using pending that True by (simp add: stream_with_def sends_def)
  have size: "length ?buf + length data < 2 ^ 31" if "length ?acc < 2 ^ 31"
    using acc [OF that] that by (metis add_lessD1 append_assoc length_append add.commute)
  let ?v = "take_bytes c n (?buf @ data) (w\<lparr>kernel := k\<rparr>)"
  consider (all) "n = int32 (int (length ?buf + length data))"
    | (again) "n = - 1" "err = EAGAIN" "n \<noteq> int32 (int (length ?buf + length data))"
    | (error) "n = - 1" "err \<noteq> EAGAIN" "n \<noteq> int32 (int (length ?buf + length data))"
    | (some) "0 \<le> n" "n \<noteq> int32 (int (length ?buf + length data))"
    using n(1) by linarith
  then show ?thesis
  proof cases
    case all
    let ?u = "set_conn c (m_sendBuffer_update (\<lambda>_. [])) ?v"
    obtain u where u: "notify_callback nt c Conn_WriteCompleteEvent ?u = Inr u"
        "w' = updateActiveTime os c (update_interest os c TNET_READ u)"
      using res True k all by (auto simp: handleWrite_def Let_def split: sum.splits)
    have "nat n = length (?buf @ data)" if "length ?acc < 2 ^ 31"
      using size [OF that] all by (simp del: of_nat_add flip: of_nat_add)
    then have "stream_with [] c ?u" using acc by (auto simp: stream_with_def)
    then have "streams_ok ?u" by (intro stream_upd [OF others]) simp_all
    then have "streams_ok u" using u(1) keepsD [OF notify_keeps [OF os]] by blast
    then show ?thesis using u(2) stream_same [of w' u] by simp
  next
    case again
    then have w': "w' = update_interest os c (TNET_READ OR TNET_WRITE) (set_conn c (m_sendBuffer_update (\<lambda>b. b @ data)) ?v)"
      using res True k by (simp add: handleWrite_def Let_def)
    have "stream_with [] c w'" using acc again by (auto simp: w' stream_with_def)
    then show ?thesis by (intro stream_upd [OF others]) (simp_all add: w')
  next
    case error
    let ?u = "set_conn c (m_sendBuffer_update (\<lambda>_. [])) ?v"
    have err: "handleError nt os c ?u = Inr w'" using res True k error by (simp add: handleWrite_def Let_def)
    show ?thesis
    proof (rule handleError_stream [OF os _ _ err])
      show "stream_with [] d ?u" if "d \<noteq> c" for d using others [OF that] that by (simp add: stream_with_def)
      show "prefix (taken ?u c @ m_sendBuffer (conns ?u c)) (accepted ?u c)" if "length (accepted ?u c) < 2 ^ 31"
      proof -
        have "length ?acc < 2 ^ 31" using that by simp
        then have "prefix (taken w c) ?acc" using acc prefixI [of ?acc "taken w c"] by metis
        then show ?thesis using error by simp
      qed
    qed
  next
    case some
    define left where "left = (if int (length ?buf) < n then drop (nat (n - int (length ?buf))) data
      else drop (nat n) ?buf @ data)"
    have w': "w' = update_interest os c (TNET_READ OR TNET_WRITE)
        (updateActiveTime os c (set_conn c (m_sendBuffer_update (\<lambda>_. left)) ?v))"
      using res True k some by (simp add: handleWrite_def Let_def left_def)
    have "left = drop (nat n) (?buf @ data)" using some by (auto simp: left_def nat_diff_distrib nat_less_iff)
    then have left: "take (nat n) (?buf @ data) @ left = ?buf @ data" by (metis append_take_drop_id)
    then have "(taken w c @ take (nat n) (?buf @ data)) @ left = ?acc" if "length ?acc < 2 ^ 31"
      using acc [OF that] by simp
    then have new: "stream_with [] c w'" unfolding stream_with_def
      by (simp add: w' del: take_append)
    have "conns w' d = conns w d" if "d \<noteq> c" for d
      using that by (simp add: w' updateActiveTime_def split: prod.split)
    then show ?thesis by (intro stream_upd [OF others _ _ _ new]) (simp_all add: w')
  qed
qed

lemma handleWrite_keeps: "writev_ok os \<Longrightarrow> keeps streams_ok (handleWrite nt os c [])"
  by (rule keepsI, rule handleWrite_stream) (auto simp: streams_ok_def)

lemma conn_send_keeps: "writev_ok os \<Longrightarrow> keeps streams_ok (conn_send nt os c data)"
proof (rule keepsI)
  fix w w' :: "('a, 'c, 'k, 'z) world_scheme"
  assume os: "writev_ok os" and w: "streams_ok w" "conn_send nt os c data w = Inr w'"
  let ?w = "w\<lparr>accepted := (accepted w)(c := accepted w c @ data)\<rparr>"
  show "streams_ok w'"
  proof (cases "m_status (conns w c) = Connected")
    case True
    have all: "stream_with [] d w" for d using w(1) by (simp add: streams_ok_def)
    show ?thesis
    proof (rule handleWrite_stream [OF os])
      show "handleWrite nt os c data ?w = Inr w'" using w(2) True by (simp add: conn_send_def)
      show "stream_with data c ?w" using all [of c] by (auto simp: stream_with_def)
      show "stream_with [] d ?w" if "d \<noteq> c" for d using all [of d] that by (simp add: stream_with_def)
    qed (use True in simp)
  qed (use w in \<open>simp add: conn_send_def\<close>)
qed

lemma handleConnect_keeps: "writev_ok os \<Longrightarrow> keeps streams_ok (handleConnect nt os c)"
proof (rule keepsI)
  fix w w' :: "('a, 'c, 'k, 'z) world_scheme"
  assume os: "writev_ok os" and w: "streams_ok w" "handleConnect nt os c w = Inr w'"
  obtain err k where k: "so_error os (m_fd (conns w c)) (kernel w) = (err, k)"
    by (cases "so_error os (m_fd (conns w c)) (kernel w)")
  let ?v = "w\<lparr>kernel := k\<rparr>"
  let ?u = "set_conn c (m_status_update (\<lambda>_. Connected)) (updateActiveTime os c (update_interest os c TNET_READ ?v))"
  show "streams_ok w'"
  proof (cases "m_status (conns w c) = Connected")
    case True
    have "streams_ok ?v" "streams_ok ?u"
      by (rule stream_same [OF _ _ _ _ w(1)]; use True in \<open>auto simp: sends_def split: if_splits\<close>)+
    then show ?thesis
      using w(2) True k keepsD [OF notify_keeps [OF os]] keepsD [OF handleError_keeps [OF os]]
      by (auto simp: handleConnect_def Let_def split: if_splits)
  qed (use w in \<open>simp add: handleConnect_def\<close>)
qed

lemma conn_onHandler_keeps: "writev_ok os \<Longrightarrow> keeps streams_ok (conn_onHandler nt os c events)"
proof (rule keepsI)
  fix w w' :: "('a, 'c, 'k, 'z) world_scheme"
  assume os: "writev_ok os" and w: "streams_ok w" "conn_onHandler nt os c events w = Inr w'"
  obtain u v where u: "u = w \<or> conn_handleRead nt os c w = Inr u"
      and v: "v = u \<or> handleConnect nt os c u = Inr v \<or> handleWrite nt os c [] u = Inr v"
      and w': "w' = v \<or> handleError nt os c v = Inr w'"
    using w(2) by (auto simp: conn_onHandler_def and_then_def split: sum.splits if_splits)
  have "streams_ok u" using u w(1) keepsD [OF conn_handleRead_keeps [OF os]] by blast
  then have "streams_ok v"
    using v keepsD [OF handleConnect_keeps [OF os]] keepsD [OF handleWrite_keeps [OF os]] by blast
  then show "streams_ok w'" using w' keepsD [OF handleError_keeps [OF os]] by blast
qed

lemma conn_call_keeps: "writev_ok os \<Longrightarrow> keeps streams_ok (conn_call nt os cc)"
proof (rule keepsI)
  fix w w' :: "('a, 'c, 'k, 'z) world_scheme"
  assume os: "writev_ok os" and w: "streams_ok w" "conn_call nt os cc w = Inr w'"
  obtain c call where cc: "cc = (c, call)" by (cases cc)
  note keep = keepsD [OF conn_send_keeps [OF os]] keepsD [OF conn_shutDown_keeps [OF os]]
  show "streams_ok w'"
  proof (cases call)
    case (Send data)
    then show ?thesis using w keep(1) by (simp add: cc conn_call_def)
  next
    case (ShutDown after)
    then show ?thesis using w keep(2) by (simp add: cc conn_call_def)
  qed (use w in \<open>auto simp: cc conn_call_def intro: stream_same [OF _ _ _ _ w(1)] split: if_splits\<close>)
qed

end

section \<open>The notifier of an application\<close>

lemma deliver_event_keeps:
  fixes ap :: "'a application" and os :: "'k os"
  assumes "writev_ok os"
  shows "keeps (streams_ok :: ('a, 'c, 'k, 'z) world_scheme \<Rightarrow> bool) (deliver_event ap os n c ev)"
  using assms
proof (induction n arbitrary: c ev)
  case 0
  then show ?case by (simp add: keeps_def)
next
  case (Suc n)
  note c = callbacks.intro [OF Suc.IH]
  show ?case
  proof (rule keepsI)
    fix w w' :: "('a, 'c, 'k, 'z) world_scheme"
    assume w: "streams_ok w" "deliver_event ap os (Suc n) c ev w = Inr w'"
    obtain a calls where a: "ap c ev (app w) = (a, calls)" by (cases "ap c ev (app w)")
    have "streams_ok (w\<lparr>app := a\<rparr>)" by (rule stream_same [OF _ _ _ _ w(1)]) simp_all
    then show "streams_ok w'"
      using w(2) a keepsD [OF keeps_run_actions [OF callbacks.conn_call_keeps [OF c Suc.prems]]] by simp
  qed
qed

interpretation deliver: callbacks "deliver_event ap os n" os for ap os n
  by unfold_locales (rule deliver_event_keeps)

end
