(* ===== verification/ConnProps.thy ===== *)
theory ConnProps
  imports ConnFacts
begin

text \<open>
  Properties of connections: the order of the bytes sent in every run of the program, the interest that
  is lost when a callback sends, and what happens to a connection on a descriptor that is used again
  before the loop has removed its old handler.
\<close>

section \<open>Runs of the program\<close>

datatype conn_step =
    Step_established nat
  | Step_connect nat
  | Step_events nat u32
  | Step_close nat
  | Step_call nat conn_call

fun do_step :: "'a application \<Rightarrow> 'k os \<Rightarrow> nat \<Rightarrow> conn_step \<Rightarrow> ('a, 'c, 'k, 'z) world_scheme action" where
  "do_step ap os n (Step_established c) = onEstablished (deliver_event ap os n) os c"
| "do_step ap os n (Step_connect c) = conn_connect (deliver_event ap os n) os c"
| "do_step ap os n (Step_events c events) = conn_onHandler (deliver_event ap os n) os c events"
| "do_step ap os n (Step_close c) = handleClose (deliver_event ap os n) os c"
| "do_step ap os n (Step_call c call) = conn_call (deliver_event ap os n) os (c, call)"

definition fresh :: "('a, 'c, 'k, 'z) world_scheme \<Rightarrow> bool" where
  "fresh w \<longleftrightarrow> (\<forall>c. m_sendBuffer (conns w c) = [] \<and> accepted w c = [] \<and> taken w c = [])"

lemma do_step_keeps: "writev_ok os \<Longrightarrow> keeps streams_ok (do_step ap os n step)"
  by (cases step)
    (simp_all add: deliver.onEstablished_keeps deliver.conn_connect_keeps deliver.conn_onHandler_keeps
      deliver.handleClose_keeps deliver.conn_call_keeps)

text \<open>A small system: the clock stands still, every call on epoll succeeds, a write takes two bytes.\<close>

definition small_os :: "nat os" where
  "small_os =
     \<lparr>epoll_ctl = (\<lambda>op fd flags k. (True, k)), epoll_wait = (\<lambda>n k. (None, k)),
      writev = (\<lambda>fd bytes k. ((min 2 (int (length bytes)), 0), k)), recv = (\<lambda>fd n k. ((- 1, EAGAIN, []), k)),
      sys_connect = (\<lambda>fd k. ((0, 0), k)), so_error = (\<lambda>fd k. (0, k)), sys_close = (\<lambda>fd k. k),
      monotonic = (\<lambda>k. (of_nat k, k))\<rparr>"

lemma small_os_writev: "writev_ok small_os"
  by (auto simp: writev_ok_def small_os_def Let_def)

text \<open>A loop with a small table and a wheel, before anything happened.\<close>

definition small_world :: "(unit, unit, nat) world" where
  "small_world =
     \<lparr>loop_running = True, m_events = replicate 8 None, m_delevents = [], m_callbacks = [],
      m_wheel = new_wheel True 1000 3600, m_eventSize = 4, kernel = 0, conns = (\<lambda>c. new_conn (int c)), app = (),
      accepted = (\<lambda>c. []), taken = (\<lambda>c. [])\<rparr>"

text \<open>C15: In every run, whatever the application's callbacks do and however few bytes each write takes, the
  bytes the kernel has taken from a connection followed by those in its buffer are a beginning of what
  \<open>send\<close> accepted, and while the connection is connected they are all of it, in order (below 2 GiB, where
  the sum of sizes is an \<open>int\<close>).\<close>

theorem stream_in_order:
  assumes "run_actions (do_step ap os n) run w = Inr w'" and "fresh w" and "writev_ok os"
    and "length (accepted w' c) < 2 ^ 31"
  shows "prefix (taken w' c @ m_sendBuffer (conns w' c)) (accepted w' c) \<and>
    (m_status (conns w' c) = Connected \<longrightarrow> taken w' c @ m_sendBuffer (conns w' c) = accepted w' c)"
proof -
  have "streams_ok w" using assms(2) by (simp add: fresh_def streams_ok_def stream_with_def)
  then have "streams_ok w'" using keepsD [OF keeps_run_actions [OF do_step_keeps [OF assms(3)]] assms(1)] by blast
  then show ?thesis using assms(4) by (simp add: streams_ok_def stream_with_def sends_def)
qed

definition hello_run :: "conn_step list" where
  "hello_run = [Step_established 5, Step_call 5 (Send ''abc''), Step_call 5 (Send ''de''), Step_events 5 TNET_WRITE]"

definition silent :: "'a application" where
  "silent = (\<lambda>c ev a. (a, []))"

lemma hello_result:
  "map_sum id (\<lambda>w. (taken w 5, m_sendBuffer (conns w 5), accepted w 5)) (run_actions (do_step silent small_os 1) hello_run small_world) =
     Inr (''abcde'', [], ''abcde'')"
  by code_simp

theorem stream_in_order_witness:
  "\<exists>w'. run_actions (do_step silent small_os 1) hello_run small_world = Inr w' \<and>
     prefix (taken w' 5 @ m_sendBuffer (conns w' 5)) (accepted w' 5)"
proof -
  obtain w' where w': "run_actions (do_step silent small_os 1) hello_run small_world = Inr w'" "accepted w' 5 = ''abcde''"
    using hello_result by (cases "run_actions (do_step silent small_os 1) hello_run small_world") auto
  have "fresh small_world" by (simp add: fresh_def small_world_def new_conn_def)
  then show ?thesis using stream_in_order [OF w'(1) _ small_os_writev, of 5] w' by simp
qed

section \<open>Interest that is lost\<close>

text \<open>
  After a complete write the callback runs, and then the interest is set to reading alone. When the
  callback has sent bytes that did not all fit, they stay in the buffer of a connected connection and
  no event will send them.
\<close>

definition answers :: "nat application" where
  "answers = (\<lambda>c ev a. if ev = Conn_WriteCompleteEvent \<and> a = 0 then (1, [(c, Send ''xyz'')]) else (a, []))"

definition answers_world :: "(nat, unit, nat) world" where
  "answers_world =
     \<lparr>loop_running = True, m_events = replicate 8 None, m_delevents = [], m_callbacks = [],
      m_wheel = new_wheel True 1000 3600, m_eventSize = 4, kernel = 0,
      conns = (\<lambda>c. (new_conn (int c))\<lparr>m_callback := True\<rparr>), app = 0, accepted = (\<lambda>c. []), taken = (\<lambda>c. [])\<rparr>"

lemma callback_loses_interest:
  "map_sum id (\<lambda>w. (m_status (conns w 5), m_sendBuffer (conns w 5), map_option ev_events (m_events w ! 5)))
     (run_actions (do_step answers small_os 3) [Step_established 5, Step_call 5 (Send ''ab'')] answers_world) =
   Inr (Connected, ''z'', Some TNET_READ)"
  by code_simp

section \<open>A descriptor used again\<close>

definition harmless :: "conn_call \<Rightarrow> bool" where
  "harmless call \<longleftrightarrow> (case call of Send _ \<Rightarrow> False | ShutDown _ \<Rightarrow> False | _ \<Rightarrow> True)"

lemma harmless_calls:
  assumes "\<forall>(d, call) \<in> set calls. harmless call" and "run_actions (conn_call nt os) calls w = Inr w'"
  shows "m_events w' = m_events w \<and> m_delevents w' = m_delevents w \<and>
    (\<forall>d. m_status (conns w' d) = m_status (conns w d))"
  using assms
proof (induction calls arbitrary: w)
  case (Cons x calls)
  obtain d call where x: "x = (d, call)" by (cases x)
  obtain v where v: "conn_call nt os x w = Inr v" "run_actions (conn_call nt os) calls v = Inr w'"
    using Cons.prems(2) by (auto split: sum.splits)
  have "m_events v = m_events w \<and> m_delevents v = m_delevents w \<and> (\<forall>d. m_status (conns v d) = m_status (conns w d))"
    using v(1) Cons.prems(1) by (cases call) (auto simp: x conn_call_def harmless_def set_conn_def)
  then show ?case using Cons.IH [OF _ v(2)] Cons.prems(1) by simp
qed simp

lemma harmless_event:
  assumes "\<And>a. \<forall>(d, call) \<in> set (snd (ap c ev a)). harmless call" and "deliver_event ap os n c ev w = Inr w'"
  shows "m_events w' = m_events w \<and> m_delevents w' = m_delevents w \<and>
    (\<forall>d. m_status (conns w' d) = m_status (conns w d))"
proof (cases n)
  case (Suc m)
  obtain a calls where a: "ap c ev (app w) = (a, calls)" by (cases "ap c ev (app w)")
  then have "\<forall>(d, call) \<in> set calls. harmless call" using assms(1) [of "app w"] by simp
  from harmless_calls [OF this] show ?thesis using assms(2) a Suc by fastforce
qed (use assms(2) in simp)

lemma in_table_iff:
  "0 \<le> fd \<Longrightarrow> length evs < 2 ^ 31 \<Longrightarrow> in_table evs fd \<longleftrightarrow> fd < int (length evs)" if "fd < 2 ^ 31"
proof -
  assume "0 \<le> fd" "length evs < 2 ^ 31"
  then have "uint (of_nat (length evs) :: u64) = int (length evs)" "uint (word_of_int fd :: u64) = fd"
    using that by (simp_all add: unsigned_of_nat unsigned_of_int take_bit_nat_eq_self take_bit_int_eq_self)
  then show ?thesis by (simp add: in_table_def word_le_def not_le)
qed

lemma removed_stays:
  "m_events l ! i = None \<Longrightarrow> m_events (fold (\<lambda>fd l. snd (trueRemoveHandler os fd l)) fds l) ! i = None"
proof (induction fds arbitrary: l)
  case (Cons fd fds)
  have "m_events (snd (trueRemoveHandler os fd l)) ! i = None"
    using Cons.prems
    by (cases "nat fd = i"; cases "i < length (m_events l)") (auto simp: trueRemoveHandler_def)
  then show ?case using Cons.IH by simp
qed simp

lemma removes:
  assumes "fd \<in> set fds" and "0 \<le> fd" and "fd < int (length (m_events l))" and "length (m_events l) < 2 ^ 31"
  shows "m_events (fold (\<lambda>fd l. snd (trueRemoveHandler os fd l)) fds l) ! nat fd = None"
  using assms
proof (induction fds arbitrary: l)
  case (Cons d fds)
  let ?l = "snd (trueRemoveHandler os d l)"
  have len: "length (m_events ?l) = length (m_events l)" by (simp add: trueRemoveHandler_def)
  show ?case
  proof (cases "d = fd")
    case True
    have "m_events ?l ! nat fd = None"
      using Cons.prems in_table_iff [of fd "m_events l"] True by (auto simp: trueRemoveHandler_def)
    then show ?thesis using removed_stays by simp
  next
    case False
    then show ?thesis using Cons.IH [of ?l] Cons.prems len by simp
  qed
qed simp

text \<open>C31: When the kernel gives the descriptor of a connection that was just closed to a new connection
  before the loop has removed the old handler (which it does at the end of the round), the new
  connection finds the place taken and takes itself for connected; then the old handler is removed and
  no event will ever reach the new connection.\<close>

theorem reused_descriptor_unwatched:
  assumes "disconnect os c w = (True, w1)" and "m_fd (conns w c) = fd"
    and "0 < fd" and "fd < int (length (m_events w))" and "length (m_events w) < 2 ^ 31" and "m_events w ! nat fd \<noteq> None"
    and "m_fd (conns w1 d) = fd" and "m_status (conns w1 d) = None_status"
    and "\<And>a. \<forall>(e, call) \<in> set (snd (ap d Conn_ListenEvent a)). harmless call"
    and "onEstablished (deliver_event ap os n) os d w1 = Inr w2"
  shows "m_status (conns w2 d) = Connected \<and> m_events (checkDelEvents os w2) ! nat fd = None"
proof -
  have it: "in_table (m_events w) fd" using in_table_iff [of fd "m_events w"] assms(3-5) by simp
  have w1: "m_events w1 = m_events w" "m_delevents w1 = m_delevents w @ [fd]"
    using assms(1,2,6) it by (auto simp: disconnect_def Let_def removeHandler_def set_conn_def split: if_splits)
  let ?w = "updateActiveTime os d (set_conn d (m_status_update (\<lambda>_. Connected)) w1)"
  have u: "m_events ?w = m_events w" "m_delevents ?w = m_delevents w @ [fd]"
    by (simp_all add: updateActiveTime_def set_conn_def w1 split: prod.split)
  have "watch os d TNET_READ ?w = Inr (?w\<lparr>m_events := m_events w\<rparr>)"
    using assms(3,4,6,7) it
    by (simp add: watch_def addHandler_def resize_table_def u Let_def)
  then have "notify_callback (deliver_event ap os n) d Conn_ListenEvent (?w\<lparr>m_events := m_events w\<rparr>) = Inr w2"
    using assms(8,10) by (simp add: onEstablished_def Let_def)
  then have w2: "m_events w2 = m_events w \<and> m_delevents w2 = m_delevents w @ [fd] \<and> m_status (conns w2 d) = Connected"
    using harmless_event [where ap = ap and c = d and ev = Conn_ListenEvent, OF assms(9), of os n "?w\<lparr>m_events := m_events w\<rparr>" w2] u
    by (auto simp: notify_callback_def split: if_splits)
  then show ?thesis
    using removes [of fd "m_delevents w2" w2 os] assms(3-5) by (simp add: checkDelEvents_def)
qed

text \<open>Connection 5 is closed and connection 6 accepted on its descriptor.\<close>

definition reuse_world :: "(unit, unit, nat) world" where
  "reuse_world = small_world\<lparr>
     m_events := (replicate 8 None)[5 := Some \<lparr>ev_events = TNET_READ, ev_handler = Conn_onHandler 5\<rparr>],
     conns := (\<lambda>c. if c = 5 then (new_conn 5)\<lparr>m_status := Connected\<rparr> else new_conn 5)\<rparr>"

theorem reused_descriptor_unwatched_witness:
  "\<exists>w2. onEstablished (deliver_event silent small_os 1) small_os 6 (snd (disconnect small_os 5 reuse_world)) = Inr w2 \<and>
     m_status (conns w2 6) = Connected \<and> m_events (checkDelEvents small_os w2) ! nat 5 = None"
proof -
  let ?w1 = "snd (disconnect small_os 5 reuse_world)"
  have fst: "fst (disconnect small_os 5 reuse_world)" "m_fd (conns ?w1 6) = 5" "m_status (conns ?w1 6) = None_status"
    by (code_simp, code_simp, code_simp)
  have "isl (onEstablished (deliver_event silent small_os 1) small_os 6 ?w1) = False" by code_simp
  then obtain w2 where w2: "onEstablished (deliver_event silent small_os 1) small_os 6 ?w1 = Inr w2"
    by (cases "onEstablished (deliver_event silent small_os 1) small_os 6 ?w1") auto
  have "disconnect small_os 5 reuse_world = (True, ?w1)" using fst(1) by (metis eq_fst_iff prod.collapse)
  then have "m_status (conns w2 6) = Connected \<and> m_events (checkDelEvents small_os w2) ! nat 5 = None"
    by (rule reused_descriptor_unwatched [where d = 6 and ap = silent and n = 1])
      (use fst w2 in \<open>simp_all add: reuse_world_def small_world_def new_conn_def silent_def\<close>)
  then show ?thesis using w2 by blast
qed

end
