(* ===== verification/WheelProps.thy ===== *)
theory WheelProps
  imports WheelFacts
begin

text \<open>
  Properties of the timing wheel: a tick returns although handlers add handlers while it runs, a
  handler runs at its time, and an emptied slot makes the wheel throw.
\<close>

section \<open>Handlers that only add handlers\<close>

inductive adds :: "'h timing_wheel \<Rightarrow> 'h timing_wheel \<Rightarrow> bool" where
  adds_none: "adds w w"
| adds_one: "adds w v \<Longrightarrow> 0 \<le> t \<Longrightarrow> add_handler v (Some h) t = Inr (u, slot) \<Longrightarrow> adds w u"

definition only_adds :: "('h, 's) runner \<Rightarrow> bool" where
  "only_adds run \<longleftrightarrow> (\<forall>h w s. wheel_ok w \<longrightarrow> (\<exists>w' s'. run h (w, s) = Inr (w', s') \<and> adds w w'))"

lemma only_addsI:
  "(\<And>h w s. wheel_ok w \<Longrightarrow> \<exists>w' s'. run h (w, s) = Inr (w', s') \<and> adds w w') \<Longrightarrow> only_adds run"
  by (simp add: only_adds_def)

definition no_null :: "'h timing_wheel \<Rightarrow> bool" where
  "no_null w \<longleftrightarrow> (\<forall>k < size_of w. None \<notin> set (due w k))"

fun ticks :: "('h, 's) runner \<Rightarrow> nat \<Rightarrow> 'h timing_wheel \<times> 's \<Rightarrow> (wheel_fault + 'h timing_wheel \<times> 's) option" where
  "ticks run 0 ws = Some (Inr ws)"
| "ticks run (Suc n) ws = (case onTimer run ws of Some (Inr ws) \<Rightarrow> ticks run n ws | res \<Rightarrow> res)"

text \<open>The wheel \<open>v\<close> is \<open>w\<close> with handlers added.\<close>

definition extends :: "'h timing_wheel \<Rightarrow> 'h timing_wheel \<Rightarrow> bool" where
  "extends w v \<longleftrightarrow> wheel_ok v \<and> m_ontimer v = m_ontimer w \<and> m_nextBucket v = m_nextBucket w \<and>
     m_interval v = m_interval w \<and> m_maxBuckets v = m_maxBuckets w \<and> m_maxTimeout v = m_maxTimeout w \<and>
     (m_ontimer w \<longrightarrow> m_buckets v ! bucket_at w 0 = m_buckets w ! bucket_at w 0) \<and>
     (\<forall>k < size_of w. \<exists>hs. due v k = due w k @ map Some hs)"

lemma extends_same:
  "extends w v \<Longrightarrow> size_of v = size_of w" "extends w v \<Longrightarrow> bucket_at v = bucket_at w"
  "extends w v \<Longrightarrow> steps v = steps w"
  by (simp_all add: extends_def size_of_def bucket_at_def steps_def fun_eq_iff)

lemma extends_add:
  assumes "extends w v" and "0 \<le> t" and "add_handler v (Some h) t = Inr (u, slot)"
  shows "extends w u"
proof (cases "t < m_maxTimeout v")
  case True
  have ok: "wheel_ok v" using assms(1) by (simp add: extends_def)
  have u: "u = put v (steps v t) (Some h)"
    using add_handler_put [OF ok assms(2) True, of "Some h"] assms(3) by auto
  have step: "steps v t < size_of v" using steps_bound [OF ok assms(2) True] .
  have "\<exists>hs. due u k = due w k @ map Some hs" if k: "k < size_of w" for k
  proof -
    obtain hs where hs: "due v k = due w k @ map Some hs" using assms(1) k by (auto simp: extends_def)
    have "due u k = due w k @ map Some (hs @ (if k = steps v t then [h] else []))"
      using due_put [OF ok _ step, of k] k hs by (simp add: u extends_same [OF assms(1)])
    then show ?thesis by blast
  qed
  moreover have "m_buckets u ! bucket_at w 0 = m_buckets w ! bucket_at w 0" if "m_ontimer w"
    using assms(1) that put_current [OF ok _ step, of "Some h"]
    unfolding extends_def u extends_same(2) [OF assms(1)] by simp
  ultimately show ?thesis using assms(1) unfolding extends_def u by simp
next
  case False
  then have "u = v" using assms(3) by (simp add: add_handler_def)
  then show ?thesis using assms(1) by simp
qed

lemma adds_extends: "adds w v \<Longrightarrow> wheel_ok w \<Longrightarrow> extends w v"
proof (induction rule: adds.induct)
  case (adds_none w)
  then show ?case by (auto simp: extends_def intro: exI [of _ "[]"])
next
  case (adds_one w v t h u slot)
  show ?case by (rule extends_add [OF adds_one.IH [OF adds_one.prems] adds_one.hyps(2,3)])
qed

lemma extends_trans: "extends u v \<Longrightarrow> extends v w \<Longrightarrow> extends u w"
proof -
  assume uv: "extends u v" and vw: "extends v w"
  have "\<exists>hs. due w k = due u k @ map Some hs" if k: "k < size_of u" for k
  proof -
    obtain hs hs' where "due v k = due u k @ map Some hs" "due w k = due v k @ map Some hs'"
      using uv vw k extends_same(1) [OF uv] unfolding extends_def by metis
    then show ?thesis by (intro exI [of _ "hs @ hs'"]) simp
  qed
  then show ?thesis using uv vw extends_same(2) [OF uv] by (simp add: extends_def)
qed

section \<open>A tick\<close>

lemma run_chans_adds:
  assumes "only_adds run" and "wheel_ok w" and "m_ontimer w" and "b = bucket_at w 0"
    and "chans = m_buckets w ! b"
  shows "if None \<in> set (drop i chans) then run_chans run b i (w, s) = Some (Inl Bad_function_call)
    else \<exists>w' s'. run_chans run b i (w, s) = Some (Inr (w', s')) \<and> extends w w'"
  using assms
proof (induction "length chans - i" arbitrary: i w s)
  case 0
  then show ?case by (auto simp: run_chans.simps intro: adds_extends adds_none)
next
  case (Suc n)
  then have i: "i < length chans" by simp
  then have drop: "drop i chans = chans ! i # drop (Suc i) chans" by (simp add: Cons_nth_drop_Suc)
  show ?case
  proof (cases "chans ! i")
    case None
    then show ?thesis using Suc.prems i drop by (simp add: run_chans.simps)
  next
    case (Some h)
    obtain v u where v: "run h (w, s) = Inr (v, u)" "adds w v"
      using Suc.prems(1,2) unfolding only_adds_def by blast
    have wv: "extends w v" using adds_extends [OF v(2) Suc.prems(2)] .
    have step: "run_chans run b i (w, s) = run_chans run b (Suc i) (v, u)"
      using i Some v(1) Suc.prems(5) by (subst run_chans.simps) simp
    have "if None \<in> set (drop (Suc i) chans) then run_chans run b (Suc i) (v, u) = Some (Inl Bad_function_call)
      else \<exists>w' s'. run_chans run b (Suc i) (v, u) = Some (Inr (w', s')) \<and> extends v w'"
      by (rule Suc.hyps(1)) (use Suc.hyps(2) Suc.prems wv extends_same(2) [OF wv] in \<open>auto simp: extends_def\<close>)
    then show ?thesis using drop Some step wv extends_trans by (auto split: if_splits)
  qed
qed

lemma extends_none: "extends w v \<Longrightarrow> k < size_of w \<Longrightarrow> None \<in> set (due v k) \<longleftrightarrow> None \<in> set (due w k)"
  by (auto simp: extends_def dest: spec [of _ k])

lemma onTimer_adds:
  assumes run: "only_adds run" and ok: "wheel_ok w" and off: "\<not> m_ontimer w"
  shows "if None \<in> set (due w 0) then onTimer run (w, s) = Some (Inl Bad_function_call)
    else \<exists>w' s'. onTimer run (w, s) = Some (Inr (w', s')) \<and> wheel_ok w' \<and> \<not> m_ontimer w' \<and>
      size_of w' = size_of w \<and>
      (\<forall>k < size_of w. \<exists>hs. due w' k = (if Suc k < size_of w then due w (Suc k) else []) @ map Some hs)"
proof (cases "due w 0 = []")
  case True
  have b: "nat (m_nextBucket w) = bucket_at w 0" "bucket_at w 0 < length (m_buckets w)"
    using ok by (simp_all add: bucket_at_0 [symmetric])
  have "due (next_bucket w) k = (if Suc k < size_of w then due w (Suc k) else [])" if "k < size_of w" for k
  proof (cases "Suc k < size_of w")
    case False
    then have "Suc k = size_of w" using that by simp
    then show ?thesis using ok off True by (simp add: due_def bucket_at_next bucket_at_size)
  qed (use ok off in \<open>simp add: due_def bucket_at_next\<close>)
  moreover have "onTimer run (w, s) = Some (Inr (next_bucket w, s))"
    using True off b by (simp add: onTimer_def due_def)
  ultimately show ?thesis using True ok off by (auto intro: exI [of _ "[]"])
next
  case False
  let ?b = "bucket_at w 0" and ?w = "w\<lparr>m_curbucket := [], m_ontimer := True\<rparr>"
  have b: "nat (m_nextBucket w) = ?b" "?b < length (m_buckets w)" using ok by (simp_all add: bucket_at_0 [symmetric])
  have chans: "m_buckets w ! ?b = due w 0" using off by (simp add: due_def)
  have ok': "wheel_ok ?w" using ok by (simp add: wheel_ok_def)
  have sz: "size_of ?w = size_of w" by (simp add: size_of_def)
  note loop = run_chans_adds [OF run ok', of ?b "due w 0" 0 s]
  show ?thesis
  proof (cases "None \<in> set (due w 0)")
    case True
    then have "run_chans run ?b 0 (?w, s) = Some (Inl Bad_function_call)" using loop chans by simp
    then show ?thesis using False True b chans by (simp add: onTimer_def)
  next
    case none: False
    then obtain v s' where v: "run_chans run ?b 0 (?w, s) = Some (Inr (v, s'))" "extends ?w v"
      using loop chans by auto
    have v_ok: "wheel_ok v" "m_ontimer v" "?b = bucket_at v 0" "size_of v = size_of w"
      using v(2) extends_same [OF v(2)] sz by (simp_all add: extends_def)
    have "onTimer run (w, s) = Some (Inr (end_tick v, s'))"
      using False b chans v(1) v_ok(3) by (simp add: onTimer_def Let_def end_tick_cases)
    moreover have "\<exists>hs. due (end_tick v) k = (if Suc k < size_of w then due w (Suc k) else []) @ map Some hs"
      if k: "k < size_of w" for k
    proof -
      let ?j = "if Suc k < size_of w then Suc k else 0"
      obtain hs where "due v ?j = due ?w ?j @ map Some hs" using v(2) k sz unfolding extends_def by fastforce
      then show ?thesis using due_end_tick [OF v_ok(1,2), of k] k v_ok(4) off by (auto simp: due_def)
    qed
    ultimately show ?thesis using none v_ok by simp
  qed
qed

lemma ticks_null:
  assumes "only_adds run" and "wheel_ok w" and "\<not> m_ontimer w" and "k < size_of w" and "None \<in> set (due w k)"
  shows "ticks run (Suc k) (w, s) = Some (Inl Bad_function_call)"
  using assms
proof (induction k arbitrary: w s)
  case 0
  then show ?case using onTimer_adds [of run w s] by simp
next
  case (Suc k)
  show ?case
  proof (cases "None \<in> set (due w 0)")
    case True
    then show ?thesis using onTimer_adds [OF Suc.prems(1-3), of s] by simp
  next
    case False
    then obtain w' s' where w': "onTimer run (w, s) = Some (Inr (w', s'))" "wheel_ok w'" "\<not> m_ontimer w'"
        "size_of w' = size_of w"
        "\<forall>k < size_of w. \<exists>hs. due w' k = (if Suc k < size_of w then due w (Suc k) else []) @ map Some hs"
      using onTimer_adds [OF Suc.prems(1-3), of s] by auto
    obtain hs where "due w' k = due w (Suc k) @ map Some hs" using w'(5) [rule_format, of k] Suc.prems(4) by auto
    then have "None \<in> set (due w' k)" using Suc.prems(5) by simp
    then have "ticks run (Suc k) (w', s') = Some (Inl Bad_function_call)"
      using Suc.IH [OF Suc.prems(1) w'(2,3)] w'(4) Suc.prems(4) by simp
    then show ?thesis using w'(1) by simp
  qed
qed

section \<open>Ticks in a row\<close>

lemma onTimer_returns:
  assumes "only_adds run" and "wheel_ok w" and "\<not> m_ontimer w" and "no_null w"
  obtains w' s' where "onTimer run (w, s) = Some (Inr (w', s'))" and "wheel_ok w'" and "\<not> m_ontimer w'"
    and "no_null w'" and "size_of w' = size_of w"
    and "\<And>k. Suc k < size_of w \<Longrightarrow> \<exists>hs. due w' k = due w (Suc k) @ map Some hs"
proof -
  have "None \<notin> set (due w 0)" using assms(2,4) by (simp add: no_null_def size_of_def wheel_ok_def)
  then obtain w' s' where w': "onTimer run (w, s) = Some (Inr (w', s'))" "wheel_ok w'" "\<not> m_ontimer w'"
      "size_of w' = size_of w"
      "\<forall>k < size_of w. \<exists>hs. due w' k = (if Suc k < size_of w then due w (Suc k) else []) @ map Some hs"
    using onTimer_adds [OF assms(1-3), of s] by auto
  have "None \<notin> set (due w' k)" if "k < size_of w" for k
    using w'(5) [rule_format, OF that] assms(4) by (auto simp: no_null_def)
  then have "no_null w'" using w'(4) by (simp add: no_null_def)
  moreover have "\<exists>hs. due w' k = due w (Suc k) @ map Some hs" if "Suc k < size_of w" for k
    using w'(5) [rule_format, of k] that by simp
  ultimately show ?thesis using that [OF w'(1-3)] w'(4) by blast
qed

lemma ticks_return:
  assumes "only_adds run" and "wheel_ok w" and "\<not> m_ontimer w" and "no_null w" and "n < size_of w"
  obtains w' s' hs where "ticks run n (w, s) = Some (Inr (w', s'))" and "wheel_ok w'" and "\<not> m_ontimer w'"
    and "no_null w'" and "due w' 0 = due w n @ map Some hs"
  using assms
proof (induction n arbitrary: thesis w s)
  case 0
  then show ?case by (metis append.right_neutral list.map_disc_iff ticks.simps(1))
next
  case (Suc n)
  obtain v u where v: "onTimer run (w, s) = Some (Inr (v, u))" "wheel_ok v" "\<not> m_ontimer v"
      "no_null v" "size_of v = size_of w" "\<exists>hs. due v n = due w (Suc n) @ map Some hs"
    using onTimer_returns [OF Suc.prems(2-5), of s] Suc.prems(6) by metis
  obtain w' s' hs where w': "ticks run n (v, u) = Some (Inr (w', s'))" "wheel_ok w'" "\<not> m_ontimer w'"
      "no_null w'" "due w' 0 = due v n @ map Some hs"
    using Suc.IH [OF _ Suc.prems(2) v(2-4), of u] Suc.prems(6) v(5) by auto
  obtain hs' where "due v n = due w (Suc n) @ map Some hs'" using v(6) by blast
  then show ?case using Suc.prems(1) [OF _ w'(2-4), of s' "hs' @ hs"] v(1) w'(1,5) by simp
qed

text \<open>The handlers called, in order, as a part of the state.\<close>

definition logging :: "('h, 's) runner \<Rightarrow> ('h, 's \<times> 'h list) runner" where
  "logging run h = (\<lambda>(w, s, log). map_sum id (\<lambda>(w, s). (w, s, log @ [h])) (run h (w, s)))"

lemma logging_adds:
  assumes "only_adds run"
  shows "only_adds (logging run)"
proof (rule only_addsI)
  fix h :: 'a and w :: "'a timing_wheel" and s :: "'b \<times> 'a list"
  assume "wheel_ok w"
  then obtain w' s' where "run h (w, fst s) = Inr (w', s')" "adds w w'" using assms unfolding only_adds_def by blast
  then show "\<exists>w' s'. logging run h (w, s) = Inr (w', s') \<and> adds w w'" by (cases s) (auto simp: logging_def)
qed

lemma run_chans_log:
  assumes "only_adds run" and "wheel_ok w" and "m_ontimer w" and "b = bucket_at w 0"
    and "chans = m_buckets w ! b" and "run_chans (logging run) b i (w, s, log) = Some (Inr (w', s', log'))"
  shows "log' = log @ map the (drop i chans)"
  using assms
proof (induction "length chans - i" arbitrary: i w s log)
  case 0
  then show ?case by (simp add: run_chans.simps)
next
  case (Suc n)
  then have i: "i < length chans" by simp
  then have drop: "drop i chans = chans ! i # drop (Suc i) chans" by (simp add: Cons_nth_drop_Suc)
  obtain h where h: "chans ! i = Some h" using Suc.prems i by (cases "chans ! i") (simp_all add: run_chans.simps)
  obtain v u where v: "run h (w, s) = Inr (v, u)" "adds w v"
    using Suc.prems(1,2) unfolding only_adds_def by blast
  have wv: "extends w v" using adds_extends [OF v(2) Suc.prems(2)] .
  have "run_chans (logging run) b (Suc i) (v, u, log @ [h]) = Some (Inr (w', s', log'))"
    using Suc.prems(5,6) i h v(1) by (subst (asm) run_chans.simps) (simp add: logging_def)
  then have "log' = (log @ [h]) @ map the (drop (Suc i) chans)"
    using Suc.hyps(2) Suc.prems wv extends_same(2) [OF wv]
    by (intro Suc.hyps(1) [of "Suc i" v u "log @ [h]"]) (auto simp: extends_def)
  then show ?case using drop h by simp
qed

lemma onTimer_log:
  assumes "only_adds run" and "wheel_ok w" and "\<not> m_ontimer w"
    and "onTimer (logging run) (w, s, log) = Some (Inr (w', s', log'))"
  shows "log' = log @ map the (due w 0)"
proof -
  let ?b = "bucket_at w 0" and ?w = "w\<lparr>m_curbucket := [], m_ontimer := True\<rparr>"
  have b: "nat (m_nextBucket w) = ?b" "?b < length (m_buckets w)"
    using assms(2) by (simp_all add: bucket_at_0 [symmetric])
  have ok: "wheel_ok ?w" using assms(2) by (simp add: wheel_ok_def)
  have chans: "m_buckets w ! ?b = due w 0" using assms(3) by (simp add: due_def)
  show ?thesis
  proof (cases "due w 0 = []")
    case True
    then show ?thesis using assms(4) b chans by (simp add: onTimer_def)
  next
    case False
    then obtain v where "run_chans (logging run) ?b 0 (?w, s, log) = Some (Inr (v, s', log'))"
      using assms(4) b chans by (auto simp: onTimer_def Let_def split: option.splits sum.splits)
    then show ?thesis using run_chans_log [OF assms(1) ok, of ?b "due w 0" 0] chans by simp
  qed
qed

section \<open>The properties\<close>

text \<open>C16: A tick always returns and keeps the wheel's invariant, although the handlers it runs may add
  handlers to any bucket, the one that runs included: those wait in \<open>m_curbucket\<close> for the next round.\<close>

theorem wheel_tick_returns:
  assumes "only_adds run" and "wheel_ok w" and "\<not> m_ontimer w" and "no_null w"
  shows "\<exists>w' s'. onTimer run (w, s) = Some (Inr (w', s')) \<and> wheel_ok w' \<and> \<not> m_ontimer w' \<and> no_null w'"
  using onTimer_returns [OF assms] by metis

definition again :: "('h, 's) runner" where
  "again h = (\<lambda>(w, s). map_sum id (\<lambda>(w, slot). (w, s)) (add_handler w (Some h) 0))"

lemma again_only_adds: "only_adds again"
proof (rule only_addsI)
  fix h and w :: "'a timing_wheel" and s :: 'b
  assume ok: "wheel_ok w"
  then have "0 < m_maxTimeout w" by (simp add: wheel_ok_def)
  then show "\<exists>w' s'. again h (w, s) = Inr (w', s') \<and> adds w w'"
    using add_handler_put [OF ok, of 0 "Some h"] adds_one [OF adds_none [of w], of 0 h] by (auto simp: again_def)
qed

text \<open>A wheel of three buckets with one handler, which runs at the next tick.\<close>

definition small_wheel :: "nat timing_wheel" where
  "small_wheel = (new_wheel True 10 3)\<lparr>m_buckets := [[Some 5], [], []]\<rparr>"

lemma small_wheel_ok: "wheel_ok small_wheel" "\<not> m_ontimer small_wheel" "no_null small_wheel" "size_of small_wheel = 3"
    "m_maxTimeout small_wheel = 30"
proof -
  show "wheel_ok small_wheel" "\<not> m_ontimer small_wheel" "size_of small_wheel = 3" "m_maxTimeout small_wheel = 30"
    by (simp_all add: small_wheel_def new_wheel_def wheel_ok_def size_of_def int32_id)
  show "no_null small_wheel"
    by (auto simp: no_null_def size_of_def due_def bucket_at_def small_wheel_def new_wheel_def nth_Cons
        numeral_3_eq_3 less_Suc_eq split: nat.splits)
qed

theorem wheel_tick_returns_witness:
  "\<exists>w' s'. onTimer again (small_wheel, ()) = Some (Inr (w', s')) \<and> wheel_ok w' \<and> \<not> m_ontimer w' \<and> no_null w'"
  by (rule wheel_tick_returns) (simp_all add: again_only_adds small_wheel_ok)

text \<open>C30: A handler added with a timeout of \<open>t\<close> milliseconds while no tick runs is called by the tick that
  follows \<open>t div m_interval\<close> more ticks, whatever other handlers the ticks until then run and add.\<close>

theorem wheel_runs_on_time:
  assumes "only_adds run" and "wheel_ok w" and "\<not> m_ontimer w" and "no_null w"
    and "0 \<le> t" and "t < m_maxTimeout w" and "add_handler w (Some h) t = Inr (w1, slot)"
  shows "\<exists>w2 s2 log w3 s3 called.
    ticks (logging run) (nat (t div m_interval w)) (w1, s, []) = Some (Inr (w2, s2, log)) \<and>
    onTimer (logging run) (w2, s2, []) = Some (Inr (w3, s3, called)) \<and> h \<in> set called"
proof -
  let ?n = "nat (t div m_interval w)"
  have n: "?n = steps w t" "steps w t < size_of w" using steps_bound [OF assms(2,5,6)] by (simp_all add: steps_def)
  have w1: "w1 = put w (steps w t) (Some h)"
    using add_handler_put [OF assms(2,5,6), of "Some h"] assms(7) by auto
  have ok: "wheel_ok w1" "\<not> m_ontimer w1" "no_null w1" "Some h \<in> set (due w1 ?n)" "?n < size_of w1"
    using assms(2-4) n by (auto simp: w1 no_null_def due_put)
  obtain w2 s2 log hs where w2: "ticks (logging run) ?n (w1, s, []) = Some (Inr (w2, s2, log))" "wheel_ok w2"
      "\<not> m_ontimer w2" "no_null w2" "due w2 0 = due w1 ?n @ map Some hs"
    using ticks_return [OF logging_adds [OF assms(1)] ok(1-3,5), of "(s, [])"] by (metis prod_cases3 surj_pair)
  obtain w3 s3 called where w3: "onTimer (logging run) (w2, s2, []) = Some (Inr (w3, s3, called))"
    using onTimer_returns [OF logging_adds [OF assms(1)] w2(2-4), of "(s2, [])"] by (metis surj_pair)
  then have "called = map the (due w2 0)" using onTimer_log [OF assms(1) w2(2,3)] by fastforce
  then have "h \<in> set called" using w2(5) ok(4) by force
  then show ?thesis using w2(1) w3 by blast
qed

theorem wheel_runs_on_time_witness:
  "\<exists>w2 s2 log w3 s3 called.
    ticks (logging again) (nat (25 div m_interval small_wheel))
      (small_wheel\<lparr>m_buckets := [[Some 5], [], [Some 6]]\<rparr>, (), []) = Some (Inr (w2, s2, log)) \<and>
    onTimer (logging again) (w2, s2, []) = Some (Inr (w3, s3, called)) \<and> 6 \<in> set called"
proof (rule wheel_runs_on_time)
  show "add_handler small_wheel (Some 6) 25 = Inr (small_wheel\<lparr>m_buckets := [[Some 5], [], [Some 6]]\<rparr>, Slot 2 0)"
    by code_simp
qed (simp_all add: again_only_adds small_wheel_ok)

text \<open>Removing a handler, or updating its timeout, leaves an empty function in its slot (updating also
  loses the handler: what it adds again is empty), and the tick of that bucket calls it, which throws.\<close>

theorem wheel_emptied_slot_throws:
  assumes "only_adds run" and "wheel_ok w" and "\<not> m_ontimer w"
    and "0 \<le> t" and "t < m_maxTimeout w" and "add_handler w (Some h) t = Inr (w1, slot)"
    and "remove_handler w1 slot = Inr w2 \<or> (\<exists>t' slot'. 0 \<le> t' \<and> update_handler w1 slot t' = Inr (w2, slot'))"
    and "length (due w (nat (t div m_interval w))) < 2 ^ 32 - 1"
  shows "ticks run (Suc (nat (t div m_interval w))) (w2, s) = Some (Inl Bad_function_call)"
proof -
  let ?k = "steps w t" and ?b = "bucket_at w (steps w t)"
  have k: "nat (t div m_interval w) = ?k" "?k < size_of w" using steps_bound [OF assms(2,4,5)] by (simp_all add: steps_def)
  have w1: "w1 = put w ?k (Some h)" and slot: "slot = Slot (of_nat ?b) (of_nat (length (due w ?k)))"
    using add_handler_put [OF assms(2,4,5), of "Some h"] assms(6) by auto
  have ok1: "wheel_ok w1" "\<not> m_ontimer w1" "size_of w1 = size_of w" "bucket_at w1 = bucket_at w"
    using assms(2,3) by (simp_all add: w1)
  have chans: "m_buckets w1 ! ?b = due w ?k @ [Some h]"
    using due_put [OF assms(2) k(2) k(2), of "Some h"] ok1(2) by (simp add: w1 due_def)
  have b: "?b < length (m_buckets w1)" "?b < nat (m_maxBuckets w1)" "nat (m_maxBuckets w1) < 2 ^ 31"
    using bucket_at_bound [OF ok1(1), of ?k] ok1 by (auto simp: wheel_ok_def)
  let ?v = "w1\<lparr>m_buckets := (m_buckets w1)[?b := due w ?k @ [None]]\<rparr>"
  have un: "unat (of_nat ?b :: u32) = ?b" "unat (of_nat (length (due w ?k)) :: u32) = length (due w ?k)"
    "(of_nat (length (due w ?k)) :: u32) < of_nat (Suc (length (due w ?k)))"
    "\<not> word_of_int (m_maxBuckets w1) < (of_nat ?b :: u32)"
    using b assms(8) ok1(1) unfolding k(1)
    by (simp_all add: unsigned_of_nat unsigned_of_int take_bit_nat_eq_self take_bit_int_eq_self word_less_nat_alt
        wheel_ok_def del: of_nat_Suc)
  have v: "wheel_ok ?v" "\<not> m_ontimer ?v" "size_of ?v = size_of w" "None \<in> set (due ?v ?k)"
    using ok1 b(1) by (auto simp: wheel_ok_def size_of_def due_def)
  have "w2 = ?v \<or> (\<exists>j. j < size_of w \<and> w2 = put ?v j None)"
    using assms(7)
  proof
    assume "remove_handler w1 slot = Inr w2"
    moreover have "remove_handler w1 slot = Inr ?v"
      unfolding remove_handler_def Let_def slot slot_bucket_Slot slot_id_Slot un chans using un(3,4) b(1) by simp
    ultimately show ?thesis by simp
  next
    assume "\<exists>t' slot'. 0 \<le> t' \<and> update_handler w1 slot t' = Inr (w2, slot')"
    then obtain t' slot' where t': "0 \<le> t'" "update_handler w1 slot t' = Inr (w2, slot')" by blast
    have "update_handler w1 slot t' = add_handler ?v None t'"
      unfolding update_handler_def Let_def slot slot_bucket_Slot slot_id_Slot un chans using un(3,4) b(1)
      by (simp flip: linorder_not_less)
    then have "add_handler ?v None t' = Inr (w2, slot')" using t'(2) by simp
    then show ?thesis
      using add_handler_put [OF v(1) t'(1), of None] steps_bound [OF v(1) t'(1)] v(3)
      by (cases "t' < m_maxTimeout ?v") (auto simp: add_handler_def)
  qed
  then have "wheel_ok w2" "\<not> m_ontimer w2" "size_of w2 = size_of w" "None \<in> set (due w2 ?k)"
    using v k(2) by (auto simp: due_put)
  then show ?thesis using ticks_null [OF assms(1)] k by metis
qed

text \<open>A handler added to the empty wheel, and its removal.\<close>

theorem wheel_emptied_slot_throws_witness:
  "ticks again (Suc (nat (25 div m_interval small_wheel)))
     (small_wheel\<lparr>m_buckets := [[Some 5], [], [None]]\<rparr>, ()) = Some (Inl Bad_function_call)"
proof (rule wheel_emptied_slot_throws)
  show "add_handler small_wheel (Some 6) 25 = Inr (small_wheel\<lparr>m_buckets := [[Some 5], [], [Some 6]]\<rparr>, Slot 2 0)"
    by code_simp
  show "remove_handler (small_wheel\<lparr>m_buckets := [[Some 5], [], [Some 6]]\<rparr>) (Slot 2 0) =
      Inr (small_wheel\<lparr>m_buckets := [[Some 5], [], [None]]\<rparr>) \<or>
    (\<exists>t' slot'. 0 \<le> t' \<and> update_handler (small_wheel\<lparr>m_buckets := [[Some 5], [], [Some 6]]\<rparr>) (Slot 2 0) t' =
      Inr (small_wheel\<lparr>m_buckets := [[Some 5], [], [None]]\<rparr>, slot'))"
    by (rule disjI1) code_simp
  show "length (due small_wheel (nat (25 div m_interval small_wheel))) < 2 ^ 32 - 1"
    by (simp add: due_def bucket_at_def small_wheel_def new_wheel_def)
qed (simp_all add: again_only_adds small_wheel_ok)

end
