(* ===== verification/TcpServer.thy ===== *)
theory TcpServer
  imports ConnProps WheelProps
begin

text \<open>
  \<open>src/src/tcpserver.cpp\<close>: new connections, and the checks for idle ones that the server keeps in a timing
  wheel of 3600 buckets of a second. A handler of this wheel is the number of the connection that
  \<open>onIdleConnCheck\<close> is bound to. The state is the wheel and the world of the connections, with the server's
  limit and the connections that still exist (a weak pointer to another one gives nothing).
\<close>

section \<open>The server\<close>

record ('a, 'c, 'k) server = "('a, 'c, 'k) world" +
  m_maxIdleTimeout :: int
  alive :: "nat \<Rightarrow> bool"

type_synonym ('a, 'c, 'k) server_state = "nat timing_wheel \<times> ('a, 'c, 'k) server"

definition defaultIdleTimeout :: int where "defaultIdleTimeout = 30"

definition idle_wheel :: "bool \<Rightarrow> nat timing_wheel" where
  "idle_wheel garbage = new_wheel garbage 1000 3600"

text \<open>The time in seconds is multiplied in 64 bits and converted to \<open>int\<close>; the slot is not kept.\<close>

definition addIdleConnCheck :: "nat \<Rightarrow> u64 \<Rightarrow> ('a, 'c, 'k) server_state action" where
  "addIdleConnCheck c timeout = (\<lambda>(w, s).
     case add_handler w (Some c) (int32 (uint (timeout * 1000))) of
       Inl e \<Rightarrow> Inl (Wheel_fault e)
     | Inr (w, _) \<Rightarrow> Inr (w, s))"

definition isClose :: "conn \<Rightarrow> bool" where
  "isClose k \<longleftrightarrow> m_status k = Disconnecting \<or> m_status k = Disconnected"

definition idle_limit :: "('a, 'c, 'k) server \<Rightarrow> nat \<Rightarrow> u64" where
  "idle_limit s c = (if m_IdleTimeout (conns s c) \<le> 0 then word_of_int (m_maxIdleTimeout s) else m_IdleTimeout (conns s c))"

definition onIdleConnCheck ::
  "('a, 'c, 'k) server notifier \<Rightarrow> 'k os \<Rightarrow> nat \<Rightarrow> ('a, 'c, 'k) server_state action" where
  "onIdleConnCheck nt os c = (\<lambda>(w, s).
     if \<not> alive s c \<or> isClose (conns s c) then Inr (w, s)
     else case monotonic os (kernel s) of (now, k) \<Rightarrow>
       let s = s\<lparr>kernel := k\<rparr>; idletmt = idle_limit s c; diff = now - m_lastActiveTime (conns s c) in
       if diff > idletmt
       then (case conn_shutDown nt os c 0 s of Inl e \<Rightarrow> Inl e | Inr s \<Rightarrow> Inr (w, s))
       else addIdleConnCheck c (idletmt - diff) (w, s))"

text \<open>\<open>onNewConnection\<close>, with the number that \<open>random\<close> gives.\<close>

definition onNewConnection ::
  "('a, 'c, 'k) server notifier \<Rightarrow> 'k os \<Rightarrow> int \<Rightarrow> nat \<Rightarrow> int \<Rightarrow> ('a, 'c, 'k) server_state action" where
  "onNewConnection nt os random c fd = (\<lambda>(w, s).
     let s = set_conn c (\<lambda>_. (new_conn fd)\<lparr>m_callback := True\<rparr>) s\<lparr>alive := (alive s)(c := True)\<rparr> in
     case onEstablished nt os c s of
       Inl e \<Rightarrow> Inl e
     | Inr s \<Rightarrow>
         let afterCheck = m_maxIdleTimeout s sdiv 2 in
         if afterCheck = 0 then Inl Division_by_zero
         else addIdleConnCheck c (word_of_int (int32 (afterCheck + random smod afterCheck))) (w, s))"

text \<open>A tick of the idle wheel: the faults of a check end it.\<close>

definition check_runner :: "('a, 'c, 'k) server notifier \<Rightarrow> 'k os \<Rightarrow> (nat, ('a, 'c, 'k) server) runner" where
  "check_runner nt os c ws =
     map_sum (\<lambda>e. case e of Wheel_fault f \<Rightarrow> f | _ \<Rightarrow> Handler_failed) id (onIdleConnCheck nt os c ws)"

definition idle_tick ::
  "('a, 'c, 'k) server notifier \<Rightarrow> 'k os \<Rightarrow> ('a, 'c, 'k) server_state \<Rightarrow>
   (wheel_fault + ('a, 'c, 'k) server_state) option" where
  "idle_tick nt os = onTimer (check_runner nt os)"

section \<open>What a check does\<close>

definition idle_for :: "'k os \<Rightarrow> ('a, 'c, 'k) server \<Rightarrow> nat \<Rightarrow> u64" where
  "idle_for os s c = fst (monotonic os (kernel s)) - m_lastActiveTime (conns s c)"

definition checked :: "('a, 'c, 'k) server \<Rightarrow> nat \<Rightarrow> bool" where
  "checked s c \<longleftrightarrow> alive s c \<and> \<not> isClose (conns s c)"

definition check_wait :: "'k os \<Rightarrow> ('a, 'c, 'k) server \<Rightarrow> nat \<Rightarrow> int" where
  "check_wait os s c = int32 (uint ((idle_limit s c - idle_for os s c) * 1000))"

definition check_asks :: "'k os \<Rightarrow> nat \<Rightarrow> ('a, 'c, 'k) server \<Rightarrow> nat request list" where
  "check_asks os c s =
     (if \<not> checked s c \<or> idle_for os s c > idle_limit s c then []
      else [(c, check_wait os s c)])"

definition check_effect ::
  "('a, 'c, 'k) server notifier \<Rightarrow> 'k os \<Rightarrow> nat \<Rightarrow> ('a, 'c, 'k) server \<Rightarrow> ('a, 'c, 'k) server" where
  "check_effect nt os c s =
     (if \<not> checked s c then s
      else
        let s' = s\<lparr>kernel := snd (monotonic os (kernel s))\<rparr> in
        if idle_for os s c > idle_limit s c
        then (case conn_shutDown nt os c 0 s' of Inl e \<Rightarrow> s' | Inr s' \<Rightarrow> s')
        else s')"

text \<open>
  An application that makes no calls when a connection is closed, and limits whose milliseconds fit
  in an \<open>int\<close>.
\<close>

definition quiet :: "'a application \<Rightarrow> bool" where
  "quiet ap \<longleftrightarrow> (\<forall>c a. snd (ap c Conn_CloseEvent a) = [])"

definition limits_ok :: "('a, 'c, 'k) server \<Rightarrow> bool" where
  "limits_ok s \<longleftrightarrow> (\<forall>c. idle_limit s c \<le> 2000000)"

definition close_quietly :: "'a application \<Rightarrow> 'k os \<Rightarrow> nat \<Rightarrow> ('a, 'c, 'k) server \<Rightarrow> ('a, 'c, 'k) server" where
  "close_quietly ap os c s =
     (let s = snd (disconnect os c (set_conn c (m_status_update (\<lambda>_. Disconnecting)) s)) in
      if m_callback (conns s c) then s\<lparr>app := fst (ap c Conn_CloseEvent (app s))\<rparr> else s)"

lemma shutDown_quiet:
  assumes "quiet ap" and "\<not> isClose (conns s c)"
  shows "conn_shutDown (deliver_event ap os (Suc n)) os c 0 s = Inr (close_quietly ap os c s)"
  using assms
  by (simp add: conn_shutDown_def isClose_def handleClose_def close_quietly_def Let_def notify_callback_def
      quiet_def case_prod_beta disconnect_def[of _ _ "set_conn _ _ _"])

end
