(* ===== verification/ServerProps.thy ===== *)
theory ServerProps
  imports TcpServer
begin

text \<open>
  When the server closes an idle connection: the checks satisfy the contract of the wheel's clients, and
  with a clock that advances by a second between ticks a connection without activity is closed.
\<close>

declare deliver_event.simps [simp del]

section \<open>What closing changes\<close>

lemma m_maxIdleTimeout_simps [simp]:
  "m_maxIdleTimeout (set_conn c f s) = m_maxIdleTimeout s" "alive (set_conn c f s) = alive s"
  "kernel (set_conn c f s) = kernel s"
  by (simp_all add: set_conn_def)

lemma removeHandler_server [simp]:
  "m_maxIdleTimeout (snd (removeHandler fd s)) = m_maxIdleTimeout s" "alive (snd (removeHandler fd s)) = alive s"
  "kernel (snd (removeHandler fd s)) = kernel s"
  by (simp_all add: removeHandler_def)

lemma close_quietly_simps [simp]:
  "m_maxIdleTimeout (close_quietly ap os c s) = m_maxIdleTimeout s" "alive (close_quietly ap os c s) = alive s"
  "kernel (close_quietly ap os c s) = sys_close os (m_fd (conns s c)) (kernel s)"
  "m_IdleTimeout (conns (close_quietly ap os c s) d) = m_IdleTimeout (conns s d)"
  "d \<noteq> c \<Longrightarrow> conns (close_quietly ap os c s) d = conns s d"
  "m_status (conns (close_quietly ap os c s) c) = Disconnected"
  by (simp_all add: close_quietly_def Let_def disconnect_def)

lemma idle_limit_close [simp]: "idle_limit (close_quietly ap os c s) = idle_limit s"
  by (simp add: idle_limit_def fun_eq_iff)

lemma kernel_update_simps [simp]:
  "idle_limit (s\<lparr>kernel := k\<rparr>) = idle_limit s" "checked (s\<lparr>kernel := k\<rparr>) = checked s"
  by (simp_all add: idle_limit_def checked_def fun_eq_iff)

abbreviation notifier_of :: "'a application \<Rightarrow> 'k os \<Rightarrow> nat \<Rightarrow> ('a, 'c, 'k) server notifier" where
  "notifier_of ap os n \<equiv> deliver_event ap os (Suc n)"

lemma check_effect_quiet:
  assumes "quiet ap"
  shows "check_effect (notifier_of ap os n) os c s =
    (if \<not> checked s c then s
     else let s' = s\<lparr>kernel := snd (monotonic os (kernel s))\<rparr> in
       if idle_for os s c > idle_limit s c then close_quietly ap os c s' else s')"
proof (cases "checked s c")
  case True
  then have "\<not> isClose (conns (s\<lparr>kernel := snd (monotonic os (kernel s))\<rparr>) c)" by (simp add: checked_def)
  from shutDown_quiet [OF assms this] show ?thesis using True by (simp add: check_effect_def Let_def)
qed (simp add: check_effect_def)

section \<open>The checks are clients of the wheel\<close>

lemma idle_limit_effect:
  "quiet ap \<Longrightarrow> idle_limit (check_effect (notifier_of ap os n) os c s) = idle_limit s"
  by (simp add: check_effect_quiet Let_def)

lemma times_1000:
  assumes "unat (x :: u64) \<le> 2000000"
  shows "uint (x * 1000) = int (unat x) * 1000"
proof -
  have x: "uint x = int (unat x)" by simp
  then have le: "uint x \<le> 2000000" using assms by linarith
  have "uint (x * 1000) = uint x * 1000 mod 2 ^ 64" by (simp add: uint_word_ariths)
  also have "\<dots> = uint x * 1000" using le by (intro mod_pos_pos_trivial) simp_all
  finally show ?thesis unfolding x .
qed

lemma wait_int:
  assumes "idle_for os s c \<le> idle_limit s c" and "limits_ok s"
  shows "check_wait os s c = int (unat (idle_limit s c) - unat (idle_for os s c)) * 1000"
proof -
  let ?x = "idle_limit s c - idle_for os s c"
  have x: "unat ?x = unat (idle_limit s c) - unat (idle_for os s c)" using assms(1) by (rule unat_sub)
  have "unat (idle_limit s c) \<le> 2000000" using assms(2) by (simp add: limits_ok_def word_le_nat_alt)
  then have le: "unat ?x \<le> 2000000" using x by simp
  have "uint (?x * 1000) = int (unat ?x) * 1000" using times_1000 [OF le] .
  then show ?thesis using le x unfolding check_wait_def by (simp add: int32_id)
qed

lemma check_runner_asks:
  assumes "quiet ap" and "limits_ok s"
  shows "check_runner (notifier_of ap os n) os c (w, s) =
    map_sum id (\<lambda>w. (w, check_effect (notifier_of ap os n) os c s)) (add_all w (check_asks os c s))"
proof (cases "checked s c")
  case False
  then show ?thesis
    by (auto simp: check_runner_def onIdleConnCheck_def checked_def check_asks_def check_effect_def)
next
  case True
  then have open': "alive s c" "\<not> isClose (conns s c)" by (simp_all add: checked_def)
  obtain now k where clock: "monotonic os (kernel s) = (now, k)" by (cases "monotonic os (kernel s)")
  let ?s = "s\<lparr>kernel := k\<rparr>"
  show ?thesis
  proof (cases "idle_for os s c > idle_limit s c")
    case True
    moreover have "conn_shutDown (notifier_of ap os n) os c 0 ?s = Inr (close_quietly ap os c ?s)"
      using open' by (intro shutDown_quiet [OF assms(1)]) simp
    ultimately show ?thesis
      using open' clock
      by (simp add: check_runner_def onIdleConnCheck_def check_asks_def check_effect_def checked_def idle_for_def Let_def
          del: deliver_event.simps)
  next
    case False
    then show ?thesis
      using open' clock
      by (simp add: check_runner_def onIdleConnCheck_def check_asks_def check_effect_def checked_def idle_for_def Let_def
          check_wait_def addIdleConnCheck_def split: sum.split prod.split)
  qed
qed

lemma check_asks_later: "limits_ok s \<Longrightarrow> (g, t) \<in> set (check_asks os c s) \<Longrightarrow> 0 \<le> t"
  by (auto simp: check_asks_def wait_int split: if_splits)

interpretation idle: wheel_client "check_runner (notifier_of ap os n) os" "check_effect (notifier_of ap os n) os"
    "check_asks os" "\<lambda>s. quiet ap \<and> limits_ok s" for ap os n
proof (unfold_locales, goal_cases)
  case (1 s h w)
  then show ?case by (simp add: check_runner_asks)
next
  case (2 s g t h)
  then show ?case by (blast intro: check_asks_later)
next
  case (3 s h)
  then show ?case by (simp add: limits_ok_def idle_limit_effect)
qed

section \<open>Checks one after the other\<close>

text \<open>
  A clock of seconds: reading it changes nothing, and closing a descriptor takes no time.
\<close>

definition regular :: "'k os \<Rightarrow> ('k \<Rightarrow> nat) \<Rightarrow> bool" where
  "regular os clk \<longleftrightarrow> (\<forall>k. monotonic os k = (of_nat (clk k), k)) \<and> (\<forall>fd k. clk (sys_close os fd k) = clk k)"

lemma effect_simps:
  assumes "quiet ap" and "regular os clk"
  shows "alive (check_effect (notifier_of ap os n) os h s) = alive s"
    "clk (kernel (check_effect (notifier_of ap os n) os h s)) = clk (kernel s)"
    "d \<noteq> h \<Longrightarrow> conns (check_effect (notifier_of ap os n) os h s) d = conns s d"
  using assms by (simp_all add: check_effect_quiet regular_def Let_def)

lemma asks_of: "(g, t) \<in> set (check_asks os h s) \<Longrightarrow> g = h"
  by (auto simp: check_asks_def split: if_splits)

lemma run_all_others:
  assumes "quiet ap" and "regular os clk" and "c \<notin> set hs"
    and "run_all (check_effect (notifier_of ap os n) os) (check_asks os) hs s = (s', rs)"
  shows "conns s' c = conns s c" and "alive s' = alive s" and "clk (kernel s') = clk (kernel s)"
    and "idle_limit s' = idle_limit s" and "filter (\<lambda>r. fst r = c) rs = []"
proof -
  have "conns s' c = conns s c \<and> alive s' = alive s \<and> clk (kernel s') = clk (kernel s) \<and>
      idle_limit s' = idle_limit s \<and> filter (\<lambda>r. fst r = c) rs = []"
    using assms(3,4)
  proof (induction hs arbitrary: s rs)
    case (Cons h hs)
    obtain rs' where rs': "run_all (check_effect (notifier_of ap os n) os) (check_asks os) hs
        (check_effect (notifier_of ap os n) os h s) = (s', rs')" "rs = check_asks os h s @ rs'"
      using Cons.prems(2) by (auto simp: Let_def split: prod.splits)
    have "filter (\<lambda>r. fst r = c) (check_asks os h s) = []"
      using Cons.prems(1) by (auto simp: filter_empty_conv dest: asks_of)
    then show ?case
      using Cons.IH [OF _ rs'(1)] Cons.prems(1) rs'(2)
      by (simp add: effect_simps [OF assms(1,2)] idle_limit_effect [OF assms(1)])
  qed simp
  then show "conns s' c = conns s c" "alive s' = alive s" "clk (kernel s') = clk (kernel s)"
      "idle_limit s' = idle_limit s" "filter (\<lambda>r. fst r = c) rs = []" by blast+
qed

lemma run_all_append:
  "run_all effect asks (xs @ ys) s =
     (let (s', rs) = run_all effect asks xs s; (s'', rs') = run_all effect asks ys s' in (s'', rs @ rs'))"
  by (induction xs arbitrary: s) (simp_all add: Let_def case_prod_beta)

text \<open>What one check of a connection among the others does to it and asks for it.\<close>

lemma run_all_one:
  fixes s s' :: "('a, 'c, 'k) server"
  assumes q: "quiet ap" "regular os clk" and hs: "count_list hs c = 1"
    and all: "run_all (check_effect (notifier_of ap os n) os) (check_asks os) hs s = (s', rs)"
  obtains s1 :: "('a, 'c, 'k) server" where "conns s1 c = conns s c" and "alive s1 = alive s" and "clk (kernel s1) = clk (kernel s)"
    and "idle_limit s1 = idle_limit s" and "filter (\<lambda>r. fst r = c) rs = check_asks os c s1"
    and "conns s' c = conns (check_effect (notifier_of ap os n) os c s1) c" and "alive s' = alive s"
    and "clk (kernel s') = clk (kernel s)" and "idle_limit s' = idle_limit s"
proof -
  let ?run = "run_all (check_effect (notifier_of ap os n) os) (check_asks os)"
  have "c \<in> set hs" using hs count_notin by fastforce
  then obtain xs ys where xy: "hs = xs @ c # ys" "c \<notin> set xs" by (metis split_list_first)
  then have ys: "c \<notin> set ys" using hs by (simp add: count_list_0_iff)
  obtain s1 r1 where s1: "?run xs s = (s1, r1)" by (cases "?run xs s")
  obtain s2 r2 where s2: "?run ys (check_effect (notifier_of ap os n) os c s1) = (s2, r2)"
    by (cases "?run ys (check_effect (notifier_of ap os n) os c s1)")
  have res: "s' = s2" "rs = r1 @ check_asks os c s1 @ r2" using all by (simp_all add: xy run_all_append s1 s2)
  have "filter (\<lambda>r. fst r = c) (check_asks os c s1) = check_asks os c s1"
    by (auto simp: filter_id_conv dest: asks_of)
  then show ?thesis
    using that [of s1] run_all_others [OF q xy(2) s1] run_all_others [OF q ys s2] res
    by (simp add: effect_simps [OF q] idle_limit_effect [OF q(1)])
qed

section \<open>Seconds\<close>

text \<open>A second passes, then the wheel ticks.\<close>

definition one_second ::
  "('a, 'c, 'k) server notifier \<Rightarrow> 'k os \<Rightarrow> ('k \<Rightarrow> 'k) \<Rightarrow> ('a, 'c, 'k) server_state \<Rightarrow>
   (wheel_fault + ('a, 'c, 'k) server_state) option" where
  "one_second nt os pass = (\<lambda>(w, s). idle_tick nt os (w, s\<lparr>kernel := pass (kernel s)\<rparr>))"

fun seconds ::
  "('a, 'c, 'k) server notifier \<Rightarrow> 'k os \<Rightarrow> ('k \<Rightarrow> 'k) \<Rightarrow> nat \<Rightarrow> ('a, 'c, 'k) server_state \<Rightarrow>
   (wheel_fault + ('a, 'c, 'k) server_state) option" where
  "seconds nt os pass 0 ws = Some (Inr ws)"
| "seconds nt os pass (Suc m) ws =
     (case seconds nt os pass m ws of Some (Inr ws) \<Rightarrow> one_second nt os pass ws | res \<Rightarrow> res)"

text \<open>The one check of connection \<open>c\<close> in the wheel is due after \<open>j\<close> more ticks.\<close>

definition check_due :: "nat timing_wheel \<Rightarrow> nat \<Rightarrow> nat \<Rightarrow> bool" where
  "check_due w c j \<longleftrightarrow> (\<forall>i < size_of w. count_list (due w i) (Some c) = (if i = j then 1 else 0))"

definition server_ok :: "'a application \<Rightarrow> ('a, 'c, 'k) server_state \<Rightarrow> bool" where
  "server_ok ap = (\<lambda>(w, s). wheel_ok w \<and> \<not> m_ontimer w \<and> no_null w \<and> m_interval w = 1000 \<and>
     m_maxBuckets w = 3600 \<and> quiet ap \<and> limits_ok s)"

lemma count_Some: "count_list (map Some xs) (Some c) = count_list xs c"
  by (induction xs) auto

lemma count_requests:
  "count_list (due_requests w rs k) (Some c) =
     length (filter (\<lambda>(h, t). t < m_maxTimeout w \<and> steps w t = k) (filter (\<lambda>r. fst r = c) rs))"
  by (induction rs) (auto simp: due_requests_def)

lemma one_second_ok:
  fixes s :: "('a, 'c, 'k) server"
  assumes ok: "server_ok ap (w, s)" and reg: "regular os clk" and pass: "\<And>k. clk (pass k) = Suc (clk k)"
    and due: "check_due w c j" and j: "j < 3600"
  obtains w' and s' s1 :: "('a, 'c, 'k) server" where "one_second (notifier_of ap os n) os pass (w, s) = Some (Inr (w', s'))"
    and "server_ok ap (w', s')" and "alive s' = alive s" and "clk (kernel s') = Suc (clk (kernel s))"
    and "idle_limit s' = idle_limit s"
    and "0 < j \<Longrightarrow> conns s' c = conns s c \<and> check_due w' c (j - 1)"
    and "j = 0 \<Longrightarrow> conns s1 c = conns s c \<and> alive s1 = alive s \<and> clk (kernel s1) = Suc (clk (kernel s)) \<and>
      idle_limit s1 = idle_limit s \<and> conns s' c = conns (check_effect (notifier_of ap os n) os c s1) c \<and>
      (\<forall>t. check_asks os c s1 = [(c, t)] \<longrightarrow> 0 \<le> t \<longrightarrow> t < 3600000 \<longrightarrow>
         check_due w' c (if t < 1000 then 3599 else nat (t div 1000) - 1))"
proof -
  let ?s = "s\<lparr>kernel := pass (kernel s)\<rparr>"
  have w: "wheel_ok w" "\<not> m_ontimer w" "no_null w" "m_interval w = 1000" "m_maxBuckets w = 3600"
      "quiet ap" "limits_ok ?s"
    using ok by (simp_all add: server_ok_def limits_ok_def)
  have sz: "size_of w = 3600" "m_maxTimeout w = 3600000" using w(1,4,5) by (simp_all add: size_of_def wheel_ok_def)
  have "None \<notin> set (due w 0)" using w(3) sz by (simp add: no_null_def)
  then obtain hs where hs: "due w 0 = map Some hs" by (metis ex_map_conv not_None_eq)
  obtain s' rs where all: "run_all (check_effect (notifier_of ap os n) os) (check_asks os) hs ?s = (s', rs)"
    by (cases "run_all (check_effect (notifier_of ap os n) os) (check_asks os) hs ?s")
  obtain w' where w': "onTimer (check_runner (notifier_of ap os n) os) (w, ?s) = Some (Inr (w', s'))"
      "wheel_ok w'" "\<not> m_ontimer w'" "m_interval w' = m_interval w" "m_maxBuckets w' = m_maxBuckets w"
      "\<And>k. k < size_of w \<Longrightarrow> due w' k =
        (if Suc k < size_of w then due w (Suc k) @ due_requests w rs (Suc k) else due_requests w rs 0)"
    using idle.onTimer_tick [OF w(1,2) hs _ all] w(6,7) by blast
  have sec: "one_second (notifier_of ap os n) os pass (w, s) = Some (Inr (w', s'))"
    using w'(1) by (simp add: one_second_def idle_tick_def)
  have sz': "size_of w' = 3600" using w'(5) w(5) by (simp add: size_of_def)
  have null': "no_null w'"
    using w(3) w'(6) sz sz' by (auto simp: no_null_def due_requests_def)
  have count: "count_list (due w' k) (Some c) =
      (if Suc k < 3600 \<and> Suc k = j then 1 else 0) + count_list (due_requests w rs (if Suc k < 3600 then Suc k else 0)) (Some c)"
    if "k < 3600" for k
    using w'(6) [of k] that due sz by (simp add: check_due_def)
  have hs_count: "count_list hs c = (if j = 0 then 1 else 0)"
    using due [unfolded check_due_def, rule_format, of 0] sz hs count_Some [of hs c] by simp
  show ?thesis
  proof (cases "j = 0")
    case False
    then have "c \<notin> set hs" using hs_count by (simp add: count_list_0_iff)
    note o = run_all_others [OF w(6) reg this all]
    have "count_list (due w' k) (Some c) = (if k = j - 1 then 1 else 0)" if "k < 3600" for k
      using count [OF that] o(5) False j by (auto simp: count_requests)
    then have "check_due w' c (j - 1)" by (simp add: check_due_def sz')
    moreover have "server_ok ap (w', s')"
      using w w' null' o(4) by (simp add: server_ok_def limits_ok_def)
    ultimately show ?thesis using that [OF sec, of s] False o pass by simp
  next
    case True
    then have one: "count_list hs c = 1" using hs_count by simp
    obtain s1 :: "('a, 'c, 'k) server" where s1: "conns s1 c = conns ?s c" "alive s1 = alive ?s" "clk (kernel s1) = clk (kernel ?s)"
        "idle_limit s1 = idle_limit ?s" "filter (\<lambda>r. fst r = c) rs = check_asks os c s1"
        "conns s' c = conns (check_effect (notifier_of ap os n) os c s1) c" "alive s' = alive ?s"
        "clk (kernel s') = clk (kernel ?s)" "idle_limit s' = idle_limit ?s"
    proof (rule run_all_one [OF w(6) reg one all], goal_cases)
      case (1 s1)
      show ?case by (rule 1(1) [OF 1(2-)])
    qed
    have "check_due w' c (if t < 1000 then 3599 else nat (t div 1000) - 1)"
      if t: "check_asks os c s1 = [(c, t)]" "0 \<le> t" "t < 3600000" for t
    proof -
      have "t div 1000 < 3600" using t(3) by linarith
      then have q: "nat (t div 1000) < 3600" "t < 1000 \<longleftrightarrow> nat (t div 1000) = 0"
        using t(2) by (auto simp: div_pos_pos_trivial)
      have f: "filter (\<lambda>r. fst r = c) rs = [(c, t)]" using s1(5) t(1) by (rule trans)
      have dr: "count_list (due_requests w rs m) (Some c) = (if nat (t div 1000) = m then 1 else 0)" for m
        unfolding count_requests f steps_def sz w(4) using t(3) by simp
      have cnt: "count_list (due w' k) (Some c) = (if nat (t div 1000) = (if Suc k < 3600 then Suc k else 0) then 1 else 0)"
        if "k < 3600" for k
        unfolding count [OF that] dr True by simp
      define m where "m = nat (t div 1000)"
      have m: "m < 3600" "t < 1000 \<longleftrightarrow> m = 0" using q by (simp_all add: m_def)
      show ?thesis
        unfolding check_due_def sz'
      proof (intro allI impI)
        fix i :: nat
        assume i: "i < 3600"
        have "(m = (if Suc i < 3600 then Suc i else 0)) = (i = (if t < 1000 then 3599 else m - 1))"
          unfolding m(2) using m(1) i by (cases "m = 0") auto
        then show "count_list (due w' i) (Some c) = (if i = (if t < 1000 then 3599 else nat (t div 1000) - 1) then 1 else 0)"
          unfolding cnt [OF i] m_def by (rule arg_cong)
      qed
    qed
    moreover have "server_ok ap (w', s')"
      using w w' null' s1(9) by (simp add: server_ok_def limits_ok_def)
    ultimately show ?thesis using that [OF sec, of s1] True s1 pass by simp
  qed
qed

section \<open>An idle connection\<close>

text \<open>
  The next check is at the end of the limit at the latest, or a whole round of the wheel after it.
\<close>

definition waiting ::
  "'a application \<Rightarrow> 'k os \<Rightarrow> ('k \<Rightarrow> nat) \<Rightarrow> nat \<Rightarrow> nat \<Rightarrow> nat \<Rightarrow> ('a, 'c, 'k) server_state \<Rightarrow> bool" where
  "waiting ap os clk c since limit = (\<lambda>(w, s). server_ok ap (w, s) \<and> alive s c \<and> m_status (conns s c) = Connected \<and>
     m_lastActiveTime (conns s c) = of_nat since \<and> idle_limit s c = of_nat limit \<and> since \<le> clk (kernel s) \<and>
     (\<exists>j < 3600. check_due w c j \<and>
       (clk (kernel s) + 1 + j \<le> since + limit \<or> clk (kernel s) + 1 + j = since + limit + 3600)))"

lemma idle_time:
  assumes "regular os clk" and "m_lastActiveTime (conns s c) = of_nat since" and "since \<le> clk (kernel s)"
    and "clk (kernel s) < 2 ^ 64"
  shows "unat (idle_for os s c) = clk (kernel s) - since"
proof -
  have "idle_for os s c = of_nat (clk (kernel s) - since)"
    using assms(1-3) by (simp add: idle_for_def regular_def)
  then show ?thesis using assms(4) by (simp add: unsigned_of_nat take_bit_nat_eq_self)
qed

lemma waiting_second:
  fixes s :: "('a, 'c, 'k) server"
  assumes reg: "regular os clk" and pass: "\<And>k. clk (pass k) = Suc (clk k)"
    and wait: "waiting ap os clk c since limit (w, s)" and limit: "limit \<le> 3600" "since < 2 ^ 63"
  obtains w' and s' :: "('a, 'c, 'k) server" where
    "one_second (notifier_of ap os n) os pass (w, s) = Some (Inr (w', s'))" and "clk (kernel s') = Suc (clk (kernel s))"
    and "if clk (kernel s') = since + limit + 3600 then m_status (conns s' c) = Disconnected
      else waiting ap os clk c since limit (w', s')"
proof -
  obtain j where j: "j < 3600" "check_due w c j"
      "clk (kernel s) + 1 + j \<le> since + limit \<or> clk (kernel s) + 1 + j = since + limit + 3600"
    and ok: "server_ok ap (w, s)" and c: "alive s c" "m_status (conns s c) = Connected"
      "m_lastActiveTime (conns s c) = of_nat since" "idle_limit s c = of_nat limit" "since \<le> clk (kernel s)"
    using wait by (auto simp: waiting_def)
  obtain w' and s' s1 :: "('a, 'c, 'k) server" where sec: "one_second (notifier_of ap os n) os pass (w, s) = Some (Inr (w', s'))"
      "server_ok ap (w', s')" "alive s' = alive s" "clk (kernel s') = Suc (clk (kernel s))" "idle_limit s' = idle_limit s"
    and later: "0 < j \<Longrightarrow> conns s' c = conns s c \<and> check_due w' c (j - 1)"
    and now: "j = 0 \<Longrightarrow> conns s1 c = conns s c \<and> alive s1 = alive s \<and> clk (kernel s1) = Suc (clk (kernel s)) \<and>
      idle_limit s1 = idle_limit s \<and> conns s' c = conns (check_effect (notifier_of ap os n) os c s1) c \<and>
      (\<forall>t. check_asks os c s1 = [(c, t)] \<longrightarrow> 0 \<le> t \<longrightarrow> t < 3600000 \<longrightarrow>
         check_due w' c (if t < 1000 then 3599 else nat (t div 1000) - 1))"
  proof (rule one_second_ok [where os = os and pass = pass and n = n, OF ok reg pass j(2,1)], goal_cases)
    case (1 w' s' s1)
    show ?case by (rule 1(1) [OF 1(2-)])
  qed
  have goal: "if clk (kernel s') = since + limit + 3600 then m_status (conns s' c) = Disconnected
      else waiting ap os clk c since limit (w', s')"
  proof (cases "j = 0")
    case False
    then have "waiting ap os clk c since limit (w', s')"
      using later c sec j(1,3) unfolding waiting_def by (auto intro!: exI [of _ "j - 1"])
    moreover have "clk (kernel s') \<noteq> since + limit + 3600" using j(3) False sec(4) by linarith
    ultimately show ?thesis by simp
  next
    case True
    note s1 = now [OF True]
    have q: "quiet ap" "limits_ok s1" using ok s1 by (simp_all add: server_ok_def limits_ok_def)
    have clk1: "clk (kernel s1) = clk (kernel s')" "since \<le> clk (kernel s1)" "clk (kernel s1) < 2 ^ 64"
      using s1 sec(4) c(5) j(3) True limit by auto
    have idle: "unat (idle_for os s1 c) = clk (kernel s') - since"
      using idle_time [OF reg, of s1 c since] s1 c(3) clk1 by simp
    have lim: "unat (idle_limit s1 c) = limit"
      using s1 c(4) limit(1) by (simp add: unsigned_of_nat take_bit_nat_eq_self)
    have checked: "checked s1 c" using s1 c by (simp add: checked_def isClose_def)
    show ?thesis
    proof (cases "clk (kernel s') = since + limit + 3600")
      case True
      then have "idle_limit s1 c < idle_for os s1 c" using idle lim by (simp add: word_less_nat_alt)
      then have "m_status (conns s' c) = Disconnected"
        using s1 checked by (simp add: check_effect_quiet [OF q(1)] Let_def)
      then show ?thesis using True by simp
    next
      case False
      then have "clk (kernel s') - since \<le> limit" using j(3) \<open>j = 0\<close> sec(4) by auto
      then have le: "idle_for os s1 c \<le> idle_limit s1 c" using idle lim by (simp add: word_le_nat_alt)
      define d where "d = limit - (clk (kernel s') - since)"
      have "check_wait os s1 c = int d * 1000" using wait_int [OF le q(2)] unfolding idle lim d_def .
      then have asks: "check_asks os c s1 = [(c, int d * 1000)]"
        using checked le by (simp add: check_asks_def)
      have d: "d < 3600" "clk (kernel s') + d = since + limit"
        using limit(1) c(5) sec(4) \<open>clk (kernel s') - since \<le> limit\<close> by (auto simp: d_def)
      have due: "check_due w' c (if d = 0 then 3599 else d - 1)"
        using s1 asks d(1) by (auto split: if_splits)
      have "conns s' c = conns s c"
        using s1 checked le by (simp add: check_effect_quiet [OF q(1)] Let_def)
      then have "waiting ap os clk c since limit (w', s')"
        using c sec due d unfolding waiting_def
        by (cases "d = 0") (auto intro: exI [of _ 3599] exI [of _ "d - 1"])
      then show ?thesis using False by simp
    qed
  qed
  show ?thesis by (rule that [OF sec(1,4) goal])
qed

text \<open>C14: While the clock advances by a second between ticks, a connected connection without activity is
  closed, and no sooner than \<open>limit + 3600\<close> seconds after its last activity: the check at the end of its
  limit finds it idle for exactly \<open>limit\<close> seconds, which is not more than the limit, and adds the next
  check with a timeout of 0, which a wheel that runs puts off for a whole round of 3600 ticks.\<close>

theorem idle_connection_closed:
  assumes "regular os clk" and "\<And>k. clk (pass k) = Suc (clk k)" and "waiting ap os clk c since limit (w, s)"
    and "limit \<le> 3600" and "since < 2 ^ 63" and "clk (kernel s) + t = since + limit + 3600"
  shows "(\<forall>m < t. \<exists>w' s'. seconds (notifier_of ap os n) os pass m (w, s) = Some (Inr (w', s')) \<and>
      m_status (conns s' c) = Connected) \<and>
    (\<exists>w' s'. seconds (notifier_of ap os n) os pass t (w, s) = Some (Inr (w', s')) \<and>
      m_status (conns s' c) = Disconnected)"
proof -
  have run: "\<exists>w' s'. seconds (notifier_of ap os n) os pass m (w, s) = Some (Inr (w', s')) \<and>
      clk (kernel s') = clk (kernel s) + m \<and> waiting ap os clk c since limit (w', s')" if "m < t" for m
    using that
  proof (induction m)
    case (Suc m)
    then obtain w1 s1 where s1: "seconds (notifier_of ap os n) os pass m (w, s) = Some (Inr (w1, s1))"
        "clk (kernel s1) = clk (kernel s) + m" "waiting ap os clk c since limit (w1, s1)" by auto
    obtain w2 s2 where s2: "one_second (notifier_of ap os n) os pass (w1, s1) = Some (Inr (w2, s2))"
        "clk (kernel s2) = Suc (clk (kernel s1))"
        "if clk (kernel s2) = since + limit + 3600 then m_status (conns s2 c) = Disconnected
          else waiting ap os clk c since limit (w2, s2)"
      using waiting_second [OF assms(1,2) s1(3) assms(4,5), of n] by metis
    then show ?case using s1 Suc.prems assms(6) by auto
  qed (use assms(3) in simp)
  have "clk (kernel s) < since + limit + 3600" using assms(3) by (auto simp: waiting_def)
  then obtain m where m: "t = Suc m" using assms(6) by (cases t) auto
  obtain w1 s1 where s1: "seconds (notifier_of ap os n) os pass m (w, s) = Some (Inr (w1, s1))"
      "clk (kernel s1) = clk (kernel s) + m" "waiting ap os clk c since limit (w1, s1)"
    using run [of m] m by auto
  obtain w2 s2 where s2: "one_second (notifier_of ap os n) os pass (w1, s1) = Some (Inr (w2, s2))"
      "clk (kernel s2) = Suc (clk (kernel s1))"
      "if clk (kernel s2) = since + limit + 3600 then m_status (conns s2 c) = Disconnected
        else waiting ap os clk c since limit (w2, s2)"
    using waiting_second [OF assms(1,2) s1(3) assms(4,5), of n] by metis
  then have "m_status (conns s2 c) = Disconnected" using s1(2) assms(6) m by simp
  then show ?thesis using run s1(1) s2(1) m by (fastforce simp: waiting_def)
qed

text \<open>Connection 5, which was active at second 0 and has a limit of 30 seconds, with a check after 20 seconds.\<close>

definition small_server :: "(unit, unit, nat) server" where
  "small_server =
     \<lparr>loop_running = True, m_events = replicate 8 None, m_delevents = [], m_callbacks = [],
      m_wheel = new_wheel True 1000 3600, m_eventSize = 4, kernel = 0,
      conns = (\<lambda>c. (new_conn (int c))\<lparr>m_status := Connected\<rparr>), app = (),
      accepted = (\<lambda>c. []), taken = (\<lambda>c. []), m_maxIdleTimeout = 30, alive = (\<lambda>c. True)\<rparr>"

lemma small_server_waits: "waiting silent small_os id 5 0 30 (put (idle_wheel True) 20 (Some 5), small_server)"
proof -
  have w: "wheel_ok (idle_wheel True)" "\<not> m_ontimer (idle_wheel True)" "size_of (idle_wheel True) = 3600"
    by (simp_all add: idle_wheel_def new_wheel_ok) (simp_all add: new_wheel_def size_of_def)
  have empty: "due (idle_wheel True) k = []" if "k < 3600" for k
    using bucket_at_bound [OF w(1), of k] by (simp add: due_def idle_wheel_def new_wheel_def)
  have d: "due (put (idle_wheel True) 20 (Some 5)) k = (if k = 20 then [Some 5] else [])" if "k < 3600" for k
    using due_put [OF w(1), of k 20 "Some 5"] w(3) empty that by simp
  have "no_null (put (idle_wheel True) 20 (Some 5))" "check_due (put (idle_wheel True) 20 (Some 5)) 5 20"
    using d w(3) by (simp_all add: no_null_def check_due_def)
  moreover have "m_interval (idle_wheel True) = 1000" "m_maxBuckets (idle_wheel True) = 3600"
    by (simp_all add: idle_wheel_def new_wheel_def)
  moreover have "limits_ok small_server" by (simp add: limits_ok_def idle_limit_def small_server_def new_conn_def)
  ultimately show ?thesis
    using w by (auto simp: waiting_def server_ok_def quiet_def silent_def small_server_def new_conn_def idle_limit_def
        intro!: exI [of _ 20])
qed

theorem idle_connection_closed_witness:
  "(\<exists>w' s'. seconds (notifier_of silent small_os 0) small_os Suc 3629 (put (idle_wheel True) 20 (Some 5), small_server) =
      Some (Inr (w', s')) \<and> m_status (conns s' 5) = Connected) \<and>
   (\<exists>w' s'. seconds (notifier_of silent small_os 0) small_os Suc 3630 (put (idle_wheel True) 20 (Some 5), small_server) =
      Some (Inr (w', s')) \<and> m_status (conns s' 5) = Disconnected)"
proof -
  have "regular small_os id" by (simp add: regular_def small_os_def)
  then show ?thesis
    using idle_connection_closed [OF _ _ small_server_waits, of Suc 3630 0] by (simp add: small_server_def)
qed

end
