(* ===== verification/Watchers.thy ===== *)
theory Watchers
  imports EventLoop
begin

text \<open>
  What the loop watches besides connections: \<open>src/src/timer.cpp\<close>, \<open>notifier.cpp\<close>, \<open>signaler.cpp\<close>, \<open>acceptor.cpp\<close>,
  the functions of \<open>ioloop.cpp\<close> that use them, and \<open>SockUtil::bindAndListen\<close>. Each keeps a descriptor and whether it
  runs, and puts a handler into the table of the loop. What a system call returns is an argument, what it does to the
  kernel a function. A destructor only closes descriptors and is left out.
\<close>

section \<open>Timers\<close>

record timespec =
  tv_sec :: u64
  tv_nsec :: u64

record itimerspec =
  it_interval :: timespec
  it_value :: timespec

text \<open>The numbers are computed as \<open>uint64_t\<close>. Without a repetition the interval is not set.\<close>

definition timer_spec :: "timespec \<Rightarrow> timespec \<Rightarrow> int \<Rightarrow> int \<Rightarrow> itimerspec" where
  "timer_spec garbage now repeat after =
     \<lparr>it_interval =
        (if repeat > 0
         then \<lparr>tv_sec = word_of_int repeat div 1000, tv_nsec = (word_of_int repeat mod 1000) * 1000000\<rparr>
         else garbage),
      it_value =
        \<lparr>tv_sec = tv_sec now + word_of_int after div 1000,
         tv_nsec = tv_nsec now + (word_of_int after mod 1000) * 1000000\<rparr>\<rparr>"

record timer =
  t_fd :: int
  t_running :: bool
  t_repeated :: bool

text \<open>\<open>settime\<close> is \<open>timerfd_settime\<close> with an absolute time; its result is only logged. \<open>clock\<close> reads the clock.\<close>

definition timer_reset ::
  "(int \<Rightarrow> itimerspec \<Rightarrow> 'k \<Rightarrow> 'k) \<Rightarrow> ('k \<Rightarrow> timespec \<times> 'k) \<Rightarrow> timespec \<Rightarrow> int \<Rightarrow> int \<Rightarrow> timer \<times> 'k \<Rightarrow> timer \<times> 'k" where
  "timer_reset settime clock garbage repeat after = (\<lambda>(t, k).
     if t_fd t \<le> 0 then (t, k)
     else case clock k of (now, k) \<Rightarrow>
       (t\<lparr>t_repeated := repeat > 0\<rparr>, settime (t_fd t) (timer_spec garbage now repeat after) k))"

definition new_timer ::
  "(int \<Rightarrow> itimerspec \<Rightarrow> 'k \<Rightarrow> 'k) \<Rightarrow> ('k \<Rightarrow> timespec \<times> 'k) \<Rightarrow> timespec \<Rightarrow> int \<Rightarrow> int \<Rightarrow> int \<Rightarrow> 'k \<Rightarrow> timer \<times> 'k" where
  "new_timer settime clock garbage fd repeat after k =
     (let t = \<lparr>t_fd = fd, t_running = False, t_repeated = False\<rparr> in
      if fd < 0 then (t, k) else timer_reset settime clock garbage repeat after (t, k))"

definition timer_start ::
  "'k os \<Rightarrow> 'h \<Rightarrow> timer \<times> ('h, 'c, 'k, 'z) ioloop_scheme \<Rightarrow> loop_fault + timer \<times> ('h, 'c, 'k, 'z) ioloop_scheme" where
  "timer_start os h = (\<lambda>(t, l).
     if t_running t then Inr (t, l)
     else map_sum id (\<lambda>(_, l). (t\<lparr>t_running := True\<rparr>, l)) (addHandler os (t_fd t) TNET_READ h l))"

definition timer_stop :: "timer \<times> ('h, 'c, 'k, 'z) ioloop_scheme \<Rightarrow> timer \<times> ('h, 'c, 'k, 'z) ioloop_scheme" where
  "timer_stop = (\<lambda>(t, l).
     if \<not> t_running t then (t, l) else (t\<lparr>t_running := False\<rparr>, snd (removeHandler (t_fd t) l)))"

text \<open>\<open>got\<close> says whether the read gave all bytes. The handler may act on the timer.\<close>

definition timer_onTimer ::
  "bool \<Rightarrow> (timer \<times> ('h, 'c, 'k, 'z) ioloop_scheme) action option \<Rightarrow> (timer \<times> ('h, 'c, 'k, 'z) ioloop_scheme) action" where
  "timer_onTimer got handler s =
     (if \<not> got then Inr s
      else case (case handler of None \<Rightarrow> Inr s | Some f \<Rightarrow> f s) of
          Inl e \<Rightarrow> Inl e
        | Inr (t, l) \<Rightarrow> Inr (if \<not> t_repeated t then timer_stop (t, l) else (t, l)))"

text \<open>\<open>IOLoop::runAfter\<close>, and the handler of its timer.\<close>

definition runAfter ::
  "'k os \<Rightarrow> (int \<Rightarrow> itimerspec \<Rightarrow> 'k \<Rightarrow> 'k) \<Rightarrow> ('k \<Rightarrow> timespec \<times> 'k) \<Rightarrow> timespec \<Rightarrow> int \<Rightarrow> int \<Rightarrow> 'h \<Rightarrow>
   ('h, 'c, 'k, 'z) ioloop_scheme \<Rightarrow> loop_fault + timer \<times> ('h, 'c, 'k, 'z) ioloop_scheme" where
  "runAfter os settime clock garbage fd after h l =
     (case new_timer settime clock garbage fd after 0 (kernel l) of (t, k) \<Rightarrow> timer_start os h (t, l\<lparr>kernel := k\<rparr>))"

definition onTimerHandler ::
  "('h, 'c, 'k, 'z) ioloop_scheme action \<Rightarrow> (timer \<times> ('h, 'c, 'k, 'z) ioloop_scheme) action" where
  "onTimerHandler callback = (\<lambda>(t, l). map_sum id (\<lambda>l. timer_stop (t, l)) (callback l))"

section \<open>Notifiers\<close>

record notifier_obj =
  n_fd :: int
  n_running :: bool

definition new_notifier :: "int \<Rightarrow> notifier_obj" where
  "new_notifier fd = \<lparr>n_fd = fd, n_running = False\<rparr>"

definition notifier_start ::
  "'k os \<Rightarrow> 'h \<Rightarrow> notifier_obj \<times> ('h, 'c, 'k, 'z) ioloop_scheme \<Rightarrow>
   loop_fault + notifier_obj \<times> ('h, 'c, 'k, 'z) ioloop_scheme" where
  "notifier_start os h = (\<lambda>(n, l).
     if n_running n then Inr (n, l)
     else
       let n = n\<lparr>n_running := True\<rparr> in
       if n_fd n > 0 then map_sum id (\<lambda>(_, l). (n, l)) (addHandler os (n_fd n) TNET_READ h l) else Inr (n, l))"

definition notifier_stop ::
  "notifier_obj \<times> ('h, 'c, 'k, 'z) ioloop_scheme \<Rightarrow> notifier_obj \<times> ('h, 'c, 'k, 'z) ioloop_scheme" where
  "notifier_stop = (\<lambda>(n, l).
     if \<not> n_running n then (n, l)
     else (n\<lparr>n_running := False\<rparr>, if n_fd n > 0 then snd (removeHandler (n_fd n) l) else l))"

definition notify :: "(int \<Rightarrow> 'k \<Rightarrow> 'k) \<Rightarrow> notifier_obj \<Rightarrow> ('h, 'c, 'k, 'z) ioloop_scheme \<Rightarrow> ('h, 'c, 'k, 'z) ioloop_scheme" where
  "notify eventfd_write n l = l\<lparr>kernel := eventfd_write (n_fd n) (kernel l)\<rparr>"

definition onEvent :: "bool \<Rightarrow> ('h, 'c, 'k, 'z) ioloop_scheme action \<Rightarrow> ('h, 'c, 'k, 'z) ioloop_scheme action" where
  "onEvent got handler l = (if \<not> got then Inr l else handler l)"

section \<open>Signals\<close>

record signaler =
  s_fd :: int
  s_running :: bool
  s_signums :: "int list"

text \<open>\<open>createSignalFd\<close>: the results of \<open>sigprocmask\<close> and of \<open>signalfd\<close> for the signals.\<close>

definition createSignalFd :: "(int list \<Rightarrow> bool) \<Rightarrow> (int list \<Rightarrow> int) \<Rightarrow> int list \<Rightarrow> int" where
  "createSignalFd sigprocmask signalfd signums = (if \<not> sigprocmask signums then - 1 else signalfd signums)"

definition new_signaler :: "(int list \<Rightarrow> bool) \<Rightarrow> (int list \<Rightarrow> int) \<Rightarrow> int list \<Rightarrow> signaler" where
  "new_signaler sigprocmask signalfd signums =
     \<lparr>s_fd = createSignalFd sigprocmask signalfd signums, s_running = False, s_signums = signums\<rparr>"

text \<open>The constructor for one signal resizes the vector to its number.\<close>

definition new_signaler_one :: "(int list \<Rightarrow> bool) \<Rightarrow> (int list \<Rightarrow> int) \<Rightarrow> nat \<Rightarrow> signaler" where
  "new_signaler_one sigprocmask signalfd signum = new_signaler sigprocmask signalfd (replicate signum 0)"

definition signaler_start ::
  "'k os \<Rightarrow> 'h \<Rightarrow> signaler \<times> ('h, 'c, 'k, 'z) ioloop_scheme \<Rightarrow> loop_fault + signaler \<times> ('h, 'c, 'k, 'z) ioloop_scheme" where
  "signaler_start os h = (\<lambda>(s, l).
     if s_fd s > 0 \<and> \<not> s_running s
     then map_sum id (\<lambda>(_, l). (s\<lparr>s_running := True\<rparr>, l)) (addHandler os (s_fd s) TNET_READ h l)
     else Inr (s, l))"

definition signaler_stop :: "signaler \<times> ('h, 'c, 'k, 'z) ioloop_scheme \<Rightarrow> signaler \<times> ('h, 'c, 'k, 'z) ioloop_scheme" where
  "signaler_stop = (\<lambda>(s, l).
     if s_fd s > 0 \<and> s_running s then (s\<lparr>s_running := False\<rparr>, snd (removeHandler (s_fd s) l)) else (s, l))"

text \<open>The signal that was read, if all bytes were.\<close>

definition onSignal ::
  "int option \<Rightarrow> signaler \<Rightarrow> (int \<Rightarrow> ('h, 'c, 'k, 'z) ioloop_scheme action) \<Rightarrow> ('h, 'c, 'k, 'z) ioloop_scheme action" where
  "onSignal got s handler l =
     (case got of
        None \<Rightarrow> Inr l
      | Some signum \<Rightarrow> if signum \<notin> set (s_signums s) then Inr l else handler signum l)"

section \<open>Accepting connections\<close>

definition EMFILE :: int where "EMFILE = 24"
definition ENFILE :: int where "ENFILE = 23"

text \<open>
  \<open>bindAndListen\<close>, from what \<open>socket\<close>, \<open>bind\<close> and \<open>listen\<close> return: the error number of a call that failed. The
  descriptor is closed when it is not returned.
\<close>

definition bindAndListen :: "int \<Rightarrow> int option \<Rightarrow> int option \<Rightarrow> int \<times> int list" where
  "bindAndListen fd bind_err listen_err =
     (if fd < 0 then (fd, [])
      else case bind_err of
          Some err \<Rightarrow> (err, [fd])
        | None \<Rightarrow> (case listen_err of Some err \<Rightarrow> (err, [fd]) | None \<Rightarrow> (fd, [])))"

record acceptor =
  m_sockFd :: int
  m_dummyFd :: int
  a_running :: bool

definition new_acceptor :: "int \<Rightarrow> acceptor" where
  "new_acceptor dummy = \<lparr>m_sockFd = 0, m_dummyFd = dummy, a_running = False\<rparr>"

definition acceptor_listen :: "int \<Rightarrow> acceptor \<Rightarrow> int \<times> acceptor" where
  "acceptor_listen fd a = (if fd < 0 then (fd, a) else (fd, a\<lparr>m_sockFd := fd\<rparr>))"

text \<open>\<open>None\<close> is a failed assertion.\<close>

definition acceptor_start ::
  "'k os \<Rightarrow> 'h \<Rightarrow> acceptor \<times> ('h, 'c, 'k, 'z) ioloop_scheme \<Rightarrow>
   (loop_fault + acceptor \<times> ('h, 'c, 'k, 'z) ioloop_scheme) option" where
  "acceptor_start os h = (\<lambda>(a, l).
     if \<not> m_sockFd a > 0 then None
     else if a_running a then Some (Inr (a, l))
     else Some (map_sum id (\<lambda>(_, l). (a\<lparr>a_running := True\<rparr>, l)) (addHandler os (m_sockFd a) TNET_READ h l)))"

definition acceptor_stop :: "acceptor \<times> ('h, 'c, 'k, 'z) ioloop_scheme \<Rightarrow> acceptor \<times> ('h, 'c, 'k, 'z) ioloop_scheme" where
  "acceptor_stop = (\<lambda>(a, l).
     if \<not> a_running a then (a, l) else (a\<lparr>a_running := False\<rparr>, snd (removeHandler (m_sockFd a) l)))"

datatype accept_act = Acc_close int | Acc_no_delay int | Acc_connection int

text \<open>
  When there are no descriptors left the dummy is closed, a connection is accepted and closed, and a new dummy opened.
  The arguments are what \<open>accept4\<close> gives, with \<open>errno\<close>, the second \<open>accept\<close> and \<open>open\<close>.
\<close>

definition onAccept :: "int \<Rightarrow> int \<Rightarrow> int \<Rightarrow> int \<Rightarrow> acceptor \<Rightarrow> accept_act list \<times> acceptor" where
  "onAccept fd err fd2 dummy a =
     (if fd < 0
      then (if err = EMFILE \<or> err = ENFILE
        then ((if m_dummyFd a > 0 then [Acc_close (m_dummyFd a)] else []) @ [Acc_close fd2], a\<lparr>m_dummyFd := dummy\<rparr>)
        else ([], a))
      else ([Acc_no_delay fd, Acc_connection fd], a))"

section \<open>Starting the loop\<close>

text \<open>
  \<open>IOLoop::start\<close> up to \<open>run\<close>: the notifier and the timer of the wheel, with the handlers of both. The number of the
  loop that the wheel keeps is 0.
\<close>

definition loop_start ::
  "'k os \<Rightarrow> 'h \<Rightarrow> 'h \<Rightarrow> notifier_obj \<times> timer \<times> ('h, 'c, 'k, 'z) ioloop_scheme \<Rightarrow>
   loop_fault + notifier_obj \<times> timer \<times> ('h, 'c, 'k, 'z) ioloop_scheme" where
  "loop_start os wake tick = (\<lambda>(n, t, l).
     if loop_running l then Inr (n, t, l)
     else case notifier_start os wake (n, l\<lparr>loop_running := True\<rparr>) of
         Inl e \<Rightarrow> Inl e
       | Inr (n, l) \<Rightarrow>
           (case wheel_start 0 (m_wheel l) of (w, call) \<Rightarrow>
              let l = l\<lparr>m_wheel := w\<rparr> in
              if call = None then Inr (n, t, l)
              else map_sum id (Pair n) (timer_start os tick (t, l))))"

end
