(* ===== verification/WatcherProps.thy ===== *)
theory WatcherProps
  imports Watchers
begin

text \<open>
  What timers, signals and acceptors do: the times a timer is set to, and three calls that do not do what they are
  for.
\<close>

section \<open>Times in nanoseconds\<close>

definition nanoseconds :: "timespec \<Rightarrow> nat" where
  "nanoseconds t = unat (tv_sec t) * 1000000000 + unat (tv_nsec t)"

text \<open>What \<open>timerfd_settime\<close> accepts.\<close>

definition valid_time :: "timespec \<Rightarrow> bool" where
  "valid_time t \<longleftrightarrow> tv_nsec t < 1000000000"

lemma milliseconds:
  fixes w :: u64
  shows "unat (w div 1000) = unat w div 1000" and "unat ((w mod 1000) * 1000000) = unat w mod 1000 * 1000000"
proof -
  show "unat (w div 1000) = unat w div 1000" by (simp add: unat_div_distrib)
  have "unat (w mod 1000) = unat w mod 1000" by (simp add: unat_mod_distrib)
  moreover have "unat w mod 1000 * 1000000 < 2 ^ 64"
  proof -
    have "unat w mod 1000 \<le> 999" using mod_less_divisor [of 1000 "unat w"] by linarith
    then have "unat w mod 1000 * 1000000 \<le> 999 * 1000000" by (rule mult_le_mono1)
    then show ?thesis by simp
  qed
  ultimately show "unat ((w mod 1000) * 1000000) = unat w mod 1000 * 1000000"
    by (simp add: unat_mult_lem [THEN iffD1])
qed

lemma unat_of_int: "0 \<le> n \<Longrightarrow> n < 2 ^ 31 \<Longrightarrow> unat (word_of_int n :: u64) = nat n"
  by (simp add: unat_eq_nat_uint uint_word_of_int)

lemma split_ms: "n div 1000 * 1000000000 + n mod 1000 * 1000000 = (n :: nat) * 1000000"
proof -
  have "n div 1000 * 1000000000 + n mod 1000 * 1000000 = (n div 1000 * 1000 + n mod 1000) * 1000000"
    by (simp only: add_mult_distrib)
  then show ?thesis by simp
qed

section \<open>Properties\<close>

text \<open>
  a timer is set to the time \<open>after\<close> milliseconds from now and to an interval of \<open>repeat\<close> milliseconds; but the
  system accepts the time only when the nanoseconds do not carry into a second.
\<close>

theorem timer_spec_exact:
  assumes "valid_time now" and "tv_sec now < 2 ^ 62" and "0 < repeat" "repeat < 2 ^ 31" and "0 \<le> after" "after < 2 ^ 31"
  shows "nanoseconds (it_value (timer_spec garbage now repeat after)) = nanoseconds now + nat after * 1000000 \<and>
    nanoseconds (it_interval (timer_spec garbage now repeat after)) = nat repeat * 1000000 \<and>
    valid_time (it_interval (timer_spec garbage now repeat after)) \<and>
    valid_time (it_value (timer_spec garbage now repeat after)) =
      (unat (tv_nsec now) + nat after mod 1000 * 1000000 < 1000000000)"
proof -
  let ?a = "word_of_int after :: u64" and ?r = "word_of_int repeat :: u64"
  have n: "unat (tv_nsec now) < 1000000000" using assms(1) by (simp add: valid_time_def word_less_nat_alt)
  have s: "unat (tv_sec now) < 2 ^ 62" using assms(2) by (simp add: word_less_nat_alt)
  note u = unat_of_int [OF assms(5,6)] unat_of_int [OF less_imp_le [OF assms(3)] assms(4)]
  have "nat after < 2 ^ 31" using assms(5,6) by (simp add: nat_less_iff)
  then have "nat after div 1000 < 2 ^ 31" using div_le_dividend [of "nat after" 1000] by linarith
  then have "unat (tv_sec now) + unat (?a div 1000) < 2 ^ 64" using s by (simp add: milliseconds u)
  then have sec: "unat (tv_sec now + ?a div 1000) = unat (tv_sec now) + nat after div 1000"
    by (simp add: unat_add_lem [THEN iffD1] milliseconds u)
  have "nat after mod 1000 < 1000" by simp
  then have "nat after mod 1000 * 1000000 < 1000000000" by linarith
  then have "unat (tv_nsec now) + unat ((?a mod 1000) * 1000000) < 2 ^ 64" using n by (simp add: milliseconds u)
  then have nsec: "unat (tv_nsec now + (?a mod 1000) * 1000000) = unat (tv_nsec now) + nat after mod 1000 * 1000000"
    by (simp add: unat_add_lem [THEN iffD1] milliseconds u)
  have "nat repeat mod 1000 < 1000" by simp
  then have r: "nat repeat mod 1000 * 1000000 < 1000000000" by linarith
  show ?thesis
    using assms(3) r split_ms [of "nat after"] split_ms [of "nat repeat"]
    by (simp add: timer_spec_def nanoseconds_def valid_time_def word_less_nat_alt sec nsec milliseconds u add_mult_distrib)
qed

definition half_past :: timespec where
  "half_past = \<lparr>tv_sec = 7, tv_nsec = 500000000\<rparr>"

theorem timer_spec_exact_witness:
  "nanoseconds (it_value (timer_spec half_past half_past 1000 1600)) = 9100000000 \<and>
   \<not> valid_time (it_value (timer_spec half_past half_past 1000 1600))"
  using timer_spec_exact [of half_past 1000 1600 half_past]
  by (simp add: half_past_def valid_time_def nanoseconds_def)

text \<open>
  C39: \<open>runAfter\<close> does not wait: it makes a timer whose interval is the time to wait and that expires for the first
  time now.
\<close>

theorem run_after_is_immediate:
  assumes "0 < after" and "0 < fd" and "clock (kernel l) = (now, k)"
  shows "runAfter os settime clock garbage fd after h l =
    timer_start os h
      (\<lparr>t_fd = fd, t_running = False, t_repeated = True\<rparr>,
       l\<lparr>kernel := settime fd
         \<lparr>it_interval = \<lparr>tv_sec = word_of_int after div 1000, tv_nsec = (word_of_int after mod 1000) * 1000000\<rparr>,
          it_value = now\<rparr> k\<rparr>)"
  using assms by (cases now) (simp add: runAfter_def new_timer_def timer_reset_def timer_spec_def)

definition quiet_os :: "itimerspec list os" where
  "quiet_os =
     \<lparr>epoll_ctl = (\<lambda>_ _ _ k. (True, k)), epoll_wait = (\<lambda>_ k. (None, k)), writev = (\<lambda>_ _ k. ((0, 0), k)),
      recv = (\<lambda>_ _ k. ((0, 0, []), k)), sys_connect = (\<lambda>_ k. ((0, 0), k)), so_error = (\<lambda>_ k. (0, k)),
      sys_close = (\<lambda>_ k. k), monotonic = (\<lambda>k. (0, k))\<rparr>"

definition small_loop :: "(nat, nat, itimerspec list) ioloop" where
  "small_loop =
     \<lparr>loop_running = True, m_events = [None, None, None], m_delevents = [], m_callbacks = [],
      m_wheel = new_wheel False 1000 3600, m_eventSize = 2, kernel = []\<rparr>"

theorem run_after_is_immediate_witness:
  "\<exists>t l. runAfter quiet_os (\<lambda>fd s k. s # k) (\<lambda>k. (half_past, k)) half_past 2 5000 0 small_loop = Inr (t, l) \<and>
     kernel l = [\<lparr>it_interval = \<lparr>tv_sec = 5, tv_nsec = 0\<rparr>, it_value = half_past\<rparr>]"
  using run_after_is_immediate [of 5000 2 "\<lambda>k. (half_past, k)" small_loop half_past "[]" quiet_os "\<lambda>fd s k. s # k" half_past 0]
  by (simp add: small_loop_def timer_start_def addHandler_def resize_table_def in_table_def poller_add_def quiet_os_def Let_def)

text \<open>
  C40: when \<open>bind\<close> or \<open>listen\<close> fails, the number of the error is taken for the descriptor to accept from: the server
  says that it listens, and watches a descriptor that is not its own.
\<close>

theorem failed_bind_taken_for_socket:
  assumes "0 \<le> fd" and "0 < err" and "e1 = Some err \<or> e1 = None \<and> e2 = Some err" and "\<not> a_running a"
  shows "\<exists>a'. acceptor_listen (fst (bindAndListen fd e1 e2)) a = (err, a') \<and> fd \<in> set (snd (bindAndListen fd e1 e2)) \<and>
    acceptor_start os h (a', l) =
      Some (map_sum id (\<lambda>(_, l). (a'\<lparr>a_running := True\<rparr>, l)) (addHandler os err TNET_READ h l))"
  using assms by (auto simp: bindAndListen_def acceptor_listen_def acceptor_start_def)

theorem failed_bind_taken_for_socket_witness:
  "\<exists>a l. acceptor_listen (fst (bindAndListen 7 (Some 2) None)) (new_acceptor 3) = (2, a) \<and>
     acceptor_start quiet_os 0 (a, small_loop) = Some (Inr (a\<lparr>a_running := True\<rparr>, l))"
proof -
  have h: "addHandler quiet_os 2 TNET_READ 0 small_loop =
      Inr (0, small_loop\<lparr>m_events := [None, None, Some \<lparr>ev_events = TNET_READ, ev_handler = 0\<rparr>]\<rparr>)"
    by (simp add: small_loop_def addHandler_def resize_table_def in_table_def poller_add_def quiet_os_def Let_def)
  have "\<not> a_running (new_acceptor 3)" by (simp add: new_acceptor_def)
  from failed_bind_taken_for_socket [OF _ _ _ this, of 7 2 "Some 2" None quiet_os 0 small_loop] show ?thesis
    by (simp add: h) blast
qed

text \<open>A signaler for one signal never calls its handler: it waits for the signal 0, as often as its number says.\<close>

lemma single_signal_ignored:
  assumes "0 < signum"
  shows "onSignal (Some (int signum)) (new_signaler_one sigprocmask signalfd signum) handler l = Inr l"
  using assms by (simp add: onSignal_def new_signaler_one_def new_signaler_def)

text \<open>A timer that is not repeated stops after its handler, unless the handler has stopped it.\<close>

lemma one_shot_stops:
  assumes "timer_onTimer True handler (t, l) = Inr (t', l')" and "\<And>f s t2 l2. handler = Some f \<Longrightarrow> f s = Inr (t2, l2) \<Longrightarrow> \<not> t_repeated t2"
    and "\<not> t_repeated t"
  shows "\<not> t_running t'"
  using assms by (auto simp: timer_onTimer_def timer_stop_def split: option.splits sum.splits if_splits)

end
