(* ===== verification/Processes.thy ===== *)
theory Processes
  imports TnetPrelude
begin

text \<open>
  \<open>src/src/tprocess.cpp\<close>: a main process that keeps a number of worker processes alive. What \<open>fork\<close>, \<open>waitpid\<close> and
  the read of the signal descriptor give is the input; the result of \<open>fork\<close> is 0 in the new process. Every round of
  the loop in \<open>wait\<close> is a step of the relation \<open>supervise\<close>, seen from the main process.
\<close>

section \<open>Processes\<close>

record process =
  p_running :: bool
  m_children :: "int set"

definition new_process :: process where
  "new_process = \<lparr>p_running = False, m_children = {}\<rparr>"

definition SIGTERM :: int where "SIGTERM = 15"

text \<open>The number of a new process in it, 0 in the main process; a fork that fails gives 0, too.\<close>

definition create :: "int \<Rightarrow> int \<Rightarrow> process \<Rightarrow> int \<times> process" where
  "create fork own p =
     (if fork < 0 then (0, p)
      else if fork = 0 then (own, p\<lparr>m_children := {}\<rparr>)
      else (0, p\<lparr>m_children := insert fork (m_children p)\<rparr>))"

text \<open>The first loop of \<open>wait\<close>: whether this is a worker, which runs the callback and returns.\<close>

fun start_workers :: "int list \<Rightarrow> int \<Rightarrow> process \<Rightarrow> bool \<times> process" where
  "start_workers [] own p = (False, p)"
| "start_workers (fork # forks) own p =
     (let (pid, p) = create fork own p in if pid \<noteq> 0 then (True, p) else start_workers forks own p)"

definition wait_start :: "int list \<Rightarrow> int \<Rightarrow> process \<Rightarrow> bool \<times> process" where
  "wait_start forks own p = start_workers forks own (p\<lparr>p_running := True\<rparr>)"

text \<open>\<open>stop\<close> with the processes that get a signal, and \<open>checkStop\<close> with the signal that was read.\<close>

definition process_stop :: "process \<Rightarrow> process \<times> int set" where
  "process_stop p = (if \<not> p_running p then (p, {}) else (p\<lparr>p_running := False\<rparr>, m_children p))"

definition checkStop :: "int option \<Rightarrow> process \<Rightarrow> process \<times> int set" where
  "checkStop signum p = (if signum = Some SIGTERM then process_stop p else (p, {}))"

text \<open>What a round finds: a worker that ended, with the result of the fork that replaces it, or nothing.\<close>

datatype round = Ended int int | Nothing "int option"

definition wait_round :: "round \<Rightarrow> int \<Rightarrow> process \<Rightarrow> int \<times> process" where
  "wait_round e own p =
     (case e of
        Ended pid fork \<Rightarrow>
          let p = p\<lparr>m_children := m_children p - {pid}\<rparr> in
          if \<not> p_running p then (0, p) else create fork own p
      | Nothing signum \<Rightarrow> (0, fst (checkStop signum p)))"

text \<open>Rounds of the main process, while there are workers.\<close>

inductive supervise :: "process \<Rightarrow> round list \<Rightarrow> process \<Rightarrow> bool" where
  start: "supervise p [] p"
| round: "supervise p es q \<Longrightarrow> m_children q \<noteq> {} \<Longrightarrow> wait_round e own q = (0, q') \<Longrightarrow> supervise p (es @ [e]) q'"

inductive_cases supervise_snocE: "supervise p (es @ [e]) q"
inductive_simps supervise_Nil: "supervise p [] q"

section \<open>What the rounds keep\<close>

text \<open>A round as the system makes it: what ended was a worker, and a fork gives a new number.\<close>

fun honest :: "process \<Rightarrow> round \<Rightarrow> bool" where
  "honest p (Ended pid fork) \<longleftrightarrow> pid \<in> m_children p \<and> 0 < fork \<and> fork \<notin> m_children p"
| "honest p (Nothing signum) \<longleftrightarrow> True"

inductive honest_run :: "process \<Rightarrow> round list \<Rightarrow> process \<Rightarrow> bool" where
  start: "honest_run p [] p"
| round: "honest_run p es q \<Longrightarrow> m_children q \<noteq> {} \<Longrightarrow> honest q e \<Longrightarrow> wait_round e own q = (0, q') \<Longrightarrow>
    honest_run p (es @ [e]) q'"

lemma honest_supervise: "honest_run p es q \<Longrightarrow> supervise p es q"
  by (induction rule: honest_run.induct) (auto intro: supervise.intros)

lemma honest_Ended:
  "0 < fork \<Longrightarrow> wait_round (Ended pid fork) own q =
     (0, q\<lparr>m_children := (if p_running q then insert fork (m_children q - {pid}) else m_children q - {pid})\<rparr>)"
  by (simp add: wait_round_def create_def Let_def)

lemma honest_Nothing:
  "wait_round (Nothing signum) own q = (0, if signum = Some SIGTERM then q\<lparr>p_running := False\<rparr> else q)"
  by (cases "p_running q") (simp_all add: wait_round_def checkStop_def process_stop_def)

lemma round_keeps:
  assumes "finite (m_children q)" and "honest q e" and "wait_round e own q = (0, q')"
  shows "finite (m_children q') \<and>
    (if p_running q' then p_running q \<and> card (m_children q') = card (m_children q)
     else if p_running q then e = Nothing (Some SIGTERM) \<and> m_children q' = m_children q
     else m_children q' \<subseteq> m_children q)"
proof (cases e)
  case (Ended pid fork)
  then have e: "pid \<in> m_children q" "0 < fork" "fork \<notin> m_children q" using assms(2) by simp_all
  have "card (insert fork (m_children q - {pid})) = card (m_children q)"
    using e(1,3) assms(1) card_Suc_Diff1 [OF assms(1) e(1)] by simp
  then show ?thesis using assms honest_Ended [OF e(2), of pid own q] Ended by auto
next
  case (Nothing signum)
  then have "q' = (if signum = Some SIGTERM then q\<lparr>p_running := False\<rparr> else q)"
    using assms(3) honest_Nothing [of signum own q] by simp
  then show ?thesis using assms(1) Nothing by auto
qed

lemma stopped_run:
  assumes "honest_run q es q'" and "finite (m_children q)" and "\<not> p_running q"
  shows "finite (m_children q') \<and> m_children q' \<subseteq> m_children q \<and> \<not> p_running q'"
  using assms
proof (induction rule: honest_run.induct)
  case (round q es r e own q')
  then show ?case using round_keeps [OF _ round(3,4)] by (auto split: if_splits)
qed simp

lemma started:
  assumes "distinct forks" and "\<forall>f \<in> set forks. 0 < f"
  shows "wait_start forks own new_process = (False, \<lparr>p_running = True, m_children = set forks\<rparr>)"
proof -
  have "start_workers forks own p = (False, p\<lparr>m_children := m_children p \<union> set forks\<rparr>)" for p
    using assms(2) by (induction forks arbitrary: p) (auto simp: create_def)
  then show ?thesis by (simp add: wait_start_def new_process_def)
qed

section \<open>Properties\<close>

text \<open>
  C18: as long as forks succeed and the main process is not stopped there are always as many workers as were asked for;
  once it is stopped no worker is started again.
\<close>

theorem workers_kept:
  assumes "distinct forks" and "\<forall>f \<in> set forks. 0 < f"
    and "honest_run (snd (wait_start forks own new_process)) es q"
  shows "if p_running q then card (m_children q) = length forks
    else Nothing (Some SIGTERM) \<in> set es \<and>
      (\<forall>es' q'. honest_run q es' q' \<longrightarrow> m_children q' \<subseteq> m_children q \<and> \<not> p_running q')"
proof -
  let ?p = "\<lparr>p_running = True, m_children = set forks\<rparr>"
  have "honest_run ?p es q" using assms(3) started [OF assms(1,2), of own] by simp
  then have "finite (m_children q) \<and>
      (if p_running q then card (m_children q) = length forks else Nothing (Some SIGTERM) \<in> set es)"
  proof (induction ?p es q rule: honest_run.induct)
    case start
    then show ?case using assms(1) by (simp add: distinct_card)
  next
    case (round es q e own q')
    note k = round_keeps [OF _ round(4,5)]
    show ?case using round(2) k by (auto split: if_splits)
  qed
  then have q: "finite (m_children q)"
    "if p_running q then card (m_children q) = length forks else Nothing (Some SIGTERM) \<in> set es" by simp_all
  then show ?thesis using stopped_run [of q] by auto
qed

definition rounds_of_four :: "round list" where
  "rounds_of_four = [Ended 4 9, Nothing None, Nothing (Some 15), Ended 5 10]"

theorem workers_kept_witness:
  "\<exists>q. honest_run (snd (wait_start [4, 5, 6] 1 new_process)) rounds_of_four q \<and> m_children q = {6, 9} \<and>
     Nothing (Some SIGTERM) \<in> set rounds_of_four"
proof -
  let ?p = "\<lparr>p_running = True, m_children = {4, 5, 6}\<rparr>"
  let ?run = "honest_run ?p" and ?q = "\<lparr>p_running = False, m_children = {6, 9}\<rparr>"
  have p: "snd (wait_start [4, 5, 6] 1 new_process) = ?p" using started [of "[4, 5, 6]" 1] by simp
  have 0: "?run [] ?p" by (rule honest_run.start)
  have 1: "?run ([] @ [Ended 4 9]) \<lparr>p_running = True, m_children = {5, 6, 9}\<rparr>"
    by (rule honest_run.round [OF 0]) (auto simp: honest_Ended)
  have 2: "?run (([] @ [Ended 4 9]) @ [Nothing None]) \<lparr>p_running = True, m_children = {5, 6, 9}\<rparr>"
    by (rule honest_run.round [OF 1]) (auto simp: honest_Nothing)
  have 3: "?run ((([] @ [Ended 4 9]) @ [Nothing None]) @ [Nothing (Some 15)]) \<lparr>p_running = False, m_children = {5, 6, 9}\<rparr>"
    by (rule honest_run.round [OF 2]) (auto simp: honest_Nothing SIGTERM_def)
  have 4: "?run (((([] @ [Ended 4 9]) @ [Nothing None]) @ [Nothing (Some 15)]) @ [Ended 5 10]) ?q"
    by (rule honest_run.round [OF 3]) (auto simp: honest_Ended)
  then have r: "?run rounds_of_four ?q" by (simp add: rounds_of_four_def)
  have "honest_run (snd (wait_start [4, 5, 6] 1 new_process)) rounds_of_four ?q" unfolding p by (rule r)
  from workers_kept [OF _ _ this] this show ?thesis by auto
qed

end
