(* ===== verification/ServerLife.thy ===== *)
theory ServerLife
  imports Watchers Processes
begin

text \<open>
  How a server of \<open>src/src/tcpserver.cpp\<close> is started and stopped: its acceptors, the signals SIGINT and SIGTERM, and the
  wheel for idle connections with its timer, all on one loop. The handlers they put into the loop are arguments.
\<close>

section \<open>State\<close>

record 'h life =
  srv_running :: bool
  m_acceptors :: "acceptor list"
  m_signaler :: "signaler option"
  m_idleWheel :: "'h timing_wheel option"
  wheel_timer :: timer

definition SIGINT :: int where "SIGINT = 2"

text \<open>\<open>listen\<close>, with what \<open>bindAndListen\<close> returned for the new acceptor.\<close>

definition server_listen :: "int \<Rightarrow> int \<Rightarrow> 'h life \<Rightarrow> int \<times> 'h life" where
  "server_listen fd dummy s =
     (case acceptor_listen fd (new_acceptor dummy) of (res, a) \<Rightarrow>
        if res < 0 then (- 1, s) else (0, s\<lparr>m_acceptors := m_acceptors s @ [a]\<rparr>))"

text \<open>\<open>run\<close> up to the start of the loop.\<close>

definition server_run ::
  "('k \<Rightarrow> 'k) \<Rightarrow> 'c \<Rightarrow> 'h life \<times> ('h, 'c, 'k, 'z) ioloop_scheme \<Rightarrow> 'h life \<times> ('h, 'c, 'k, 'z) ioloop_scheme" where
  "server_run wake on_run = (\<lambda>(s, l).
     if srv_running s then (s, l) else (s\<lparr>srv_running := True\<rparr>, addCallback wake on_run l))"

text \<open>
  \<open>start\<close>: whether this process runs the server, and the object for the worker processes. The main process goes through
  the rounds of \<open>Processes\<close> instead.
\<close>

definition server_start :: "nat \<Rightarrow> int list \<Rightarrow> int \<Rightarrow> process option \<Rightarrow> bool \<times> process option" where
  "server_start maxProcess forks own p =
     (if maxProcess > 1
      then (case wait_start (take maxProcess forks) own (case p of None \<Rightarrow> new_process | Some p \<Rightarrow> p) of
          (worker, p) \<Rightarrow> (worker, Some p))
      else (True, p))"

section \<open>Starting\<close>

text \<open>The acceptors in order; an assertion that fails ends the program (\<open>None\<close>).\<close>

fun start_acceptors ::
  "'k os \<Rightarrow> 'h \<Rightarrow> acceptor list \<times> ('h, 'c, 'k, 'z) ioloop_scheme \<Rightarrow>
   (loop_fault + acceptor list \<times> ('h, 'c, 'k, 'z) ioloop_scheme) option" where
  "start_acceptors os h ([], l) = Some (Inr ([], l))"
| "start_acceptors os h (a # as, l) =
     (case acceptor_start os h (a, l) of
        None \<Rightarrow> None
      | Some (Inl e) \<Rightarrow> Some (Inl e)
      | Some (Inr (a, l)) \<Rightarrow> map_option (map_sum id (\<lambda>(as, l). (a # as, l))) (start_acceptors os h (as, l)))"

text \<open>
  \<open>onRun\<close>. The signaler, the wheel and its timer are made here: \<open>sig\<close>, \<open>wheel\<close> and \<open>timer\<close> are the new ones. The
  callback of the application comes after.
\<close>

definition server_onRun ::
  "'k os \<Rightarrow> 'h \<Rightarrow> 'h \<Rightarrow> 'h \<Rightarrow> signaler \<Rightarrow> 'h timing_wheel \<Rightarrow> timer \<Rightarrow> 'h life \<times> ('h, 'c, 'k, 'z) ioloop_scheme \<Rightarrow>
   (loop_fault + 'h life \<times> ('h, 'c, 'k, 'z) ioloop_scheme) option" where
  "server_onRun os accept on_signal tick sig wheel timer = (\<lambda>(s, l).
     case start_acceptors os accept (m_acceptors s, l) of
       None \<Rightarrow> None
     | Some (Inl e) \<Rightarrow> Some (Inl e)
     | Some (Inr (as, l)) \<Rightarrow>
         Some (case signaler_start os on_signal (sig, l) of
             Inl e \<Rightarrow> Inl e
           | Inr (sig, l) \<Rightarrow>
               (case wheel_start 0 wheel of (wheel, call) \<Rightarrow>
                  let s = s\<lparr>m_acceptors := as, m_signaler := Some sig, m_idleWheel := Some wheel, wheel_timer := timer\<rparr> in
                  if call = None then Inr (s, l)
                  else map_sum id (\<lambda>(t, l). (s\<lparr>wheel_timer := t\<rparr>, l)) (timer_start os tick (timer, l)))))"

section \<open>Stopping\<close>

fun stop_acceptors ::
  "acceptor list \<times> ('h, 'c, 'k, 'z) ioloop_scheme \<Rightarrow> acceptor list \<times> ('h, 'c, 'k, 'z) ioloop_scheme" where
  "stop_acceptors ([], l) = ([], l)"
| "stop_acceptors (a # as, l) =
     (let (a, l) = acceptor_stop (a, l); (as, l) = stop_acceptors (as, l) in (a # as, l))"

text \<open>Before \<open>onRun\<close> there is neither wheel nor signaler, and the pointer to the wheel is null (\<open>None\<close>).\<close>

definition server_onStop ::
  "('k \<Rightarrow> 'k) \<Rightarrow> 'h life \<times> ('h, 'c, 'k, 'z) ioloop_scheme \<Rightarrow> ('h life \<times> ('h, 'c, 'k, 'z) ioloop_scheme) option" where
  "server_onStop wake = (\<lambda>(s, l).
     if \<not> srv_running s then Some (s, l)
     else case (m_idleWheel s, m_signaler s) of
         (Some wheel, Some sig) \<Rightarrow>
           (let (wheel, call) = wheel_stop wheel;
                (t, l) = (if call = None then (wheel_timer s, l) else timer_stop (wheel_timer s, l));
                (sig, l) = signaler_stop (sig, l);
                (as, l) = stop_acceptors (m_acceptors s, l)
            in Some (s\<lparr>srv_running := False, m_idleWheel := Some wheel, wheel_timer := t, m_signaler := Some sig, m_acceptors := as\<rparr>,
                loop_stop wake l))
       | _ \<Rightarrow> None)"

text \<open>\<open>stop\<close>, with the processes that get a signal, and the handler of signals.\<close>

definition server_stop ::
  "('k \<Rightarrow> 'k) \<Rightarrow> process option \<Rightarrow> 'h life \<times> ('h, 'c, 'k, 'z) ioloop_scheme \<Rightarrow>
   (process option \<times> int set) \<times> ('h life \<times> ('h, 'c, 'k, 'z) ioloop_scheme) option" where
  "server_stop wake p sl =
     ((case p of None \<Rightarrow> (None, {}) | Some p \<Rightarrow> (case process_stop p of (p, killed) \<Rightarrow> (Some p, killed))),
      server_onStop wake sl)"

definition server_onSignal ::
  "('k \<Rightarrow> 'k) \<Rightarrow> int \<Rightarrow> 'h life \<times> ('h, 'c, 'k, 'z) ioloop_scheme \<Rightarrow> ('h life \<times> ('h, 'c, 'k, 'z) ioloop_scheme) option" where
  "server_onSignal wake signum sl = (if signum = SIGINT \<or> signum = SIGTERM then server_onStop wake sl else Some sl)"

section \<open>What starting and stopping does\<close>

text \<open>The descriptors that are watched.\<close>

definition watched :: "('h, 'c, 'k, 'z) ioloop_scheme \<Rightarrow> int set" where
  "watched l = {fd. in_table (m_events l) fd \<and> m_events l ! nat fd \<noteq> None}"

lemma stop_keeps:
  "snd (removeHandler fd l) = (if fd \<in> watched l then l\<lparr>m_delevents := m_delevents l @ [fd]\<rparr> else l)"
  by (auto simp: removeHandler_def watched_def)

lemma stop_acceptors_effect:
  assumes "stop_acceptors (as, l) = (as', l')"
  shows "(\<forall>a \<in> set as'. \<not> a_running a) \<and> (\<exists>ds. l' = l\<lparr>m_delevents := m_delevents l @ ds\<rparr> \<and>
    set ds = m_sockFd ` {a \<in> set as. a_running a} \<inter> watched l)"
  using assms
proof (induction as arbitrary: l as' l')
  case Nil
  have "l = l\<lparr>m_delevents := m_delevents l @ []\<rparr>" by simp
  with Nil show ?case by auto
next
  case (Cons a as)
  obtain a1 l1 where a: "acceptor_stop (a, l) = (a1, l1)" by fastforce
  obtain as1 l2 where as: "stop_acceptors (as, l1) = (as1, l2)" by fastforce
  have r: "as' = a1 # as1" "l' = l2" using Cons.prems a as by simp_all
  define d where "d = (if a_running a \<and> m_sockFd a \<in> watched l then [m_sockFd a] else [])"
  have l1: "l1 = l\<lparr>m_delevents := m_delevents l @ d\<rparr>" and a1: "\<not> a_running a1"
    using a by (auto simp: acceptor_stop_def d_def stop_keeps split: if_splits)
  have w: "watched l1 = watched l" by (simp add: l1 watched_def)
  obtain ds where ds: "l2 = l1\<lparr>m_delevents := m_delevents l1 @ ds\<rparr>"
      "set ds = m_sockFd ` {a \<in> set as. a_running a} \<inter> watched l" "\<forall>a \<in> set as1. \<not> a_running a"
    using Cons.IH [OF as] w by auto
  have "l' = l\<lparr>m_delevents := m_delevents l @ (d @ ds)\<rparr>" by (simp add: r ds(1) l1)
  moreover have "set (d @ ds) = m_sockFd ` {x \<in> set (a # as). a_running x} \<inter> watched l"
    using ds(2) by (auto simp: d_def)
  ultimately show ?case using a1 ds(3) r by auto
qed

section \<open>Properties\<close>

text \<open>
  C17: a signal to end stops a running server: the loop ends, nothing of the server runs any more, and every descriptor
  that was watched for its acceptors, its signals and its timer is going to be removed from the loop.
\<close>

theorem server_stops:
  assumes "signum = SIGINT \<or> signum = SIGTERM" and "srv_running s"
    and "m_idleWheel s = Some wheel" and "m_signaler s = Some sig"
  shows "\<exists>s' l'. server_onSignal wake signum (s, l) = Some (s', l') \<and> \<not> srv_running s' \<and> \<not> loop_running l' \<and> (\<forall>a \<in> set (m_acceptors s'). \<not> a_running a) \<and>
    m_events l' = m_events l \<and>
    {m_sockFd a | a. a \<in> set (m_acceptors s) \<and> a_running a} \<inter> watched l \<subseteq> set (m_delevents l') \<and>
    (s_running sig \<and> s_fd sig > 0 \<and> s_fd sig \<in> watched l \<longrightarrow> s_fd sig \<in> set (m_delevents l')) \<and>
    (m_running wheel \<and> t_running (wheel_timer s) \<and> t_fd (wheel_timer s) \<in> watched l \<longrightarrow>
       t_fd (wheel_timer s) \<in> set (m_delevents l'))"
proof -
  define t1 where "t1 = (if snd (wheel_stop wheel) = None then (wheel_timer s, l) else timer_stop (wheel_timer s, l))"
  define s1 where "s1 = signaler_stop (sig, snd t1)"
  define a1 where "a1 = stop_acceptors (m_acceptors s, snd s1)"
  define d1 where "d1 = (if m_running wheel \<and> t_running (wheel_timer s) \<and> t_fd (wheel_timer s) \<in> watched l
    then [t_fd (wheel_timer s)] else [])"
  define d2 where "d2 = (if s_running sig \<and> s_fd sig > 0 \<and> s_fd sig \<in> watched l then [s_fd sig] else [])"
  have l1: "snd t1 = l\<lparr>m_delevents := m_delevents l @ d1\<rparr>"
    by (auto simp: t1_def d1_def wheel_stop_def timer_stop_def stop_keeps)
  have w1: "watched (snd t1) = watched l" by (simp add: l1 watched_def)
  have l2: "snd s1 = l\<lparr>m_delevents := m_delevents l @ d1 @ d2\<rparr>"
    using w1 by (auto simp: s1_def d2_def signaler_stop_def stop_keeps l1)
  have w2: "watched (snd s1) = watched l" by (simp add: l2 watched_def)
  obtain as l3 where a: "a1 = (as, l3)" by fastforce
  obtain ds where ds: "l3 = (snd s1)\<lparr>m_delevents := m_delevents (snd s1) @ ds\<rparr>"
      "set ds = m_sockFd ` {a \<in> set (m_acceptors s). a_running a} \<inter> watched l" "\<forall>a \<in> set as. \<not> a_running a"
    using stop_acceptors_effect [of "m_acceptors s" "snd s1" as l3] a w2 by (auto simp: a1_def)
  have "server_onSignal wake signum (s, l) =
      Some (s\<lparr>srv_running := False, m_idleWheel := Some (fst (wheel_stop wheel)), wheel_timer := fst t1,
        m_signaler := Some (fst s1), m_acceptors := as\<rparr>, loop_stop wake l3)"
    using assms a
    by (auto simp: server_onSignal_def server_onStop_def t1_def s1_def a1_def Let_def split: prod.splits)
  then show ?thesis using ds(2,3) by (auto simp: loop_stop_def ds(1) l2 d1_def d2_def)
qed

text \<open>A server with one acceptor, on the descriptor 2, and its signals on 3.\<close>

definition example_life :: "nat life" where
  "example_life =
     \<lparr>srv_running = True, m_acceptors = [\<lparr>m_sockFd = 2, m_dummyFd = 9, a_running = True\<rparr>],
      m_signaler = Some \<lparr>s_fd = 3, s_running = True, s_signums = [SIGINT, SIGTERM]\<rparr>,
      m_idleWheel = Some (new_wheel True 1000 3600), wheel_timer = \<lparr>t_fd = 4, t_running = True, t_repeated = True\<rparr>\<rparr>"

definition example_watching :: "(nat, nat, unit) ioloop" where
  "example_watching =
     \<lparr>loop_running = True,
      m_events = [None, None] @ replicate 3 (Some \<lparr>ev_events = TNET_READ, ev_handler = 0\<rparr>), m_delevents = [],
      m_callbacks = [], m_wheel = new_wheel False 1000 3600, m_eventSize = 2, kernel = ()\<rparr>"

theorem server_stops_witness:
  "\<exists>s' l'. server_onSignal id SIGTERM (example_life, example_watching) = Some (s', l') \<and> \<not> srv_running s' \<and>
     \<not> loop_running l' \<and> {2, 3, 4} \<subseteq> set (m_delevents l')"
proof -
  have w: "m_idleWheel example_life = Some (new_wheel True 1000 3600)" "srv_running example_life"
    "m_signaler example_life = Some \<lparr>s_fd = 3, s_running = True, s_signums = [SIGINT, SIGTERM]\<rparr>"
    by (simp_all add: example_life_def)
  have "\<forall>fd \<in> set [2, 3, 4]. in_table (m_events example_watching) fd \<and> m_events example_watching ! nat fd \<noteq> None"
    by code_simp
  then have "{2, 3, 4} \<subseteq> watched example_watching" by (simp add: watched_def)
  then show ?thesis
    using server_stops [OF disjI2 [OF refl] w(2,1,3), of id example_watching] by (auto simp: example_life_def new_wheel_def)
qed

end
