(* ===== verification/Connecting.thy ===== *)
theory Connecting
  imports TnetPrelude "HOL-Library.Word"
begin

unbundle bit_operations_syntax

text \<open>
  \<open>src/src/address.cpp\<close>, on a machine that stores the low byte first, and the template of \<open>src/src/connector.inl\<close>: which
  function of the derived class gets which event of the connection below.
\<close>

section \<open>Addresses\<close>

text \<open>\<open>htons\<close> and \<open>htonl\<close>, which are their own inverses.\<close>

definition swap16 :: "16 word \<Rightarrow> 16 word" where
  "swap16 w = push_bit 8 w OR drop_bit 8 w"

definition swap32 :: "32 word \<Rightarrow> 32 word" where
  "swap32 w = push_bit 24 w OR (push_bit 8 w AND 0xFF0000) OR (drop_bit 8 w AND 0xFF00) OR drop_bit 24 w"

record address =
  sin_port :: "16 word"
  s_addr :: "32 word"

abbreviation INADDR_ANY :: "32 word" where "INADDR_ANY \<equiv> 0"

definition port_address :: "16 word \<Rightarrow> address" where
  "port_address p = \<lparr>sin_port = swap16 p, s_addr = swap32 INADDR_ANY\<rparr>"

text \<open>
  \<open>inet_pton\<close> gives the number of a text in dots, \<open>resolve\<close> that of a host, -1 if there is none.
\<close>

definition new_address :: "(string \<Rightarrow> 32 word option) \<Rightarrow> (string \<Rightarrow> 32 word) \<Rightarrow> string \<Rightarrow> 16 word \<Rightarrow> address" where
  "new_address inet_pton resolve host p =
     \<lparr>sin_port = swap16 p,
      s_addr = (case inet_pton (takeWhile (\<lambda>c. c \<noteq> CHR 0x00) host) of
          Some a \<Rightarrow> a
        | None \<Rightarrow> let ret = resolve host in if ret \<noteq> - 1 then ret else swap32 INADDR_ANY)\<rparr>"

definition address_ip :: "address \<Rightarrow> 32 word" where
  "address_ip a = swap32 (s_addr a)"

definition address_port :: "address \<Rightarrow> 16 word" where
  "address_port a = swap16 (sin_port a)"

text \<open>The text is all 32 bytes of the buffer.\<close>

definition ipstr :: "(32 word \<Rightarrow> string) \<Rightarrow> address \<Rightarrow> string" where
  "ipstr inet_ntop a = take 32 (inet_ntop (s_addr a) @ replicate 32 (CHR 0x00))"

lemma swap16_swap16 [simp]: "swap16 (swap16 p) = p"
  unfolding swap16_def by (rule bit_word_eqI) (auto simp: bit_simps)

lemma swap_masks: "(0xFF0000 :: 32 word) = push_bit 16 (mask 8)" "(0xFF00 :: 32 word) = push_bit 8 (mask 8)" by (simp_all add: mask_eq_exp_minus_1 push_bit_eq_mult)
lemma bit_swap32: "bit (swap32 w) n = (if n < 8 then bit w (24 + n) else if n < 16 then bit w (8 + n)
    else if n < 24 then bit w (n - 8) else n < 32 \<and> bit w (n - 24))"
proof -
  have "8 + n \<ge> 32 \<Longrightarrow> \<not> bit w (8 + n)" "24 + n \<ge> 32 \<Longrightarrow> \<not> bit w (24 + n)" by (auto dest: bit_imp_le_length)
  then show ?thesis unfolding swap32_def swap_masks by (auto simp: bit_simps)
qed
lemma swap32_swap32 [simp]: "swap32 (swap32 p) = p"
  by (rule bit_word_eqI) (auto simp: bit_swap32)

text \<open>The port that an address was made with, and the address that a text in dots names.\<close>

lemma address_parts:
  "address_port (port_address p) = p" "address_port (new_address inet_pton resolve host p) = p"
  "inet_pton host = Some a \<Longrightarrow> CHR 0x00 \<notin> set host \<Longrightarrow> address_ip (new_address inet_pton resolve host p) = swap32 a"
proof -
  assume h: "inet_pton host = Some a" "CHR 0x00 \<notin> set host"
  then have tw: "takeWhile (\<lambda>c. c \<noteq> CHR 0x00) host = host" by (auto simp: takeWhile_eq_all_conv)
  show "address_ip (new_address inet_pton resolve host p) = swap32 a"
    unfolding address_ip_def new_address_def tw using h(1) by simp
qed (simp_all add: address_port_def port_address_def new_address_def)

text \<open>The text of an address has 32 characters, whatever its digits are.\<close>

lemma ipstr_length: "length (ipstr inet_ntop a) = 32"
  by (simp add: ipstr_def)

section \<open>Connectors\<close>

text \<open>What the connection below reports, and what the derived class and the callback of the user get.\<close>

datatype below = Below_connect | Below_read string | Below_write_complete | Below_error | Below_close | Below_other

datatype upcall = Told bool | Up_read string | Up_write_complete | Up_error | Up_close

text \<open>Whether the connection has been made, which changes the function that gets its events.\<close>

fun connector_event :: "below \<Rightarrow> bool \<Rightarrow> upcall list \<times> bool" where
  "connector_event ev False = (case ev of Below_connect \<Rightarrow> ([Told True], True) | _ \<Rightarrow> ([Told False], False))"
| "connector_event ev True =
     ((case ev of
         Below_read buf \<Rightarrow> [Up_read buf] | Below_write_complete \<Rightarrow> [Up_write_complete]
       | Below_error \<Rightarrow> [Up_error] | Below_close \<Rightarrow> [Up_close] | _ \<Rightarrow> []), True)"

end
