(* ===== verification/Spec2Isabelle.thy ===== *)
theory Spec2Isabelle
  imports HttpFacts HttpConnector StringUtil HttpServerProps HttpClientProps RedisProps WsProps ServerProps
    WatcherProps ServerLife Connecting
begin

text \<open>
  A verification development for libtnet, a C++ library for network servers and clients: an event loop
  over epoll with connections and timers, HTTP and WebSocket on top of it, and a client for Redis.

  \<^bold>\<open>The parts of the program and their theories.\<close> Everything is under \<open>src/src/\<close>.
  \<^item> \<open>http/http_parser.c\<close>, the parser of Node.js, byte by byte. \<open>HttpTypes\<close> has the states, the flags and
    the parser record, \<open>HttpUrl\<close> the URL parser, \<open>HttpHandlers\<close> one definition per group of states,
    \<open>HttpExec\<close> the loop of \<open>http_parser_execute\<close> with its marks and callbacks. A callback is any function
    of the user's state and the parser. \<open>HttpSafety\<close>, \<open>HttpInvariant\<close> and \<open>HttpUserInvariant\<close> carry the
    invariants (assertions never fail, the bytes taken, what callbacks keep). \<open>HttpLocality\<close>,
    \<open>HttpFirstPart\<close>, \<open>HttpSecondPart\<close> and \<open>HttpStream\<close> show that a buffer may be cut anywhere for callbacks
    that do not mind getting their data in pieces (locale \<open>streaming_client\<close>).
  \<^item> \<open>http/httpparser.cpp\<close>, the class around it (\<open>HttpParserClass\<close>), and \<open>http/httpconnector.cpp\<close>, the
    client side that collects a response (\<open>HttpConnector\<close>, which interprets the locale).
  \<^item> \<open>http/httprequest.cpp\<close>, \<open>httpresponse.cpp\<close>: \<open>HttpRequest\<close>. \<open>http/wsutil.cpp\<close>: \<open>WsHandshake\<close>.
    \<open>http/httpconnection.cpp\<close>, \<open>httpserver.cpp\<close>, \<open>httphandler.cpp\<close>: \<open>HttpServer\<close>, another object of the class
    around the parser. \<open>http/httpclient.cpp\<close>, \<open>wsclient.cpp\<close>: \<open>HttpClient\<close>. \<open>HttpRequestFacts\<close> has what the
    readers of a request change and the round trips of keys, values and forms; \<open>HttpServerProps\<close> interprets
    \<open>streaming_client\<close> and \<open>user_invariant\<close> by the server, \<open>HttpClientProps\<close> has the pool.
  \<^item> \<open>http/httputil.cpp\<close> and \<open>stringutil.cpp\<close>: \<open>HttpUtil\<close> (percent encoding, header names, splitting,
    hashing) and \<open>StringUtil\<close> (stripping, hexadecimal text, digests of strings).
  \<^item> \<open>polarssl/\<close>: \<open>Base64\<close>; \<open>Digest\<close> with the buffering that MD5 and SHA-1 share (locale \<open>block_digest\<close>,
    interpreted by both), \<open>Md5\<close> and \<open>Sha1\<close> against the definitions of RFC 1321 and FIPS 180 and the HMAC of
    RFC 2104.
  \<^item> \<open>http/wsconnection.cpp\<close>: \<open>WsConnection\<close> (the reader and sender of frames), \<open>WsFacts\<close> (its invariant),
    \<open>WsFrames\<close> (frames, and the locale \<open>waiting_reader\<close> for what arrives in pieces), \<open>WsProps\<close>.
  \<^item> \<open>redis/sds.c\<close>: \<open>Sds\<close> on the representation, with allocations that fail; \<open>SdsFacts\<close>, \<open>SdsText\<close>,
    \<open>SdsSplit\<close>, \<open>SdsArgs\<close> (locale \<open>text_builder\<close>) and \<open>SdsProps\<close> refine it to operations on texts.
  \<^item> \<open>redis/hiredis.c\<close>: \<open>RedisReader\<close> (the reader of replies over a store of objects), \<open>RedisFormat\<close> (commands);
    \<open>redis/redisconnection.cpp\<close>, \<open>redisclient.cpp\<close>, \<open>redistrans.cpp\<close>: \<open>RedisConnection\<close>. \<open>RedisFacts\<close> and
    \<open>RedisStream\<close> relate readers with the same bytes ahead, \<open>RedisTree\<close> replies as trees to the objects built
    for them, \<open>RedisSafety\<close> has the invariant of the reader, \<open>RedisCommand\<close> the lengths; \<open>RedisProps\<close>.
  \<^item> \<open>timingwheel.cpp\<close>: \<open>TimingWheel\<close>; \<open>WheelFacts\<close> relates a wheel to an agenda (what runs how many ticks
    from now) and has the locale \<open>wheel_client\<close> for handlers that add handlers; \<open>WheelProps\<close>.
  \<^item> \<open>ioloop.cpp\<close>, \<open>poller.cpp\<close>: \<open>EventLoop\<close>. \<open>connection.cpp\<close>: \<open>Connection\<close>, with \<open>ConnFacts\<close> (locale
    \<open>callbacks\<close>, interpreted by the delivery of events to an application) and \<open>ConnProps\<close>.
    \<open>tcpserver.cpp\<close>: \<open>TcpServer\<close> and \<open>ServerProps\<close>, which interprets \<open>wheel_client\<close> by the checks for idle
    connections.
  \<^item> \<open>timer.cpp\<close>, \<open>notifier.cpp\<close>, \<open>signaler.cpp\<close>, \<open>acceptor.cpp\<close>: \<open>Watchers\<close>, what the loop watches besides
    connections, and \<open>WatcherProps\<close>. \<open>tprocess.cpp\<close>: \<open>Processes\<close>, with the rounds of the main process as a relation.
    \<open>ServerLife\<close> starts and stops a server with all of them. \<open>address.cpp\<close>, \<open>connector.inl\<close>: \<open>Connecting\<close>.
  \<^item> \<open>TnetPrelude\<close> has what all share: machine types, character classes, decimal text, buffers.

  \<^bold>\<open>How the code is modelled.\<close> A struct or class is a record with the names of the source, an enum a
  datatype, an integer of a fixed width a word or an \<open>int\<close> with its conversions written out (\<open>int32\<close>). Bytes
  are \<open>8 word\<close> in the digests, base64 and WebSocket, and \<open>char\<close> where the code has text. A read or write
  outside a buffer, a failed assertion or an exception is a fault value, so that theorems say when there is
  none. Memory that is not initialised is an argument. System calls, allocators, random numbers and the
  program's callbacks are functions that the definitions take, and theorems name what they need of them:
  \<open>writev_ok\<close> (a write takes at most what it is given), \<open>regular\<close> (reading the clock changes nothing),
  \<open>only_adds\<close> (handlers of the wheel only add handlers).

  \<^bold>\<open>Loops and fuel.\<close> Loops over data are structural or come with a measure. The loop over the handlers of a
  bucket (\<open>run_chans\<close>) is a partial function, which returns by \<open>wheel_tick_returns\<close>; so are the loops over the
  items of a reply and over replies, which return by \<open>redis_never_faults\<close>. Callbacks that call the
  connection that calls callbacks are bounded by a depth: \<open>deliver_event\<close> with depth \<open>n\<close> faults with
  \<open>Out_of_fuel\<close> below it. Where a theorem needs a result, it shows it: \<open>idle_connection_closed\<close> for any depth
  from 1. The event loop itself has no end, so \<open>loop_run\<close> counts its rounds.

  \<^bold>\<open>Not modelled.\<close> What only calls the system or passes its arguments on: the socket options and the names of
  \<open>sockutil.cpp\<close>, \<open>log.cpp\<close>, the overloads that fill a request, the self tests of the digests, the variants for
  Windows. Threads: the loop runs in one, and the lock of its list of callbacks is left out. Callbacks of an
  HTTP server answer from the request alone; what they keep of their own is not part of the model. The JSON
  library and the conversions of \<open>printf\<close> in Redis commands are parameters.
\<close>

end
